(* ===== verification/Prelude.thy ===== *)
theory Prelude
  imports Complex_Main "HOL-Library.Sublist" "HOL-Library.Product_Lexorder"
begin

text \<open>
  Shared by every theory of the development: the model of Python strings and clock
  values, the sum type of results, the row tables behind the SQLite repositories, and
  three locales that state once what "every operation keeps the invariant", "every
  operation only moves forward" and "nothing stored is deleted or rewritten" mean for a
  whole run of operations.
\<close>

section \<open>Collections\<close>

named_theorems table_simps \<open>effects of the row operations on a table\<close>
named_theorems table_intros \<open>preservation of table well-formedness\<close>

section \<open>Strings and clock values\<close>

text \<open>
  A Python \<open>str\<close> is a sequence of code points, so it is a list of naturals; \<open>cps\<close> turns an
  ASCII literal of the source into one. Clock values are epoch or monotonic seconds: the
  code only adds, subtracts, compares and scales them, so they are reals (the rounding of
  binary floats is not modelled).
\<close>

type_synonym str = "nat list"
type_synonym secs = real

definition cps :: "string \<Rightarrow> str" where
  "cps s = map of_char s"

text \<open>The code points for which \<open>str.isspace\<close> holds, which \<open>strip\<close> and \<open>split\<close> use.\<close>

definition is_space :: "nat \<Rightarrow> bool" where
  "is_space c \<longleftrightarrow>
     (9 \<le> c \<and> c \<le> 13) \<or> (28 \<le> c \<and> c \<le> 32) \<or> c = 133 \<or> c = 160 \<or> c = 5760 \<or>
     (8192 \<le> c \<and> c \<le> 8202) \<or> c = 8232 \<or> c = 8233 \<or> c = 8239 \<or> c = 8287 \<or> c = 12288"

definition strip :: "str \<Rightarrow> str" where
  "strip s = rev (dropWhile is_space (rev (dropWhile is_space s)))"

fun split_acc :: "str \<Rightarrow> str \<Rightarrow> str list" where
  "split_acc w [] = (if w = [] then [] else [rev w])"
| "split_acc w (c # cs) =
     (if is_space c then (if w = [] then split_acc [] cs else rev w # split_acc [] cs)
      else split_acc (c # w) cs)"

definition split_ws :: "str \<Rightarrow> str list" where
  "split_ws s = split_acc [] s"

fun join :: "str \<Rightarrow> str list \<Rightarrow> str" where
  "join sep [] = []"
| "join sep [w] = w"
| "join sep (w # v # ws) = w @ sep @ join sep (v # ws)"

text \<open>
  \<open>str.lower\<close> on the code points below 256 (ASCII and Latin-1); case pairs beyond that are
  left as they are.
\<close>

definition lower_cp :: "nat \<Rightarrow> nat" where
  "lower_cp c = (if (65 \<le> c \<and> c \<le> 90) \<or> (192 \<le> c \<and> c \<le> 222 \<and> c \<noteq> 215) then c + 32 else c)"

definition lower :: "str \<Rightarrow> str" where
  "lower s = map lower_cp s"

text \<open>Python's \<open>needle in hay\<close>.\<close>

fun contains :: "str \<Rightarrow> str \<Rightarrow> bool" where
  "contains needle [] = (needle = [])"
| "contains needle (c # cs) = (prefix needle (c # cs) \<or> contains needle cs)"

lemma strip_Nil [simp]: "strip [] = []"
  by (simp add: strip_def)

lemma strip_ends:
  assumes "strip s \<noteq> []"
  shows "\<not> is_space (hd (strip s))" and "\<not> is_space (last (strip s))"
proof -
  let ?t = "dropWhile is_space s"
  let ?u = "dropWhile is_space (rev ?t)"
  from assms have u: "?u \<noteq> []" by (simp add: strip_def)
  have "\<not> is_space (hd ?u)" using u by (rule hd_dropWhile)
  then have "\<not> is_space (last (rev ?u))" by (metis last_rev)
  then show "\<not> is_space (last (strip s))" unfolding strip_def .
  obtain xs where "rev ?t = xs @ ?u" by (metis takeWhile_dropWhile_id)
  then have t: "?t = rev ?u @ rev xs" by (metis rev_append rev_rev_ident)
  then have "?t \<noteq> []" using u by (metis Nil_is_append_conv Nil_is_rev_conv)
  then have "\<not> is_space (hd ?t)" by (rule hd_dropWhile)
  moreover have "hd ?t = hd (rev ?u)" using t u by (metis Nil_is_rev_conv hd_append2)
  ultimately show "\<not> is_space (hd (strip s))" by (simp add: strip_def)
qed

lemma strip_idem [simp]: "strip (strip s) = strip s"
proof (cases "strip s = []")
  case True
  then show ?thesis by simp
next
  case False
  then have h: "\<not> is_space (hd (strip s))" and l: "\<not> is_space (last (strip s))"
    using strip_ends by blast+
  from False h have "dropWhile is_space (strip s) = strip s"
    by (simp add: dropWhile_eq_self_iff)
  moreover from False l have "dropWhile is_space (rev (strip s)) = rev (strip s)"
    by (simp add: dropWhile_eq_self_iff hd_rev)
  ultimately show ?thesis by (simp add: strip_def [of "strip s"])
qed

lemma strip_no_space:
  assumes "list_all (\<lambda>c. \<not> is_space c) s"
  shows "strip s = s"
proof -
  have "dropWhile is_space xs = xs" if "list_all (\<lambda>c. \<not> is_space c) xs" for xs
    using that by (cases xs) simp_all
  then show ?thesis using assms by (simp add: strip_def)
qed

lemma split_acc_no_space:
  "\<forall>c\<in>set w. \<not> is_space c \<Longrightarrow> x \<in> set (split_acc w s) \<Longrightarrow> c \<in> set x \<Longrightarrow> \<not> is_space c"
  by (induction w s rule: split_acc.induct) (auto split: if_splits)

lemma split_ws_no_space: "x \<in> set (split_ws s) \<Longrightarrow> c \<in> set x \<Longrightarrow> \<not> is_space c"
  unfolding split_ws_def by (rule split_acc_no_space [of "[]"]) auto

lemma set_join: "c \<in> set (join sep ws) \<Longrightarrow> c \<in> set sep \<or> (\<exists>w\<in>set ws. c \<in> set w)"
  by (induction sep ws rule: join.induct) auto

lemma contains_iff: "contains needle hay \<longleftrightarrow> (\<exists>xs ys. hay = xs @ needle @ ys)"
proof (induction hay)
  case (Cons c cs)
  note IH = Cons
  show ?case
  proof
    assume "contains needle (c # cs)"
    then consider ys where "c # cs = [] @ needle @ ys" | xs ys where "c # cs = (c # xs) @ needle @ ys"
      using Cons by (auto simp: prefix_def)
    then show "\<exists>xs ys. c # cs = xs @ needle @ ys" by cases blast+
  next
    assume "\<exists>xs ys. c # cs = xs @ needle @ ys"
    then obtain xs ys where h: "c # cs = xs @ needle @ ys" by blast
    show "contains needle (c # cs)"
    proof (cases xs)
      case Nil
      then have "prefix needle (c # cs)" using h by (simp add: prefix_def)
      then show ?thesis by simp
    next
      case (Cons x xs')
      then have "cs = xs' @ needle @ ys" using h by simp
      then have "contains needle cs" using IH by blast
      then show ?thesis by simp
    qed
  qed
qed simp

text \<open>\<open>str(n)\<close> of a natural number.\<close>

fun decimal :: "nat \<Rightarrow> str" where
  "decimal n = (if n < 10 then [48 + n] else decimal (n div 10) @ [48 + n mod 10])"

declare decimal.simps [simp del]

lemma decimal_digits: "c \<in> set (decimal n) \<Longrightarrow> 48 \<le> c \<and> c \<le> 57"
proof (induction n rule: decimal.induct)
  case (1 n)
  then show ?case by (cases "n < 10") (auto simp: decimal.simps [of n])
qed

lemma length_decimal: "n < 10 ^ Suc k \<Longrightarrow> length (decimal n) \<le> Suc k"
proof (induction k arbitrary: n)
  case 0
  then show ?case by (simp add: decimal.simps [of n])
next
  case (Suc k)
  then have "n div 10 < 10 ^ Suc k" by (simp add: less_mult_imp_div_less)
  then have "length (decimal (n div 10)) \<le> Suc k" by (rule Suc.IH)
  then show ?case by (simp add: decimal.simps [of n])
qed

text \<open>Python's \<open>s[:k]\<close> (a negative \<open>k\<close> counts from the end), \<open>lstrip\<close> and \<open>rstrip\<close>.\<close>

definition py_take :: "int \<Rightarrow> str \<Rightarrow> str" where
  "py_take k s = (if 0 \<le> k then take (nat k) s else take (length s - nat (- k)) s)"

definition rstrip :: "str \<Rightarrow> str" where
  "rstrip s = rev (dropWhile is_space (rev s))"

lemma length_rstrip: "length (rstrip s) \<le> length s"
  by (metis length_dropWhile_le length_rev rstrip_def)

section \<open>Results\<close>

text \<open>A call returns \<open>Inl e\<close> where the code raises \<open>e\<close>, and \<open>Inr v\<close> where it returns \<open>v\<close>.\<close>

definition is_error :: "'e + 'a \<Rightarrow> bool" where
  "is_error r = (case r of Inl _ \<Rightarrow> True | Inr _ \<Rightarrow> False)"

lemma is_error_simps [simp]: "is_error (Inl e)" "\<not> is_error (Inr v)"
  by (simp_all add: is_error_def)

text \<open>
  \<open>atomically\<close> is what a repository method called outside any other transaction does with
  the state its body computes: an exception rolls the writes back. The theory of the store
  derives it from the transaction scope of \<open>henk/store/db.py\<close>.
\<close>

definition atomically :: "('s \<Rightarrow> ('e + 'a) \<times> 's) \<Rightarrow> 's \<Rightarrow> ('e + 'a) \<times> 's" where
  "atomically body s = (case body s of (Inl e, _) \<Rightarrow> (Inl e, s) | (Inr v, t) \<Rightarrow> (Inr v, t))"

lemma atomically_error: "atomically body s = (Inl e, t) \<Longrightarrow> t = s"
  by (auto simp: atomically_def split: prod.splits sum.splits)

section \<open>Row tables\<close>

text \<open>
  A SQLite table with an \<open>INTEGER PRIMARY KEY AUTOINCREMENT\<close> id: the rows in insertion order
  and the next id, which grows for the life of the file and is never handed out twice.
\<close>

record 'r table =
  rows :: "'r list"
  next_id :: nat

definition empty_table :: "'r table" where
  "empty_table = \<lparr>rows = [], next_id = 1\<rparr>"

definition insert_row :: "(nat \<Rightarrow> 'r) \<Rightarrow> 'r table \<Rightarrow> 'r table" where
  "insert_row mk t = t\<lparr>rows := rows t @ [mk (next_id t)], next_id := Suc (next_id t)\<rparr>"

definition update_rows :: "('r \<Rightarrow> bool) \<Rightarrow> ('r \<Rightarrow> 'r) \<Rightarrow> 'r table \<Rightarrow> 'r table" where
  "update_rows p f t = t\<lparr>rows := map (\<lambda>r. if p r then f r else r) (rows t)\<rparr>"

definition delete_rows :: "('r \<Rightarrow> bool) \<Rightarrow> 'r table \<Rightarrow> 'r table" where
  "delete_rows p t = t\<lparr>rows := filter (\<lambda>r. \<not> p r) (rows t)\<rparr>"

definition count_rows :: "('r \<Rightarrow> bool) \<Rightarrow> 'r table \<Rightarrow> nat" where
  "count_rows p t = length (filter p (rows t))"

definition wf_table :: "('r \<Rightarrow> nat) \<Rightarrow> 'r table \<Rightarrow> bool" where
  "wf_table rid t \<longleftrightarrow> distinct (map rid (rows t)) \<and> (\<forall>r\<in>set (rows t). rid r < next_id t)"

lemma row_op_simps [table_simps, simp]:
  "rows (insert_row mk t) = rows t @ [mk (next_id t)]"
  "next_id (insert_row mk t) = Suc (next_id t)"
  "rows (update_rows p f t) = map (\<lambda>r. if p r then f r else r) (rows t)"
  "next_id (update_rows p f t) = next_id t"
  "rows (delete_rows p t) = filter (\<lambda>r. \<not> p r) (rows t)"
  "next_id (delete_rows p t) = next_id t"
  by (simp_all add: insert_row_def update_rows_def delete_rows_def)

lemma wf_empty_table [table_intros]: "wf_table rid empty_table"
  by (simp add: wf_table_def empty_table_def)

lemma wf_insert_row [table_intros]:
  assumes "wf_table rid t" and "rid (mk (next_id t)) = next_id t"
  shows "wf_table rid (insert_row mk t)"
  using assms by (fastforce simp: wf_table_def less_Suc_eq)

lemma wf_update_rows [table_intros]:
  assumes "wf_table rid t" and "\<And>r. rid (f r) = rid r"
  shows "wf_table rid (update_rows p f t)"
proof -
  have m: "map rid (rows (update_rows p f t)) = map rid (rows t)"
    using assms(2) by simp
  have "distinct (map rid (rows (update_rows p f t)))"
    unfolding m using assms(1) by (simp add: wf_table_def)
  then show ?thesis using assms by (auto simp: wf_table_def)
qed

lemma wf_delete_rows [table_intros]: "wf_table rid t \<Longrightarrow> wf_table rid (delete_rows p t)"
  by (auto simp: wf_table_def distinct_map_filter)

lemma wf_table_unique:
  "wf_table rid t \<Longrightarrow> r \<in> set (rows t) \<Longrightarrow> q \<in> set (rows t) \<Longrightarrow> rid r = rid q \<Longrightarrow> r = q"
  by (auto simp: wf_table_def distinct_map dest: inj_onD)

lemma id_in_filter_iff:
  assumes "wf_table rid t" and "m \<in> set (rows t)"
  shows "rid m \<in> rid ` set (filter P (rows t)) \<longleftrightarrow> P m"
proof
  assume "rid m \<in> rid ` set (filter P (rows t))"
  then obtain q where "q \<in> set (rows t)" "P q" "rid m = rid q" by auto
  moreover from this have "m = q" by (intro wf_table_unique [OF assms(1,2)])
  ultimately show "P m" by simp
next
  assume "P m"
  with assms(2) have "m \<in> set (filter P (rows t))" by simp
  then show "rid m \<in> rid ` set (filter P (rows t))" by (rule imageI)
qed

lemma count_insert_row [table_simps]:
  "count_rows p (insert_row mk t) = count_rows p t + (if p (mk (next_id t)) then 1 else 0)"
  by (simp add: count_rows_def)

text \<open>The row with a given id, as \<open>SELECT ... WHERE id = ?\<close> reads it.\<close>

definition row_of :: "('r \<Rightarrow> nat) \<Rightarrow> 'r table \<Rightarrow> nat \<Rightarrow> 'r option" where
  "row_of rid t i = find (\<lambda>r. rid r = i) (rows t)"

lemma row_of_Some:
  "row_of rid t i = Some r \<Longrightarrow> r \<in> set (rows t) \<and> rid r = i"
  by (auto simp: row_of_def find_Some_iff)

lemma row_of_iff:
  assumes "wf_table rid t"
  shows "row_of rid t i = Some r \<longleftrightarrow> r \<in> set (rows t) \<and> rid r = i"
proof
  assume "r \<in> set (rows t) \<and> rid r = i"
  moreover from this have "row_of rid t i \<noteq> None"
    by (auto simp: row_of_def find_None_iff)
  ultimately show "row_of rid t i = Some r"
    using assms by (metis not_None_eq row_of_Some wf_table_unique)
qed (rule row_of_Some)

lemma row_of_None: "row_of rid t i = None \<longleftrightarrow> i \<notin> rid ` set (rows t)"
  by (auto simp: row_of_def find_None_iff)

lemma row_of_update_rows [table_simps]:
  assumes "\<And>r. rid (f r) = rid r"
  shows "row_of rid (update_rows p f t) i =
    map_option (\<lambda>r. if p r then f r else r) (row_of rid t i)"
proof -
  have "find (\<lambda>r. rid r = i) (map (\<lambda>r. if p r then f r else r) rs) =
      map_option (\<lambda>r. if p r then f r else r) (find (\<lambda>r. rid r = i) rs)" for rs
    by (induction rs) (auto simp: assms)
  then show ?thesis by (simp add: row_of_def)
qed

lemma row_of_update_other:
  assumes "\<And>r. rid (f r) = rid r" and "\<And>r. p r \<Longrightarrow> rid r \<noteq> j"
  shows "row_of rid (update_rows p f t) j = row_of rid t j"
  using assms(2) row_of_Some [of rid t j]
  by (cases "row_of rid t j") (auto simp: row_of_update_rows assms(1))

lemma row_of_insert_row [table_simps]:
  assumes "wf_table rid t" and "rid (mk (next_id t)) = next_id t"
  shows "row_of rid (insert_row mk t) i =
    (if i = next_id t then Some (mk (next_id t)) else row_of rid t i)"
proof -
  have "find (\<lambda>r. rid r = i) (rs @ [mk (next_id t)]) =
      (if i = next_id t then Some (mk (next_id t)) else find (\<lambda>r. rid r = i) rs)"
    if "\<forall>r\<in>set rs. rid r < next_id t" for rs
    using that by (induction rs) (auto simp: assms(2))
  then show ?thesis using assms(1) by (simp add: row_of_def wf_table_def)
qed

lemma update_rows_none:
  assumes "\<And>r. r \<in> set (rows t) \<Longrightarrow> \<not> p r"
  shows "update_rows p f t = t"
proof -
  have "map (\<lambda>r. if p r then f r else r) (rows t) = rows t"
    by (rule map_idI) (simp add: assms)
  then show ?thesis by (simp add: update_rows_def)
qed

lemma table_eqI: "rows t = rows u \<Longrightarrow> next_id t = next_id u \<Longrightarrow> t = (u :: 'r table)"
  by (cases t, cases u) simp

lemma update_rows_twice:
  assumes "\<And>r. p r \<Longrightarrow> p (f r)"
  shows "update_rows p g (update_rows p f t) = update_rows p (\<lambda>r. g (f r)) t"
  by (rule table_eqI) (use assms in auto)

text \<open>Folding single-row updates by id into one update over the set of ids.\<close>

lemma update_rows_insert:
  assumes "\<And>r. rid (h r) = rid r"
    and "\<And>x. x \<in> set (rows t) \<Longrightarrow> rid x = i \<Longrightarrow> (if i \<in> S then g (h x) else h x) = g x"
  shows "update_rows (\<lambda>r. rid r \<in> S) g (update_rows (\<lambda>r. rid r = i) h t) =
    update_rows (\<lambda>r. rid r \<in> insert i S) g t"
proof (rule table_eqI)
  have "(if rid (if rid x = i then h x else x) \<in> S then g (if rid x = i then h x else x)
      else if rid x = i then h x else x) = (if rid x \<in> insert i S then g x else x)"
    if "x \<in> set (rows t)" for x
    using assms(1) [of x] assms(2) [OF that] by (auto split: if_splits)
  then show "rows (update_rows (\<lambda>r. rid r \<in> S) g (update_rows (\<lambda>r. rid r = i) h t)) =
      rows (update_rows (\<lambda>r. rid r \<in> insert i S) g t)"
    by simp
qed simp

lemma in_update_rows_other:
  "x \<in> set (rows t) \<Longrightarrow> \<not> p x \<Longrightarrow> x \<in> set (rows (update_rows p f t))"
  by (auto simp: image_iff intro!: bexI [of _ x])

lemma find_map_keep:
  assumes "\<And>r. rid (f r) = rid r"
  shows "find (\<lambda>r. rid r = i) (map f rs) = map_option f (find (\<lambda>r. rid r = i) rs)"
  by (induction rs) (auto simp: assms)

lemma row_of_update_ids:
  assumes "\<And>r. rid (f r) = rid r"
  shows "row_of rid (update_rows (\<lambda>r. rid r \<in> S) f t) i =
    (if i \<in> S then map_option f (row_of rid t i) else row_of rid t i)"
proof -
  have "row_of rid (update_rows (\<lambda>r. rid r \<in> S) f t) i =
      map_option (\<lambda>r. if rid r \<in> S then f r else r) (row_of rid t i)"
    using find_map_keep [of rid "\<lambda>r. if rid r \<in> S then f r else r" i "rows t"] assms
    by (simp add: row_of_def)
  then show ?thesis
    by (cases "row_of rid t i") (auto dest: row_of_Some)
qed

lemma count_update_le:
  assumes "\<And>r. r \<in> set (rows t) \<Longrightarrow> q r \<Longrightarrow> p (f r) \<Longrightarrow> p r"
  shows "count_rows p (update_rows q f t) \<le> count_rows p t"
proof -
  have "length (filter p (map (\<lambda>r. if q r then f r else r) rs)) \<le> length (filter p rs)"
    if "set rs \<subseteq> set (rows t)" for rs
    using that assms by (induction rs) auto
  then show ?thesis by (simp add: count_rows_def)
qed

lemma count_update_one:
  assumes "wf_table rid t" and "\<And>r. q r \<Longrightarrow> rid r = i"
  shows "count_rows p (update_rows q f t) \<le> Suc (count_rows p t)"
proof -
  have "length (filter p (map (\<lambda>r. if q r then f r else r) rs)) \<le>
      (if i \<in> rid ` set rs then Suc (length (filter p rs)) else length (filter p rs))"
    if "distinct (map rid rs)" for rs
    using that
  proof (induction rs)
    case (Cons r rs)
    show ?case
    proof (cases "rid r = i")
      case True
      with Cons.prems have "i \<notin> rid ` set rs" by auto
      with Cons have "length (filter p (map (\<lambda>r. if q r then f r else r) rs)) \<le> length (filter p rs)"
        by simp
      with True show ?thesis by auto
    next
      case False
      then have "\<not> q r" using assms(2) by blast
      with Cons False show ?thesis by auto
    qed
  qed simp
  from this [of "rows t"] assms(1) show ?thesis
    by (simp add: count_rows_def wf_table_def split: if_splits)
qed

lemma length_take_if_left_out:
  "x \<in> set xs \<Longrightarrow> x \<notin> set (take n xs) \<Longrightarrow> length (take n xs) = n"
  by (cases "length xs \<le> n") auto

lemma in_drop_if_not_take: "x \<in> set xs \<Longrightarrow> x \<notin> set (take n xs) \<Longrightarrow> x \<in> set (drop n xs)"
  by (metis Un_iff append_take_drop_id set_append)

lemma sorted_take_le:
  assumes "sorted (map f xs)" and "x \<in> set (take k xs)" and "y \<in> set (drop k xs)"
  shows "f x \<le> f y"
proof -
  have "sorted (map f (take k xs @ drop k xs))" using assms(1) by simp
  then show ?thesis using assms(2,3) by (auto simp only: map_append sorted_append set_map)
qed

section \<open>Runs of operations\<close>

text \<open>
  A component is a step function over its operations. The first locale lifts an invariant
  from one step to a run, the second a preorder the steps climb, and the third says that a
  run never deletes or rewrites the frozen columns of a stored row.
\<close>

locale step_system =
  fixes step :: "'s \<Rightarrow> 'e \<Rightarrow> 's"
    and inv :: "'s \<Rightarrow> bool"
    and allowed :: "'e \<Rightarrow> bool"
  assumes step_inv: "inv s \<Longrightarrow> allowed e \<Longrightarrow> inv (step s e)"
begin

lemma run_inv: "inv s \<Longrightarrow> list_all allowed es \<Longrightarrow> inv (foldl step s es)"
  by (induction es arbitrary: s) (auto intro: step_inv)

end

locale monotone_system = step_system +
  fixes le :: "'a \<Rightarrow> 'a \<Rightarrow> bool"
  assumes le_refl: "le s s"
    and le_trans: "le s t \<Longrightarrow> le t u \<Longrightarrow> le s u"
    and step_le: "inv s \<Longrightarrow> allowed e \<Longrightarrow> le s (step s e)"
begin

lemma run_le: "inv s \<Longrightarrow> list_all allowed es \<Longrightarrow> le s (foldl step s es)"
proof (induction es arbitrary: s)
  case Nil
  show ?case by (simp add: le_refl)
next
  case (Cons e es)
  then have "le s (step s e)" and "inv (step s e)"
    by (auto intro: step_le step_inv)
  with Cons show ?case by (auto intro: le_trans)
qed

end

locale archive = step_system +
  fixes frozen :: "'a \<Rightarrow> nat \<rightharpoonup> 'c"
  assumes step_frozen: "inv s \<Longrightarrow> allowed e \<Longrightarrow> frozen s \<subseteq>\<^sub>m frozen (step s e)"
begin

sublocale monotone_system step inv allowed "\<lambda>s t. frozen s \<subseteq>\<^sub>m frozen t"
  by unfold_locales (auto intro: map_le_trans step_frozen)

lemma run_keeps:
  assumes "inv s" and "list_all allowed es" and "frozen s i = Some c"
  shows "frozen (foldl step s es) i = Some c"
  using run_le [OF assms(1,2)] assms(3) by (metis domI map_le_def)

end

end
