(* ===== verification/Store_Tx.thy ===== *)
theory Store_Tx
  imports Prelude "HOL-Library.List_Lexorder"
begin

text \<open>
  \<open>henk/store/db.py\<close>: the single SQLite connection, its reentrant and poisonable write
  transaction, and the schema drift checks that run when the file is opened. A program
  over the store is a tree of SQL steps, sequences, \<open>try/except\<close> blocks and
  \<open>with store.transaction()\<close> scopes; its run says what reaches the file.
\<close>

section \<open>The connection and its transaction scope\<close>

text \<open>
  \<open>disk\<close> is what the file holds, \<open>view\<close> what the connection reads; they differ only inside
  an open SQL transaction (\<open>in_tx\<close>). \<open>depth\<close> and \<open>poisoned\<close> are the fields \<open>_depth\<close> and
  \<open>_poisoned\<close> of \<open>Store\<close>.
\<close>

record 'd store =
  disk :: 'd
  view :: 'd
  in_tx :: bool
  depth :: nat
  poisoned :: bool

definition idle :: "'d \<Rightarrow> 'd store" where
  "idle d = \<lparr>disk = d, view = d, in_tx = False, depth = 0, poisoned = False\<rparr>"

text \<open>Whether SQLite accepts the statements an outermost scope issues.\<close>

record tx_io =
  begin_ok :: bool
  commit_ok :: bool
  rollback_ok :: bool

definition all_ok :: tx_io where
  "all_ok = \<lparr>begin_ok = True, commit_ok = True, rollback_ok = True\<rparr>"

text \<open>
  Entering: only the outermost scope issues \<open>BEGIN IMMEDIATE\<close>, which SQLite also refuses
  while a transaction is still open. The first component is True when the call raises.
\<close>

definition enter_scope :: "tx_io \<Rightarrow> 'd store \<Rightarrow> bool \<times> 'd store" where
  "enter_scope io s =
     (if depth s = 0 then
        (if begin_ok io \<and> \<not> in_tx s
         then (False, s\<lparr>poisoned := False, in_tx := True, depth := 1\<rparr>)
         else (True, s\<lparr>poisoned := False\<rparr>))
      else (False, s\<lparr>depth := Suc (depth s)\<rparr>))"

definition sql_rollback :: "tx_io \<Rightarrow> 'd store \<Rightarrow> 'd store" where
  "sql_rollback io s = (if rollback_ok io then s\<lparr>view := disk s, in_tx := False\<rparr> else s)"

definition sql_commit :: "'d store \<Rightarrow> 'd store" where
  "sql_commit s = s\<lparr>disk := view s, in_tx := False\<rparr>"

text \<open>
  Leaving: an exception poisons the transaction; the outermost exit commits or, when any
  scope poisoned it, rolls back. A failing \<open>COMMIT\<close> is rolled back and raises.
\<close>

definition leave_scope :: "tx_io \<Rightarrow> bool \<Rightarrow> 'd store \<Rightarrow> bool \<times> 'd store" where
  "leave_scope io raised s =
     (let s1 = s\<lparr>poisoned := poisoned s \<or> raised, depth := depth s - 1\<rparr>
      in if depth s1 = 0 then
           (let s2 = s1\<lparr>poisoned := False\<rparr>
            in if poisoned s1 then (raised, sql_rollback io s2)
               else if commit_ok io then (False, sql_commit s2)
               else (True, sql_rollback io s2))
         else (raised, s1))"

text \<open>One SQL step reads and writes the connection's view; outside a transaction it is
  committed at once (\<open>isolation_level=None\<close>). The step may raise.\<close>

definition sql_step :: "('d \<Rightarrow> bool \<times> 'd) \<Rightarrow> 'd store \<Rightarrow> bool \<times> 'd store" where
  "sql_step f s =
     (case f (view s) of (raised, v) \<Rightarrow>
        (raised, if in_tx s then s\<lparr>view := v\<rparr> else s\<lparr>view := v, disk := v\<rparr>))"

datatype (dead 'd) prog =
    Step "'d \<Rightarrow> bool \<times> 'd"
  | Seq "'d prog" "'d prog"
  | Catch "'d prog"
  | Scope tx_io "'d prog"

fun exec :: "'d prog \<Rightarrow> 'd store \<Rightarrow> bool \<times> 'd store" where
  "exec (Step f) s = sql_step f s"
| "exec (Seq p q) s = (case exec p s of (raised, t) \<Rightarrow> if raised then (True, t) else exec q t)"
| "exec (Catch p) s = (False, snd (exec p s))"
| "exec (Scope io p) s =
     (case enter_scope io s of (raised, t) \<Rightarrow>
        if raised then (True, t)
        else (case exec p t of (raised', u) \<Rightarrow> leave_scope io raised' u))"

text \<open>Whether, on the way through \<open>p\<close>, some nested scope was left by an exception.\<close>

fun scope_raised :: "'d prog \<Rightarrow> 'd store \<Rightarrow> bool" where
  "scope_raised (Step f) s = False"
| "scope_raised (Seq p q) s =
     (scope_raised p s \<or> (\<not> fst (exec p s) \<and> scope_raised q (snd (exec p s))))"
| "scope_raised (Catch p) s = scope_raised p s"
| "scope_raised (Scope io p) s =
     (let t = snd (enter_scope io s) in fst (exec p t) \<or> scope_raised p t)"

lemmas scope_defs = enter_scope_def leave_scope_def sql_rollback_def sql_commit_def sql_step_def

lemma exec_nested:
  assumes "0 < depth s" and "in_tx s"
  shows "depth (snd (exec p s)) = depth s \<and> in_tx (snd (exec p s)) \<and>
    disk (snd (exec p s)) = disk s \<and>
    poisoned (snd (exec p s)) = (poisoned s \<or> scope_raised p s)"
  using assms
proof (induction p arbitrary: s)
  case (Step f)
  then show ?case by (simp add: sql_step_def split: prod.splits)
next
  case (Seq p q)
  obtain r t where e: "exec p s = (r, t)" by fastforce
  with Seq.IH(1) [OF Seq.prems] have t: "depth t = depth s" "in_tx t" "disk t = disk s"
    "poisoned t = (poisoned s \<or> scope_raised p s)" by auto
  with Seq.prems Seq.IH(2) [of t] show ?case by (auto simp: e)
next
  case (Catch p)
  then show ?case by simp
next
  case (Scope io p)
  let ?t = "s\<lparr>depth := Suc (depth s)\<rparr>"
  have "enter_scope io s = (False, ?t)"
    using Scope.prems by (simp add: enter_scope_def)
  moreover from Scope.IH [of ?t] Scope.prems
  have "depth (snd (exec p ?t)) = Suc (depth s)" "in_tx (snd (exec p ?t))"
    "disk (snd (exec p ?t)) = disk s"
    "poisoned (snd (exec p ?t)) = (poisoned s \<or> scope_raised p ?t)"
    by simp_all
  ultimately show ?case
    using Scope.prems by (auto simp: leave_scope_def Let_def split: prod.splits)
qed

text \<open>The state in which the body of an outermost scope runs.\<close>

definition opened :: "'d store \<Rightarrow> 'd store" where
  "opened s = s\<lparr>poisoned := False, in_tx := True, depth := 1\<rparr>"

definition scope_commits :: "tx_io \<Rightarrow> 'd prog \<Rightarrow> 'd store \<Rightarrow> bool" where
  "scope_commits io p s \<longleftrightarrow>
     begin_ok io \<and> commit_ok io \<and> \<not> fst (exec p (opened s)) \<and> \<not> scope_raised p (opened s)"

lemma exec_scope_idle:
  assumes "depth s = 0" and "\<not> in_tx s" and "begin_ok io"
  shows "exec (Scope io p) s = leave_scope io (fst (exec p (opened s))) (snd (exec p (opened s)))"
  using assms by (simp add: enter_scope_def opened_def split_def)

text \<open>
  C36. A write transaction is all or nothing, over any program of nested scopes and caught
  exceptions: what the outermost scope leaves on disk is either exactly the state its body
  reached, when no scope on the way was left by an exception (caught or not) and SQLite
  accepted \<open>BEGIN\<close> and \<open>COMMIT\<close>, or exactly the state before it. The reentrancy depth is
  back at zero either way.
\<close>

theorem transaction_all_or_nothing:
  assumes "depth s = 0" and "\<not> in_tx s"
  shows "disk (snd (exec (Scope io p) s)) =
      (if scope_commits io p s then view (snd (exec p (opened s))) else disk s) \<and>
    depth (snd (exec (Scope io p) s)) = 0"
proof (cases "begin_ok io")
  case False
  then show ?thesis using assms by (simp add: enter_scope_def scope_commits_def)
next
  case True
  have "depth (opened s) = 1" "in_tx (opened s)" "disk (opened s) = disk s"
    "\<not> poisoned (opened s)"
    by (simp_all add: opened_def)
  with exec_nested [of "opened s" p] have
    "depth (snd (exec p (opened s))) = 1" "disk (snd (exec p (opened s))) = disk s"
    "poisoned (snd (exec p (opened s))) = scope_raised p (opened s)"
    by auto
  then show ?thesis
    unfolding exec_scope_idle [OF assms True]
    by (auto simp: leave_scope_def sql_rollback_def sql_commit_def scope_commits_def True Let_def)
qed

theorem transaction_all_or_nothing_witness:
  "disk (snd (exec (Scope all_ok (Seq (Step (\<lambda>d. (False, d @ [1])))
      (Catch (Scope all_ok (Step (\<lambda>d. (True, d @ [2])))))))
      (idle [0::nat]))) = [0]"
proof -
  let ?p = "Seq (Step (\<lambda>d. (False, d @ [1])))
      (Catch (Scope all_ok (Step (\<lambda>d. (True, d @ [2])))))"
  have "\<not> scope_commits all_ok ?p (idle [0::nat])"
    by (simp add: scope_commits_def opened_def idle_def all_ok_def scope_defs)
  then show ?thesis
    using transaction_all_or_nothing [of "idle [0::nat]" all_ok ?p] by (simp add: idle_def)
qed

text \<open>A single repository method run on its own is \<^const>\<open>atomically\<close> of its body.\<close>

definition body_prog :: "('d \<Rightarrow> ('e + 'a) \<times> 'd) \<Rightarrow> 'd prog" where
  "body_prog body = Step (\<lambda>d. (is_error (fst (body d)), snd (body d)))"

text \<open>
  The repositories are specified by \<^const>\<open>atomically\<close>; the transaction scope around a
  repository method implements it: with SQLite accepting its statements, the file ends in
  the state \<^const>\<open>atomically\<close> computes and the scope raises exactly when the method does.
\<close>

theorem scope_refines_atomically:
  "disk (snd (exec (Scope all_ok (body_prog body)) (idle d))) = snd (atomically body d) \<and>
   fst (exec (Scope all_ok (body_prog body)) (idle d)) = is_error (fst (atomically body d))"
  by (auto simp: body_prog_def idle_def all_ok_def scope_defs atomically_def is_error_def Let_def
      split: prod.splits sum.splits)

section \<open>Opening the file: the drift checks\<close>

definition reminder_columns :: "str list" where
  "reminder_columns = map cps
     [''id'', ''text'', ''due_at'', ''due_tz'', ''input_spec'', ''created_at'', ''source'',
      ''status'', ''next_attempt_at'', ''send_attempts'', ''delivered_at'', ''surfaced_at'',
      ''reported_at'']"

definition handoff_columns :: "str list" where
  "handoff_columns = map cps
     [''id'', ''message_id'', ''published_at'', ''document'', ''truncated'', ''identity_keys'',
      ''rule_keys'', ''nodes'']"

definition hold_window_columns :: "str list" where
  "hold_window_columns = map cps [''window_id'', ''title'', ''start'', ''end'', ''released_at'']"

definition held_event_columns :: "str list" where
  "held_event_columns = map cps
     [''event_id'', ''window_id'', ''identity_key'', ''state'', ''title'', ''message'',
      ''raw_json'', ''published_at'', ''arrival_time'', ''held_at'']"

text \<open>The tables the checks look at and why a check refuses to start.\<close>

datatype checked_table = Reminders | Handoffs | Hold_Windows | Held_Events

datatype drift =
    Table_Missing checked_table
  | Columns_Differ checked_table "str list" "str list"   \<comment> \<open>missing, unexpected\<close>
  | Not_Autoincrement

definition check_table_columns ::
    "(checked_table \<Rightarrow> str list) \<Rightarrow> checked_table \<Rightarrow> str list \<Rightarrow> drift + unit" where
  "check_table_columns live t expected =
     (let missing = sort (remdups (filter (\<lambda>c. c \<notin> set (live t)) expected));
          unexpected = sort (remdups (filter (\<lambda>c. c \<notin> set expected) (live t)))
      in if live t = [] then Inl (Table_Missing t)
         else if missing = [] \<and> unexpected = [] then Inr ()
         else Inl (Columns_Differ t missing unexpected))"

definition upper_cp :: "nat \<Rightarrow> nat" where
  "upper_cp c = (if 97 \<le> c \<and> c \<le> 122 then c - 32 else c)"

text \<open>\<open>_check_handoffs_columns\<close>: the columns, then the \<open>AUTOINCREMENT\<close> the column list cannot
  express, looked for in the table's own DDL text, upper-cased and space-normalised.\<close>

definition check_handoffs_columns ::
    "(checked_table \<Rightarrow> str list) \<Rightarrow> str option \<Rightarrow> drift + unit" where
  "check_handoffs_columns live ddl =
     (case check_table_columns live Handoffs handoff_columns of
        Inl e \<Rightarrow> Inl e
      | Inr _ \<Rightarrow>
          (let sql = join (cps '' '') (split_ws (map upper_cp (case ddl of None \<Rightarrow> [] | Some x \<Rightarrow> x)))
           in if contains (cps ''AUTOINCREMENT'') sql then Inr () else Inl Not_Autoincrement))"

text \<open>\<open>Store.connection\<close>: the four checks, in order, after the DDL.\<close>

definition open_checks :: "(checked_table \<Rightarrow> str list) \<Rightarrow> str option \<Rightarrow> drift + unit" where
  "open_checks live ddl =
     (case check_table_columns live Reminders reminder_columns of Inl e \<Rightarrow> Inl e | Inr _ \<Rightarrow>
     (case check_handoffs_columns live ddl of Inl e \<Rightarrow> Inl e | Inr _ \<Rightarrow>
     (case check_table_columns live Hold_Windows hold_window_columns of Inl e \<Rightarrow> Inl e | Inr _ \<Rightarrow>
       check_table_columns live Held_Events held_event_columns)))"

lemma set_nil_filter: "sort (remdups (filter P xs)) = [] \<longleftrightarrow> (\<forall>x\<in>set xs. \<not> P x)"
proof -
  have "sort (remdups (filter P xs)) = [] \<longleftrightarrow> set (sort (remdups (filter P xs))) = {}"
    by (simp only: set_empty)
  then show ?thesis by auto
qed

lemma check_table_columns_ok:
  assumes "expected \<noteq> []"
  shows "check_table_columns live t expected = Inr () \<longleftrightarrow> set (live t) = set expected"
proof -
  have "set expected \<noteq> {}" using assms by simp
  then show ?thesis
    by (auto simp: check_table_columns_def Let_def set_nil_filter)
qed

lemma column_lists_nonempty [simp]:
  "reminder_columns \<noteq> []" "handoff_columns \<noteq> []" "hold_window_columns \<noteq> []"
  "held_event_columns \<noteq> []"
  by (simp_all add: reminder_columns_def handoff_columns_def hold_window_columns_def
      held_event_columns_def)

lemma check_handoffs_ok:
  "check_handoffs_columns live ddl = Inr () \<longleftrightarrow>
     set (live Handoffs) = set handoff_columns \<and>
     contains (cps ''AUTOINCREMENT'')
       (join (cps '' '') (split_ws (map upper_cp (case ddl of None \<Rightarrow> [] | Some x \<Rightarrow> x))))"
  by (auto simp: check_handoffs_columns_def Let_def check_table_columns_ok [symmetric]
      split: sum.splits)

lemma open_checks_Inr:
  "open_checks live ddl = Inr () \<longleftrightarrow>
     check_table_columns live Reminders reminder_columns = Inr () \<and>
     check_handoffs_columns live ddl = Inr () \<and>
     check_table_columns live Hold_Windows hold_window_columns = Inr () \<and>
     check_table_columns live Held_Events held_event_columns = Inr ()"
  by (auto simp: open_checks_def split: sum.splits)

text \<open>
  The store opens exactly on the schema this build knows: every checked table has
  exactly the expected set of columns, none missing and none unexpected, and the handoff
  archive's DDL declares \<open>AUTOINCREMENT\<close>. Any other file is refused.
\<close>

theorem opens_iff_schema_matches:
  "open_checks live ddl = Inr () \<longleftrightarrow>
     set (live Reminders) = set reminder_columns \<and>
     set (live Handoffs) = set handoff_columns \<and>
     set (live Hold_Windows) = set hold_window_columns \<and>
     set (live Held_Events) = set held_event_columns \<and>
     contains (cps ''AUTOINCREMENT'')
       (join (cps '' '') (split_ws (map upper_cp (case ddl of None \<Rightarrow> [] | Some x \<Rightarrow> x))))"
  by (auto simp: open_checks_Inr check_table_columns_ok check_handoffs_ok)

end
