(* ===== verification/Memory_Store.thy ===== *)
theory Memory_Store
  imports Store_Tx
begin

text \<open>
  \<open>henk/store/memory.py\<close>: owner facts in two namespaces (\<open>pinned\<close>, \<open>agent\<close>), each with its
  own first-in-first-out cap. A write that does not fit evicts the namespace's oldest rows
  in the same transaction and names them in its result.
\<close>

section \<open>Rows and operations\<close>

record memory =
  mem_id :: nat
  content :: str
  memory_type :: str
  mem_created :: secs

type_synonym memories = "memory table"

definition PINNED :: str where "PINNED = cps ''pinned''"
definition AGENT :: str where "AGENT = cps ''agent''"

record memory_cfg =
  caps :: "str \<rightharpoonup> int"
  length_limit :: nat

definition default_memory_cfg :: memory_cfg where
  "default_memory_cfg = \<lparr>caps = [PINNED \<mapsto> 50, AGENT \<mapsto> 20], length_limit = 500\<rparr>"

datatype memory_error =
    Unknown_Type str
  | Empty_Content
  | Content_Too_Long nat nat   \<comment> \<open>limit, length\<close>

record memory_write =
  stored :: memory
  evicted :: "memory list"

abbreviation mem_age :: "memory \<Rightarrow> secs \<times> nat" where
  "mem_age m \<equiv> (mem_created m, mem_id m)"

abbreviation typed :: "str \<Rightarrow> memories \<Rightarrow> memory list" where
  "typed ty t \<equiv> filter (\<lambda>m. memory_type m = ty) (rows t)"

text \<open>The loop of \<open>_trim_locked\<close>: oldest first, skipping the protected row, until enough
  rows are evicted.\<close>

fun evict_loop :: "int \<Rightarrow> nat \<Rightarrow> memory list \<Rightarrow> memory list" where
  "evict_loop overflow protect [] = []"
| "evict_loop overflow protect (r # rs) =
     (if overflow \<le> 0 then []
      else if mem_id r = protect then evict_loop overflow protect rs
      else r # evict_loop (overflow - 1) protect rs)"

definition trim_locked ::
    "memory_cfg \<Rightarrow> str \<Rightarrow> nat \<Rightarrow> memories \<Rightarrow> memory list \<times> memories" where
  "trim_locked cfg ty protect t =
     (case caps cfg ty of
        None \<Rightarrow> ([], t)
      | Some cap \<Rightarrow>
          (let rs = sort_key mem_age (typed ty t);
               overflow = int (length rs) - max cap 1
           in if overflow \<le> 0 then ([], t)
              else (let ev = evict_loop overflow protect rs
                    in (ev, delete_rows (\<lambda>m. mem_id m \<in> mem_id ` set ev) t))))"

definition new_memory :: "str \<Rightarrow> str \<Rightarrow> secs \<Rightarrow> nat \<Rightarrow> memory" where
  "new_memory text ty now i =
     \<lparr>mem_id = i, content = text, memory_type = ty, mem_created = now\<rparr>"

lemma new_memory_simps [simp]:
  "mem_id (new_memory text ty now i) = i" "content (new_memory text ty now i) = text"
  "memory_type (new_memory text ty now i) = ty" "mem_created (new_memory text ty now i) = now"
  by (simp_all add: new_memory_def)

definition add_body ::
    "memory_cfg \<Rightarrow> secs \<Rightarrow> str \<Rightarrow> str \<Rightarrow> memories \<Rightarrow> (memory_error + memory_write) \<times> memories" where
  "add_body cfg now raw ty t =
     (if ty \<noteq> PINNED \<and> ty \<noteq> AGENT then (Inl (Unknown_Type ty), t)
      else let text = strip raw in
        if text = [] then (Inl Empty_Content, t)
        else if length text > length_limit cfg
          then (Inl (Content_Too_Long (length_limit cfg) (length text)), t)
        else
          (let new_id = next_id t;
               (ev, t2) = trim_locked cfg ty new_id (insert_row (new_memory text ty now) t)
           in (Inr \<lparr>stored = new_memory text ty now new_id, evicted = ev\<rparr>, t2)))"

definition mem_add ::
    "memory_cfg \<Rightarrow> secs \<Rightarrow> str \<Rightarrow> str \<Rightarrow> memories \<Rightarrow> (memory_error + memory_write) \<times> memories" where
  "mem_add cfg now raw ty = atomically (add_body cfg now raw ty)"

definition forget_matches :: "str \<Rightarrow> memory \<Rightarrow> bool" where
  "forget_matches token m \<longleftrightarrow> contains token (lower (strip (content m)))"

definition delete_containing :: "str \<Rightarrow> memories \<Rightarrow> memory list \<times> memories" where
  "delete_containing needle t =
     (let token = lower (strip needle) in
        if token = [] then ([], t)
        else (let ms = filter (forget_matches token) (rows t)
              in (ms, delete_rows (\<lambda>m. mem_id m \<in> mem_id ` set ms) t)))"

definition list_all_memories :: "memories \<Rightarrow> memory list" where
  "list_all_memories t = rev (sort_key mem_age (rows t))"

definition list_by_type :: "str \<Rightarrow> memories \<Rightarrow> memory list" where
  "list_by_type ty t = rev (sort_key mem_age (typed ty t))"

definition mem_count :: "str \<Rightarrow> memories \<Rightarrow> nat" where
  "mem_count ty t = count_rows (\<lambda>m. memory_type m = ty) t"

section \<open>The eviction loop\<close>

abbreviation others :: "nat \<Rightarrow> memory list \<Rightarrow> memory list" where
  "others protect rs \<equiv> filter (\<lambda>r. mem_id r \<noteq> protect) rs"

lemma evict_loop_take: "evict_loop k protect rs = take (nat k) (others protect rs)"
proof (induction k protect rs rule: evict_loop.induct)
  case (2 k protect r rs)
  show ?case
  proof (cases "k \<le> 0")
    case False
    then have "nat k = Suc (nat (k - 1))" by simp
    with 2 False show ?thesis by auto
  qed simp
qed simp

lemma length_others:
  assumes "distinct (map mem_id rs)" and "i \<in> mem_id ` set rs"
  shows "length (others i rs) = length rs - 1"
  using assms
proof (induction rs)
  case (Cons r rs)
  show ?case
  proof (cases "mem_id r = i")
    case True
    from Cons.prems(1) have "mem_id r \<notin> mem_id ` set rs" by simp
    with True have "\<forall>q\<in>set rs. mem_id q \<noteq> i" by (metis imageI)
    then have "others i rs = rs" by (simp add: filter_id_conv)
    with True show ?thesis by simp
  next
    case False
    with Cons.prems have "i \<in> mem_id ` set rs" by auto
    moreover from this have "rs \<noteq> []" by auto
    ultimately show ?thesis using Cons False by (simp add: Suc_diff_1)
  qed
qed simp

text \<open>What one trim does: it deletes exactly what it reports, in its own namespace, never
  the protected row, and only rows at least as old as those of the namespace it keeps.\<close>

lemma trim_locked_shape:
  assumes "wf_table mem_id t" and "trim_locked cfg ty protect t = (ev, t2)"
  shows "rows t2 = filter (\<lambda>m. m \<notin> set ev) (rows t)" and "next_id t2 = next_id t"
    and "\<forall>e\<in>set ev. e \<in> set (rows t) \<and> memory_type e = ty \<and> mem_id e \<noteq> protect"
    and "distinct ev"
proof -
  let ?rs = "sort_key mem_age (typed ty t)"
  have d: "distinct (map mem_id (rows t))" using assms(1) by (simp add: wf_table_def)
  have sub: "\<forall>e\<in>set ev. e \<in> set (rows t) \<and> memory_type e = ty \<and> mem_id e \<noteq> protect"
    using assms(2)
    by (auto simp: trim_locked_def evict_loop_take Let_def
        split: option.splits if_splits dest!: in_set_takeD)
  then show "\<forall>e\<in>set ev. e \<in> set (rows t) \<and> memory_type e = ty \<and> mem_id e \<noteq> protect" .
  have key: "\<And>m. m \<in> set (rows t) \<Longrightarrow> mem_id m \<notin> mem_id ` set ev \<longleftrightarrow> m \<notin> set ev"
    using sub wf_table_unique [OF assms(1)] by (auto simp: image_iff)
  have "t2 = t \<and> ev = [] \<or> t2 = delete_rows (\<lambda>m. mem_id m \<in> mem_id ` set ev) t"
    using assms(2) by (auto simp: trim_locked_def Let_def split: option.splits if_splits)
  then have del: "rows t2 = filter (\<lambda>m. mem_id m \<notin> mem_id ` set ev) (rows t)"
    and "next_id t2 = next_id t"
    by (elim disjE conjE; simp)+
  then show "next_id t2 = next_id t" by simp
  show "rows t2 = filter (\<lambda>m. m \<notin> set ev) (rows t)"
    unfolding del using key by (rule filter_cong [OF refl])
  have "distinct ?rs" using d by (simp add: distinct_map distinct_filter)
  then show "distinct ev"
    using assms(2)
    by (auto simp: trim_locked_def evict_loop_take Let_def distinct_take
        split: option.splits if_splits)
qed

lemma trim_locked_oldest:
  assumes "wf_table mem_id t" and "trim_locked cfg ty protect t = (ev, t2)"
    and "e \<in> set ev" and "k \<in> set (rows t2)" and "memory_type k = ty" and "mem_id k \<noteq> protect"
  shows "mem_age e \<le> mem_age k"
proof -
  let ?rs = "sort_key mem_age (typed ty t)"
  let ?os = "others protect ?rs"
  from assms(2,3) obtain n where ev: "ev = take n ?os"
    by (auto simp: trim_locked_def evict_loop_take Let_def split: option.splits if_splits)
  have "k \<in> set (rows t) \<and> k \<notin> set ev"
    using trim_locked_shape(1) [OF assms(1,2)] assms(4) by simp
  then have "k \<in> set ?os" "k \<notin> set (take n ?os)" using assms(5,6) ev by auto
  then have "k \<in> set (drop n ?os)" by (rule in_drop_if_not_take)
  moreover have "sorted (map mem_age ?os)"
    by (rule sorted_filter) simp
  moreover have "e \<in> set (take n ?os)" using assms(3) ev by simp
  ultimately show ?thesis
    by (intro sorted_take_le [where f = mem_age and xs = ?os and k = n])
qed

lemma trim_locked_count:
  assumes "wf_table mem_id t" and "trim_locked cfg ty protect t = (ev, t2)"
    and "caps cfg ty = Some cap" and "protect \<in> mem_id ` set (typed ty t)"
  shows "int (mem_count ty t2) \<le> max cap 1"
proof -
  let ?rs = "sort_key mem_age (typed ty t)"
  let ?over = "int (length ?rs) - max cap 1"
  have d: "distinct (map mem_id ?rs)"
    using assms(1) by (simp add: wf_table_def distinct_map_filter distinct_map)
      (auto simp: inj_on_def)
  have cnt: "mem_count ty t2 = length (typed ty t) - length ev"
  proof -
    note shape = trim_locked_shape [OF assms(1,2)]
    have dr: "distinct (typed ty t)"
      using assms(1) by (auto simp: wf_table_def distinct_map)
    have "mem_count ty t2 = length (filter (\<lambda>m. m \<notin> set ev) (typed ty t))"
      by (simp add: mem_count_def count_rows_def shape(1) conj_commute)
    also have "\<dots> = card (set (typed ty t) - set ev)"
    proof -
      have "distinct (filter (\<lambda>m. m \<notin> set ev) (typed ty t))" using dr by (rule distinct_filter)
      then have "length (filter (\<lambda>m. m \<notin> set ev) (typed ty t)) =
          card (set (filter (\<lambda>m. m \<notin> set ev) (typed ty t)))"
        by (rule distinct_card [symmetric])
      moreover have "set (filter (\<lambda>m. m \<notin> set ev) (typed ty t)) = set (typed ty t) - set ev"
        by auto
      ultimately show ?thesis by simp
    qed
    also have "\<dots> = card (set (typed ty t)) - card (set ev)"
      using shape(3) by (intro card_Diff_subset) auto
    also have "\<dots> = length (typed ty t) - length ev"
      unfolding distinct_card [OF dr] distinct_card [OF shape(4)] ..
    finally show ?thesis .
  qed
  show ?thesis
  proof (cases "?over \<le> 0")
    case True
    then show ?thesis using cnt by simp
  next
    case False
    have "protect \<in> mem_id ` set ?rs" using assms(4) by simp
    with d have "length (others protect ?rs) = length ?rs - 1" by (rule length_others)
    moreover have "ev = take (nat ?over) (others protect ?rs)"
      using assms(2,3) False by (simp add: trim_locked_def evict_loop_take Let_def)
    moreover have "nat ?over \<le> length ?rs - 1" using False by linarith
    ultimately have "length ev = nat ?over" by simp
    with False have "int (length ev) = ?over" by (simp only: int_nat_eq) arith
    then have "int (length ev) = int (length (typed ty t)) - max cap 1" by simp
    moreover have "1 \<le> max cap 1" by simp
    ultimately show ?thesis using cnt by linarith
  qed
qed

lemma trim_locked_wf:
  assumes "wf_table mem_id t" and "trim_locked cfg ty protect t = (ev, t2)"
  shows "wf_table mem_id t2"
  using assms trim_locked_shape [OF assms]
  by (auto simp: wf_table_def distinct_map_filter)

section \<open>Properties of a write\<close>

lemma add_body_success:
  assumes "add_body cfg now raw ty t = (Inr w, t2)"
  shows "stored w = new_memory (strip raw) ty now (next_id t)"
    and "trim_locked cfg ty (next_id t) (insert_row (new_memory (strip raw) ty now) t)
      = (evicted w, t2)"
  using assms by (auto simp: add_body_def Let_def split: if_splits prod.splits)

lemma wf_insert_memory [table_intros]:
  "wf_table mem_id t \<Longrightarrow> wf_table mem_id (insert_row (new_memory text ty now) t)"
  by (rule wf_insert_row) simp_all

lemma mem_add_success: "mem_add cfg now raw ty t = (Inr w, t2) \<longleftrightarrow>
    add_body cfg now raw ty t = (Inr w, t2)"
  by (auto simp: mem_add_def atomically_def split: prod.splits sum.splits)

lemma mem_add_wf:
  assumes "wf_table mem_id t" and "mem_add cfg now raw ty t = (r, t2)"
  shows "wf_table mem_id t2"
proof (cases r)
  case (Inl e)
  then show ?thesis using assms by (auto simp: mem_add_def dest: atomically_error)
next
  case (Inr w)
  with assms(2) have "add_body cfg now raw ty t = (Inr w, t2)" by (simp add: mem_add_success)
  then show ?thesis
    by (rule trim_locked_wf [OF wf_insert_memory [OF assms(1)] add_body_success(2)])
qed

text \<open>
  A memory write keeps its namespace within its cap and never at the price of the
  fact just stored: the new row is in the store with the stripped text, the namespace
  holds at most its cap (at least one), every other namespace is untouched, and the rows
  reported as evicted are exactly the rows that left. The bound holds whatever the store
  held before.
\<close>

theorem memory_write_respects_cap:
  assumes "wf_table mem_id t" and "caps cfg ty = Some cap"
    and "mem_add cfg now raw ty t = (Inr w, t2)"
  shows "stored w \<in> set (rows t2) \<and> content (stored w) = strip raw \<and>
    int (mem_count ty t2) \<le> max cap 1 \<and>
    (\<forall>ty'. ty' \<noteq> ty \<longrightarrow> typed ty' t2 = typed ty' t) \<and>
    set (rows t2) = insert (stored w) (set (rows t)) - set (evicted w)"
proof -
  let ?mk = "new_memory (strip raw) ty now"
  note ok = assms(3) [unfolded mem_add_success]
  note st = add_body_success(1) [OF ok]
  note tr = add_body_success(2) [OF ok]
  have wf: "wf_table mem_id (insert_row ?mk t)" by (rule wf_insert_memory [OF assms(1)])
  note shape = trim_locked_shape [OF wf tr]
  have "int (mem_count ty t2) \<le> max cap 1"
    using trim_locked_count [OF wf tr assms(2)] by simp
  moreover have "stored w \<in> set (rows t2)" using shape st by auto
  moreover have "typed ty' t2 = typed ty' t" if "ty' \<noteq> ty" for ty'
    using shape that by (auto intro!: filter_cong)
  moreover have "set (rows t2) = insert (stored w) (set (rows t)) - set (evicted w)"
    using shape st by auto
  ultimately show ?thesis using st by auto
qed

definition sample_cfg :: memory_cfg where
  "sample_cfg = \<lparr>caps = [PINNED \<mapsto> 1], length_limit = 5\<rparr>"

definition sample_memories :: memories where
  "sample_memories =
     \<lparr>rows = [\<lparr>mem_id = 1, content = [97], memory_type = PINNED, mem_created = 9\<rparr>], next_id = 2\<rparr>"

lemma sample_add:
  "mem_add sample_cfg 10 [98, 32] PINNED sample_memories =
     (Inr \<lparr>stored = \<lparr>mem_id = 2, content = [98], memory_type = PINNED, mem_created = 10\<rparr>,
           evicted = [\<lparr>mem_id = 1, content = [97], memory_type = PINNED, mem_created = 9\<rparr>]\<rparr>,
      \<lparr>rows = [\<lparr>mem_id = 2, content = [98], memory_type = PINNED, mem_created = 10\<rparr>], next_id = 3\<rparr>)"
  by (simp add: mem_add_def atomically_def add_body_def new_memory_def Let_def trim_locked_def sample_cfg_def
      sample_memories_def insert_row_def delete_rows_def strip_def is_space_def)

lemma sample_memories_wf: "wf_table mem_id sample_memories"
  by (simp add: wf_table_def sample_memories_def)

theorem memory_write_respects_cap_witness:
  "int (mem_count PINNED (snd (mem_add sample_cfg 10 [98, 32] PINNED sample_memories))) \<le> 1"
proof -
  have "caps sample_cfg PINNED = Some 1" by (simp add: sample_cfg_def)
  from memory_write_respects_cap [OF sample_memories_wf this sample_add]
  show ?thesis unfolding sample_add by (simp only: snd_conv max.idem)
qed

text \<open>
  Eviction is first in, first out: every row a write evicts is at least as old, by
  capture time and then id, as every row of its namespace that stays (the fact just
  written excepted, which is protected even when the clock went backwards).
\<close>

theorem eviction_is_oldest_first:
  assumes "wf_table mem_id t" and "mem_add cfg now raw ty t = (Inr w, t2)"
    and "e \<in> set (evicted w)" and "k \<in> set (typed ty t2)" and "k \<noteq> stored w"
  shows "mem_age e \<le> mem_age k \<and> memory_type e = ty"
proof -
  let ?mk = "new_memory (strip raw) ty now"
  note ok = assms(2) [unfolded mem_add_success]
  note st = add_body_success(1) [OF ok]
  note tr = add_body_success(2) [OF ok]
  have wf: "wf_table mem_id (insert_row ?mk t)" by (rule wf_insert_memory [OF assms(1)])
  note shape = trim_locked_shape [OF wf tr]
  have "k \<in> set (rows (insert_row ?mk t))"
    using assms(4) shape(1) by (simp only: set_filter mem_Collect_eq)
  then have "mem_id k \<noteq> next_id t"
    using assms(5) st wf_table_unique [OF wf, of k "stored w"] by auto
  then show ?thesis
    using trim_locked_oldest [OF wf tr assms(3)] shape(3) assms(3,4) by simp
qed

definition two_memories :: memories where
  "two_memories =
     \<lparr>rows = [\<lparr>mem_id = 1, content = [97], memory_type = PINNED, mem_created = 9\<rparr>,
              \<lparr>mem_id = 2, content = [98], memory_type = PINNED, mem_created = 4\<rparr>], next_id = 3\<rparr>"

theorem eviction_is_oldest_first_witness:
  "\<exists>w t2. mem_add \<lparr>caps = [PINNED \<mapsto> 2], length_limit = 5\<rparr> 10 [99] PINNED two_memories = (Inr w, t2) \<and>
     map mem_id (evicted w) = [2] \<and> mem_age (hd (evicted w)) \<le> (9, 1)"
proof -
  let ?m = "\<lambda>i c n. \<lparr>mem_id = i, content = c, memory_type = PINNED, mem_created = n\<rparr>"
  let ?w = "\<lparr>stored = ?m 3 [99] 10, evicted = [?m 2 [98] 4]\<rparr>"
  let ?t = "\<lparr>rows = [?m 1 [97] 9, ?m 3 [99] 10], next_id = 4\<rparr>"
  have run: "mem_add \<lparr>caps = [PINNED \<mapsto> 2], length_limit = 5\<rparr> 10 [99] PINNED two_memories = (Inr ?w, ?t)"
    by (simp add: mem_add_def atomically_def add_body_def new_memory_def Let_def trim_locked_def
        two_memories_def insert_row_def delete_rows_def strip_def is_space_def)
  have "wf_table mem_id two_memories" by (simp add: wf_table_def two_memories_def)
  from eviction_is_oldest_first [OF this run, of "?m 2 [98] 4" "?m 1 [97] 9"]
  have "mem_age (?m 2 [98] 4) \<le> mem_age (?m 1 [97] 9)" by simp
  then show ?thesis using run by (intro exI [of _ ?w] exI [of _ ?t] conjI) simp_all
qed

text \<open>
  \<open>/forget\<close> deletes exactly the memories whose stripped, lower-cased content contains
  the stripped, lower-cased needle, and returns exactly those; a blank needle deletes
  nothing, so it can never wipe the store.
\<close>

theorem forget_deletes_exactly_matches:
  assumes "wf_table mem_id t"
  shows "set (fst (delete_containing needle t)) =
      {m \<in> set (rows t). strip needle \<noteq> [] \<and> forget_matches (lower (strip needle)) m} \<and>
    rows (snd (delete_containing needle t)) =
      filter (\<lambda>m. strip needle = [] \<or> \<not> forget_matches (lower (strip needle)) m) (rows t)"
proof (cases "strip needle = []")
  case True
  then show ?thesis by (simp add: delete_containing_def lower_def)
next
  case False
  then have ne: "lower (strip needle) \<noteq> []" by (simp add: lower_def)
  let ?ms = "filter (forget_matches (lower (strip needle))) (rows t)"
  have key: "mem_id m \<notin> mem_id ` set ?ms \<longleftrightarrow> \<not> forget_matches (lower (strip needle)) m"
    if "m \<in> set (rows t)" for m
    using id_in_filter_iff [OF assms that] by blast
  have "rows (snd (delete_containing needle t)) =
      filter (\<lambda>m. mem_id m \<notin> mem_id ` set ?ms) (rows t)"
    unfolding delete_containing_def Let_def if_not_P [OF ne] snd_conv by (rule row_op_simps)
  also have "\<dots> = filter (\<lambda>m. \<not> forget_matches (lower (strip needle)) m) (rows t)"
    by (rule filter_cong [OF refl key])
  finally have "rows (snd (delete_containing needle t)) =
      filter (\<lambda>m. strip needle = [] \<or> \<not> forget_matches (lower (strip needle)) m) (rows t)"
    using False by simp
  moreover have "fst (delete_containing needle t) = ?ms"
    by (simp add: delete_containing_def Let_def ne)
  ultimately show ?thesis using False by simp
qed

theorem forget_deletes_exactly_matches_witness:
  "map mem_id (rows (snd (delete_containing [32, 66] two_memories))) = [1]"
proof -
  have "wf_table mem_id two_memories" by (simp add: wf_table_def two_memories_def)
  from forget_deletes_exactly_matches [OF this, of "[32, 66]"]
  have "rows (snd (delete_containing [32, 66] two_memories)) =
      filter (\<lambda>m. strip [32, 66] = [] \<or> \<not> forget_matches (lower (strip [32, 66])) m) (rows two_memories)"
    by (rule conjunct2)
  also have "map mem_id \<dots> = [1]"
    by (simp add: two_memories_def forget_matches_def lower_def lower_cp_def strip_def is_space_def)
  finally show ?thesis .
qed

end
