(* ===== verification/Inbox_Store.thy ===== *)
theory Inbox_Store
  imports Store_Tx
begin

text \<open>
  \<open>henk/store/inbox.py\<close>: the capture inbox. Items are appended, listed oldest first and
  marked done; nothing evicts, edits or deletes one.
\<close>

datatype inbox_status = OPEN | DONE

record inbox_item =
  inb_id :: nat
  inb_text :: str
  inb_created :: secs
  inb_source :: str
  inb_status :: inbox_status

type_synonym inbox = "inbox_item table"

record inbox_page =
  items :: "inbox_item list"
  newer_remainder :: nat

datatype inbox_error = Inbox_Empty_Content

definition new_item :: "str \<Rightarrow> secs \<Rightarrow> str \<Rightarrow> nat \<Rightarrow> inbox_item" where
  "new_item text now src i =
     \<lparr>inb_id = i, inb_text = text, inb_created = now, inb_source = src, inb_status = OPEN\<rparr>"

definition inbox_append_body ::
    "secs \<Rightarrow> str \<Rightarrow> str \<Rightarrow> inbox \<Rightarrow> (inbox_error + inbox_item) \<times> inbox" where
  "inbox_append_body now raw src t =
     (let text = strip raw in
        if text = [] then (Inl Inbox_Empty_Content, t)
        else (Inr (new_item text now src (next_id t)), insert_row (new_item text now src) t))"

definition inbox_append ::
    "secs \<Rightarrow> str \<Rightarrow> str \<Rightarrow> inbox \<Rightarrow> (inbox_error + inbox_item) \<times> inbox" where
  "inbox_append now raw src = atomically (inbox_append_body now raw src)"

abbreviation open_items :: "inbox \<Rightarrow> inbox_item list" where
  "open_items t \<equiv> sort_key (\<lambda>x. (inb_created x, inb_id x)) (filter (\<lambda>x. inb_status x = OPEN) (rows t))"

definition list_open :: "nat option \<Rightarrow> inbox \<Rightarrow> inbox_page" where
  "list_open limit t =
     (case limit of
        None \<Rightarrow> \<lparr>items = open_items t, newer_remainder = 0\<rparr>
      | Some n \<Rightarrow> \<lparr>items = take n (open_items t), newer_remainder = length (open_items t) - n\<rparr>)"

definition mark_done :: "nat \<Rightarrow> inbox \<Rightarrow> inbox_item option \<times> inbox" where
  "mark_done i t =
     (if \<exists>x\<in>set (rows t). inb_id x = i \<and> inb_status x = OPEN
      then (let t2 = update_rows (\<lambda>x. inb_id x = i \<and> inb_status x = OPEN)
                       (\<lambda>x. x\<lparr>inb_status := DONE\<rparr>) t
            in (row_of inb_id t2 i, t2))
      else (None, t))"

definition inbox_get :: "nat \<Rightarrow> inbox \<Rightarrow> inbox_item option" where
  "inbox_get i t = row_of inb_id t i"

section \<open>The inbox as an archive\<close>

datatype inbox_op = Append secs str str | Mark_Done nat

fun inbox_step :: "inbox \<Rightarrow> inbox_op \<Rightarrow> inbox" where
  "inbox_step t (Append now raw src) = snd (inbox_append now raw src t)"
| "inbox_step t (Mark_Done i) = snd (mark_done i t)"

definition inbox_frozen :: "inbox \<Rightarrow> nat \<rightharpoonup> str \<times> secs \<times> str" where
  "inbox_frozen t i =
     map_option (\<lambda>x. (inb_text x, inb_created x, inb_source x)) (row_of inb_id t i)"

lemma new_item_simps [simp]:
  "inb_id (new_item text now src i) = i" "inb_text (new_item text now src i) = text"
  "inb_created (new_item text now src i) = now" "inb_source (new_item text now src i) = src"
  "inb_status (new_item text now src i) = OPEN"
  by (simp_all add: new_item_def)

lemma snd_inbox_append:
  "snd (inbox_append now raw src t) =
     (if strip raw = [] then t else insert_row (new_item (strip raw) now src) t)"
  by (simp add: inbox_append_def inbox_append_body_def atomically_def Let_def)

lemma wf_insert_item [table_intros]:
  "wf_table inb_id t \<Longrightarrow> wf_table inb_id (insert_row (new_item text now src) t)"
  by (rule wf_insert_row) simp_all

lemma wf_mark_done [table_intros]: "wf_table inb_id t \<Longrightarrow> wf_table inb_id (snd (mark_done i t))"
  by (simp add: mark_done_def Let_def wf_update_rows)

lemma inbox_step_wf: "wf_table inb_id t \<Longrightarrow> wf_table inb_id (inbox_step t e)"
  by (cases e) (simp_all add: snd_inbox_append table_intros)

lemma row_of_mark_done:
  "row_of inb_id (snd (mark_done i t)) j =
     map_option (\<lambda>x. if inb_id x = i \<and> inb_status x = OPEN then x\<lparr>inb_status := DONE\<rparr> else x)
       (row_of inb_id t j)"
proof (cases "\<exists>x\<in>set (rows t). inb_id x = i \<and> inb_status x = OPEN")
  case True
  then show ?thesis by (simp add: mark_done_def Let_def row_of_update_rows)
next
  case False
  then show ?thesis
    by (cases "row_of inb_id t j") (auto simp: mark_done_def dest!: row_of_Some)
qed

lemma inbox_step_frozen:
  assumes "wf_table inb_id t"
  shows "inbox_frozen t \<subseteq>\<^sub>m inbox_frozen (inbox_step t e)"
proof (cases e)
  case (Append now raw src)
  have "row_of inb_id t (next_id t) = None"
    using assms by (auto simp: row_of_None wf_table_def)
  then show ?thesis
    using Append assms
    by (auto simp: map_le_def inbox_frozen_def snd_inbox_append row_of_insert_row dom_def)
next
  case (Mark_Done i)
  then show ?thesis
    by (auto simp: map_le_def inbox_frozen_def row_of_mark_done dom_def)
qed

interpretation inbox: archive inbox_step "wf_table inb_id" "\<lambda>_. True" inbox_frozen
  by unfold_locales (auto intro: inbox_step_wf inbox_step_frozen)

text \<open>
  Nothing captured is ever lost or edited: after any sequence of captures and
  completions, every item that was in the inbox is still there under its id with the same
  text, capture time and source; only its status can have changed.
\<close>

theorem inbox_never_loses_an_item:
  assumes "wf_table inb_id t" and "row_of inb_id t i = Some x"
  shows "\<exists>y. row_of inb_id (foldl inbox_step t es) i = Some y \<and> inb_text y = inb_text x \<and>
    inb_created y = inb_created x \<and> inb_source y = inb_source x"
proof -
  have "inbox_frozen t i = Some (inb_text x, inb_created x, inb_source x)"
    by (simp add: inbox_frozen_def assms(2))
  with assms(1) have "inbox_frozen (foldl inbox_step t es) i =
      Some (inb_text x, inb_created x, inb_source x)"
    by (intro inbox.run_keeps) (simp_all add: list_all_iff)
  then show ?thesis by (auto simp: inbox_frozen_def)
qed

definition one_item :: inbox where
  "one_item = insert_row (new_item [104, 105] 5 []) empty_table"

theorem inbox_never_loses_an_item_witness:
  "\<exists>y. row_of inb_id (foldl inbox_step one_item [Mark_Done 1, Append 7 [120] [], Mark_Done 1]) 1
     = Some y \<and> inb_text y = [104, 105]"
proof -
  have "wf_table inb_id one_item"
    by (simp add: one_item_def table_intros)
  moreover have "row_of inb_id one_item 1 = Some (new_item [104, 105] 5 [] 1)"
    by (simp add: one_item_def row_of_def empty_table_def)
  ultimately show ?thesis using inbox_never_loses_an_item by fastforce
qed

text \<open>
  The page bound never becomes eviction: a page lists the oldest open items, in order
  of capture time and id, none newer than an open item it leaves out, and its remainder
  counts exactly the open items left out.
\<close>

theorem inbox_page_is_oldest_open:
  "length (items (list_open (Some n) t)) + newer_remainder (list_open (Some n) t) =
      count_rows (\<lambda>x. inb_status x = OPEN) t \<and>
    items (list_open None t) = open_items t \<and> set (open_items t) = {x \<in> set (rows t). inb_status x = OPEN} \<and>
    sorted (map (\<lambda>x. (inb_created x, inb_id x)) (items (list_open (Some n) t))) \<and>
    (\<forall>x\<in>set (items (list_open (Some n) t)). \<forall>y\<in>set (drop n (items (list_open None t))).
       (inb_created x, inb_id x) \<le> (inb_created y, inb_id y))"
proof (intro conjI ballI)
  have s: "sorted (map (\<lambda>x. (inb_created x, inb_id x)) (open_items t))" by simp
  then show "sorted (map (\<lambda>x. (inb_created x, inb_id x)) (items (list_open (Some n) t)))"
    by (simp add: list_open_def take_map [symmetric] sorted_wrt_take)
  fix x y
  assume "x \<in> set (items (list_open (Some n) t))" "y \<in> set (drop n (items (list_open None t)))"
  with s show "(inb_created x, inb_id x) \<le> (inb_created y, inb_id y)"
    unfolding list_open_def option.case inbox_page.simps by (rule sorted_take_le)
qed (auto simp: list_open_def count_rows_def)

theorem inbox_page_is_oldest_open_witness:
  "length (items (list_open (Some 1) one_item)) + newer_remainder (list_open (Some 1) one_item) = 1"
  using conjunct1 [OF inbox_page_is_oldest_open [of 1 one_item]]
  by (simp add: one_item_def count_rows_def empty_table_def)

end
