(* ===== verification/Reminder_Store.thy ===== *)
theory Reminder_Store
  imports Store_Tx
begin

text \<open>
  \<open>henk/store/reminders.py\<close>: the reminders repository. Scheduling, cancelling and
  reinstating on one side, the delivery selector and the delivery writes on the other, all
  over one table from which nothing is ever deleted.
\<close>

section \<open>Rows\<close>

datatype rstatus = PENDING | DELIVERED | DELIVERED_LATE | MISSED | CANCELLED | ABANDONED

record reminder =
  rem_id :: nat
  rem_text :: str
  due_at :: secs
  due_tz :: str
  input_spec :: str
  created_at :: secs
  source :: str
  status :: rstatus
  next_attempt_at :: secs
  send_attempts :: nat
  delivered_at :: "secs option"
  surfaced_at :: "secs option"
  reported_at :: "secs option"

type_synonym reminders = "reminder table"

record reminder_cfg =
  max_pending :: nat
  text_length_limit :: nat
  page_size :: nat
  input_spec_limit :: nat

datatype reminder_error =
    Reminder_Empty
  | Reminder_Too_Long nat nat
  | Cap_Reached nat

record reminder_page =
  page_items :: "reminder list"
  remainder :: nat

abbreviation due_key :: "reminder \<Rightarrow> secs \<times> nat" where
  "due_key r \<equiv> (due_at r, rem_id r)"

abbreviation is_pending :: "reminder \<Rightarrow> bool" where
  "is_pending r \<equiv> status r = PENDING"

definition count_pending :: "reminders \<Rightarrow> nat" where
  "count_pending t = count_rows is_pending t"

section \<open>Scheduling, cancelling, reinstating\<close>

definition new_reminder ::
    "str \<Rightarrow> secs \<Rightarrow> str \<Rightarrow> str \<Rightarrow> secs \<Rightarrow> str \<Rightarrow> nat \<Rightarrow> reminder" where
  "new_reminder text due tz spec now src i =
     \<lparr>rem_id = i, rem_text = text, due_at = due, due_tz = tz, input_spec = spec,
      created_at = now, source = src, status = PENDING, next_attempt_at = due,
      send_attempts = 0, delivered_at = None, surfaced_at = None, reported_at = None\<rparr>"

definition schedule_body ::
    "reminder_cfg \<Rightarrow> secs \<Rightarrow> str \<Rightarrow> secs \<Rightarrow> str \<Rightarrow> str \<Rightarrow> str \<Rightarrow>
     reminders \<Rightarrow> (reminder_error + reminder) \<times> reminders" where
  "schedule_body cfg now raw due tz spec src t =
     (let content = strip raw in
        if content = [] then (Inl Reminder_Empty, t)
        else if length content > text_length_limit cfg
          then (Inl (Reminder_Too_Long (text_length_limit cfg) (length content)), t)
        else let spec' = take (input_spec_limit cfg) spec in
          if count_pending t \<ge> max_pending cfg then (Inl (Cap_Reached (max_pending cfg)), t)
          else (Inr (new_reminder content due tz spec' now src (next_id t)),
                insert_row (new_reminder content due tz spec' now src) t))"

definition schedule ::
    "reminder_cfg \<Rightarrow> secs \<Rightarrow> str \<Rightarrow> secs \<Rightarrow> str \<Rightarrow> str \<Rightarrow> str \<Rightarrow>
     reminders \<Rightarrow> (reminder_error + reminder) \<times> reminders" where
  "schedule cfg now raw due tz spec src = atomically (schedule_body cfg now raw due tz spec src)"

text \<open>\<open>_transition\<close>: the cap check (when asked for), one guarded update, its read-back.
  A transition into \<open>PENDING\<close> resets \<open>next_attempt_at\<close> in the same update.\<close>

definition transition_body ::
    "reminder_cfg \<Rightarrow> nat \<Rightarrow> rstatus \<Rightarrow> rstatus \<Rightarrow> bool \<Rightarrow>
     reminders \<Rightarrow> (reminder_error + reminder option) \<times> reminders" where
  "transition_body cfg i from_s to_s enforce_cap t =
     (if enforce_cap \<and> to_s = PENDING \<and> count_pending t \<ge> max_pending cfg
      then (Inl (Cap_Reached (max_pending cfg)), t)
      else if \<not> (\<exists>r\<in>set (rows t). rem_id r = i \<and> status r = from_s) then (Inr None, t)
      else (let t2 = update_rows (\<lambda>r. rem_id r = i \<and> status r = from_s)
                (\<lambda>r. if to_s = PENDING then r\<lparr>status := to_s, next_attempt_at := due_at r\<rparr>
                      else r\<lparr>status := to_s\<rparr>) t
            in (Inr (row_of rem_id t2 i), t2)))"

definition cancel ::
    "reminder_cfg \<Rightarrow> nat \<Rightarrow> reminders \<Rightarrow> (reminder_error + reminder option) \<times> reminders" where
  "cancel cfg i = atomically (transition_body cfg i PENDING CANCELLED False)"

definition reinstate ::
    "reminder_cfg \<Rightarrow> nat \<Rightarrow> reminders \<Rightarrow> (reminder_error + reminder option) \<times> reminders" where
  "reinstate cfg i = atomically (transition_body cfg i CANCELLED PENDING True)"

section \<open>Delivery selection\<close>

definition select_due :: "secs \<Rightarrow> nat \<Rightarrow> reminders \<Rightarrow> reminder list" where
  "select_due now limit t =
     take limit (sort_key due_key
       (filter (\<lambda>r. status r = PENDING \<and> next_attempt_at r \<le> now \<and> due_at r \<le> now) (rows t)))"

definition select_reportable :: "secs \<Rightarrow> reminders \<Rightarrow> reminder list" where
  "select_reportable now t =
     sort_key due_key
       (filter (\<lambda>r. (status r = MISSED \<or> status r = ABANDONED) \<and> reported_at r = None \<and>
                     next_attempt_at r \<le> now) (rows t))"

definition select_past_grace :: "secs \<Rightarrow> secs \<Rightarrow> reminders \<Rightarrow> reminder list" where
  "select_past_grace now grace t =
     sort_key due_key (filter (\<lambda>r. status r = PENDING \<and> now > due_at r + grace) (rows t))"

definition status_of :: "nat \<Rightarrow> reminders \<Rightarrow> rstatus option" where
  "status_of i t = map_option status (row_of rem_id t i)"

section \<open>Delivery writes\<close>

definition row_write :: "(reminder \<Rightarrow> reminder) \<Rightarrow> nat \<Rightarrow> reminders \<Rightarrow> bool \<times> reminders" where
  "row_write f i t = (i \<in> rem_id ` set (rows t), update_rows (\<lambda>r. rem_id r = i) f t)"

definition charge_attempt :: "nat \<Rightarrow> reminders \<Rightarrow> nat \<times> reminders" where
  "charge_attempt i t =
     (let t2 = snd (row_write (\<lambda>r. r\<lparr>send_attempts := Suc (send_attempts r)\<rparr>) i t)
      in (case row_of rem_id t2 i of None \<Rightarrow> 0 | Some r \<Rightarrow> send_attempts r, t2))"

definition mark_delivered :: "nat \<Rightarrow> secs \<Rightarrow> bool \<Rightarrow> reminders \<Rightarrow> bool \<times> reminders" where
  "mark_delivered i now late =
     row_write (\<lambda>r. r\<lparr>status := (if late then DELIVERED_LATE else DELIVERED),
                    delivered_at := Some now, send_attempts := 0\<rparr>) i"

definition schedule_retry :: "nat \<Rightarrow> secs \<Rightarrow> reminders \<Rightarrow> bool \<times> reminders" where
  "schedule_retry i again = row_write (\<lambda>r. r\<lparr>next_attempt_at := again, send_attempts := 0\<rparr>) i"

definition mark_missed :: "nat \<Rightarrow> secs \<Rightarrow> reminders \<Rightarrow> bool \<times> reminders" where
  "mark_missed i now =
     row_write (\<lambda>r. r\<lparr>status := MISSED, send_attempts := 0, next_attempt_at := now,
                    reported_at := None\<rparr>) i"

definition mark_abandoned :: "nat \<Rightarrow> secs \<Rightarrow> reminders \<Rightarrow> bool \<times> reminders" where
  "mark_abandoned i now =
     row_write (\<lambda>r. r\<lparr>status := ABANDONED, send_attempts := 0, next_attempt_at := now,
                    reported_at := None\<rparr>) i"

definition mark_reported :: "nat list \<Rightarrow> secs \<Rightarrow> reminders \<Rightarrow> nat \<times> reminders" where
  "mark_reported ids now t =
     (if ids = [] then (0, t)
      else (count_rows (\<lambda>r. rem_id r \<in> set ids) t,
            update_rows (\<lambda>r. rem_id r \<in> set ids)
              (\<lambda>r. r\<lparr>reported_at := Some now, send_attempts := 0\<rparr>) t))"

definition mark_surfaced :: "nat list \<Rightarrow> secs \<Rightarrow> reminders \<Rightarrow> nat \<times> reminders" where
  "mark_surfaced ids now t =
     (if ids = [] then (0, t)
      else (count_rows (\<lambda>r. rem_id r \<in> set ids) t,
            update_rows (\<lambda>r. rem_id r \<in> set ids) (\<lambda>r. r\<lparr>surfaced_at := Some now\<rparr>) t))"

definition delivered_key :: "reminder \<Rightarrow> secs \<times> nat" where
  "delivered_key r = (case delivered_at r of None \<Rightarrow> 0 | Some d \<Rightarrow> d, rem_id r)"

definition unsurfaced_deliveries :: "secs \<Rightarrow> secs \<Rightarrow> nat \<Rightarrow> reminders \<Rightarrow> reminder list" where
  "unsurfaced_deliveries now window limit t =
     take limit (rev (sort_key delivered_key
       (filter (\<lambda>r. (status r = DELIVERED \<or> status r = DELIVERED_LATE) \<and> surfaced_at r = None \<and>
                     (case delivered_at r of None \<Rightarrow> False | Some d \<Rightarrow> d \<ge> now - window))
          (rows t))))"

section \<open>Reads\<close>

definition reminder_get :: "nat \<Rightarrow> reminders \<Rightarrow> reminder option" where
  "reminder_get i t = row_of rem_id t i"

definition list_pending :: "reminder_cfg \<Rightarrow> nat option option \<Rightarrow> reminders \<Rightarrow> reminder_page" where
  \<comment> \<open>\<open>None\<close> is the default page size, \<open>Some None\<close> every pending reminder\<close>
  "list_pending cfg limit t =
     (let xs = sort_key due_key (filter is_pending (rows t));
          effective = (case limit of None \<Rightarrow> Some (page_size cfg) | Some l \<Rightarrow> l)
      in (case effective of
            None \<Rightarrow> \<lparr>page_items = xs, remainder = 0\<rparr>
          | Some n \<Rightarrow> \<lparr>page_items = take n xs, remainder = length xs - n\<rparr>))"

section \<open>The operations as steps\<close>

datatype reminder_op =
    Schedule secs str secs str str str
  | Cancel nat
  | Reinstate nat
  | Charge nat
  | Mark_Delivered nat secs bool
  | Retry nat secs
  | Mark_Missed nat secs
  | Mark_Abandoned nat secs
  | Mark_Reported "nat list" secs
  | Mark_Surfaced "nat list" secs

fun reminder_step :: "reminder_cfg \<Rightarrow> reminders \<Rightarrow> reminder_op \<Rightarrow> reminders" where
  "reminder_step cfg t (Schedule now raw due tz spec src) =
     snd (schedule cfg now raw due tz spec src t)"
| "reminder_step cfg t (Cancel i) = snd (cancel cfg i t)"
| "reminder_step cfg t (Reinstate i) = snd (reinstate cfg i t)"
| "reminder_step cfg t (Charge i) = snd (charge_attempt i t)"
| "reminder_step cfg t (Mark_Delivered i now late) = snd (mark_delivered i now late t)"
| "reminder_step cfg t (Retry i again) = snd (schedule_retry i again t)"
| "reminder_step cfg t (Mark_Missed i now) = snd (mark_missed i now t)"
| "reminder_step cfg t (Mark_Abandoned i now) = snd (mark_abandoned i now t)"
| "reminder_step cfg t (Mark_Reported ids now) = snd (mark_reported ids now t)"
| "reminder_step cfg t (Mark_Surfaced ids now) = snd (mark_surfaced ids now t)"

text \<open>
  Every step either leaves the table as it is, inserts one fresh pending row under the cap,
  or updates some rows by a function that keeps the id and the five columns of the promise
  and the source. The properties are read off this normal form.
\<close>

definition promise :: "reminder \<Rightarrow> str \<times> secs \<times> str \<times> str \<times> secs \<times> str" where
  "promise r = (rem_text r, due_at r, due_tz r, input_spec r, created_at r, source r)"

definition keeps_promise :: "(reminder \<Rightarrow> reminder) \<Rightarrow> bool" where
  "keeps_promise f \<longleftrightarrow> (\<forall>r. rem_id (f r) = rem_id r \<and> promise (f r) = promise r)"

lemma new_reminder_simps [simp]:
  "rem_id (new_reminder text due tz spec now src i) = i"
  "status (new_reminder text due tz spec now src i) = PENDING"
  "due_at (new_reminder text due tz spec now src i) = due"
  "next_attempt_at (new_reminder text due tz spec now src i) = due"
  "rem_text (new_reminder text due tz spec now src i) = text"
  "send_attempts (new_reminder text due tz spec now src i) = 0"
  by (simp_all add: new_reminder_def)

lemma snd_schedule:
  "snd (schedule cfg now raw due tz spec src t) =
     (if strip raw = [] \<or> length (strip raw) > text_length_limit cfg \<or>
         count_pending t \<ge> max_pending cfg then t
      else insert_row (new_reminder (strip raw) due tz (take (input_spec_limit cfg) spec) now src) t)"
  by (simp add: schedule_def schedule_body_def atomically_def Let_def)

lemma snd_transition:
  "snd (atomically (transition_body cfg i a b enforce) t) =
     (if enforce \<and> b = PENDING \<and> count_pending t \<ge> max_pending cfg then t
      else update_rows (\<lambda>r. rem_id r = i \<and> status r = a)
             (\<lambda>r. if b = PENDING then r\<lparr>status := b, next_attempt_at := due_at r\<rparr>
                  else r\<lparr>status := b\<rparr>) t)"
proof -
  have "update_rows (\<lambda>r. rem_id r = i \<and> status r = a) f t = t"
    if "\<not> (\<exists>r\<in>set (rows t). rem_id r = i \<and> status r = a)" for f
    using that by (intro update_rows_none) blast
  then show ?thesis
    by (auto simp: atomically_def transition_body_def Let_def)
qed

lemma snd_mark_many:
  "snd (mark_reported ids now t) =
     update_rows (\<lambda>r. rem_id r \<in> set ids) (\<lambda>r. r\<lparr>reported_at := Some now, send_attempts := 0\<rparr>) t"
  "snd (mark_surfaced ids now t) =
     update_rows (\<lambda>r. rem_id r \<in> set ids) (\<lambda>r. r\<lparr>surfaced_at := Some now\<rparr>) t"
  by (simp_all add: mark_reported_def mark_surfaced_def update_rows_def)

lemmas delivery_write_defs =
  row_write_def charge_attempt_def mark_delivered_def schedule_retry_def mark_missed_def
  mark_abandoned_def Let_def

text \<open>The eight operations that are a plain update, as the rows they touch and the change
  they make; none of them makes a row pending.\<close>

fun op_update :: "reminder_op \<Rightarrow> ((reminder \<Rightarrow> bool) \<times> (reminder \<Rightarrow> reminder)) option" where
  "op_update (Schedule _ _ _ _ _ _) = None"
| "op_update (Reinstate _) = None"
| "op_update (Cancel i) =
     Some (\<lambda>r. rem_id r = i \<and> status r = PENDING, \<lambda>r. r\<lparr>status := CANCELLED\<rparr>)"
| "op_update (Charge i) =
     Some (\<lambda>r. rem_id r = i, \<lambda>r. r\<lparr>send_attempts := Suc (send_attempts r)\<rparr>)"
| "op_update (Mark_Delivered i now late) =
     Some (\<lambda>r. rem_id r = i, \<lambda>r. r\<lparr>status := (if late then DELIVERED_LATE else DELIVERED),
       delivered_at := Some now, send_attempts := 0\<rparr>)"
| "op_update (Retry i again) =
     Some (\<lambda>r. rem_id r = i, \<lambda>r. r\<lparr>next_attempt_at := again, send_attempts := 0\<rparr>)"
| "op_update (Mark_Missed i now) =
     Some (\<lambda>r. rem_id r = i, \<lambda>r. r\<lparr>status := MISSED, send_attempts := 0,
       next_attempt_at := now, reported_at := None\<rparr>)"
| "op_update (Mark_Abandoned i now) =
     Some (\<lambda>r. rem_id r = i, \<lambda>r. r\<lparr>status := ABANDONED, send_attempts := 0,
       next_attempt_at := now, reported_at := None\<rparr>)"
| "op_update (Mark_Reported ids now) =
     Some (\<lambda>r. rem_id r \<in> set ids, \<lambda>r. r\<lparr>reported_at := Some now, send_attempts := 0\<rparr>)"
| "op_update (Mark_Surfaced ids now) =
     Some (\<lambda>r. rem_id r \<in> set ids, \<lambda>r. r\<lparr>surfaced_at := Some now\<rparr>)"

lemma op_update_step:
  "op_update op = Some (p, f) \<Longrightarrow> reminder_step cfg t op = update_rows p f t"
  by (cases op) (auto simp: delivery_write_defs snd_mark_many cancel_def snd_transition)

lemma op_update_keeps: "op_update op = Some (p, f) \<Longrightarrow> keeps_promise f"
  by (cases op) (auto simp: keeps_promise_def promise_def)

lemma op_update_not_pending:
  "op_update op = Some (p, f) \<Longrightarrow> status (f r) = PENDING \<Longrightarrow> status r = PENDING"
  by (cases op) (auto split: if_splits)

lemma op_update_cases:
  obtains (schedule) now raw due tz spec src where "op = Schedule now raw due tz spec src"
  | (reinstate) i where "op = Reinstate i"
  | (update) p f where "op_update op = Some (p, f)"
  by (cases op) auto

lemma reminder_step_shape:
  obtains (same) "reminder_step cfg t op = t"
  | (insert) msg due tz spec now src where
      "reminder_step cfg t op = insert_row (new_reminder msg due tz spec now src) t"
      and "count_pending t < max_pending cfg"
  | (reinstate) i where "reminder_step cfg t op =
        update_rows (\<lambda>r. rem_id r = i \<and> status r = CANCELLED)
          (\<lambda>r. r\<lparr>status := PENDING, next_attempt_at := due_at r\<rparr>) t"
      and "count_pending t < max_pending cfg"
  | (update) p f where "reminder_step cfg t op = update_rows p f t" and "keeps_promise f"
      and "\<forall>r. p r \<longrightarrow> status (f r) = PENDING \<longrightarrow> status r = PENDING"
proof (cases rule: op_update_cases [of op])
  case (schedule now raw due tz spec src)
  show ?thesis
  proof (cases "strip raw = [] \<or> length (strip raw) > text_length_limit cfg \<or>
      count_pending t \<ge> max_pending cfg")
    case True
    then have "reminder_step cfg t op = t" by (simp add: schedule snd_schedule)
    then show ?thesis by (rule that(1))
  next
    case False
    then have "reminder_step cfg t op = insert_row
        (new_reminder (strip raw) due tz (take (input_spec_limit cfg) spec) now src) t"
      by (simp add: schedule snd_schedule)
    then show ?thesis using False by (intro that(2)) auto
  qed
next
  case (reinstate i)
  show ?thesis
  proof (cases "count_pending t < max_pending cfg")
    case True
    have "reminder_step cfg t op =
        update_rows (\<lambda>r. rem_id r = i \<and> status r = CANCELLED)
          (\<lambda>r. r\<lparr>status := PENDING, next_attempt_at := due_at r\<rparr>) t"
      using True by (simp add: reinstate(1) reinstate_def snd_transition)
    then show ?thesis using True by (rule that(3))
  next
    case False
    then have "reminder_step cfg t op = t"
      by (simp add: reinstate(1) reinstate_def snd_transition)
    then show ?thesis by (rule that(1))
  qed
next
  case (update p f)
  then show ?thesis
    using that(4) op_update_step op_update_keeps op_update_not_pending by metis
qed

definition reminder_inv :: "reminder_cfg \<Rightarrow> reminders \<Rightarrow> bool" where
  "reminder_inv cfg t \<longleftrightarrow> wf_table rem_id t \<and> count_pending t \<le> max_pending cfg"

definition reminder_frozen ::
    "reminders \<Rightarrow> nat \<rightharpoonup> str \<times> secs \<times> str \<times> str \<times> secs \<times> str" where
  "reminder_frozen t i = map_option promise (row_of rem_id t i)"

lemma reminder_step_inv:
  assumes "reminder_inv cfg t"
  shows "reminder_inv cfg (reminder_step cfg t op)"
proof -
  have wf: "wf_table rem_id t" and le: "count_pending t \<le> max_pending cfg"
    using assms by (simp_all add: reminder_inv_def)
  show ?thesis
  proof (cases rule: reminder_step_shape [of cfg t op])
    case same
    then show ?thesis using assms by simp
  next
    case (insert msg due tz spec now src)
    then show ?thesis
      using wf by (simp add: reminder_inv_def wf_insert_row count_pending_def count_insert_row)
  next
    case (reinstate i)
    have "count_pending (reminder_step cfg t op) \<le> Suc (count_pending t)"
      unfolding reinstate(1) count_pending_def
      by (rule count_update_one [OF wf]) simp
    with reinstate wf show ?thesis by (simp add: reminder_inv_def wf_update_rows)
  next
    case (update p f)
    have "count_pending (reminder_step cfg t op) \<le> count_pending t"
      unfolding update(1) count_pending_def
      by (rule count_update_le) (use update(3) in blast)
    with update wf le show ?thesis
      by (simp add: reminder_inv_def wf_update_rows keeps_promise_def)
  qed
qed

lemma reminder_step_frozen:
  assumes "reminder_inv cfg t"
  shows "reminder_frozen t \<subseteq>\<^sub>m reminder_frozen (reminder_step cfg t op)"
proof -
  have wf: "wf_table rem_id t" using assms by (simp add: reminder_inv_def)
  have upd: "reminder_frozen (update_rows p f t) = reminder_frozen t" if "keeps_promise f" for p f
    using that
    by (auto simp: reminder_frozen_def fun_eq_iff keeps_promise_def row_of_update_rows
        option.map_comp intro!: map_option_cong)
  show ?thesis
  proof (cases rule: reminder_step_shape [of cfg t op])
    case (insert msg due tz spec now src)
    have "row_of rem_id t (next_id t) = None"
      using wf by (auto simp: row_of_None wf_table_def)
    then show ?thesis
      using wf by (auto simp: insert(1) map_le_def reminder_frozen_def row_of_insert_row dom_def)
  next
    case (reinstate i)
    then show ?thesis by (simp add: upd keeps_promise_def promise_def)
  next
    case (update p f)
    then show ?thesis by (simp add: upd)
  qed simp
qed

interpretation reminders: archive "reminder_step cfg" "reminder_inv cfg" "\<lambda>_. True" reminder_frozen
  for cfg
  by unfold_locales (auto intro: reminder_step_inv reminder_step_frozen)

text \<open>
  What the owner asked for survives everything: after any sequence of repository
  operations (scheduling, cancelling, every delivery write), a stored reminder still exists
  under its id with its text, due instant, zone, input, creation time and source unchanged.
\<close>

theorem reminder_promise_survives:
  assumes "reminder_inv cfg t" and "row_of rem_id t i = Some r"
  shows "\<exists>r'. row_of rem_id (foldl (reminder_step cfg) t ops) i = Some r' \<and> promise r' = promise r"
proof -
  have "reminder_frozen t i = Some (promise r)" by (simp add: reminder_frozen_def assms(2))
  with assms(1) have "reminder_frozen (foldl (reminder_step cfg) t ops) i = Some (promise r)"
    by (intro reminders.run_keeps) (simp_all add: list_all_iff)
  then show ?thesis by (auto simp: reminder_frozen_def)
qed

text \<open>
  The pending cap holds in every reachable table: starting from a table within the
  cap, no sequence of operations brings the number of pending reminders above it.
\<close>

theorem pending_cap_invariant:
  assumes "wf_table rem_id t" and "count_pending t \<le> max_pending cfg"
  shows "count_pending (foldl (reminder_step cfg) t ops) \<le> max_pending cfg \<and>
    wf_table rem_id (foldl (reminder_step cfg) t ops)"
  using reminders.run_inv [of cfg t ops] assms
  by (simp add: reminder_inv_def list_all_iff)

text \<open>
  Every path into \<open>pending\<close> arms the selector: a row that is pending after a step and
  was not pending before it (or did not exist) is due for its first attempt exactly at its
  due instant, so no row can report itself pending and never be selectable.
\<close>

theorem into_pending_sets_next_attempt:
  assumes "wf_table rem_id t" and "row_of rem_id (reminder_step cfg t op) i = Some r"
    and "status r = PENDING" and "status_of i t \<noteq> Some PENDING"
  shows "next_attempt_at r = due_at r"
proof (cases rule: reminder_step_shape [of cfg t op])
  case same
  then show ?thesis using assms by (simp add: status_of_def)
next
  case (insert msg due tz spec now src)
  then show ?thesis
    using assms by (auto simp: row_of_insert_row status_of_def split: if_splits)
next
  case (reinstate j)
  then show ?thesis
    using assms by (auto simp: row_of_update_rows status_of_def split: if_splits)
next
  case (update p f)
  then show ?thesis
    using assms by (auto simp: row_of_update_rows keeps_promise_def status_of_def split: if_splits)
qed

text \<open>
  The delivery selector never returns a reminder before it is due: it yields at most
  \<open>limit\<close> rows, each pending, due and past its next attempt, in order of due instant and
  id, and every eligible row it leaves out is due no earlier than every row it returns.
\<close>

theorem select_due_spec:
  "length (select_due now limit t) \<le> limit \<and>
   sorted (map due_key (select_due now limit t)) \<and>
   (\<forall>r\<in>set (select_due now limit t).
      r \<in> set (rows t) \<and> status r = PENDING \<and> due_at r \<le> now \<and> next_attempt_at r \<le> now) \<and>
   (\<forall>q\<in>set (rows t). status q = PENDING \<longrightarrow> due_at q \<le> now \<longrightarrow> next_attempt_at q \<le> now \<longrightarrow>
      q \<notin> set (select_due now limit t) \<longrightarrow>
      (\<forall>r\<in>set (select_due now limit t). due_key r \<le> due_key q))"
proof -
  let ?E = "sort_key due_key
     (filter (\<lambda>r. status r = PENDING \<and> next_attempt_at r \<le> now \<and> due_at r \<le> now) (rows t))"
  have s: "sorted (map due_key ?E)" by simp
  have sel: "select_due now limit t = take limit ?E" by (simp add: select_due_def)
  have mem: "q \<in> set ?E \<longleftrightarrow> q \<in> set (rows t) \<and> status q = PENDING \<and> due_at q \<le> now \<and>
      next_attempt_at q \<le> now" for q by auto
  have len: "length (take limit ?E) \<le> limit" by simp
  have srt: "sorted (map due_key (take limit ?E))"
    using s unfolding take_map [symmetric] by (rule sorted_wrt_take)
  have elig: "\<forall>r\<in>set (take limit ?E).
      r \<in> set (rows t) \<and> status r = PENDING \<and> due_at r \<le> now \<and> next_attempt_at r \<le> now"
  proof
    fix r assume "r \<in> set (take limit ?E)"
    then have "r \<in> set ?E" by (rule in_set_takeD)
    then show "r \<in> set (rows t) \<and> status r = PENDING \<and> due_at r \<le> now \<and> next_attempt_at r \<le> now"
      unfolding mem .
  qed
  have left: "\<forall>q\<in>set (rows t). status q = PENDING \<longrightarrow> due_at q \<le> now \<longrightarrow> next_attempt_at q \<le> now \<longrightarrow>
      q \<notin> set (take limit ?E) \<longrightarrow> (\<forall>r\<in>set (take limit ?E). due_key r \<le> due_key q)"
  proof (intro ballI impI)
    fix q r assume "q \<in> set (rows t)" "status q = PENDING" "due_at q \<le> now"
      "next_attempt_at q \<le> now" and out: "q \<notin> set (take limit ?E)"
      and r: "r \<in> set (take limit ?E)"
    then have "q \<in> set ?E" by (simp only: mem)
    from this out have "q \<in> set (drop limit ?E)" by (rule in_drop_if_not_take)
    with r show "due_key r \<le> due_key q" by (rule sorted_take_le [OF s])
  qed
  show ?thesis unfolding sel by (intro conjI; fact)
qed

section \<open>Witnesses\<close>

definition sample_reminders :: reminders where
  "sample_reminders =
     \<lparr>rows = [new_reminder [99] 100 [] [] 50 [] 1,
              (new_reminder [100] 200 [] [] 60 [] 2)\<lparr>status := CANCELLED, next_attempt_at := 900\<rparr>],
      next_id = 3\<rparr>"

definition small_cfg :: reminder_cfg where
  "small_cfg = \<lparr>max_pending = 2, text_length_limit = 500, page_size = 20, input_spec_limit = 64\<rparr>"

lemma sample_reminders_inv: "reminder_inv small_cfg sample_reminders"
  by (simp add: reminder_inv_def wf_table_def sample_reminders_def small_cfg_def count_pending_def
      count_rows_def)

lemma sample_rows:
  "row_of rem_id sample_reminders 1 = Some (new_reminder [99] 100 [] [] 50 [] 1)"
  by (simp add: sample_reminders_def row_of_def)

theorem reminder_promise_survives_witness:
  "\<exists>r'. row_of rem_id (foldl (reminder_step small_cfg) sample_reminders
      [Cancel 1, Reinstate 2, Mark_Missed 1 300]) 1 = Some r' \<and> due_at r' = 100"
proof -
  from reminder_promise_survives [OF sample_reminders_inv sample_rows]
  obtain r' where "row_of rem_id (foldl (reminder_step small_cfg) sample_reminders
      [Cancel 1, Reinstate 2, Mark_Missed 1 300]) 1 = Some r'"
    and "promise r' = promise (new_reminder [99] 100 [] [] 50 [] 1)" by blast
  then show ?thesis by (auto simp: promise_def)
qed

theorem pending_cap_invariant_witness:
  "count_pending (foldl (reminder_step small_cfg) sample_reminders
     [Reinstate 2, Schedule 70 [97] 300 [] [] []]) \<le> 2"
  using pending_cap_invariant [of sample_reminders small_cfg
      "[Reinstate 2, Schedule 70 [97] 300 [] [] []]"] sample_reminders_inv
  by (simp add: reminder_inv_def small_cfg_def)

theorem into_pending_sets_next_attempt_witness:
  "\<exists>r. row_of rem_id (reminder_step small_cfg sample_reminders (Reinstate 2)) 2 = Some r \<and>
     next_attempt_at r = 200"
proof -
  let ?r = "(new_reminder [100] 200 [] [] 60 [] 2)\<lparr>next_attempt_at := 200\<rparr>"
  have wf: "wf_table rem_id sample_reminders"
    using sample_reminders_inv by (simp add: reminder_inv_def)
  have run: "row_of rem_id (reminder_step small_cfg sample_reminders (Reinstate 2)) 2 = Some ?r"
    by (simp add: reinstate_def snd_transition sample_reminders_def small_cfg_def count_pending_def
        count_rows_def row_of_def new_reminder_def)
  have st: "status_of 2 sample_reminders \<noteq> Some PENDING"
    by (simp add: status_of_def row_of_def sample_reminders_def)
  from into_pending_sets_next_attempt [OF wf run _ st] show ?thesis
    using run by (intro exI [of _ ?r]) simp
qed

theorem select_due_spec_witness:
  "length (select_due 150 1 sample_reminders) \<le> 1 \<and> map rem_id (select_due 150 1 sample_reminders) = [1]"
proof
  show "length (select_due 150 1 sample_reminders) \<le> 1"
    using select_due_spec [of 150 1 sample_reminders] by (rule conjunct1)
  show "map rem_id (select_due 150 1 sample_reminders) = [1]"
    by (simp add: select_due_def sample_reminders_def)
qed

end
