(* ===== verification/Channel.thy ===== *)
theory Channel
  imports Prelude
begin

text \<open>
  \<open>henk/channel/base.py\<close> and \<open>henk/channel/allowlist.py\<close>: the channel-neutral values the
  adapters exchange with the core, the splitting of long texts into messages under the byte
  limit, and the owner-only allowlist. The adapters themselves (HTTP and websocket traffic)
  are not modelled.
\<close>

section \<open>Values of the contract\<close>

text \<open>\<open>SendOutcome\<close>; \<open>Sent\<close> is \<open>SendOutcome.DELIVERED\<close>.\<close>

datatype send_outcome = Sent | Partial | Failed

record approval_prompt =
  prompt_label :: str
  prompt_tool :: str
  prompt_fields :: "(str \<times> str) list"

record prompt_sent =
  sent_outcome :: send_outcome
  sent_ref :: "str option"
  too_large :: bool

record inbound_message =
  msg_sender :: str
  msg_text :: str
  msg_time :: "secs option"    \<comment> \<open>\<open>None\<close>: not a finite float\<close>
  msg_is_group :: bool
  msg_ref :: "str option"

record inbound_reaction =
  rx_sender :: str
  rx_emoji :: str
  rx_target :: "str option"
  rx_removed :: bool
  rx_is_group :: bool

datatype inbound = Message inbound_message | Reaction inbound_reaction

section \<open>The allowlist\<close>

definition make_allowlist :: "str \<Rightarrow> str option" where
  "make_allowlist owner = (if owner = [] \<or> strip owner = [] then None else Some owner)"

fun inbound_sender :: "inbound \<Rightarrow> str" where
  "inbound_sender (Message m) = msg_sender m"
| "inbound_sender (Reaction r) = rx_sender r"

fun inbound_group :: "inbound \<Rightarrow> bool" where
  "inbound_group (Message m) = msg_is_group m"
| "inbound_group (Reaction r) = rx_is_group r"

definition allows :: "str \<Rightarrow> inbound \<Rightarrow> bool" where
  "allows owner m =
     (if inbound_group m then False
      else if inbound_sender m = [] \<or> inbound_sender m \<noteq> owner then False
      else True)"

section \<open>Splitting a body\<close>

definition MAX_CODE_POINT_BYTES :: nat where "MAX_CODE_POINT_BYTES = 4"
definition DEFAULT_SAFE_LENGTH :: nat where "DEFAULT_SAFE_LENGTH = 2000"

definition utf8_width :: "nat \<Rightarrow> nat" where
  "utf8_width c = (if c < 128 then 1 else if c < 2048 then 2 else if c < 65536 then 3 else 4)"

fun byte_length :: "str \<Rightarrow> nat" where
  "byte_length [] = 0"
| "byte_length (c # cs) = utf8_width c + byte_length cs"

fun chars_within_from :: "nat \<Rightarrow> nat \<Rightarrow> str \<Rightarrow> nat" where
  "chars_within_from used limit [] = 0"
| "chars_within_from used limit (c # cs) =
     (if used + utf8_width c > limit then 0
      else Suc (chars_within_from (used + utf8_width c) limit cs))"

definition chars_within :: "str \<Rightarrow> nat \<Rightarrow> nat" where
  "chars_within body limit = chars_within_from 0 limit body"

text \<open>\<open>str.rfind\<close>: the last position at which the needle occurs, \<open>None\<close> for \<open>-1\<close>.\<close>

fun rfind :: "str \<Rightarrow> str \<Rightarrow> nat option" where
  "rfind needle [] = (if needle = [] then Some 0 else None)"
| "rfind needle (c # cs) =
     (case rfind needle cs of
        Some i \<Rightarrow> Some (Suc i)
      | None \<Rightarrow> if prefix needle (c # cs) then Some 0 else None)"

definition cut_point :: "nat \<Rightarrow> str \<Rightarrow> nat" where
  "cut_point limit remaining =
     (let width = chars_within remaining limit;
          window = take width remaining
      in case rfind [10, 10] window of
           Some i \<Rightarrow> i + 2
         | None \<Rightarrow> (case rfind [10] window of
             Some i \<Rightarrow> i + 1
           | None \<Rightarrow> (case rfind [32] window of
               Some i \<Rightarrow> i + 1
             | None \<Rightarrow> width)))"

lemma utf8_width_bounds: "1 \<le> utf8_width c" "utf8_width c \<le> MAX_CODE_POINT_BYTES"
  by (simp_all add: utf8_width_def MAX_CODE_POINT_BYTES_def)

lemma byte_length_append [simp]: "byte_length (xs @ ys) = byte_length xs + byte_length ys"
  by (induction xs) simp_all

lemma rfind_prefix: "rfind needle s = Some i \<Longrightarrow> prefix needle (drop i s)"
  by (induction needle s arbitrary: i rule: rfind.induct) (auto split: option.splits if_splits)

lemma rfind_None: "rfind [c] s = None \<longleftrightarrow> c \<notin> set s"
  by (induction s) (auto split: option.splits)

lemma chars_within_from_le: "chars_within_from n limit s \<le> length s"
  by (induction n limit s rule: chars_within_from.induct) auto

lemma chars_within_from_fits:
  "n \<le> limit \<Longrightarrow> n + byte_length (take (chars_within_from n limit s) s) \<le> limit"
proof (induction n limit s rule: chars_within_from.induct)
  case (2 used limit c cs)
  then show ?case by (fastforce simp: add.assoc)
qed simp

lemma chars_within_from_max:
  "n \<le> limit \<Longrightarrow> limit < n + byte_length s \<Longrightarrow>
     chars_within_from n limit s < length s \<and>
     limit < n + byte_length (take (Suc (chars_within_from n limit s)) s)"
proof (induction n limit s rule: chars_within_from.induct)
  case (2 used limit c cs)
  show ?case
  proof (cases "used + utf8_width c > limit")
    case False
    with 2 show ?thesis by (simp add: add.assoc)
  qed simp
qed simp

lemma cut_point_bounds:
  assumes "MAX_CODE_POINT_BYTES \<le> limit" and "s \<noteq> []"
  shows "0 < cut_point limit s" and "cut_point limit s \<le> chars_within s limit"
proof -
  let ?w = "take (chars_within s limit) s"
  have len: "length ?w \<le> chars_within s limit" by simp
  have "0 < chars_within s limit"
    using assms utf8_width_bounds(2) by (cases s) (auto simp: chars_within_def not_less intro: le_trans)
  then show "0 < cut_point limit s"
    by (auto simp: cut_point_def Let_def split: option.splits)
  have at_end: "i + length needle \<le> length ?w" if "rfind needle ?w = Some i" "needle \<noteq> []" for needle i
    using prefix_length_le [OF rfind_prefix [OF that(1)]] that(2) by (cases needle) auto
  show "cut_point limit s \<le> chars_within s limit"
    using at_end [of "[10, 10]"] at_end [of "[10]"] at_end [of "[32]"] len
    by (auto simp: cut_point_def Let_def split: option.splits)
qed

text \<open>The \<open>while\<close> loop with the append after it; the guard on the limit is the check that
  raises before the loop starts.\<close>

function split_loop :: "nat \<Rightarrow> str \<Rightarrow> str list" where
  "split_loop limit remaining =
     (if limit < MAX_CODE_POINT_BYTES \<or> byte_length remaining \<le> limit
      then (if remaining = [] then [] else [remaining])
      else (let cut = cut_point limit remaining
            in take cut remaining # split_loop limit (drop cut remaining)))"
  by pat_completeness auto
termination
proof (relation "measure (\<lambda>(limit, remaining). length remaining)")
  fix limit cut and remaining :: str
  assume "\<not> (limit < MAX_CODE_POINT_BYTES \<or> byte_length remaining \<le> limit)"
    and "cut = cut_point limit remaining"
  then show "((limit, drop cut remaining), limit, remaining)
      \<in> measure (\<lambda>(limit, remaining). length remaining)"
    using cut_point_bounds(1) [of limit remaining] by (cases remaining) auto
qed simp

declare split_loop.simps [simp del]

definition split_message :: "str \<Rightarrow> nat \<Rightarrow> str list option" where
  \<comment> \<open>\<open>None\<close> where the code raises \<open>ValueError\<close>\<close>
  "split_message body limit =
     (if limit < MAX_CODE_POINT_BYTES then None
      else if body = [] then Some []
      else if byte_length body \<le> limit then Some [body]
      else Some (split_loop limit body))"

lemma split_loop_eq:
  assumes "MAX_CODE_POINT_BYTES \<le> limit"
  shows "split_message body limit = Some (split_loop limit body)"
  using assms by (simp add: split_message_def split_loop.simps [of limit body])

lemma window_fits: "byte_length (take (chars_within s limit) s) \<le> limit"
  using chars_within_from_fits [of 0 limit s] by (simp add: chars_within_def)

lemma byte_length_take_mono: "m \<le> n \<Longrightarrow> byte_length (take m s) \<le> byte_length (take n s)"
proof -
  assume "m \<le> n"
  then have "take n s = take m s @ take (n - m) (drop m s)" by (simp add: take_add [symmetric])
  then show ?thesis by simp
qed

lemma split_loop_spec:
  assumes "MAX_CODE_POINT_BYTES \<le> limit"
  shows "concat (split_loop limit s) = s \<and>
    (\<forall>chunk\<in>set (split_loop limit s). chunk \<noteq> [] \<and> byte_length chunk \<le> limit)"
  using assms
proof (induction limit s rule: split_loop.induct)
  case (1 limit s)
  show ?case
  proof (cases "byte_length s \<le> limit")
    case True
    then show ?thesis by (simp add: split_loop.simps [of limit s])
  next
    case False
    then have ne: "s \<noteq> []" by auto
    let ?c = "cut_point limit s"
    note c = cut_point_bounds [OF 1(2) ne]
    have "byte_length (take ?c s) \<le> limit"
      using byte_length_take_mono [OF c(2), of s] window_fits [of s limit] by (rule le_trans)
    moreover have "take ?c s \<noteq> []" using c(1) ne by simp
    moreover have "split_loop limit s = take ?c s # split_loop limit (drop ?c s)"
      using False 1(2) by (simp add: split_loop.simps [of limit s] Let_def)
    ultimately show ?thesis using 1(1) [OF _ refl 1(2)] False 1(2) by simp
  qed
qed


lemma cut_boundary:
  assumes "MAX_CODE_POINT_BYTES \<le> limit" and "limit < byte_length s"
  shows "last (take (cut_point limit s) s) \<in> {10, 32} \<or>
    (set (take (cut_point limit s) s) \<inter> {10, 32} = {} \<and>
      limit < byte_length (take (Suc (cut_point limit s)) s))"
proof -
  let ?n = "chars_within s limit"
  let ?w = "take ?n s"
  have ne: "s \<noteq> []" using assms(2) by auto
  have max: "limit < byte_length (take (Suc ?n) s)"
    using chars_within_from_max [of 0 limit s] assms(2) by (simp add: chars_within_def)
  have ends: "last (take (i + length nd) s) = last nd" if "rfind nd ?w = Some i" "nd \<noteq> []" for nd i
  proof -
    have "prefix nd (drop i ?w)" by (rule rfind_prefix [OF that(1)])
    then obtain rest where r: "drop i ?w = nd @ rest" by (auto elim: prefixE)
    have le: "i + length nd \<le> length ?w"
      using arg_cong [OF r, of length] that(2) by (cases nd) auto
    have "i + length nd \<le> ?n" using le by simp
    then have "take (i + length nd) s = take (i + length nd) ?w" by (simp add: min_absorb1)
    also have "\<dots> = take i ?w @ take (length nd) (drop i ?w)" by (rule take_add)
    also have "\<dots> = take i ?w @ nd" unfolding r by simp
    finally show ?thesis using that(2) by simp
  qed
  show ?thesis
  proof (cases "rfind [10, 10] ?w")
    case None
    show ?thesis
    proof (cases "rfind [10] ?w")
      case nl: None
      show ?thesis
      proof (cases "rfind [32] ?w")
        case sp: None
        have "cut_point limit s = ?n"
          using None nl sp by (simp add: cut_point_def Let_def)
        then show ?thesis using max nl sp by (simp add: rfind_None)
      next
        case (Some i)
        have "cut_point limit s = i + 1" using None nl Some by (simp add: cut_point_def Let_def)
        then show ?thesis using ends [OF Some] by simp
      qed
    next
      case (Some i)
      have "cut_point limit s = i + 1" using None Some by (simp add: cut_point_def Let_def)
      then show ?thesis using ends [OF Some] by simp
    qed
  next
    case (Some i)
    have "cut_point limit s = i + 2" using Some by (simp add: cut_point_def Let_def)
    then show ?thesis using ends [OF Some] by simp
  qed
qed

text \<open>
  Cuts fall at natural boundaries: every chunk of a split text but the last ends at a
  newline or a space, unless the window held neither and the chunk is as long as the byte
  limit allows (one more character of the text would exceed it).
\<close>

theorem split_cuts_at_boundaries:
  assumes "split_message body limit = Some (before @ chunk # after)" and "after \<noteq> []"
  shows "last chunk \<in> {10, 32} \<or>
    (set chunk \<inter> {10, 32} = {} \<and> limit < byte_length (chunk @ [hd (concat after)]))"
proof -
  have lim: "MAX_CODE_POINT_BYTES \<le> limit"
    using assms(1) by (auto simp: split_message_def split: if_splits)
  have "split_loop limit body = before @ chunk # after"
    using assms(1) by (simp add: split_loop_eq [OF lim])
  then show ?thesis using assms(2) lim
  proof (induction limit body arbitrary: before rule: split_loop.induct)
    case (1 limit s)
    let ?c = "cut_point limit s"
    have big: "\<not> (limit < MAX_CODE_POINT_BYTES \<or> byte_length s \<le> limit)"
    proof
      assume "limit < MAX_CODE_POINT_BYTES \<or> byte_length s \<le> limit"
      with 1(2,3) show False
        by (cases before) (auto simp: split_loop.simps [of limit s] split: if_splits)
    qed
    have eq: "split_loop limit s = take ?c s # split_loop limit (drop ?c s)"
      using big by (simp add: split_loop.simps [of limit s] Let_def)
    show ?case
    proof (cases before)
      case Nil
      with 1(2) eq have chunk: "chunk = take ?c s" and after: "split_loop limit (drop ?c s) = after"
        by simp_all
      have rest: "concat after = drop ?c s" using split_loop_spec [OF 1(4), of "drop ?c s"] after by simp
      have "drop ?c s \<noteq> []" using after 1(3) 1(4) by (auto simp: split_loop.simps [of limit "[]"])
      then have "take (Suc ?c) s = chunk @ [hd (concat after)]"
        unfolding rest chunk by (simp add: take_Suc_conv_app_nth hd_drop_conv_nth not_le)
      with cut_boundary [OF 1(4), of s] big show ?thesis by (auto simp: chunk)
    next
      case (Cons b bs)
      with 1(2) eq have "split_loop limit (drop ?c s) = bs @ chunk # after" by simp
      from 1(1) [OF big refl this 1(3,4)] show ?thesis .
    qed
  qed
qed

text \<open>
  Only the owner gets through: what passes the allowlist was sent by the configured
  owner in a direct conversation and its sender is not blank, and an allowlist cannot be
  built from a blank identity.
\<close>

theorem allowlist_owner_only:
  "make_allowlist owner = Some w \<Longrightarrow> allows w m \<longleftrightarrow>
     inbound_sender m = owner \<and> \<not> inbound_group m \<and> strip (inbound_sender m) \<noteq> []"
  by (auto simp: make_allowlist_def allows_def split: if_splits)

section \<open>Witnesses\<close>

lemma split_sample:
  "split_message [97, 98, 32, 99, 100, 101] 4 = Some ([] @ [97, 98, 32] # [[99, 100, 101]])"
  by (simp add: split_message_def split_loop.simps cut_point_def chars_within_def utf8_width_def
      MAX_CODE_POINT_BYTES_def Let_def)


theorem split_cuts_at_boundaries_witness: "last [97, 98, 32 :: nat] \<in> {10, 32}"
  using split_cuts_at_boundaries [OF split_sample] by simp

theorem allowlist_owner_only_witness:
  "\<not> allows [43, 49] (Message \<lparr>msg_sender = [43, 50], msg_text = [], msg_time = Some 0, msg_is_group = False, msg_ref = None\<rparr>)"
proof -
  have "make_allowlist [43, 49] = Some [43, 49]"
    by (simp add: make_allowlist_def strip_def is_space_def)
  from allowlist_owner_only [OF this] show ?thesis by simp
qed

end
