(* ===== verification/Tool_Registry.thy ===== *)
theory Tool_Registry
  imports Channel
begin

text \<open>
  \<open>henk/tools/base.py\<close>: classified tools and the registry that refuses a tool without a
  classification and a mutating tool without a tier, a scope or an owner-facing label. A
  class attribute that is not of the declared Python type is \<open>None\<close>.
\<close>

section \<open>Tools\<close>

datatype tool_class = READ_ONLY | NOTIFY_ONLY | MUTATING
datatype auth_tier = STANDING | PER_INSTANCE
datatype turn_type = OWNER | EVENT

record tool =
  tool_name :: str
  class_name :: str
  tool_cls :: "tool_class option"
  authorization :: "auth_tier option"
  turn_scope :: "turn_type option list"
  raises_taint :: bool
  label :: "str option"
  properties :: "str list option"   \<comment> \<open>the keys of \<open>parameters["properties"]\<close>, when a dict\<close>

definition DEFAULT_TURN_SCOPE :: "turn_type option list" where
  "DEFAULT_TURN_SCOPE = [Some OWNER]"

section \<open>The registry\<close>

datatype registry_error =
    No_Class str
  | No_Tier str
  | No_Scope str
  | No_Label str
  | Duplicate str

type_synonym registry = "(str \<times> tool) list"   \<comment> \<open>a dict, in insertion order\<close>

definition registered_name :: "tool \<Rightarrow> str" where
  "registered_name t = (if tool_name t = [] then class_name t else tool_name t)"

definition names :: "registry \<Rightarrow> str list" where
  "names reg = map fst reg"

definition register :: "tool \<Rightarrow> registry \<Rightarrow> registry_error + registry" where
  "register t reg =
     (let name = registered_name t
      in if tool_cls t = None then Inl (No_Class name)
         else if tool_cls t = Some MUTATING \<and> authorization t = None then Inl (No_Tier name)
         else if tool_cls t = Some MUTATING \<and> (turn_scope t = [] \<or> None \<in> set (turn_scope t))
           then Inl (No_Scope name)
         else if tool_cls t = Some MUTATING \<and>
             (case label t of None \<Rightarrow> True | Some l \<Rightarrow> strip l = []) then Inl (No_Label name)
         else if name \<in> set (names reg) then Inl (Duplicate name)
         else Inr (reg @ [(name, t)]))"

definition get_tool :: "str \<Rightarrow> registry \<Rightarrow> tool option" where
  "get_tool name reg = map_of reg name"

definition mutating :: "registry \<Rightarrow> tool list" where
  "mutating reg = filter (\<lambda>t. tool_cls t = Some MUTATING) (map snd reg)"

definition has_mutating :: "registry \<Rightarrow> bool" where
  "has_mutating reg \<longleftrightarrow> (\<exists>t\<in>set (map snd reg). tool_cls t = Some MUTATING)"

text \<open>A run of registrations; a refused tool leaves the registry as it was.\<close>

definition register_step :: "registry \<Rightarrow> tool \<Rightarrow> registry" where
  "register_step reg t = (case register t reg of Inl _ \<Rightarrow> reg | Inr reg' \<Rightarrow> reg')"

definition well_declared :: "tool \<Rightarrow> bool" where
  "well_declared t \<longleftrightarrow>
     tool_cls t \<noteq> None \<and>
     (tool_cls t = Some MUTATING \<longrightarrow>
        authorization t \<noteq> None \<and> turn_scope t \<noteq> [] \<and> None \<notin> set (turn_scope t) \<and>
        (\<exists>l. label t = Some l \<and> strip l \<noteq> []))"

definition registry_ok :: "registry \<Rightarrow> bool" where
  "registry_ok reg \<longleftrightarrow>
     distinct (names reg) \<and> (\<forall>(n, t)\<in>set reg. n = registered_name t \<and> well_declared t)"

lemma register_ok:
  "register t reg = Inr reg' \<Longrightarrow>
     reg' = reg @ [(registered_name t, t)] \<and> well_declared t \<and> registered_name t \<notin> set (names reg)"
  by (auto simp: register_def Let_def well_declared_def split: if_splits option.splits)

lemma register_step_ok: "registry_ok reg \<Longrightarrow> registry_ok (register_step reg t)"
  by (cases "register t reg")
    (auto simp: register_step_def registry_ok_def names_def dest!: register_ok)

interpretation registration: step_system register_step registry_ok "\<lambda>_. True"
  by unfold_locales (rule register_step_ok)

text \<open>
  Whatever tools a start-up offers, and in whatever order, the registry it ends with
  has no duplicate name, and every tool in it is classified; a mutating one also has a
  tier, a non-empty scope of turn types and a label that is not blank, and looking a
  registered name up returns a tool declared under it.
\<close>

theorem registry_is_well_declared:
  "registry_ok (foldl register_step [] tools) \<and>
   (\<forall>n \<in> set (names (foldl register_step [] tools)).
      \<exists>t. get_tool n (foldl register_step [] tools) = Some t \<and> registered_name t = n \<and>
          well_declared t)"
proof -
  let ?reg = "foldl register_step [] tools"
  have ok: "registry_ok ?reg"
    by (rule registration.run_inv) (simp_all add: registry_ok_def names_def list_all_iff)
  have "\<exists>t. get_tool n ?reg = Some t \<and> registered_name t = n \<and> well_declared t"
    if "n \<in> set (names ?reg)" for n
  proof -
    from that obtain t where "(n, t) \<in> set ?reg" by (auto simp: names_def)
    with ok show ?thesis
      by (intro exI [of _ t]) (auto simp: registry_ok_def names_def get_tool_def)
  qed
  with ok show ?thesis by blast
qed

definition write_tool :: tool where
  "write_tool =
     \<lparr>tool_name = [119], class_name = [87], tool_cls = Some MUTATING,
      authorization = Some PER_INSTANCE, turn_scope = DEFAULT_TURN_SCOPE, raises_taint = False,
      label = Some [87], properties = Some [[97]]\<rparr>"

theorem registry_is_well_declared_witness:
  "get_tool [119] (foldl register_step [] [write_tool\<lparr>label := None\<rparr>, write_tool, write_tool]) =
     Some write_tool"
proof -
  let ?reg = "foldl register_step [] [write_tool\<lparr>label := None\<rparr>, write_tool, write_tool]"
  have reg: "?reg = [([119], write_tool)]"
    by (simp add: register_step_def register_def Let_def write_tool_def registered_name_def names_def
        DEFAULT_TURN_SCOPE_def strip_def is_space_def)
  then have "[119] \<in> set (names ?reg)" by (simp add: names_def)
  then have "\<exists>t. get_tool [119] ?reg = Some t"
    using registry_is_well_declared [of "[write_tool\<lparr>label := None\<rparr>, write_tool, write_tool]"]
    by blast
  then show ?thesis unfolding reg by (simp add: get_tool_def)
qed

end
