(* ===== verification/Gate.thy ===== *)
theory Gate
  imports Tool_Registry
begin

text \<open>
  \<open>henk/gate/approval.py\<close>: the authorization gate. \<open>authorize\<close> is a coroutine with three
  suspension points (the send of the prompt, the wait for the owner, the outcome edit), so
  it is cut there: \<open>authorize_start\<close> runs to the first await and leaves a flight, and
  \<open>prompt_returns\<close>, \<open>wait_returns\<close>, \<open>edit_returns\<close> resume it. Between them anything else
  may happen to the gate, so a history is a list of events (\<open>gate_event\<close>).
\<close>

section \<open>Outcomes, decisions, receipts\<close>

datatype approval_outcome =
    AUTHORIZED | APPROVED | DENIED | CANCELLED_APPROVAL | TIMEOUT | SUPPRESSED | OUT_OF_SCOPE
  | REJECTED_BUSY

definition EXECUTING_OUTCOMES :: "approval_outcome set" where
  "EXECUTING_OUTCOMES = {AUTHORIZED, APPROVED}"

datatype classification = APPROVE | DENY | UNRELATED | IGNORED

datatype answered_by = By_Reaction | By_Keyword

text \<open>The model-facing reasons, one constructor per text of the code.\<close>

datatype reason =
    No_Reason
  | Event_Turn_Reason
  | Tool_Taint_Reason str
  | Incident_Taint_Reason
  | Not_Scoped_Reason str turn_type
  | Suppressed_Reason
  | Undeclared_Reason str str
  | Busy_Reason
  | Prompt_Too_Large_Reason
  | Prompt_Not_Sent_Reason
  | Denied_Reason
  | Unrelated_Reason
  | Timeout_Reason

datatype receipt_detail =
    Taint_Raised_By str
  | Undeclared_Argument
  | Prompt_Too_Large
  | Answered answered_by

record turn_context =
  turn_kind :: turn_type
  announceable :: bool
  tainted :: bool
  taint_source :: "str option"

definition UNFRAMED_CONTEXT :: turn_context where
  "UNFRAMED_CONTEXT =
     \<lparr>turn_kind = OWNER, announceable = True, tainted = False, taint_source = None\<rparr>"

record gate_decision =
  decided :: approval_outcome
  reference :: nat          \<comment> \<open>the \<open>n\<close> of \<open>appr-n\<close>; 0 is the empty reference\<close>
  because :: reason

definition permits :: "gate_decision \<Rightarrow> bool" where
  "permits d \<longleftrightarrow> decided d \<in> EXECUTING_OUTCOMES"

record gate_receipt =
  rc_tool :: str
  rc_tier :: "auth_tier option"
  rc_outcome :: approval_outcome
  rc_ref :: nat
  rc_turn :: turn_type
  rc_detail :: "receipt_detail option"

section \<open>Arguments and prompts\<close>

datatype arg_value = Text_Value str | Other_Value str   \<comment> \<open>a string, or the \<open>repr\<close> of anything else\<close>

type_synonym arguments = "(str \<times> arg_value) list"

definition ARGUMENT_MAX_CHARS :: nat where "ARGUMENT_MAX_CHARS = 200"

fun shown :: "arg_value \<Rightarrow> str" where
  "shown (Text_Value s) = s"
| "shown (Other_Value s) = s"

definition bound_argument :: "arg_value \<Rightarrow> str" where
  "bound_argument v =
     (let flat = join [32] (split_ws (shown v))
      in if length flat > ARGUMENT_MAX_CHARS
         then take ARGUMENT_MAX_CHARS flat @ [8230] @ cps '' (truncated, '' @
                decimal (length flat - ARGUMENT_MAX_CHARS) @ cps '' more chars)''
         else flat)"

definition undeclared_key :: "tool \<Rightarrow> arguments \<Rightarrow> str option" where
  "undeclared_key t args =
     find (\<lambda>k. k \<notin> set (case properties t of None \<Rightarrow> [] | Some ps \<Rightarrow> ps)) (map fst args)"

definition build_prompt :: "tool \<Rightarrow> arguments \<Rightarrow> approval_prompt" where
  "build_prompt t args =
     \<lparr>prompt_label = (case label t of None \<Rightarrow> [] | Some l \<Rightarrow> l), prompt_tool = tool_name t,
      prompt_fields = map (\<lambda>(k, v). (k, bound_argument v)) args\<rparr>"

section \<open>The owner's answers\<close>

definition APPROVE_KEYWORDS :: "str list" where
  "APPROVE_KEYWORDS = [cps ''yes'', cps ''approve'']"

definition DENY_KEYWORDS :: "str list" where
  "DENY_KEYWORDS = [cps ''no'', cps ''deny'']"

definition classify :: "str \<Rightarrow> classification" where
  "classify msg =
     (let token = lower (strip msg)
      in if token \<in> set APPROVE_KEYWORDS then APPROVE
         else if token \<in> set DENY_KEYWORDS then DENY
         else UNRELATED)"

definition APPROVE_REACTION :: str where "APPROVE_REACTION = [128077]"
definition DENY_REACTION :: str where "DENY_REACTION = [128078]"

definition is_modifier :: "nat \<Rightarrow> bool" where
  "is_modifier c \<longleftrightarrow> (127995 \<le> c \<and> c < 128000) \<or> c = 65039"

definition classify_reaction :: "str \<Rightarrow> classification" where
  "classify_reaction emoji =
     (let bare = filter (\<lambda>c. \<not> is_modifier c) emoji
      in if bare = APPROVE_REACTION then APPROVE
         else if bare = DENY_REACTION then DENY
         else IGNORED)"

section \<open>State\<close>

text \<open>\<open>_Pending\<close>: \<open>answer\<close> is the future's result, \<open>None\<close> while it is not done.\<close>

record pending =
  pend_ref :: nat
  prompt_ref :: "str option"
  answer :: "approval_outcome option"
  answered_how :: "answered_by option"

text \<open>
  An invocation of \<open>authorize\<close> that is suspended: its tool, arguments, reference and context
  (locals of the coroutine), whether a turn framed it when it started, and where it waits.
\<close>

datatype stage =
    Sending
  | Waiting "str option"              \<comment> \<open>the reference \<open>send_prompt\<close> returned\<close>
  | Editing gate_decision             \<comment> \<open>decided, receipt written, outcome edit in flight\<close>

record flight =
  fl_ref :: nat
  fl_tool :: tool
  fl_args :: arguments
  fl_ctx :: turn_context
  fl_framed :: bool
  fl_stage :: stage

record returned =
  ret_tool :: tool
  ret_ctx :: turn_context
  ret_decision :: gate_decision

text \<open>
  The gate with what it has put out: \<open>receipts\<close> are the calls of \<open>report\<close> (best effort from
  there on), \<open>edits\<close> the outcome edits asked of the channel, \<open>decisions\<close> the values its
  \<open>authorize\<close> calls have returned.
\<close>

record gate =
  demote_standing :: bool
  ctx :: "turn_context option"
  next_ref :: nat
  slot :: "pending option"
  flights :: "flight list"
  receipts_out :: "gate_receipt list"
  edits :: "(str \<times> str \<times> approval_prompt) list"
  decisions :: "returned list"

definition new_gate :: "bool \<Rightarrow> gate" where
  "new_gate demote =
     \<lparr>demote_standing = demote, ctx = None, next_ref = 1, slot = None, flights = [],
      receipts_out = [], edits = [], decisions = []\<rparr>"

section \<open>Operations\<close>

definition enter_turn :: "turn_context \<Rightarrow> gate \<Rightarrow> gate" where
  "enter_turn c g = g\<lparr>ctx := Some c\<rparr>"

definition exit_turn :: "gate \<Rightarrow> turn_context option \<times> gate" where
  "exit_turn g = (ctx g, g\<lparr>ctx := None\<rparr>)"

definition has_pending :: "gate \<Rightarrow> bool" where
  "has_pending g \<longleftrightarrow> slot g \<noteq> None"

definition effective_tier :: "gate \<Rightarrow> tool \<Rightarrow> auth_tier option" where
  "effective_tier g t =
     (if demote_standing g \<and> authorization t = Some STANDING then Some PER_INSTANCE
      else authorization t)"

definition scope_denial_reason :: "tool \<Rightarrow> turn_context \<Rightarrow> reason option" where
  "scope_denial_reason t c =
     (if Some EVENT \<notin> set (turn_scope t) \<and> turn_kind c = EVENT then Some Event_Turn_Reason
      else if Some EVENT \<notin> set (turn_scope t) \<and> tainted c then
        Some (case taint_source c of Some s \<Rightarrow> Tool_Taint_Reason s | None \<Rightarrow> Incident_Taint_Reason)
      else if Some (turn_kind c) \<notin> set (turn_scope t) then
        Some (Not_Scoped_Reason (tool_name t) (turn_kind c))
      else None)"

text \<open>\<open>_raise_taint\<close>: taint the context the gate holds now, unless the turn has ended.\<close>

definition raise_taint :: "tool \<Rightarrow> bool \<Rightarrow> gate \<Rightarrow> gate" where
  "raise_taint t framed g =
     (if \<not> raises_taint t then g
      else if ctx g = None \<and> framed then g
      else (let c = (case ctx g of None \<Rightarrow> UNFRAMED_CONTEXT | Some c \<Rightarrow> c)
            in if tainted c then g
               else g\<lparr>ctx := Some (c\<lparr>tainted := True, taint_source := Some (tool_name t)\<rparr>)\<rparr>))"

text \<open>\<open>_resolve\<close>: one receipt, and the decision it reports.\<close>

definition resolve ::
    "tool \<Rightarrow> approval_outcome \<Rightarrow> nat \<Rightarrow> turn_context \<Rightarrow> reason \<Rightarrow> receipt_detail option \<Rightarrow>
     gate \<Rightarrow> gate_decision \<times> gate" where
  "resolve t oc ref c why detail g =
     (\<lparr>decided = oc, reference = ref, because = why\<rparr>,
      g\<lparr>receipts_out := receipts_out g @
          [\<lparr>rc_tool = tool_name t, rc_tier = authorization t, rc_outcome = oc, rc_ref = ref,
            rc_turn = turn_kind c, rc_detail = detail\<rparr>]\<rparr>)"

definition return_decision :: "tool \<Rightarrow> turn_context \<Rightarrow> gate_decision \<times> gate \<Rightarrow> gate" where
  "return_decision t c dg =
     (snd dg)\<lparr>decisions := decisions (snd dg) @
        [\<lparr>ret_tool = t, ret_ctx = c, ret_decision = fst dg\<rparr>]\<rparr>"

definition scope_detail :: "tool \<Rightarrow> turn_context \<Rightarrow> receipt_detail option" where
  "scope_detail t c =
     (if turn_kind c = OWNER \<and> Some EVENT \<notin> set (turn_scope t) then
        map_option Taint_Raised_By (taint_source c)
      else None)"

text \<open>\<open>authorize\<close> up to its first await.\<close>

definition authorize_start :: "tool \<Rightarrow> arguments \<Rightarrow> gate \<Rightarrow> gate" where
  "authorize_start t args g =
     (let framed = (ctx g \<noteq> None);
          c = (case ctx g of None \<Rightarrow> UNFRAMED_CONTEXT | Some c \<Rightarrow> c)
      in if tool_cls t = Some READ_ONLY \<or> tool_cls t = Some NOTIFY_ONLY then
           return_decision t c
             (\<lparr>decided = APPROVED, reference = 0, because = No_Reason\<rparr>, raise_taint t framed g)
         else (let ref = next_ref g; g1 = g\<lparr>next_ref := Suc ref\<rparr>
           in case scope_denial_reason t c of
                Some why \<Rightarrow>
                  return_decision t c (resolve t OUT_OF_SCOPE ref c why (scope_detail t c) g1)
              | None \<Rightarrow>
                  if effective_tier g t = Some STANDING then
                    (let (d, g2) = resolve t AUTHORIZED ref c No_Reason None g1
                     in return_decision t c (d, raise_taint t framed g2))
                  else if turn_kind c = EVENT \<and> \<not> announceable c then
                    return_decision t c (resolve t SUPPRESSED ref c Suppressed_Reason None g1)
                  else (case undeclared_key t args of
                      Some k \<Rightarrow> return_decision t c
                        (resolve t CANCELLED_APPROVAL ref c
                           (Undeclared_Reason (bound_argument (Text_Value k)) (tool_name t))
                           (Some Undeclared_Argument) g1)
                    | None \<Rightarrow>
                        if slot g \<noteq> None then
                          return_decision t c (resolve t REJECTED_BUSY ref c Busy_Reason None g1)
                        else g1\<lparr>slot := Some \<lparr>pend_ref = ref, prompt_ref = None, answer = None,
                                              answered_how = None\<rparr>,
                                flights := flights g @ [\<lparr>fl_ref = ref, fl_tool = t, fl_args = args,
                                  fl_ctx = c, fl_framed = framed, fl_stage = Sending\<rparr>]\<rparr>)))"

definition find_flight :: "nat \<Rightarrow> gate \<Rightarrow> flight option" where
  "find_flight ref g = find (\<lambda>f. fl_ref f = ref) (flights g)"

definition drop_flight :: "nat \<Rightarrow> gate \<Rightarrow> gate" where
  "drop_flight ref g = g\<lparr>flights := filter (\<lambda>f. fl_ref f \<noteq> ref) (flights g)\<rparr>"

definition set_stage :: "nat \<Rightarrow> stage \<Rightarrow> gate \<Rightarrow> gate" where
  "set_stage ref st g =
     g\<lparr>flights := map (\<lambda>f. if fl_ref f = ref then f\<lparr>fl_stage := st\<rparr> else f) (flights g)\<rparr>"

fun outcome_verb :: "approval_outcome \<Rightarrow> str" where
  "outcome_verb APPROVED = cps ''Approved''"
| "outcome_verb DENIED = cps ''Denied''"
| "outcome_verb CANCELLED_APPROVAL = cps ''Cancelled''"
| "outcome_verb TIMEOUT = cps ''Timed out''"
| "outcome_verb _ = []"

fun outcome_reason :: "approval_outcome \<Rightarrow> reason" where
  "outcome_reason DENIED = Denied_Reason"
| "outcome_reason CANCELLED_APPROVAL = Unrelated_Reason"
| "outcome_reason TIMEOUT = Timeout_Reason"
| "outcome_reason _ = No_Reason"

text \<open>
  The last steps of \<open>authorize\<close> once the decision is returned: the flight is over, and a
  permitted source taints the context before its tool can run.
\<close>

definition finish :: "flight \<Rightarrow> gate_decision \<Rightarrow> gate \<Rightarrow> gate" where
  "finish f d g =
     (let g1 = drop_flight (fl_ref f) g;
          g2 = (if permits d then raise_taint (fl_tool f) (fl_framed f) g1 else g1)
      in return_decision (fl_tool f) (fl_ctx f) (d, g2))"

text \<open>\<open>send_prompt\<close> comes back (\<open>None\<close> when it raised).\<close>

definition prompt_returns :: "nat \<Rightarrow> prompt_sent option \<Rightarrow> gate \<Rightarrow> gate" where
  "prompt_returns ref sent g =
     (case find_flight ref g of
        Some f \<Rightarrow>
          (if fl_stage f \<noteq> Sending then g
           else (case sent of
               Some s \<Rightarrow>
                 if sent_outcome s = Sent then
                   set_stage ref (Waiting (sent_ref s))
                     (g\<lparr>slot := map_option (\<lambda>p. p\<lparr>prompt_ref := sent_ref s\<rparr>) (slot g)\<rparr>)
                 else (let (d, g2) = resolve (fl_tool f) CANCELLED_APPROVAL ref (fl_ctx f)
                           (if too_large s then Prompt_Too_Large_Reason else Prompt_Not_Sent_Reason)
                           (if too_large s then Some Prompt_Too_Large else None) (g\<lparr>slot := None\<rparr>)
                       in finish f d g2)
             | None \<Rightarrow> (let (d, g2) = resolve (fl_tool f) CANCELLED_APPROVAL ref (fl_ctx f)
                           Prompt_Not_Sent_Reason None (g\<lparr>slot := None\<rparr>)
                       in finish f d g2)))
      | None \<Rightarrow> g)"

text \<open>
  The wait ends, by the future's result or, when \<open>timed_out\<close>, by the timeout (which may fire
  even though an answer arrived in the same instant): the slot is released, the receipt
  written, and the prompt edited when the channel gave a reference.
\<close>

definition decide_wait :: "flight \<Rightarrow> str option \<Rightarrow> approval_outcome \<Rightarrow> answered_by option \<Rightarrow> gate \<Rightarrow> gate" where
  "decide_wait f pref oc how g =
     (let detail = (if oc = APPROVED \<or> oc = DENIED then map_option Answered how else None);
          (d, g2) = resolve (fl_tool f) oc (fl_ref f) (fl_ctx f) (outcome_reason oc) detail
                      (g\<lparr>slot := None\<rparr>)
      in (case pref of
            None \<Rightarrow> finish f d g2
          | Some r \<Rightarrow> set_stage (fl_ref f) (Editing d)
              (g2\<lparr>edits := edits g2 @ [(r, outcome_verb oc, build_prompt (fl_tool f) (fl_args f))]\<rparr>)))"

definition wait_returns :: "nat \<Rightarrow> bool \<Rightarrow> gate \<Rightarrow> gate" where
  "wait_returns ref timed_out g =
     (case find_flight ref g of
        Some f \<Rightarrow>
          (case fl_stage f of
             Waiting pref \<Rightarrow>
               (case slot g of
                  Some p \<Rightarrow>
                    if timed_out then decide_wait f pref TIMEOUT (answered_how p) g
                    else (case answer p of
                        Some oc \<Rightarrow> decide_wait f pref oc (answered_how p) g
                      | None \<Rightarrow> g)
                | None \<Rightarrow> g)
           | _ \<Rightarrow> g)
      | None \<Rightarrow> g)"

definition edit_returns :: "nat \<Rightarrow> gate \<Rightarrow> gate" where
  "edit_returns ref g =
     (case find_flight ref g of
        Some f \<Rightarrow> (case fl_stage f of Editing d \<Rightarrow> finish f d g | _ \<Rightarrow> g)
      | None \<Rightarrow> g)"

text \<open>The turn is cancelled at an await: the \<open>finally\<close> releases the slot, no decision returns.\<close>

definition abort :: "nat \<Rightarrow> gate \<Rightarrow> gate" where
  "abort ref g =
     (case find_flight ref g of
        Some f \<Rightarrow> (case fl_stage f of
            Editing d \<Rightarrow> drop_flight ref g
          | _ \<Rightarrow> drop_flight ref (g\<lparr>slot := None\<rparr>))
      | None \<Rightarrow> g)"

definition set_answer :: "approval_outcome \<Rightarrow> answered_by option \<Rightarrow> pending \<Rightarrow> pending" where
  "set_answer oc how p = (if answer p \<noteq> None then p else p\<lparr>answer := Some oc, answered_how := how\<rparr>)"

definition deliver_text :: "str \<Rightarrow> gate \<Rightarrow> (classification \<times> bool) \<times> gate" where
  "deliver_text msg g =
     (case slot g of
        None \<Rightarrow> ((UNRELATED, True), g)
      | Some p \<Rightarrow>
          (case classify msg of
             APPROVE \<Rightarrow> ((APPROVE, False), g\<lparr>slot := Some (set_answer APPROVED (Some By_Keyword) p)\<rparr>)
           | DENY \<Rightarrow> ((DENY, False), g\<lparr>slot := Some (set_answer DENIED (Some By_Keyword) p)\<rparr>)
           | cl \<Rightarrow> ((cl, True), g\<lparr>slot := Some (set_answer CANCELLED_APPROVAL None p)\<rparr>)))"

definition deliver_reaction :: "inbound_reaction \<Rightarrow> gate \<Rightarrow> classification \<times> gate" where
  "deliver_reaction r g =
     (case slot g of
        None \<Rightarrow> (IGNORED, g)
      | Some p \<Rightarrow>
          if prompt_ref p = None then (IGNORED, g)
          else if rx_removed r then (IGNORED, g)
          else if rx_target r \<noteq> prompt_ref p then (IGNORED, g)
          else if answer p \<noteq> None then (IGNORED, g)
          else (case classify_reaction (rx_emoji r) of
              APPROVE \<Rightarrow> (APPROVE, g\<lparr>slot := Some (set_answer APPROVED (Some By_Reaction) p)\<rparr>)
            | DENY \<Rightarrow> (DENY, g\<lparr>slot := Some (set_answer DENIED (Some By_Reaction) p)\<rparr>)
            | cl \<Rightarrow> (cl, g)))"

section \<open>Histories\<close>

datatype gate_event =
    Enter_Turn turn_context
  | Exit_Turn
  | Authorize tool arguments
  | Prompt_Returns nat "prompt_sent option"
  | Wait_Returns nat bool
  | Edit_Returns nat
  | Abort nat
  | Owner_Text str
  | Owner_Reaction inbound_reaction

fun gate_step :: "gate \<Rightarrow> gate_event \<Rightarrow> gate" where
  "gate_step g (Enter_Turn c) = enter_turn c g"
| "gate_step g Exit_Turn = snd (exit_turn g)"
| "gate_step g (Authorize t args) = authorize_start t args g"
| "gate_step g (Prompt_Returns ref sent) = prompt_returns ref sent g"
| "gate_step g (Wait_Returns ref timed_out) = wait_returns ref timed_out g"
| "gate_step g (Edit_Returns ref) = edit_returns ref g"
| "gate_step g (Abort ref) = abort ref g"
| "gate_step g (Owner_Text msg) = snd (deliver_text msg g)"
| "gate_step g (Owner_Reaction r) = snd (deliver_reaction r g)"

abbreviation gate_run :: "gate \<Rightarrow> gate_event list \<Rightarrow> gate" where
  "gate_run \<equiv> foldl gate_step"

section \<open>The invariant\<close>

text \<open>
  \<open>A ref\<close> stands for "the owner has approved the prompt of invocation \<open>ref\<close>"; the invariant
  is stated over an arbitrary \<open>A\<close> and instantiated with the approvals of the history.
\<close>

definition gated :: "tool \<Rightarrow> bool" where
  "gated t \<longleftrightarrow> tool_cls t \<noteq> Some READ_ONLY \<and> tool_cls t \<noteq> Some NOTIFY_ONLY"

definition may_ask :: "gate \<Rightarrow> tool \<Rightarrow> turn_context \<Rightarrow> bool" where
  "may_ask g t c \<longleftrightarrow>
     scope_denial_reason t c = None \<and> effective_tier g t \<noteq> Some STANDING \<and>
     (turn_kind c = EVENT \<longrightarrow> announceable c)"

definition receipted :: "gate_receipt list \<Rightarrow> tool \<Rightarrow> turn_context \<Rightarrow> gate_decision \<Rightarrow> bool" where
  "receipted rs t c d \<longleftrightarrow>
     (\<exists>rc\<in>set rs. rc_ref rc = reference d \<and> rc_outcome rc = decided d \<and>
        rc_tool rc = tool_name t \<and> rc_tier rc = authorization t \<and> rc_turn rc = turn_kind c)"

definition flight_ok :: "(nat \<Rightarrow> bool) \<Rightarrow> gate \<Rightarrow> flight \<Rightarrow> bool" where
  "flight_ok A g f \<longleftrightarrow>
     0 < fl_ref f \<and> fl_ref f < next_ref g \<and> gated (fl_tool f) \<and>
     may_ask g (fl_tool f) (fl_ctx f) \<and> undeclared_key (fl_tool f) (fl_args f) = None \<and>
     (case fl_stage f of
        Editing d \<Rightarrow> reference d = fl_ref f \<and> receipted (receipts_out g) (fl_tool f) (fl_ctx f) d \<and>
          decided d \<noteq> AUTHORIZED \<and> (decided d = APPROVED \<longrightarrow> A (fl_ref f))
      | Sending \<Rightarrow> fl_ref f \<notin> rc_ref ` set (receipts_out g) \<and>
          (\<exists>p. slot g = Some p \<and> pend_ref p = fl_ref f \<and> prompt_ref p = None)
      | Waiting r \<Rightarrow> fl_ref f \<notin> rc_ref ` set (receipts_out g) \<and>
          (\<exists>p. slot g = Some p \<and> pend_ref p = fl_ref f \<and> prompt_ref p = r))"

definition slot_ok :: "(nat \<Rightarrow> bool) \<Rightarrow> gate \<Rightarrow> pending \<Rightarrow> bool" where
  "slot_ok A g p \<longleftrightarrow>
     (\<exists>f\<in>set (flights g). fl_ref f = pend_ref p \<and> (\<forall>d. fl_stage f \<noteq> Editing d)) \<and>
     answer p \<noteq> Some AUTHORIZED \<and> (answer p = Some APPROVED \<longrightarrow> A (pend_ref p))"

definition decision_ok :: "(nat \<Rightarrow> bool) \<Rightarrow> gate \<Rightarrow> returned \<Rightarrow> bool" where
  "decision_ok A g x \<longleftrightarrow>
     (if gated (ret_tool x)
      then receipted (receipts_out g) (ret_tool x) (ret_ctx x) (ret_decision x) \<and>
        (decided (ret_decision x) = AUTHORIZED \<longrightarrow>
           scope_denial_reason (ret_tool x) (ret_ctx x) = None \<and>
           effective_tier g (ret_tool x) = Some STANDING) \<and>
        (decided (ret_decision x) = APPROVED \<longrightarrow>
           may_ask g (ret_tool x) (ret_ctx x) \<and> A (reference (ret_decision x)))
      else decided (ret_decision x) = APPROVED \<and> reference (ret_decision x) = 0)"

definition gate_ok :: "(nat \<Rightarrow> bool) \<Rightarrow> gate \<Rightarrow> bool" where
  "gate_ok A g \<longleftrightarrow>
     0 < next_ref g \<and>
     distinct (map fl_ref (flights g)) \<and> (\<forall>f\<in>set (flights g). flight_ok A g f) \<and>
     (\<forall>p. slot g = Some p \<longrightarrow> slot_ok A g p) \<and>
     distinct (map rc_ref (receipts_out g)) \<and>
     (\<forall>rc\<in>set (receipts_out g). 0 < rc_ref rc \<and> rc_ref rc < next_ref g) \<and>
     (\<forall>x\<in>set (decisions g). decision_ok A g x)"

lemma gate_ok_new: "gate_ok A (new_gate demote)"
  by (simp add: gate_ok_def new_gate_def)

lemma may_ask_cong [simp]:
  "may_ask (g\<lparr>ctx := c\<rparr>) = may_ask g" "may_ask (g\<lparr>next_ref := n\<rparr>) = may_ask g"
  "may_ask (g\<lparr>slot := s\<rparr>) = may_ask g" "may_ask (g\<lparr>flights := fs\<rparr>) = may_ask g"
  "may_ask (g\<lparr>receipts_out := rs\<rparr>) = may_ask g" "may_ask (g\<lparr>edits := es\<rparr>) = may_ask g"
  "may_ask (g\<lparr>decisions := ds\<rparr>) = may_ask g"
  by (simp_all add: fun_eq_iff may_ask_def effective_tier_def)

lemma effective_tier_cong [simp]:
  "effective_tier (g\<lparr>ctx := c\<rparr>) = effective_tier g" "effective_tier (g\<lparr>next_ref := n\<rparr>) = effective_tier g"
  "effective_tier (g\<lparr>slot := s\<rparr>) = effective_tier g" "effective_tier (g\<lparr>flights := fs\<rparr>) = effective_tier g"
  "effective_tier (g\<lparr>receipts_out := rs\<rparr>) = effective_tier g"
  "effective_tier (g\<lparr>edits := es\<rparr>) = effective_tier g"
  "effective_tier (g\<lparr>decisions := ds\<rparr>) = effective_tier g"
  by (simp_all add: fun_eq_iff effective_tier_def)

lemma receipted_snoc: "receipted rs t c d \<Longrightarrow> receipted (rs @ [rc]) t c d"
  by (auto simp: receipted_def)

lemma gate_ok_ctx [simp]: "gate_ok A (g\<lparr>ctx := c\<rparr>) = gate_ok A g"
  by (simp add: gate_ok_def flight_ok_def slot_ok_def decision_ok_def cong: stage.case_cong)

lemma gate_ok_edits [simp]: "gate_ok A (g\<lparr>edits := es\<rparr>) = gate_ok A g"
  by (simp add: gate_ok_def flight_ok_def slot_ok_def decision_ok_def cong: stage.case_cong)

lemma gate_ok_raise_taint [simp]: "gate_ok A (raise_taint t framed g) = gate_ok A g"
  by (simp add: raise_taint_def Let_def)

text \<open>How the clauses carry over when the gate grows (\<open>extends\<close>): more references used, more
  receipts written, the switch untouched.\<close>

definition extends :: "gate \<Rightarrow> gate \<Rightarrow> bool" where
  "extends g g' \<longleftrightarrow>
     demote_standing g' = demote_standing g \<and> next_ref g \<le> next_ref g' \<and>
     set (receipts_out g) \<subseteq> set (receipts_out g')"

lemma extends_tier: "extends g g' \<Longrightarrow> effective_tier g' = effective_tier g"
  by (simp add: extends_def effective_tier_def fun_eq_iff)

lemma extends_may_ask: "extends g g' \<Longrightarrow> may_ask g' = may_ask g"
  by (simp add: may_ask_def extends_tier fun_eq_iff)

lemma extends_receipted:
  "extends g g' \<Longrightarrow> receipted (receipts_out g) t c d \<Longrightarrow> receipted (receipts_out g') t c d"
  by (auto simp: extends_def receipted_def)

lemma decision_ok_ext:
  assumes "decision_ok A g x" and "extends g g'" and "\<And>r. A r \<Longrightarrow> B r"
  shows "decision_ok B g' x"
  using assms extends_receipted [OF assms(2)]
  by (simp add: decision_ok_def extends_tier extends_may_ask split: if_splits)

lemma editing_ok_ext:
  assumes "flight_ok A g f" and "fl_stage f = Editing d" and "extends g g'" and "\<And>r. A r \<Longrightarrow> B r"
  shows "flight_ok B g' f"
proof -
  have "next_ref g \<le> next_ref g'" using assms(3) by (simp add: extends_def)
  then show ?thesis
    using assms extends_receipted [OF assms(3)] by (simp add: flight_ok_def extends_may_ask)
qed

lemma flight_ok_ext:
  assumes f: "flight_ok A g f" and ext: "extends g g'" and "\<And>r. A r \<Longrightarrow> B r"
    and same: "slot g' = slot g"
    and fresh: "fl_ref f \<notin> rc_ref ` set (receipts_out g) \<Longrightarrow> fl_ref f \<notin> rc_ref ` set (receipts_out g')"
  shows "flight_ok B g' f"
proof (cases "fl_stage f")
  case (Editing d)
  show ?thesis by (rule editing_ok_ext [OF f Editing ext assms(3)])
next
  case Sending
  have "next_ref g \<le> next_ref g'" using ext by (simp add: extends_def)
  then show ?thesis
    using f Sending same fresh by (simp add: flight_ok_def extends_may_ask [OF ext])
next
  case (Waiting r)
  have "next_ref g \<le> next_ref g'" using ext by (simp add: extends_def)
  then show ?thesis
    using f Waiting same fresh by (simp add: flight_ok_def extends_may_ask [OF ext])
qed

lemma slot_ok_ext:
  "slot_ok A g p \<Longrightarrow> flights g' = flights g \<Longrightarrow> (\<And>r. A r \<Longrightarrow> B r) \<Longrightarrow> slot_ok B g' p"
  by (auto simp: slot_ok_def)

lemma gate_ok_mono:
  assumes "gate_ok A g" and AB: "\<And>r. A r \<Longrightarrow> B r"
  shows "gate_ok B g"
proof -
  have "extends g g" by (simp add: extends_def)
  then show ?thesis
    using assms(1) flight_ok_ext [of A g _ g B] decision_ok_ext [of A g _ g B] slot_ok_ext [of A g _ g B] AB
    by (simp add: gate_ok_def)
qed

text \<open>The elementary changes the operations are made of.\<close>

lemma gate_ok_decisions:
  assumes "gate_ok A g" and "decision_ok A g x"
  shows "gate_ok A (g\<lparr>decisions := decisions g @ [x]\<rparr>)"
proof -
  let ?g = "g\<lparr>decisions := decisions g @ [x]\<rparr>"
  have ext: "extends g ?g" by (simp add: extends_def)
  show ?thesis
    using assms flight_ok_ext [OF _ ext, of A _ A] decision_ok_ext [OF _ ext, of A _ A]
      slot_ok_ext [of A g _ ?g A]
    by (auto simp: gate_ok_def)
qed

lemma gate_ok_bypass:
  "gate_ok A g \<Longrightarrow> \<not> gated t \<Longrightarrow>
     gate_ok A (return_decision t c (\<lparr>decided = APPROVED, reference = 0, because = why\<rparr>, g))"
  by (auto simp: return_decision_def decision_ok_def intro!: gate_ok_decisions)

text \<open>A receipt for a reference that no waiting flight holds.\<close>

lemma gate_ok_receipt:
  assumes ok: "gate_ok A g" and "0 < ref" and le: "next_ref g \<le> n" and "ref < n"
    and new: "ref \<notin> rc_ref ` set (receipts_out g)"
    and quiet: "\<And>f. f \<in> set (flights g) \<Longrightarrow> \<forall>d. fl_stage f \<noteq> Editing d \<Longrightarrow> fl_ref f \<noteq> ref"
  shows "gate_ok A (snd (resolve t oc ref c why detail (g\<lparr>next_ref := n\<rparr>)))"
proof -
  let ?g = "snd (resolve t oc ref c why detail (g\<lparr>next_ref := n\<rparr>))"
  have ext: "extends g ?g" using le by (auto simp: extends_def resolve_def)
  have fl: "flight_ok A ?g f" if "f \<in> set (flights g)" for f
  proof (cases "\<exists>d. fl_stage f = Editing d")
    case True
    have "flight_ok A g f" using ok that by (simp add: gate_ok_def)
    with True show ?thesis using editing_ok_ext [OF _ _ ext, of A f _ A] by auto
  next
    case False
    then have "fl_ref f \<noteq> ref" using quiet that by blast
    then show ?thesis
      using flight_ok_ext [OF _ ext, of A f A] ok that by (auto simp: gate_ok_def resolve_def)
  qed
  have dec: "decision_ok A ?g x" if "x \<in> set (decisions g)" for x
    using decision_ok_ext [OF _ ext, of A x A] ok that by (simp add: gate_ok_def)
  have sl: "slot_ok A ?g p" if "slot g = Some p" for p
    using slot_ok_ext [of A g p ?g A] ok that by (simp add: gate_ok_def resolve_def)
  have "rc_ref rc < n" if "rc \<in> set (receipts_out g)" for rc
    using ok le that by (fastforce simp: gate_ok_def)
  then show ?thesis
    using ok fl dec sl assms(2-5) by (auto simp: gate_ok_def resolve_def)
qed

lemma find_flightD:
  "find_flight ref g = Some f \<Longrightarrow> f \<in> set (flights g) \<and> fl_ref f = ref"
  by (auto simp: find_flight_def find_Some_iff)

abbreviation is_editing :: "flight \<Rightarrow> bool" where
  "is_editing f \<equiv> \<exists>d. fl_stage f = Editing d"

lemma flight_unique:
  "gate_ok A g \<Longrightarrow> f \<in> set (flights g) \<Longrightarrow> h \<in> set (flights g) \<Longrightarrow> fl_ref f = fl_ref h \<Longrightarrow> f = h"
  by (auto simp: gate_ok_def distinct_map dest: inj_onD)

lemma flights_ok: "gate_ok A g \<Longrightarrow> f \<in> set (flights g) \<Longrightarrow> flight_ok A g f"
  by (simp add: gate_ok_def)

lemma waiting_slot:
  assumes "gate_ok A g" and "f \<in> set (flights g)" and "\<not> is_editing f"
  shows "\<exists>p. slot g = Some p \<and> pend_ref p = fl_ref f"
  using flights_ok [OF assms(1,2)] assms(3) by (cases "fl_stage f") (auto simp: flight_ok_def)

lemma others_editing:
  assumes "gate_ok A g" and "f \<in> set (flights g)" and "\<not> is_editing f"
    and "h \<in> set (flights g)" and "fl_ref h \<noteq> fl_ref f"
  shows "is_editing h"
proof (rule ccontr)
  assume "\<not> is_editing h"
  from waiting_slot [OF assms(1-3)] waiting_slot [OF assms(1,4) this] assms(5) show False by auto
qed

lemma drop_flight_parts [simp]:
  "flights (drop_flight ref g) = filter (\<lambda>f. fl_ref f \<noteq> ref) (flights g)"
  "slot (drop_flight ref g) = slot g" "receipts_out (drop_flight ref g) = receipts_out g"
  "next_ref (drop_flight ref g) = next_ref g" "decisions (drop_flight ref g) = decisions g"
  "demote_standing (drop_flight ref g) = demote_standing g" "edits (drop_flight ref g) = edits g"
  "ctx (drop_flight ref g) = ctx g"
  by (simp_all add: drop_flight_def)

lemma set_stage_parts [simp]:
  "flights (set_stage ref st g) =
     map (\<lambda>f. if fl_ref f = ref then f\<lparr>fl_stage := st\<rparr> else f) (flights g)"
  "slot (set_stage ref st g) = slot g" "receipts_out (set_stage ref st g) = receipts_out g"
  "next_ref (set_stage ref st g) = next_ref g" "decisions (set_stage ref st g) = decisions g"
  "demote_standing (set_stage ref st g) = demote_standing g" "edits (set_stage ref st g) = edits g"
  "ctx (set_stage ref st g) = ctx g"
  by (simp_all add: set_stage_def)

lemma gate_okI:
  assumes "0 < next_ref g" and "distinct (map fl_ref (flights g))"
    and "\<And>f. f \<in> set (flights g) \<Longrightarrow> flight_ok A g f"
    and "\<And>p. slot g = Some p \<Longrightarrow> slot_ok A g p"
    and "distinct (map rc_ref (receipts_out g))"
    and "\<And>rc. rc \<in> set (receipts_out g) \<Longrightarrow> 0 < rc_ref rc \<and> rc_ref rc < next_ref g"
    and "\<And>x. x \<in> set (decisions g) \<Longrightarrow> decision_ok A g x"
  shows "gate_ok A g"
  using assms by (simp add: gate_ok_def)

lemma gate_ok_drop_editing:
  assumes ok: "gate_ok A g" and f: "f \<in> set (flights g)" and ed: "is_editing f"
  shows "gate_ok A (drop_flight (fl_ref f) g)" (is "gate_ok A ?g")
proof -
  note parts = ok [unfolded gate_ok_def]
  have ext: "extends g ?g" by (simp add: extends_def)
  show ?thesis
  proof (rule gate_okI)
    fix h assume "h \<in> set (flights ?g)"
    then show "flight_ok A ?g h" using flight_ok_ext [OF _ ext, of A h A] parts by simp
  next
    fix p assume p: "slot ?g = Some p"
    then have sp: "slot_ok A g p" using parts by simp
    then obtain h where h: "h \<in> set (flights g)" "fl_ref h = pend_ref p" "\<not> is_editing h"
      by (auto simp: slot_ok_def)
    from h(1,3) ed f have "fl_ref h \<noteq> fl_ref f" using flight_unique [OF ok f h(1)] by auto
    with sp h show "slot_ok A ?g p" by (auto simp: slot_ok_def)
  next
    fix x assume "x \<in> set (decisions ?g)"
    then show "decision_ok A ?g x" using decision_ok_ext [OF _ ext, of A x A] parts by simp
  next
    show "distinct (map fl_ref (flights ?g))" using parts by (simp add: distinct_map_filter)
  qed (use parts in simp_all)
qed

lemma gate_ok_drop_waiting:
  assumes ok: "gate_ok A g" and f: "f \<in> set (flights g)" and ed: "\<not> is_editing f"
  shows "gate_ok A (drop_flight (fl_ref f) (g\<lparr>slot := None\<rparr>))" (is "gate_ok A ?g")
proof -
  note parts = ok [unfolded gate_ok_def]
  have ext: "extends g ?g" by (simp add: extends_def)
  show ?thesis
  proof (rule gate_okI)
    fix h assume "h \<in> set (flights ?g)"
    then have h: "h \<in> set (flights g)" "fl_ref h \<noteq> fl_ref f" by simp_all
    have "is_editing h" by (rule others_editing [OF ok f ed h])
    then show "flight_ok A ?g h"
      using editing_ok_ext [OF flights_ok [OF ok h(1)] _ ext, of _ A] by auto
  next
    fix x assume "x \<in> set (decisions ?g)"
    then show "decision_ok A ?g x" using decision_ok_ext [OF _ ext, of A x A] parts by simp
  next
    show "distinct (map fl_ref (flights ?g))" using parts by (simp add: distinct_map_filter)
  qed (use parts in simp_all)
qed

lemma gate_ok_start:
  assumes ok: "gate_ok A g" and "gated t" and "may_ask g t c" and "undeclared_key t args = None"
    and none: "slot g = None"
  shows "gate_ok A (g\<lparr>next_ref := Suc (next_ref g),
      slot := Some \<lparr>pend_ref = next_ref g, prompt_ref = None, answer = None, answered_how = None\<rparr>,
      flights := flights g @ [\<lparr>fl_ref = next_ref g, fl_tool = t, fl_args = args, fl_ctx = c,
        fl_framed = framed, fl_stage = Sending\<rparr>]\<rparr>)" (is "gate_ok A ?g")
proof -
  note parts = ok [unfolded gate_ok_def]
  have ext: "extends g ?g" by (simp add: extends_def)
  have old: "flight_ok A ?g h" if h: "h \<in> set (flights g)" for h
  proof -
    have "is_editing h" using waiting_slot [OF ok h] none by auto
    then show ?thesis using editing_ok_ext [OF _ _ ext, of A h _ A] parts h by auto
  qed
  have lt: "fl_ref h < next_ref g" if "h \<in> set (flights g)" for h
    using parts that by (auto simp: flight_ok_def)
  have "next_ref g \<notin> rc_ref ` set (receipts_out g)" using parts by auto
  moreover have "next_ref g \<notin> fl_ref ` set (flights g)" using lt by (metis imageE less_irrefl)
  ultimately show ?thesis
    using parts old decision_ok_ext [OF _ ext, of A _ A] assms(2-4)
    by (auto simp: gate_ok_def flight_ok_def slot_ok_def less_Suc_eq extends_may_ask [OF ext])
qed

lemma gate_ok_sent:
  assumes ok: "gate_ok A g" and f: "f \<in> set (flights g)" and st: "fl_stage f = Sending"
  shows "gate_ok A (set_stage (fl_ref f) (Waiting r)
    (g\<lparr>slot := map_option (\<lambda>p. p\<lparr>prompt_ref := r\<rparr>) (slot g)\<rparr>))" (is "gate_ok A ?g")
proof -
  note parts = ok [unfolded gate_ok_def]
  have ext: "extends g ?g" by (simp add: extends_def set_stage_def)
  from st have ned: "\<not> is_editing f" by simp
  from waiting_slot [OF ok f ned] obtain p where p: "slot g = Some p" "pend_ref p = fl_ref f" by auto
  have fl: "flight_ok A ?g h" if h: "h \<in> set (flights ?g)" for h
  proof (cases "fl_ref h = fl_ref f")
    case True
    then obtain x where x: "x \<in> set (flights g)" "fl_ref f = fl_ref x" "h = x\<lparr>fl_stage := Waiting r\<rparr>"
      using h by (auto split: if_splits)
    then have "h = f\<lparr>fl_stage := Waiting r\<rparr>" using flight_unique [OF ok f x(1,2)] by simp
    moreover have "flight_ok A g f" using parts f by simp
    ultimately show ?thesis
      using p st by (simp add: flight_ok_def set_stage_def)
  next
    case False
    then have hg: "h \<in> set (flights g)" using h by (auto simp: set_stage_def split: if_splits)
    then have "is_editing h" using others_editing [OF ok f ned hg False] by simp
    then show ?thesis using editing_ok_ext [OF _ _ ext, of A h _ A] parts hg by auto
  qed
  have ids: "map fl_ref (flights ?g) = map fl_ref (flights g)" by (simp add: set_stage_def)
  have "slot_ok A ?g (p\<lparr>prompt_ref := r\<rparr>)"
  proof -
    have sp: "slot_ok A g p" using parts p(1) by simp
    have "f\<lparr>fl_stage := Waiting r\<rparr> \<in> set (flights ?g)" using f by (auto simp: image_iff)
    then have "\<exists>h\<in>set (flights ?g). fl_ref h = pend_ref p \<and> (\<forall>d. fl_stage h \<noteq> Editing d)"
      by (rule bexI [rotated]) (simp add: p(2))
    with sp show ?thesis unfolding slot_ok_def by simp
  qed
  then show ?thesis
    unfolding gate_ok_def ids using parts fl decision_ok_ext [OF _ ext, of A _ A] p(1)
    by (simp add: set_stage_def)
qed

lemma gate_ok_set_answer:
  assumes ok: "gate_ok A g" and p: "slot g = Some p" and "oc \<noteq> AUTHORIZED"
    and "oc = APPROVED \<Longrightarrow> answer p = None \<Longrightarrow> A (pend_ref p)"
  shows "gate_ok A (g\<lparr>slot := Some (set_answer oc how p)\<rparr>)" (is "gate_ok A ?g")
proof -
  note parts = ok [unfolded gate_ok_def]
  have ext: "extends g ?g" by (simp add: extends_def)
  have fl: "flight_ok A ?g h" if h: "h \<in> set (flights g)" for h
  proof -
    have "flight_ok A g h" using parts h by simp
    then show ?thesis
      using p by (auto simp: flight_ok_def set_answer_def split: stage.splits)
  qed
  have "slot_ok A ?g (set_answer oc how p)"
    using parts p assms(3,4) by (auto simp: slot_ok_def set_answer_def)
  then show ?thesis using parts fl decision_ok_ext [OF _ ext, of A _ A] by (simp add: gate_ok_def)
qed

lemma resolve_parts [simp]:
  "fst (resolve t oc ref c why detail g) = \<lparr>decided = oc, reference = ref, because = why\<rparr>"
  "flights (snd (resolve t oc ref c why detail g)) = flights g"
  "slot (snd (resolve t oc ref c why detail g)) = slot g"
  "next_ref (snd (resolve t oc ref c why detail g)) = next_ref g"
  "decisions (snd (resolve t oc ref c why detail g)) = decisions g"
  "demote_standing (snd (resolve t oc ref c why detail g)) = demote_standing g"
  "ctx (snd (resolve t oc ref c why detail g)) = ctx g"
  "edits (snd (resolve t oc ref c why detail g)) = edits g"
  by (simp_all add: resolve_def)

lemma resolve_receipted:
  "receipted (receipts_out (snd (resolve t oc ref c why detail g))) t c
     \<lparr>decided = oc, reference = ref, because = why\<rparr>"
  by (simp add: resolve_def receipted_def)

lemma drop_resolve:
  "drop_flight r (snd (resolve t oc ref c why detail g)) =
     snd (resolve t oc ref c why detail (drop_flight r g))"
  by (simp add: resolve_def drop_flight_def)

lemma next_ref_self: "g\<lparr>next_ref := next_ref g\<rparr> = g"
  by simp

lemma gate_ok_settle:
  \<comment> \<open>a waiting flight is decided: slot released, flight dropped, receipt written\<close>
  assumes ok: "gate_ok A g" and f: "f \<in> set (flights g)" and ed: "\<not> is_editing f"
  shows "gate_ok A (snd (resolve t oc (fl_ref f) c why detail
    (drop_flight (fl_ref f) (g\<lparr>slot := None\<rparr>))))"
proof -
  let ?h = "drop_flight (fl_ref f) (g\<lparr>slot := None\<rparr>)"
  have hok: "gate_ok A ?h" by (rule gate_ok_drop_waiting [OF ok f ed])
  have fr: "0 < fl_ref f" "fl_ref f < next_ref g" "fl_ref f \<notin> rc_ref ` set (receipts_out g)"
    using flights_ok [OF ok f] ed by (cases "fl_stage f"; auto simp: flight_ok_def)+
  have "gate_ok A (snd (resolve t oc (fl_ref f) c why detail (?h\<lparr>next_ref := next_ref g\<rparr>)))"
    by (rule gate_ok_receipt [OF hok]) (use fr in auto)
  moreover have "?h\<lparr>next_ref := next_ref g\<rparr> = ?h" by (simp add: drop_flight_def)
  ultimately show ?thesis by simp
qed

lemma decision_ok_waiting:
  assumes "gate_ok A g" and "f \<in> set (flights g)" and "\<not> is_editing f"
    and "oc \<noteq> AUTHORIZED" and "oc = APPROVED \<longrightarrow> A (fl_ref f)"
    and "extends g g'" and "receipted (receipts_out g') (fl_tool f) (fl_ctx f) d"
    and "d = \<lparr>decided = oc, reference = fl_ref f, because = why\<rparr>"
  shows "decision_ok A g' \<lparr>ret_tool = fl_tool f, ret_ctx = fl_ctx f, ret_decision = d\<rparr>"
  using flights_ok [OF assms(1,2)] assms(4-8)
  by (simp add: decision_ok_def flight_ok_def extends_may_ask)

lemma return_decision_eq:
  "return_decision t c (d, g) =
     g\<lparr>decisions := decisions g @ [\<lparr>ret_tool = t, ret_ctx = c, ret_decision = d\<rparr>]\<rparr>"
  by (simp add: return_decision_def)

lemma extends_refl: "extends g g"
  by (simp add: extends_def)

lemma raise_taint_parts [simp]:
  "flights (raise_taint t b g) = flights g" "slot (raise_taint t b g) = slot g"
  "receipts_out (raise_taint t b g) = receipts_out g" "next_ref (raise_taint t b g) = next_ref g"
  "decisions (raise_taint t b g) = decisions g" "edits (raise_taint t b g) = edits g"
  "demote_standing (raise_taint t b g) = demote_standing g"
  by (simp_all add: raise_taint_def Let_def)

lemma decision_ok_raise_taint [simp]:
  "decision_ok A (raise_taint t b g) x = decision_ok A g x"
  by (simp add: decision_ok_def may_ask_def effective_tier_def)

lemma gate_ok_return:
  assumes "gate_ok A g" and "decision_ok A g \<lparr>ret_tool = t, ret_ctx = c, ret_decision = d\<rparr>"
  shows "gate_ok A (return_decision t c (d, g))"
    and "gate_ok A (return_decision t c (d, raise_taint t' b g))"
  using gate_ok_decisions [of A g] gate_ok_decisions [of A "raise_taint t' b g"] assms
  unfolding return_decision_eq by simp_all

lemma gate_ok_finish_waiting:
  assumes ok: "gate_ok A g" and f: "f \<in> set (flights g)" and ed: "\<not> is_editing f"
    and oc: "oc \<noteq> AUTHORIZED" "oc = APPROVED \<longrightarrow> A (fl_ref f)"
    and d: "d = \<lparr>decided = oc, reference = fl_ref f, because = why\<rparr>"
  shows "gate_ok A (finish f d
    (snd (resolve (fl_tool f) oc (fl_ref f) (fl_ctx f) why detail (g\<lparr>slot := None\<rparr>))))"
proof -
  let ?r = "snd (resolve (fl_tool f) oc (fl_ref f) (fl_ctx f) why detail
    (drop_flight (fl_ref f) (g\<lparr>slot := None\<rparr>)))"
  have r: "gate_ok A ?r" by (rule gate_ok_settle [OF ok f ed])
  have ext: "extends g ?r" by (auto simp: extends_def resolve_def)
  have "decision_ok A ?r \<lparr>ret_tool = fl_tool f, ret_ctx = fl_ctx f, ret_decision = d\<rparr>"
    by (rule decision_ok_waiting [OF ok f ed oc ext _ d]) (simp add: d resolve_receipted)
  from gate_ok_return [OF r this] show ?thesis
    by (simp add: finish_def Let_def drop_resolve)
qed

lemma gate_ok_edit_waiting:
  assumes ok: "gate_ok A g" and f: "f \<in> set (flights g)" and ed: "\<not> is_editing f"
    and oc: "oc \<noteq> AUTHORIZED" "oc = APPROVED \<longrightarrow> A (fl_ref f)"
    and d: "d = \<lparr>decided = oc, reference = fl_ref f, because = why\<rparr>"
  shows "gate_ok A (set_stage (fl_ref f) (Editing d)
    (snd (resolve (fl_tool f) oc (fl_ref f) (fl_ctx f) why detail (g\<lparr>slot := None\<rparr>))))"
    (is "gate_ok A ?g")
proof -
  let ?r = "snd (resolve (fl_tool f) oc (fl_ref f) (fl_ctx f) why detail
    (drop_flight (fl_ref f) (g\<lparr>slot := None\<rparr>)))"
  have "gate_ok A ?r" by (rule gate_ok_settle [OF ok f ed])
  note parts = this [unfolded gate_ok_def]
  have ext: "extends g ?g" by (auto simp: extends_def resolve_def)
  have rcs: "receipts_out ?g = receipts_out ?r" by (simp add: resolve_def)
  have nxt: "next_ref ?g = next_ref ?r" by simp
  have ext': "extends ?r ?g" unfolding extends_def rcs by simp
  show ?thesis
  proof (rule gate_okI)
    fix h assume h: "h \<in> set (flights ?g)"
    show "flight_ok A ?g h"
    proof (cases "fl_ref h = fl_ref f")
      case True
      then obtain x where x: "x \<in> set (flights g)" "fl_ref f = fl_ref x" "h = x\<lparr>fl_stage := Editing d\<rparr>"
        using h by (auto split: if_splits)
      then have hf: "h = f\<lparr>fl_stage := Editing d\<rparr>" using flight_unique [OF ok f x(1,2)] by simp
      have "receipted (receipts_out ?g) (fl_tool f) (fl_ctx f) d"
        by (simp add: d resolve_receipted)
      then show ?thesis
        using flights_ok [OF ok f] oc unfolding hf flight_ok_def extends_may_ask [OF ext]
        by (simp add: d)
    next
      case False
      then have hg: "h \<in> set (flights g)" using h by (auto split: if_splits)
      have "is_editing h" by (rule others_editing [OF ok f ed hg False])
      then show ?thesis using editing_ok_ext [OF flights_ok [OF ok hg] _ ext, of _ A] by auto
    qed
  next
    fix x assume "x \<in> set (decisions ?g)"
    then show "decision_ok A ?g x" using decision_ok_ext [OF _ ext', of A x A] parts by simp
  next
    show "distinct (map fl_ref (flights ?g))"
    proof -
      have "map fl_ref (flights ?g) = map fl_ref (flights g)" by simp
      then show ?thesis using ok by (simp only: gate_ok_def)
    qed
  next
    show "0 < next_ref ?g" unfolding nxt using parts by blast
    show "distinct (map rc_ref (receipts_out ?g))" unfolding rcs using parts by blast
    show "slot_ok A ?g p" if "slot ?g = Some p" for p using that by simp
    show "0 < rc_ref rc \<and> rc_ref rc < next_ref ?g" if "rc \<in> set (receipts_out ?g)" for rc
      using that parts unfolding rcs nxt by blast
  qed
qed

section \<open>Every event keeps the invariant\<close>

text \<open>When an event is the owner's approval of the prompt of invocation \<open>ref\<close>.\<close>

definition approves :: "gate \<Rightarrow> gate_event \<Rightarrow> nat \<Rightarrow> bool" where
  "approves g ev ref \<longleftrightarrow>
     (case slot g of
        None \<Rightarrow> False
      | Some p \<Rightarrow> pend_ref p = ref \<and> answer p = None \<and>
          (case ev of
             Owner_Text msg \<Rightarrow> classify msg = APPROVE
           | Owner_Reaction r \<Rightarrow> \<not> rx_removed r \<and> prompt_ref p \<noteq> None \<and> rx_target r = prompt_ref p \<and>
               classify_reaction (rx_emoji r) = APPROVE
           | _ \<Rightarrow> False))"

lemma not_gated: "\<not> gated t \<longleftrightarrow> tool_cls t = Some READ_ONLY \<or> tool_cls t = Some NOTIFY_ONLY"
  by (auto simp: gated_def)

lemma decision_ok_new:
  assumes "oc \<noteq> APPROVED"
    and "oc = AUTHORIZED \<Longrightarrow> scope_denial_reason t c = None \<and> effective_tier g t = Some STANDING"
    and "gated t"
  shows "decision_ok A (snd (resolve t oc ref c why detail g))
    \<lparr>ret_tool = t, ret_ctx = c, ret_decision = \<lparr>decided = oc, reference = ref, because = why\<rparr>\<rparr>"
proof -
  have "effective_tier (snd (resolve t oc ref c why detail g)) = effective_tier g"
    by (simp add: effective_tier_def fun_eq_iff)
  then show ?thesis using assms by (auto simp: decision_ok_def resolve_receipted)
qed

lemma gate_ok_immediate:
  fixes why :: reason and detail :: "receipt_detail option"
  assumes ok: "gate_ok A g" and "gated t" and "oc \<noteq> APPROVED"
    and au: "oc = AUTHORIZED \<Longrightarrow> scope_denial_reason t c = None \<and> effective_tier g t = Some STANDING"
  defines "r \<equiv> resolve t oc (next_ref g) c why detail (g\<lparr>next_ref := Suc (next_ref g)\<rparr>)"
  shows "gate_ok A (return_decision t c r)"
    and "gate_ok A (return_decision t c (fst r, raise_taint t b (snd r)))"
proof -
  have lt: "fl_ref f < next_ref g" if "f \<in> set (flights g)" for f
    using flights_ok [OF ok that] by (simp add: flight_ok_def)
  have "next_ref g \<notin> rc_ref ` set (receipts_out g)" using ok by (auto simp: gate_ok_def)
  moreover have "0 < next_ref g" using ok by (simp add: gate_ok_def)
  ultimately have r: "gate_ok A (snd r)"
    unfolding r_def using lt by (intro gate_ok_receipt [OF ok]) fastforce+
  have d: "decision_ok A (snd r) \<lparr>ret_tool = t, ret_ctx = c, ret_decision = fst r\<rparr>"
    unfolding r_def using decision_ok_new [OF assms(3) _ assms(2), of c "g\<lparr>next_ref := Suc (next_ref g)\<rparr>"] au
    by simp
  from gate_ok_return [OF r d] show "gate_ok A (return_decision t c r)"
    and "gate_ok A (return_decision t c (fst r, raise_taint t b (snd r)))" by simp_all
qed

lemma gate_ok_authorize:
  assumes ok: "gate_ok A g"
  shows "gate_ok A (authorize_start t args g)"
proof (cases "gated t")
  case False
  then have b: "tool_cls t = Some READ_ONLY \<or> tool_cls t = Some NOTIFY_ONLY" by (simp add: not_gated)
  show ?thesis
    unfolding authorize_start_def Let_def using b gate_ok_bypass [OF _ False] ok by simp
next
  case True
  then have b: "\<not> (tool_cls t = Some READ_ONLY \<or> tool_cls t = Some NOTIFY_ONLY)" by (simp add: gated_def)
  let ?c = "case ctx g of None \<Rightarrow> UNFRAMED_CONTEXT | Some c \<Rightarrow> c"
  note imm = gate_ok_immediate [OF ok True]
  show ?thesis
  proof (cases "scope_denial_reason t ?c")
    case (Some why)
    then show ?thesis
      unfolding authorize_start_def Let_def using b imm(1) [of OUT_OF_SCOPE ?c] by simp
  next
    case None
    show ?thesis
    proof (cases "effective_tier g t = Some STANDING")
      case True
      then show ?thesis
        unfolding authorize_start_def Let_def using b None imm(2) [of AUTHORIZED ?c] by (simp add: split_beta)
    next
      case ns: False
      show ?thesis
      proof (cases "turn_kind ?c = EVENT \<and> \<not> announceable ?c")
        case True
        then show ?thesis
          unfolding authorize_start_def Let_def using b None ns imm(1) [of SUPPRESSED ?c] by simp
      next
        case loud: False
        show ?thesis
        proof (cases "undeclared_key t args")
          case (Some k)
          then show ?thesis
            unfolding authorize_start_def Let_def
            using b None ns loud imm(1) [of CANCELLED_APPROVAL ?c] by auto
        next
          case decl: None
          show ?thesis
          proof (cases "slot g")
            case (Some p)
            then show ?thesis
              unfolding authorize_start_def Let_def
              using b None ns loud decl imm(1) [of REJECTED_BUSY ?c] by auto
          next
            case free: None
            have "may_ask g t ?c" using None ns loud by (auto simp: may_ask_def)
            from gate_ok_start [OF ok True this decl free, of "ctx g \<noteq> None"] show ?thesis
              unfolding authorize_start_def Let_def using b None ns loud decl free by auto
          qed
        qed
      qed
    qed
  qed
qed

lemma gate_ok_prompt:
  assumes ok: "gate_ok A g"
  shows "gate_ok A (prompt_returns ref sent g)"
proof (cases "find_flight ref g")
  case (Some f)
  then have f: "f \<in> set (flights g)" and ref: "fl_ref f = ref" by (auto dest: find_flightD)
  show ?thesis
  proof (cases "fl_stage f = Sending")
    case True
    then have ed: "\<not> is_editing f" by simp
    note fin = gate_ok_finish_waiting [OF ok f ed, of CANCELLED_APPROVAL]
    show ?thesis
      using Some True ref fin gate_ok_sent [OF ok f True]
      by (auto simp: prompt_returns_def split_beta split: option.splits)
  qed (simp add: prompt_returns_def Some ok)
qed (simp add: prompt_returns_def ok)

lemma gate_ok_decide:
  assumes ok: "gate_ok A g" and f: "f \<in> set (flights g)" and ed: "\<not> is_editing f"
    and oc: "oc \<noteq> AUTHORIZED" "oc = APPROVED \<longrightarrow> A (fl_ref f)"
  shows "gate_ok A (decide_wait f pref oc how g)"
proof (cases pref)
  case None
  then show ?thesis
    using gate_ok_finish_waiting [OF ok f ed oc] by (simp add: decide_wait_def Let_def split_beta)
next
  case (Some r)
  have edits: "set_stage ref st (g\<lparr>edits := es\<rparr>) = (set_stage ref st g)\<lparr>edits := es\<rparr>" for ref st g es
    by (simp add: set_stage_def)
  show ?thesis
    using gate_ok_edit_waiting [OF ok f ed oc] Some by (simp add: decide_wait_def Let_def split_beta edits)
qed

lemma gate_ok_wait:
  assumes ok: "gate_ok A g"
  shows "gate_ok A (wait_returns ref timed_out g)"
proof (cases "find_flight ref g")
  case (Some f)
  then have f: "f \<in> set (flights g)" by (auto dest: find_flightD)
  show ?thesis
  proof (cases "fl_stage f")
    case (Waiting pref)
    then have ed: "\<not> is_editing f" by simp
    from waiting_slot [OF ok f ed] obtain p where p: "slot g = Some p" "pend_ref p = fl_ref f" by auto
    have sp: "slot_ok A g p" using ok p by (simp add: gate_ok_def)
    show ?thesis
    proof (cases "timed_out")
      case True
      then show ?thesis
        using gate_ok_decide [OF ok f ed, of TIMEOUT] by (simp add: wait_returns_def Some Waiting p)
    next
      case False
      then show ?thesis
        using gate_ok_decide [OF ok f ed] sp ok p(2)
        by (cases "answer p") (auto simp: wait_returns_def Some Waiting p slot_ok_def)
    qed
  qed (simp_all add: wait_returns_def Some ok)
qed (simp add: wait_returns_def ok)

lemma gate_ok_edit:
  assumes ok: "gate_ok A g"
  shows "gate_ok A (edit_returns ref g)"
proof (cases "find_flight ref g")
  case (Some f)
  then have f: "f \<in> set (flights g)" by (auto dest: find_flightD)
  show ?thesis
  proof (cases "fl_stage f")
    case (Editing d)
    have g1: "gate_ok A (drop_flight (fl_ref f) g)"
      by (rule gate_ok_drop_editing [OF ok f]) (simp add: Editing)
    have "may_ask (drop_flight (fl_ref f) g) = may_ask g"
      by (simp add: may_ask_def effective_tier_def fun_eq_iff)
    then have "decision_ok A (drop_flight (fl_ref f) g)
        \<lparr>ret_tool = fl_tool f, ret_ctx = fl_ctx f, ret_decision = d\<rparr>"
      using flights_ok [OF ok f] Editing by (simp add: decision_ok_def flight_ok_def)
    from gate_ok_return [OF g1 this] show ?thesis
      by (simp add: edit_returns_def Some Editing finish_def Let_def)
  qed (simp_all add: edit_returns_def Some ok)
qed (simp add: edit_returns_def ok)

lemma gate_ok_abort:
  assumes ok: "gate_ok A g"
  shows "gate_ok A (abort ref g)"
proof (cases "find_flight ref g")
  case (Some f)
  then have f: "f \<in> set (flights g)" and ref: "fl_ref f = ref" by (auto dest: find_flightD)
  show ?thesis
    using gate_ok_drop_editing [OF ok f] gate_ok_drop_waiting [OF ok f] ref
    by (cases "fl_stage f") (auto simp: abort_def Some)
qed (simp add: abort_def ok)

lemma gate_ok_owner:
  assumes ok: "gate_ok A g" and ap: "\<And>ref. approves g ev ref \<Longrightarrow> A ref"
  shows "ev = Owner_Text msg \<Longrightarrow> gate_ok A (snd (deliver_text msg g))"
    and "ev = Owner_Reaction r \<Longrightarrow> gate_ok A (snd (deliver_reaction r g))"
proof -
  assume ev: "ev = Owner_Text msg"
  show "gate_ok A (snd (deliver_text msg g))"
  proof (cases "slot g")
    case (Some p)
    have "A (pend_ref p)" if "classify msg = APPROVE" "answer p = None"
      using ap [of "pend_ref p"] that by (simp add: approves_def Some ev)
    then show ?thesis
      using gate_ok_set_answer [OF ok Some]
      by (cases "classify msg") (auto simp: deliver_text_def Some)
  qed (simp add: deliver_text_def ok)
next
  assume ev: "ev = Owner_Reaction r"
  show "gate_ok A (snd (deliver_reaction r g))"
  proof (cases "slot g")
    case (Some p)
    show ?thesis
    proof (cases "prompt_ref p = None \<or> rx_removed r \<or> rx_target r \<noteq> prompt_ref p \<or> answer p \<noteq> None")
      case True
      then show ?thesis by (auto simp: deliver_reaction_def Some ok)
    next
      case False
      have "A (pend_ref p)" if "classify_reaction (rx_emoji r) = APPROVE"
        using ap [of "pend_ref p"] that False by (simp add: approves_def Some ev)
      then show ?thesis
        using False gate_ok_set_answer [OF ok Some] ok
        by (cases "classify_reaction (rx_emoji r)") (auto simp: deliver_reaction_def Some)
    qed
  qed (simp add: deliver_reaction_def ok)
qed

lemma gate_ok_step:
  assumes ok: "gate_ok A g" and ap: "\<And>ref. approves g ev ref \<Longrightarrow> A ref"
  shows "gate_ok A (gate_step g ev)"
  using gate_ok_owner [OF ok ap, of ev] ok
  by (cases ev)
    (simp_all add: enter_turn_def exit_turn_def gate_ok_authorize gate_ok_prompt gate_ok_wait
      gate_ok_edit gate_ok_abort)

text \<open>The approvals of a history.\<close>

definition approved_in :: "gate \<Rightarrow> gate_event list \<Rightarrow> nat \<Rightarrow> bool" where
  "approved_in g evs ref \<longleftrightarrow>
     (\<exists>before ev after. evs = before @ ev # after \<and> approves (gate_run g before) ev ref)"

lemma gate_ok_run: "gate_ok (approved_in (new_gate demote) evs) (gate_run (new_gate demote) evs)"
proof (induction evs rule: rev_induct)
  case Nil
  show ?case by (simp add: gate_ok_new)
next
  case (snoc ev evs)
  let ?g = "gate_run (new_gate demote) evs"
  let ?B = "approved_in (new_gate demote) (evs @ [ev])"
  have "?B r" if "approved_in (new_gate demote) evs r" for r
    using that unfolding approved_in_def by force
  with snoc have "gate_ok ?B ?g" by (rule gate_ok_mono)
  moreover have "?B ref" if "approves ?g ev ref" for ref
    using that unfolding approved_in_def by blast
  ultimately have "gate_ok ?B (gate_step ?g ev)" by (rule gate_ok_step)
  then show ?case by simp
qed

lemma return_decision_parts [simp]:
  "demote_standing (return_decision t c dg) = demote_standing (snd dg)"
  "ctx (return_decision t c dg) = ctx (snd dg)"
  by (simp_all add: return_decision_def)

lemma demote_run: "demote_standing (gate_run g evs) = demote_standing g"
proof (induction evs arbitrary: g)
  case (Cons ev evs)
  have "demote_standing (gate_step g ev) = demote_standing g"
    by (cases ev)
      (auto simp: enter_turn_def exit_turn_def authorize_start_def prompt_returns_def wait_returns_def
        decide_wait_def edit_returns_def abort_def deliver_text_def deliver_reaction_def finish_def
        Let_def split_beta split: option.splits stage.splits classification.splits)
  with Cons show ?case by simp
qed simp

text \<open>Inside one turn its kind is fixed and taint only grows.\<close>

definition ctx_grows :: "turn_context \<Rightarrow> turn_context option \<Rightarrow> bool" where
  "ctx_grows c x \<longleftrightarrow>
     (\<exists>c'. x = Some c' \<and> turn_kind c' = turn_kind c \<and> (tainted c \<longrightarrow> tainted c'))"

lemma raise_taint_ctx: "ctx_grows c (ctx g) \<Longrightarrow> ctx_grows c (ctx (raise_taint t b g))"
  by (auto simp: raise_taint_def Let_def ctx_grows_def)

lemma ctx_step:
  assumes "ctx_grows c (ctx g)" and "\<forall>c'. ev \<noteq> Enter_Turn c'" and "ev \<noteq> Exit_Turn"
  shows "ctx_grows c (ctx (gate_step g ev))"
  using assms
  by (cases ev)
    (auto simp: authorize_start_def prompt_returns_def wait_returns_def
      decide_wait_def edit_returns_def abort_def deliver_text_def deliver_reaction_def finish_def
      Let_def split_beta intro!: raise_taint_ctx
      split: option.splits stage.splits classification.splits)

lemma ctx_run:
  assumes "ctx g = Some c" and "\<forall>ev\<in>set evs. (\<forall>c'. ev \<noteq> Enter_Turn c') \<and> ev \<noteq> Exit_Turn"
  shows "\<exists>c'. ctx (gate_run g evs) = Some c' \<and> turn_kind c' = turn_kind c \<and> (tainted c \<longrightarrow> tainted c')"
proof -
  have "ctx_grows c (ctx (gate_run g evs))" if "ctx_grows c (ctx g)" for g
    using that assms(2) by (induction evs arbitrary: g) (auto intro!: ctx_step)
  from this [of g] show ?thesis using assms(1) by (simp add: ctx_grows_def)
qed

section \<open>Properties\<close>

text \<open>
  C2. A mutating tool runs only with authority: whatever happens to the gate and in whatever
  order, a decision that permits a gated invocation was in scope for its turn and is either
  the standing authorization of a tool declared standing while the kill-switch is off, or
  the owner's own approval (a typed keyword or a thumbs-up on that very message) given while
  exactly that invocation's prompt was pending and unanswered.
\<close>

theorem mutation_needs_authority:
  assumes "x \<in> set (decisions (gate_run (new_gate demote) evs))" and "gated (ret_tool x)"
    and "permits (ret_decision x)"
  shows "scope_denial_reason (ret_tool x) (ret_ctx x) = None \<and>
    (decided (ret_decision x) = AUTHORIZED \<and> \<not> demote \<and>
       authorization (ret_tool x) = Some STANDING \<or>
     decided (ret_decision x) = APPROVED \<and>
       (turn_kind (ret_ctx x) = EVENT \<longrightarrow> announceable (ret_ctx x)) \<and>
       approved_in (new_gate demote) evs (reference (ret_decision x)))"
proof -
  let ?g = "gate_run (new_gate demote) evs"
  have "decision_ok (approved_in (new_gate demote) evs) ?g x"
    using gate_ok_run [of demote evs] assms(1) by (simp add: gate_ok_def)
  moreover have "demote_standing ?g = demote" using demote_run [of "new_gate demote" evs]
    by (simp add: new_gate_def)
  ultimately show ?thesis
    using assms(2,3)
    by (auto simp: decision_ok_def permits_def EXECUTING_OUTCOMES_def may_ask_def effective_tier_def
        split: if_splits)
qed

text \<open>
  Every gated decision has its receipt: no two receipts carry the same reference, and
  each decision returned for a mutating tool is the one that the receipt with its reference
  records (same tool, declared tier, turn type and outcome).
\<close>

theorem one_receipt_per_decision:
  fixes demote evs
  defines "g \<equiv> gate_run (new_gate demote) evs"
  shows "distinct (map rc_ref (receipts_out g)) \<and>
    (\<forall>x\<in>set (decisions g). gated (ret_tool x) \<longrightarrow>
      (\<exists>rc\<in>set (receipts_out g). rc_ref rc = reference (ret_decision x) \<and>
         rc_outcome rc = decided (ret_decision x) \<and> rc_tool rc = tool_name (ret_tool x) \<and>
         rc_tier rc = authorization (ret_tool x) \<and> rc_turn rc = turn_kind (ret_ctx x)))"
  using gate_ok_run [of demote evs] unfolding g_def
  by (auto simp: gate_ok_def decision_ok_def receipted_def)

text \<open>
  At most one approval is ever outstanding: all invocations that wait for the owner (or
  for their prompt to be sent) are one and the same, the pending slot holds exactly that
  one, and the slot is free when none waits.
\<close>

theorem at_most_one_pending:
  fixes demote evs
  defines "g \<equiv> gate_run (new_gate demote) evs"
  shows "length (filter (\<lambda>f. \<forall>d. fl_stage f \<noteq> Editing d) (flights g)) \<le> 1 \<and>
    (slot g = None \<longleftrightarrow> (\<forall>f\<in>set (flights g). \<exists>d. fl_stage f = Editing d)) \<and>
    (\<forall>p. slot g = Some p \<longrightarrow>
      (\<exists>f\<in>set (flights g). fl_ref f = pend_ref p \<and> (\<forall>d. fl_stage f \<noteq> Editing d)))"
proof (intro conjI)
  note ok = gate_ok_run [of demote evs, folded g_def]
  let ?W = "filter (\<lambda>f. \<forall>d. fl_stage f \<noteq> Editing d) (flights g)"
  have same: "h = f" if "f \<in> set ?W" "h \<in> set ?W" for f h
  proof -
    from that have f: "f \<in> set (flights g)" "\<not> is_editing f" and h: "h \<in> set (flights g)" "\<not> is_editing h"
      by auto
    from waiting_slot [OF ok f] waiting_slot [OF ok h] have "fl_ref h = fl_ref f" by auto
    then show ?thesis by (rule flight_unique [OF ok h(1) f(1)])
  qed
  have dis: "distinct ?W"
    using ok unfolding gate_ok_def distinct_map by (intro distinct_filter) blast
  have "card (set ?W) \<le> Suc 0"
    unfolding card_le_Suc0_iff_eq [OF List.finite_set] by (intro ballI same)
  then show "length ?W \<le> 1" unfolding distinct_card [OF dis] by simp
  show "\<forall>p. slot g = Some p \<longrightarrow>
      (\<exists>f\<in>set (flights g). fl_ref f = pend_ref p \<and> (\<forall>d. fl_stage f \<noteq> Editing d))"
    using ok by (auto simp: gate_ok_def slot_ok_def)
  then show "slot g = None \<longleftrightarrow> (\<forall>f\<in>set (flights g). \<exists>d. fl_stage f = Editing d)"
    using waiting_slot [OF ok] by (metis not_None_eq)
qed

lemma tainted_run_denies:
  fixes args :: arguments
  assumes "ctx g = Some c" and "turn_kind c = EVENT \<or> tainted c"
    and "\<forall>ev\<in>set evs. (\<forall>c'. ev \<noteq> Enter_Turn c') \<and> ev \<noteq> Exit_Turn"
    and "gated t" and "Some EVENT \<notin> set (turn_scope t)"
  defines "g' \<equiv> gate_run g evs"
  defines "g'' \<equiv> authorize_start t args g'"
  shows "slot g'' = slot g' \<and> flights g'' = flights g' \<and> edits g'' = edits g' \<and>
    (\<exists>x rc. decisions g'' = decisions g' @ [x] \<and> ret_tool x = t \<and>
       decided (ret_decision x) = OUT_OF_SCOPE \<and> \<not> permits (ret_decision x) \<and>
       receipts_out g'' = receipts_out g' @ [rc] \<and> rc_outcome rc = OUT_OF_SCOPE)"
proof -
  obtain c' where c': "ctx g' = Some c'" "turn_kind c' = turn_kind c" "tainted c \<longrightarrow> tainted c'"
    unfolding g'_def using ctx_run [OF assms(1,3)] by blast
  have "turn_kind c' = EVENT \<or> tainted c'" using assms(2) c'(2,3) by auto
  then obtain why where "scope_denial_reason t c' = Some why"
    using assms(5) by (cases "turn_kind c' = EVENT") (simp_all add: scope_denial_reason_def)
  then show ?thesis
    unfolding g''_def authorize_start_def Let_def using assms(4) c'(1)
    by (simp add: gated_def return_decision_def resolve_def permits_def EXECUTING_OUTCOMES_def)
qed

text \<open>
  C37. Untrusted content closes the write path for the rest of the turn: in an event turn, or
  once the turn's session is tainted, an owner-only mutating tool is refused as out of scope
  after any further events of that turn, at once and silently (no prompt is sent, no pending
  approval and no suspended invocation is touched), with one receipt.
\<close>

theorem tainted_turn_cannot_write:
  fixes args :: arguments
  assumes "ctx g = Some c" and "turn_kind c = EVENT \<or> tainted c"
    and "\<forall>ev\<in>set evs. (\<forall>c'. ev \<noteq> Enter_Turn c') \<and> ev \<noteq> Exit_Turn"
    and "gated t" and "Some EVENT \<notin> set (turn_scope t)"
  defines "g' \<equiv> gate_run g evs"
  defines "g'' \<equiv> authorize_start t args g'"
  shows "slot g'' = slot g' \<and> flights g'' = flights g' \<and> edits g'' = edits g' \<and>
    (\<exists>x rc. decisions g'' = decisions g' @ [x] \<and> ret_tool x = t \<and>
       decided (ret_decision x) = OUT_OF_SCOPE \<and> \<not> permits (ret_decision x) \<and>
       receipts_out g'' = receipts_out g' @ [rc] \<and> rc_outcome rc = OUT_OF_SCOPE)"
  unfolding g''_def g'_def by (rule tainted_run_denies [OF assms(1-5)])

text \<open>
  The first answer wins and cannot be taken back: once the pending approval has an
  answer, no sequence of further texts and reactions changes anything in the gate, and the
  invocation is decided by that answer or, if the window closes first, by the timeout.
\<close>

theorem first_answer_wins:
  assumes "slot g = Some p" and "answer p = Some oc"
    and "\<forall>ev\<in>set evs. (\<exists>msg. ev = Owner_Text msg) \<or> (\<exists>r. ev = Owner_Reaction r)"
    and "find_flight (pend_ref p) g = Some f" and "fl_stage f = Waiting pref"
  shows "gate_run g evs = g \<and>
    wait_returns (pend_ref p) late (gate_run g evs) =
      decide_wait f pref (if late then TIMEOUT else oc) (answered_how p) g"
proof -
  have tx: "snd (deliver_text msg g) = g" for msg
    using assms(1,2) by (cases "classify msg") (simp_all add: deliver_text_def set_answer_def)
  have rx: "snd (deliver_reaction r g) = g" for r
    using assms(1,2) by (simp add: deliver_reaction_def)
  have run: "gate_run g evs = g" using assms(3)
    by (induction evs) (auto simp: tx rx)
  show ?thesis unfolding run using assms by (simp add: wait_returns_def)
qed

text \<open>
  A reaction answers only the prompt it was put on: unless it is a fresh thumbs-up or
  thumbs-down (in any skin tone, nothing else beside it) on the message of the pending,
  still unanswered prompt, it leaves the gate exactly as it was.
\<close>

theorem reaction_answers_only_its_prompt:
  assumes "snd (deliver_reaction r g) \<noteq> g"
  shows "\<exists>p. slot g = Some p \<and> answer p = None \<and> \<not> rx_removed r \<and> prompt_ref p \<noteq> None \<and>
    rx_target r = prompt_ref p \<and>
    filter (\<lambda>c. \<not> is_modifier c) (rx_emoji r) \<in> {APPROVE_REACTION, DENY_REACTION}"
proof -
  have "filter (\<lambda>c. \<not> is_modifier c) (rx_emoji r) \<in> {APPROVE_REACTION, DENY_REACTION}"
    if "classify_reaction (rx_emoji r) \<in> {APPROVE, DENY}"
    using that by (auto simp: classify_reaction_def Let_def split: if_splits)
  moreover have "classify_reaction (rx_emoji r) \<noteq> UNRELATED"
    by (simp add: classify_reaction_def Let_def)
  ultimately show ?thesis
    using assms
    by (cases "classify_reaction (rx_emoji r)")
      (auto simp: deliver_reaction_def split: option.splits if_splits)
qed

text \<open>
  A model-chosen argument cannot forge prompt lines: whatever the value, what the
  prompt shows of it has no whitespace but single blanks (so no line break), and past the
  bound it is the first 200 characters with the count of the rest.
\<close>

theorem argument_is_one_bounded_line:
  "(\<forall>c\<in>set (bound_argument v). is_space c \<longrightarrow> c = 32) \<and>
   (let flat = join [32] (split_ws (shown v))
    in take 200 (bound_argument v) = take 200 flat \<and>
       (length flat \<le> 200 \<longrightarrow> bound_argument v = flat) \<and>
       (length flat > 200 \<longrightarrow>
          length (bound_argument v) = 200 + 26 + length (decimal (length flat - 200))))"
proof -
  let ?flat = "join [32] (split_ws (shown v))"
  have flat: "c = 32" if "c \<in> set ?flat" "is_space c" for c
    using set_join [OF that(1)] that(2) split_ws_no_space by fastforce
  have dec: "\<not> is_space c" if "c \<in> set (decimal n)" for c n
    using decimal_digits [OF that] by (auto simp: is_space_def)
  have tail: "c = 32" if "c \<in> set ([8230] @ cps '' (truncated, '' @ decimal n @ cps '' more chars)'')"
    "is_space c" for c n
    using that dec [of c n] by (auto simp: cps_def is_space_def)
  have "\<forall>c\<in>set (bound_argument v). is_space c \<longrightarrow> c = 32"
  proof (cases "length ?flat > ARGUMENT_MAX_CHARS")
    case True
    show ?thesis
    proof (intro ballI impI)
      fix c assume c: "c \<in> set (bound_argument v)" and sp: "is_space c"
      then have "c \<in> set ?flat \<or> c \<in> set ([8230] @ cps '' (truncated, '' @
          decimal (length ?flat - ARGUMENT_MAX_CHARS) @ cps '' more chars)'')"
        using True by (auto simp: bound_argument_def Let_def dest: in_set_takeD)
      then show "c = 32" using flat tail sp by blast
    qed
  qed (auto simp: bound_argument_def Let_def flat)
  then show ?thesis
    by (auto simp: bound_argument_def Let_def ARGUMENT_MAX_CHARS_def cps_def)
qed

section \<open>Witnesses\<close>

text \<open>An owner turn in which a per-instance tool asks and the owner answers with a thumb.\<close>

definition sample_sent :: prompt_sent where
  "sample_sent = \<lparr>sent_outcome = Sent, sent_ref = Some [55], too_large = False\<rparr>"

definition thumb :: inbound_reaction where
  "thumb = \<lparr>rx_sender = [43, 49], rx_emoji = [128077, 127997], rx_target = Some [55],
     rx_removed = False, rx_is_group = False\<rparr>"

definition asking :: "gate_event list" where
  "asking = [Enter_Turn UNFRAMED_CONTEXT, Authorize write_tool [([97], Text_Value [98])],
     Prompt_Returns 1 (Some sample_sent)]"

definition waiting_gate :: gate where
  "waiting_gate =
     \<lparr>demote_standing = False, ctx = Some UNFRAMED_CONTEXT, next_ref = 2,
      slot = Some \<lparr>pend_ref = 1, prompt_ref = Some [55], answer = None, answered_how = None\<rparr>,
      flights = [\<lparr>fl_ref = 1, fl_tool = write_tool, fl_args = [([97], Text_Value [98])],
        fl_ctx = UNFRAMED_CONTEXT, fl_framed = True, fl_stage = Waiting (Some [55])\<rparr>],
      receipts_out = [], edits = [], decisions = []\<rparr>"

lemmas gate_eval =
  new_gate_def enter_turn_def authorize_start_def prompt_returns_def find_flight_def set_stage_def
  scope_denial_reason_def effective_tier_def undeclared_key_def UNFRAMED_CONTEXT_def write_tool_def
  DEFAULT_TURN_SCOPE_def Let_def sample_sent_def

lemma asking_run: "gate_run (new_gate False) asking = waiting_gate"
  by (simp add: asking_def waiting_gate_def gate_eval)

definition answered_gate :: gate where
  "answered_gate = waiting_gate\<lparr>slot := Some \<lparr>pend_ref = 1, prompt_ref = Some [55],
     answer = Some APPROVED, answered_how = Some By_Reaction\<rparr>\<rparr>"

lemma thumb_run: "gate_step waiting_gate (Owner_Reaction thumb) = answered_gate"
  by (simp add: waiting_gate_def answered_gate_def deliver_reaction_def thumb_def
      classify_reaction_def is_modifier_def APPROVE_REACTION_def set_answer_def)

definition approval_events :: "gate_event list" where
  "approval_events = asking @ [Owner_Reaction thumb, Wait_Returns 1 False, Edit_Returns 1]"

definition approved_return :: returned where
  "approved_return =
     \<lparr>ret_tool = write_tool, ret_ctx = UNFRAMED_CONTEXT,
      ret_decision = \<lparr>decided = APPROVED, reference = 1, because = No_Reason\<rparr>\<rparr>"

lemma approval_run: "decisions (gate_run (new_gate False) approval_events) = [approved_return]"
proof -
  have "gate_run (new_gate False) approval_events =
      edit_returns 1 (wait_returns 1 False answered_gate)"
    by (simp add: approval_events_def asking_run thumb_run del: gate_step.simps(9))
  also have "decisions \<dots> = [approved_return]"
    by (simp add: answered_gate_def waiting_gate_def wait_returns_def find_flight_def decide_wait_def
        resolve_def edit_returns_def finish_def permits_def EXECUTING_OUTCOMES_def raise_taint_def
        return_decision_def drop_flight_def set_stage_def write_tool_def approved_return_def Let_def)
  finally show ?thesis .
qed

lemma write_tool_gated: "gated write_tool"
  by (simp add: gated_def write_tool_def)

theorem mutation_needs_authority_witness:
  "approved_in (new_gate False) approval_events 1"
  using mutation_needs_authority [of approved_return False approval_events] write_tool_gated
  by (simp add: approval_run approved_return_def permits_def EXECUTING_OUTCOMES_def)

theorem one_receipt_per_decision_witness:
  "\<exists>rc\<in>set (receipts_out (gate_run (new_gate False) approval_events)).
     rc_ref rc = 1 \<and> rc_outcome rc = APPROVED"
  using one_receipt_per_decision [of False approval_events] write_tool_gated
  by (auto simp: approval_run approved_return_def)

theorem at_most_one_pending_witness:
  "length (filter (\<lambda>f. \<forall>d. fl_stage f \<noteq> Editing d) (flights (gate_run (new_gate False)
     (asking @ [Authorize write_tool []])))) \<le> 1"
  using at_most_one_pending [of False "asking @ [Authorize write_tool []]"] by (rule conjunct1)

definition event_context :: turn_context where
  "event_context = \<lparr>turn_kind = EVENT, announceable = True, tainted = False, taint_source = None\<rparr>"

theorem tainted_turn_cannot_write_witness:
  "slot (authorize_start write_tool [] ((new_gate False)\<lparr>ctx := Some event_context\<rparr>)) = None"
  using tainted_turn_cannot_write [of "(new_gate False)\<lparr>ctx := Some event_context\<rparr>" event_context "[]"
      write_tool "[]"] write_tool_gated
  by (simp add: event_context_def write_tool_def DEFAULT_TURN_SCOPE_def new_gate_def)

theorem first_answer_wins_witness:
  "gate_run answered_gate [Owner_Text (cps ''no''), Owner_Reaction thumb] = answered_gate"
proof -
  let ?p = "\<lparr>pend_ref = 1, prompt_ref = Some [55], answer = Some APPROVED,
     answered_how = Some By_Reaction\<rparr>"
  let ?f = "hd (flights answered_gate)"
  have "slot answered_gate = Some ?p" and "find_flight (pend_ref ?p) answered_gate = Some ?f"
    and "fl_stage ?f = Waiting (Some [55])"
    by (simp_all add: answered_gate_def waiting_gate_def find_flight_def)
  then show ?thesis
    using first_answer_wins [of answered_gate ?p APPROVED
        "[Owner_Text (cps ''no''), Owner_Reaction thumb]" ?f "Some [55]"]
    by (auto simp del: gate_step.simps)
qed

theorem reaction_answers_only_its_prompt_witness:
  "\<exists>p. slot waiting_gate = Some p \<and> rx_target thumb = prompt_ref p"
proof -
  have "snd (deliver_reaction thumb waiting_gate) \<noteq> waiting_gate"
    using thumb_run by (simp add: answered_gate_def waiting_gate_def)
  from reaction_answers_only_its_prompt [OF this] show ?thesis by blast
qed

theorem argument_is_one_bounded_line_witness:
  "bound_argument (Text_Value [97, 10, 98]) = [97, 32, 98]"
proof -
  have "join [32] (split_ws (shown (Text_Value [97, 10, 98]))) = [97, 32, 98]"
    by (simp add: split_ws_def is_space_def)
  with argument_is_one_bounded_line [of "Text_Value [97, 10, 98]", THEN conjunct2]
  have "length [97, 32, 98 :: nat] \<le> 200 \<longrightarrow> bound_argument (Text_Value [97, 10, 98]) = [97, 32, 98]"
    unfolding Let_def by simp
  then show ?thesis by simp
qed

end
