(* ===== verification/Permission.thy ===== *)
theory Permission
  imports Gate
begin

text \<open>
  \<open>henk/agent/permission.py\<close> and \<open>gated_invoke\<close> of \<open>henk/gate/approval.py\<close>: the closed
  toolset. The hook that the SDK runs before every tool call, the default-deny decision over
  the registry, and what a decision lets happen.
\<close>

definition HENK_MCP_PREFIX :: str where "HENK_MCP_PREFIX = cps ''mcp__henk__''"

definition base_tool_name :: "str \<Rightarrow> str" where
  "base_tool_name n = (if prefix HENK_MCP_PREFIX n then drop (length HENK_MCP_PREFIX) n else n)"

text \<open>\<open>pretooluse_block_decision\<close>: \<open>Some\<close> is the deny output with its reason, \<open>None\<close> lets the
  call fall through to \<open>decide_tool_permission\<close>.\<close>

definition pretooluse_block_decision :: "str \<Rightarrow> str option" where
  "pretooluse_block_decision n =
     (if prefix HENK_MCP_PREFIX n then None
      else Some (n @ cps '' is not a Henk tool; blocked by the closed-toolset hook''))"

datatype permission_start =
    Denied_Unregistered str     \<comment> \<open>denied before the gate, with the reason\<close>
  | Asked_Gate tool arguments   \<comment> \<open>the decision is the one \<open>authorize\<close> returns\<close>

definition decide_start :: "registry \<Rightarrow> str \<Rightarrow> arguments option \<Rightarrow> permission_start" where
  "decide_start reg n args =
     (let name = base_tool_name n
      in case get_tool name reg of
           None \<Rightarrow> Denied_Unregistered (n @ cps '' is not a registered Henk tool'')
         | Some t \<Rightarrow> Asked_Gate t (case args of None \<Rightarrow> [] | Some a \<Rightarrow> a))"

definition permission_of :: "gate_decision \<Rightarrow> bool \<times> reason" where
  "permission_of d = (if permits d then (True, No_Reason) else (False, because d))"

text \<open>The whole decision as an event of the gate: an unregistered name never reaches it.\<close>

definition permission_step :: "registry \<Rightarrow> str \<Rightarrow> arguments option \<Rightarrow> gate \<Rightarrow> gate" where
  "permission_step reg n args g =
     (case decide_start reg n args of
        Denied_Unregistered why \<Rightarrow> g
      | Asked_Gate t a \<Rightarrow> gate_step g (Authorize t a))"

text \<open>\<open>gated_invoke\<close>: the tool runs only under a permitting decision; \<open>run\<close> is the tool.\<close>

definition invoke_after :: "gate_decision \<Rightarrow> (unit \<Rightarrow> 'r) \<Rightarrow> reason + 'r" where
  "invoke_after d run = (if permits d then Inr (run ()) else Inl (because d))"

text \<open>
  The toolset is closed and no tool can slip past the gate: a name outside the Henk
  namespace is blocked by the hook; a name that is not registered is denied with the gate
  untouched; any other call is an \<open>authorize\<close> of the well-declared tool registered under that
  very name, and the tool body runs only under a permitting decision.
\<close>

theorem toolset_is_closed:
  assumes "reg = foldl register_step [] tools"
  shows "(\<not> prefix HENK_MCP_PREFIX n \<longrightarrow> pretooluse_block_decision n \<noteq> None) \<and>
    (base_tool_name n \<notin> set (names reg) \<longrightarrow>
       permission_step reg n args g = g \<and> (\<exists>why. decide_start reg n args = Denied_Unregistered why)) \<and>
    (base_tool_name n \<in> set (names reg) \<longrightarrow>
       (\<exists>t. well_declared t \<and> registered_name t = base_tool_name n \<and>
          permission_step reg n args g =
            authorize_start t (case args of None \<Rightarrow> [] | Some a \<Rightarrow> a) g)) \<and>
    (\<forall>d run r. invoke_after d run = Inr r \<longrightarrow> permits d \<and> permission_of d = (True, No_Reason))"
proof (intro conjI impI allI)
  show "pretooluse_block_decision n \<noteq> None" if "\<not> prefix HENK_MCP_PREFIX n"
    using that by (simp add: pretooluse_block_decision_def)
  assume "base_tool_name n \<notin> set (names reg)"
  then have "get_tool (base_tool_name n) reg = None"
    by (auto simp: get_tool_def names_def map_of_eq_None_iff)
  then show "permission_step reg n args g = g" and "\<exists>why. decide_start reg n args = Denied_Unregistered why"
    by (simp_all add: permission_step_def decide_start_def Let_def)
next
  assume name: "base_tool_name n \<in> set (names reg)"
  have ok: "registry_ok reg"
    unfolding assms by (rule registration.run_inv) (simp_all add: registry_ok_def names_def list_all_iff)
  from name obtain t where t: "get_tool (base_tool_name n) reg = Some t"
    using ok by (force simp: names_def get_tool_def registry_ok_def)
  then have "(base_tool_name n, t) \<in> set reg" by (simp add: get_tool_def map_of_SomeD)
  with ok t show "\<exists>t. well_declared t \<and> registered_name t = base_tool_name n \<and>
      permission_step reg n args g = authorize_start t (case args of None \<Rightarrow> [] | Some a \<Rightarrow> a) g"
    by (intro exI [of _ t]) (auto simp: registry_ok_def permission_step_def decide_start_def Let_def)
qed (auto simp: invoke_after_def permission_of_def split: if_splits)

theorem toolset_is_closed_witness:
  "permission_step (foldl register_step [] [write_tool]) (cps ''mcp__henk__x'') None waiting_gate =
     waiting_gate"
proof -
  have "foldl register_step [] [write_tool] = [([119], write_tool)]"
    by (simp add: register_step_def register_def Let_def write_tool_def registered_name_def names_def
        DEFAULT_TURN_SCOPE_def strip_def is_space_def)
  moreover have "base_tool_name (cps ''mcp__henk__x'') = [120]"
    by (simp add: base_tool_name_def HENK_MCP_PREFIX_def cps_def)
  ultimately have "base_tool_name (cps ''mcp__henk__x'') \<notin> set (names (foldl register_step [] [write_tool]))"
    by (simp add: names_def)
  then show ?thesis using toolset_is_closed [OF refl, of "cps ''mcp__henk__x''" "[write_tool]" None waiting_gate]
    by blast
qed

end
