(* ===== verification/Event_Identity.thy ===== *)
theory Event_Identity
  imports Prelude
begin

text \<open>
  \<open>henk/events/types.py\<close> and \<open>henk/events/identity.py\<close>: events and the stable identity
  derived from one. The module's regular expressions are written out as the searches they
  perform: \<open>\s\<close> and \<open>\S\<close> are \<open>is_space\<close> and its complement, a \<open>MULTILINE\<close> pattern without a
  line break is tried line by line.
\<close>

section \<open>Events\<close>

datatype event_state = FIRING | RESOLVED | UNKNOWN_STATE

record event =
  ev_id :: str
  ev_title :: str
  ev_message :: str
  arrival_time :: secs
  published_at :: "secs option"

record alert_identity =
  id_key :: str
  id_source :: str
  id_name :: str
  id_state :: event_state

section \<open>Searching\<close>

definition SCOPE_VALUE_MAX :: nat where "SCOPE_VALUE_MAX = 120"
definition GATUS_PREFIX :: str where "GATUS_PREFIX = cps ''Gatus:''"

definition is_blank :: "nat \<Rightarrow> bool" where
  "is_blank c \<longleftrightarrow> c = 32 \<or> c = 9"

text \<open>\<open>\[(FIRING|RESOLVED)\<close>, ignoring case: the leftmost match, as the state and the text after
  the match.\<close>

fun grafana_marker :: "str \<Rightarrow> (event_state \<times> str) option" where
  "grafana_marker [] = None"
| "grafana_marker (c # cs) =
     (if c = 91 \<and> lower (take 6 cs) = cps ''firing'' then Some (FIRING, drop 6 cs)
      else if c = 91 \<and> lower (take 8 cs) = cps ''resolved'' then Some (RESOLVED, drop 8 cs)
      else grafana_marker cs)"

text \<open>\<open>alertname\s*=\s*(\S+)\<close>: the leftmost match's group.\<close>

definition alertname_at :: "str \<Rightarrow> str option" where
  "alertname_at s =
     (if prefix (cps ''alertname'') s then
        (case dropWhile is_space (drop 9 s) of
           [] \<Rightarrow> None
         | c # cs \<Rightarrow>
             if c = 61 then
               (let name = takeWhile (\<lambda>c. \<not> is_space c) (dropWhile is_space cs)
                in if name = [] then None else Some name)
             else None)
      else None)"

fun grafana_alertname :: "str \<Rightarrow> str option" where
  "grafana_alertname [] = None"
| "grafana_alertname (c # cs) =
     (case alertname_at (c # cs) of Some n \<Rightarrow> Some n | None \<Rightarrow> grafana_alertname cs)"

fun lines_acc :: "str \<Rightarrow> str \<Rightarrow> str list" where
  "lines_acc w [] = [rev w]"
| "lines_acc w (c # cs) = (if c = 10 then rev w # lines_acc [] cs else lines_acc (c # w) cs)"

definition lines_of :: "str \<Rightarrow> str list" where
  "lines_of s = lines_acc [] s"

text \<open>\<open>^[ \t]*-[ \t]*<label>[ \t]*=[ \t]*\<close>: what a line holds after it, if it starts so.\<close>

definition after_label :: "str \<Rightarrow> str \<Rightarrow> str option" where
  "after_label lab l =
     (case dropWhile is_blank l of
        [] \<Rightarrow> None
      | c # cs \<Rightarrow>
          (let r = dropWhile is_blank cs
           in if c \<noteq> 45 \<or> \<not> prefix lab r then None
              else (case dropWhile is_blank (drop (length lab) r) of
                  [] \<Rightarrow> None
                | e # es \<Rightarrow> if e = 61 then Some (dropWhile is_blank es) else None)))"

definition scope_at :: "str \<Rightarrow> str option" where
  "scope_at l =
     (case after_label (cps ''identity_scope'') l of
        None \<Rightarrow> None
      | Some r \<Rightarrow>
          (let v = takeWhile (\<lambda>c. \<not> is_space c) r; rest = dropWhile (\<lambda>c. \<not> is_space c) r
           in if v \<noteq> [] \<and> list_all is_blank rest then Some v else None))"

fun first_some :: "('a \<Rightarrow> 'b option) \<Rightarrow> 'a list \<Rightarrow> 'b option" where
  "first_some f [] = None"
| "first_some f (x # xs) = (case f x of Some y \<Rightarrow> Some y | None \<Rightarrow> first_some f xs)"

definition grafana_scope :: "str \<Rightarrow> str option" where
  "grafana_scope msg = first_some scope_at (lines_of msg)"

definition rstrip_blank :: "str \<Rightarrow> str" where
  "rstrip_blank s = rev (dropWhile is_blank (rev s))"

definition grafana_label :: "str \<Rightarrow> str \<Rightarrow> str option" where
  "grafana_label msg lab =
     (case first_some (after_label lab) (lines_of msg) of
        None \<Rightarrow> None
      | Some r \<Rightarrow> (let v = rstrip_blank r in if v = [] then None else Some v))"

text \<open>The value of the label that the message names as its scope, if it has both.\<close>

definition scope_value :: "str \<Rightarrow> str option" where
  "scope_value msg =
     (case grafana_scope msg of None \<Rightarrow> None | Some lab \<Rightarrow> grafana_label msg lab)"

section \<open>The rules\<close>

definition normalized_title :: "str \<Rightarrow> str" where
  "normalized_title t = join [32] (split_ws (lower (strip t)))"

definition gatus_state :: "str \<Rightarrow> event_state" where
  "gatus_state msg =
     (let lowered = lower msg
      in if contains (cps ''has been resolved'') lowered \<or> contains (cps ''resolved'') lowered
         then RESOLVED
         else if contains (cps ''has been triggered'') lowered \<or> contains (cps ''triggered'') lowered
         then FIRING
         else UNKNOWN_STATE)"

definition derive_gatus :: "event \<Rightarrow> alert_identity" where
  "derive_gatus ev =
     (let name = strip (drop (length GATUS_PREFIX) (ev_title ev))
      in \<lparr>id_key = cps ''gatus:'' @ name, id_source = cps ''gatus'', id_name = name,
          id_state = gatus_state (ev_message ev)\<rparr>)"

text \<open>\<open>tail.split("]", 1)[-1]\<close>: what follows the first bracket, or all of it.\<close>

definition after_bracket :: "str \<Rightarrow> str" where
  "after_bracket s =
     (case dropWhile (\<lambda>c. c \<noteq> 93) s of [] \<Rightarrow> s | c # cs \<Rightarrow> cs)"

definition derive_grafana :: "event \<Rightarrow> event_state \<times> str \<Rightarrow> alert_identity" where
  "derive_grafana ev marker =
     (let (state, tail) = marker;
          name = (case grafana_alertname (ev_message ev) of
              Some n \<Rightarrow> n
            | None \<Rightarrow> (case split_ws (strip (after_bracket tail)) of
                [] \<Rightarrow> normalized_title (ev_title ev)
              | w # ws \<Rightarrow> w));
          key = cps ''grafana:'' @ name;
          scoped = (case scope_value (ev_message ev) of
              None \<Rightarrow> key
            | Some v \<Rightarrow> key @ [47] @ take SCOPE_VALUE_MAX v)
      in \<lparr>id_key = scoped, id_source = cps ''grafana'', id_name = name, id_state = state\<rparr>)"

fun split_bar_acc :: "str \<Rightarrow> str \<Rightarrow> str list" where
  "split_bar_acc w [] = [rev w]"
| "split_bar_acc w (c # cs) = (if c = 124 then rev w # split_bar_acc [] cs else split_bar_acc (c # w) cs)"

definition split_bar :: "str \<Rightarrow> str list" where
  "split_bar s = split_bar_acc [] s"

definition derive_pipe :: "event \<Rightarrow> alert_identity option" where
  "derive_pipe ev =
     (let parts = map strip (split_bar (ev_title ev))
      in if length parts < 2 \<or> parts ! 0 = [] \<or> parts ! 1 = [] then None
         else (let source = lower (parts ! 0); name = parts ! 1;
                   state = (if length parts \<ge> 3 then
                        (let token = lower (parts ! 2)
                         in if prefix (cps ''fir'') token then FIRING
                            else if prefix (cps ''res'') token then RESOLVED
                            else UNKNOWN_STATE)
                      else UNKNOWN_STATE)
               in Some \<lparr>id_key = source @ [58] @ name, id_source = source, id_name = name,
                        id_state = state\<rparr>))"

definition derive_identity :: "event \<Rightarrow> alert_identity" where
  "derive_identity ev =
     (if prefix GATUS_PREFIX (ev_title ev) then derive_gatus ev
      else (case grafana_marker (ev_title ev) of
          Some m \<Rightarrow> derive_grafana ev m
        | None \<Rightarrow> (case derive_pipe ev of
            Some i \<Rightarrow> i
          | None \<Rightarrow> \<lparr>id_key = cps ''other:'' @ normalized_title (ev_title ev), id_source = cps ''other'',
                     id_name = (if strip (ev_title ev) = [] then cps ''(untitled event)''
                                else strip (ev_title ev)),
                     id_state = UNKNOWN_STATE\<rparr>)))"

abbreviation ident_key :: "event \<Rightarrow> str" where
  "ident_key ev \<equiv> id_key (derive_identity ev)"

section \<open>What the key depends on\<close>

text \<open>
  Two events report the same incident when only their lifecycle state differs, as each
  sensor writes it: Gatus in the body, Grafana in the bracket (the alert named and
  scoped by its labels), the pipe contract in the third field.
\<close>

inductive same_incident :: "event \<Rightarrow> event \<Rightarrow> bool" where
  gatus: "ev_title e = ev_title f \<Longrightarrow> prefix GATUS_PREFIX (ev_title e) \<Longrightarrow> same_incident e f"
| grafana: "\<not> prefix GATUS_PREFIX (ev_title e) \<Longrightarrow> \<not> prefix GATUS_PREFIX (ev_title f) \<Longrightarrow>
    grafana_marker (ev_title e) \<noteq> None \<Longrightarrow> grafana_marker (ev_title f) \<noteq> None \<Longrightarrow>
    grafana_alertname (ev_message e) = Some a \<Longrightarrow> grafana_alertname (ev_message f) = Some a \<Longrightarrow>
    scope_value (ev_message e) = scope_value (ev_message f) \<Longrightarrow> same_incident e f"
| pipe: "ev_title e = src @ [124] @ name @ [124] @ s \<Longrightarrow> ev_title f = src @ [124] @ name @ [124] @ s' \<Longrightarrow>
    124 \<notin> set src \<Longrightarrow> 124 \<notin> set name \<Longrightarrow> strip src \<noteq> [] \<Longrightarrow> strip name \<noteq> [] \<Longrightarrow>
    \<not> prefix GATUS_PREFIX (ev_title e) \<Longrightarrow> \<not> prefix GATUS_PREFIX (ev_title f) \<Longrightarrow>
    grafana_marker (ev_title e) = None \<Longrightarrow> grafana_marker (ev_title f) = None \<Longrightarrow> same_incident e f"

lemma split_bar_acc_cons:
  "124 \<notin> set s \<Longrightarrow> split_bar_acc w (s @ 124 # r) = (rev w @ s) # split_bar_acc [] r"
  by (induction s arbitrary: w) auto

lemma split_bar_two:
  assumes "124 \<notin> set a" and "124 \<notin> set b"
  shows "split_bar (a @ [124] @ b @ [124] @ s) = a # b # split_bar s"
  using assms by (simp add: split_bar_def split_bar_acc_cons)

lemma derive_pipe_key:
  assumes "ev_title e = src @ [124] @ name @ [124] @ s" and "124 \<notin> set src" and "124 \<notin> set name"
    and "strip src \<noteq> []" and "strip name \<noteq> []"
  shows "\<exists>i. derive_pipe e = Some i \<and> id_key i = lower (strip src) @ [58] @ strip name"
  using assms(4,5) unfolding derive_pipe_def assms(1) split_bar_two [OF assms(2,3)]
  by (simp add: Let_def split_bar_def)

text \<open>
  The key follows the incident, not the transition: a firing and its resolution derive
  the same identity key for every sensor format the rules know, so cooldown and recurrence
  see one identity.
\<close>

theorem key_ignores_the_state:
  assumes "same_incident e f"
  shows "ident_key e = ident_key f"
  using assms
proof cases
  case gatus
  then show ?thesis by (simp add: derive_identity_def derive_gatus_def Let_def)
next
  case (grafana a)
  then obtain m n where "grafana_marker (ev_title e) = Some m" "grafana_marker (ev_title f) = Some n"
    by auto
  with grafana show ?thesis
    by (simp add: derive_identity_def derive_grafana_def Let_def split_beta)
next
  case (pipe src name s s')
  from derive_pipe_key [OF pipe(1,3,4,5,6)] derive_pipe_key [OF pipe(2,3,4,5,6)] pipe(7-10)
  show ?thesis by (auto simp: derive_identity_def)
qed

definition gatus_down :: event where
  "gatus_down = \<lparr>ev_id = [1], ev_title = cps ''Gatus: core/dns'', ev_message = cps ''triggered'',
     arrival_time = 0, published_at = None\<rparr>"

theorem key_ignores_the_state_witness:
  "ident_key gatus_down = ident_key (gatus_down\<lparr>ev_message := cps ''resolved''\<rparr>) \<and>
   id_state (derive_identity gatus_down) = FIRING"
proof
  have "same_incident gatus_down (gatus_down\<lparr>ev_message := cps ''resolved''\<rparr>)"
    by (rule gatus) (simp_all add: gatus_down_def GATUS_PREFIX_def cps_def)
  then show "ident_key gatus_down = ident_key (gatus_down\<lparr>ev_message := cps ''resolved''\<rparr>)"
    by (rule key_ignores_the_state)
  show "id_state (derive_identity gatus_down) = FIRING"
    by (simp add: derive_identity_def gatus_down_def GATUS_PREFIX_def cps_def derive_gatus_def
        gatus_state_def lower_def lower_cp_def Let_def)
qed

end
