(* ===== verification/Event_Pipeline.thy ===== *)
theory Event_Pipeline
  imports Event_Identity
begin

text \<open>
  \<open>henk/events/pipeline.py\<close>: the debouncer, and the policy over a debounced batch (cooldown
  per identity, recurrence, the daily cap on announcements) with its rebuilding from the
  audit log after a restart. \<open>rx pattern key\<close> stands for \<open>re.search(pattern, key,
  re.IGNORECASE)\<close> with a pattern from the configuration.
\<close>

section \<open>The debouncer\<close>

record debouncer =
  batch :: "event list"
  batch_start :: "secs option"

definition new_debouncer :: debouncer where
  "new_debouncer = \<lparr>batch = [], batch_start = None\<rparr>"

definition feed :: "secs \<Rightarrow> event \<Rightarrow> debouncer \<Rightarrow> event list option \<times> debouncer" where
  "feed window ev d =
     (case batch_start d of
        None \<Rightarrow> (None, \<lparr>batch = [ev], batch_start = Some (arrival_time ev)\<rparr>)
      | Some start \<Rightarrow>
          if arrival_time ev - start \<le> window then (None, d\<lparr>batch := batch d @ [ev]\<rparr>)
          else (Some (batch d), \<lparr>batch = [ev], batch_start = Some (arrival_time ev)\<rparr>))"

definition flush :: "debouncer \<Rightarrow> event list option \<times> debouncer" where
  "flush d = (if batch d = [] then (None, d) else (Some (batch d), new_debouncer))"

text \<open>\<open>_feed\<close> and \<open>_flush\<close> of the coordinator: the batches a stretch of events gives.\<close>

fun feed_all :: "secs \<Rightarrow> event list \<Rightarrow> debouncer \<Rightarrow> event list list \<times> debouncer" where
  "feed_all window [] d = ([], d)"
| "feed_all window (ev # evs) d =
     (let (done, d1) = feed window ev d;
          (ready, d2) = feed_all window evs d1
      in ((case done of None \<Rightarrow> ready | Some b \<Rightarrow> b # ready), d2))"

definition debounce :: "secs \<Rightarrow> event list \<Rightarrow> event list list" where
  "debounce window evs =
     (let (ready, d) = feed_all window evs new_debouncer
      in ready @ (case fst (flush d) of None \<Rightarrow> [] | Some b \<Rightarrow> [b]))"

section \<open>Policy\<close>

record override =
  ov_pattern :: str
  ov_cooldown :: "secs option"   \<comment> \<open>\<open>None\<close> when the entry has no \<open>cooldown_seconds\<close>\<close>

record pipeline_cfg =
  cooldown_seconds :: secs
  recurrence_window :: secs
  cap_per_24h :: nat
  cap_window :: secs
  cooldown_overrides :: "override list"

record pipeline =
  last_triaged :: "str \<rightharpoonup> secs"
  last_handoff_ref :: "str \<rightharpoonup> str"
  announce_times :: "secs list"
  cap_suppressed :: nat

definition new_pipeline :: pipeline where
  "new_pipeline =
     \<lparr>last_triaged = Map.empty, last_handoff_ref = Map.empty, announce_times = [],
      cap_suppressed = 0\<rparr>"

record held_release =
  hr_window_id :: str
  hr_title :: str
  hr_start :: secs
  hr_end_with_grace :: secs
  hr_held :: nat
  hr_recovered :: nat
  hr_hold_age :: secs

record turn_item =
  it_event :: event
  it_identity :: alert_identity
  it_recurrence :: bool
  it_prior_ref :: "str option"

record event_turn =
  tn_items :: "turn_item list"
  tn_announceable :: bool
  tn_suppressed_count :: nat
  tn_offset :: "str option"
  tn_held_release :: "held_release option"

record suppression =
  su_key :: str
  su_event_id :: str
  su_at :: secs

definition note_handoff :: "str \<Rightarrow> str \<Rightarrow> pipeline \<Rightarrow> pipeline" where
  "note_handoff key ref p =
     (if ref = [] then p else p\<lparr>last_handoff_ref := (last_handoff_ref p)(key \<mapsto> ref)\<rparr>)"

text \<open>\<open>_cooldown_for\<close>: \<open>None\<close> where the code raises \<open>KeyError\<close> (the configuration check
  lets an override without its \<open>cooldown_seconds\<close> through).\<close>

fun override_for :: "(str \<Rightarrow> str \<Rightarrow> bool) \<Rightarrow> override list \<Rightarrow> str \<Rightarrow> secs option option" where
  "override_for rx [] key = None"
| "override_for rx (ov # ovs) key =
     (if ov_pattern ov \<noteq> [] \<and> rx (ov_pattern ov) key then Some (ov_cooldown ov)
      else override_for rx ovs key)"

definition cooldown_for :: "(str \<Rightarrow> str \<Rightarrow> bool) \<Rightarrow> pipeline_cfg \<Rightarrow> str \<Rightarrow> secs option" where
  "cooldown_for rx cfg key =
     (case override_for rx (cooldown_overrides cfg) key of
        None \<Rightarrow> Some (cooldown_seconds cfg) | Some c \<Rightarrow> c)"

definition in_cooldown :: "secs \<Rightarrow> secs \<Rightarrow> pipeline \<Rightarrow> str \<Rightarrow> bool" where
  "in_cooldown cooldown now p key \<longleftrightarrow>
     (case last_triaged p key of None \<Rightarrow> False | Some t \<Rightarrow> now - t < cooldown)"

definition recurs :: "pipeline_cfg \<Rightarrow> secs \<Rightarrow> pipeline \<Rightarrow> str \<Rightarrow> bool" where
  "recurs cfg now p key \<longleftrightarrow>
     (case last_triaged p key of None \<Rightarrow> False | Some t \<Rightarrow> now - t < recurrence_window cfg)"

definition item_for :: "pipeline_cfg \<Rightarrow> secs \<Rightarrow> pipeline \<Rightarrow> event \<Rightarrow> turn_item" where
  "item_for cfg now p ev =
     (let key = ident_key ev; rec = recurs cfg now p key
      in \<lparr>it_event = ev, it_identity = derive_identity ev, it_recurrence = rec,
          it_prior_ref = (if rec then last_handoff_ref p key else None)\<rparr>)"

text \<open>The loop over the batch; \<open>None\<close> when a cooldown lookup raises.\<close>

fun eval_loop ::
    "(str \<Rightarrow> str \<Rightarrow> bool) \<Rightarrow> pipeline_cfg \<Rightarrow> secs \<Rightarrow> pipeline \<Rightarrow> str list \<Rightarrow> event list \<Rightarrow>
     (turn_item list \<times> suppression list) option" where
  "eval_loop rx cfg now p seen [] = Some ([], [])"
| "eval_loop rx cfg now p seen (ev # evs) =
     (let key = ident_key ev
      in if key \<in> set seen then eval_loop rx cfg now p seen evs
         else (case cooldown_for rx cfg key of
             None \<Rightarrow> None
           | Some c \<Rightarrow> map_option (\<lambda>(items, supps).
               if in_cooldown c now p key
               then (items, \<lparr>su_key = key, su_event_id = ev_id ev, su_at = now\<rparr> # supps)
               else (item_for cfg now p ev # items, supps))
               (eval_loop rx cfg now p (key # seen) evs)))"

definition apply_cap :: "pipeline_cfg \<Rightarrow> secs \<Rightarrow> pipeline \<Rightarrow> (bool \<times> nat) \<times> pipeline" where
  "apply_cap cfg now p =
     (let recent = filter (\<lambda>t. now - t < cap_window cfg) (announce_times p)
      in if length recent < cap_per_24h cfg
         then ((True, cap_suppressed p), p\<lparr>announce_times := recent @ [now], cap_suppressed := 0\<rparr>)
         else ((False, 0), p\<lparr>announce_times := recent, cap_suppressed := Suc (cap_suppressed p)\<rparr>))"

fun arm :: "secs \<Rightarrow> turn_item list \<Rightarrow> (str \<rightharpoonup> secs) \<Rightarrow> (str \<rightharpoonup> secs)" where
  "arm now [] m = m"
| "arm now (i # is) m = arm now is (m(id_key (it_identity i) \<mapsto> now))"

text \<open>\<open>Inl ()\<close> is the exception; nothing was changed yet when it is raised.\<close>

definition evaluate ::
    "(str \<Rightarrow> str \<Rightarrow> bool) \<Rightarrow> pipeline_cfg \<Rightarrow> event list \<Rightarrow> secs \<Rightarrow> held_release option \<Rightarrow> pipeline \<Rightarrow>
     (unit + (event_turn option \<times> suppression list)) \<times> pipeline" where
  "evaluate rx cfg evs now held p =
     (case eval_loop rx cfg now p [] evs of
        None \<Rightarrow> (Inl (), p)
      | Some (items, supps) \<Rightarrow>
          if items = [] then (Inr (None, supps), p)
          else (let p1 = p\<lparr>last_triaged := arm now items (last_triaged p)\<rparr>;
                    ((announceable, surfaced), p2) = apply_cap cfg now p1
                in (Inr (Some \<lparr>tn_items = items, tn_announceable = announceable,
                          tn_suppressed_count = surfaced, tn_offset = None,
                          tn_held_release = held\<rparr>, supps), p2)))"

section \<open>Restart\<close>

text \<open>The fields of an audit record that \<open>rehydrate\<close> reads.\<close>

record audit_entry =
  ae_session :: bool
  ae_event :: bool
  ae_at :: "secs option"
  ae_keys :: "str list"
  ae_handoff :: "str option"
  ae_announceable :: "bool option"

definition widest :: "pipeline_cfg \<Rightarrow> secs" where
  "widest cfg =
     fold max (List.map_filter ov_cooldown (cooldown_overrides cfg))
       (max (cooldown_seconds cfg) (max (recurrence_window cfg) (cap_window cfg)))"

definition entry_at :: "audit_entry \<Rightarrow> secs" where
  "entry_at r = (case ae_at r of None \<Rightarrow> 0 | Some t \<Rightarrow> t)"

definition triage_entries :: "pipeline_cfg \<Rightarrow> secs \<Rightarrow> audit_entry list \<Rightarrow> audit_entry list" where
  "triage_entries cfg now rs =
     sort_key entry_at (filter (\<lambda>r. ae_session r \<and> ae_event r \<and> ae_at r \<noteq> None \<and>
        now - entry_at r < widest cfg) rs)"

fun rehydrate_keys ::
    "secs \<Rightarrow> bool \<Rightarrow> str option \<Rightarrow> str list \<Rightarrow> pipeline \<Rightarrow> pipeline" where
  "rehydrate_keys t near handoff [] p = p"
| "rehydrate_keys t near handoff (k # ks) p =
     rehydrate_keys t near handoff ks
       (if k = [] then p
        else (let p1 = p\<lparr>last_triaged := (last_triaged p)(k \<mapsto> t)\<rparr>
              in case handoff of
                   None \<Rightarrow> p1
                 | Some h \<Rightarrow> if near \<and> h \<noteq> []
                     then p1\<lparr>last_handoff_ref := (last_handoff_ref p1)(k \<mapsto> h)\<rparr> else p1))"

fun rehydrate_loop ::
    "pipeline_cfg \<Rightarrow> secs \<Rightarrow> audit_entry list \<Rightarrow> nat \<Rightarrow> pipeline \<Rightarrow> nat \<times> pipeline" where
  "rehydrate_loop cfg now [] dropped p = (dropped, p)"
| "rehydrate_loop cfg now (r # rs) dropped p =
     (let t = entry_at r;
          p1 = rehydrate_keys t (now - t < recurrence_window cfg) (ae_handoff r) (ae_keys r) p
      in if now - t < cap_window cfg then
           (case ae_announceable r of
              Some True \<Rightarrow> rehydrate_loop cfg now rs 0 (p1\<lparr>announce_times := announce_times p1 @ [t]\<rparr>)
            | Some False \<Rightarrow> rehydrate_loop cfg now rs (Suc dropped) p1
            | None \<Rightarrow> rehydrate_loop cfg now rs dropped p1)
         else rehydrate_loop cfg now rs dropped p1)"

definition rehydrate :: "pipeline_cfg \<Rightarrow> audit_entry list \<Rightarrow> secs \<Rightarrow> pipeline \<Rightarrow> pipeline" where
  "rehydrate cfg rs now p =
     (let (dropped, p1) = rehydrate_loop cfg now (triage_entries cfg now rs) 0 p
      in p1\<lparr>announce_times := sort (announce_times p1), cap_suppressed := dropped\<rparr>)"

section \<open>The debouncer loses nothing\<close>

definition debouncer_ok :: "secs \<Rightarrow> debouncer \<Rightarrow> bool" where
  "debouncer_ok window d \<longleftrightarrow>
     (case batch_start d of
        None \<Rightarrow> batch d = []
      | Some s \<Rightarrow> batch d \<noteq> [] \<and> arrival_time (hd (batch d)) = s \<and>
          (\<forall>e\<in>set (batch d). arrival_time e - s \<le> window))"

definition batch_ok :: "secs \<Rightarrow> event list \<Rightarrow> bool" where
  "batch_ok window b \<longleftrightarrow> b \<noteq> [] \<and> (\<forall>e\<in>set b. arrival_time e - arrival_time (hd b) \<le> window)"

lemma feed_ok:
  assumes "debouncer_ok window d" and "0 \<le> window" and "feed window ev d = (done, d')"
  shows "debouncer_ok window d'" and "batch d @ [ev] = (case done of None \<Rightarrow> [] | Some b \<Rightarrow> b) @ batch d'"
    and "done = Some b \<Longrightarrow> batch_ok window b"
  using assms
  by (auto simp: debouncer_ok_def feed_def batch_ok_def split: option.splits if_splits)

lemma feed_all_ok:
  assumes "debouncer_ok window d" and "0 \<le> window" and "feed_all window evs d = (ready, d')"
  shows "debouncer_ok window d' \<and> batch d @ evs = concat ready @ batch d' \<and>
    (\<forall>b\<in>set ready. batch_ok window b)"
  using assms
proof (induction evs arbitrary: d ready)
  case (Cons ev evs)
  obtain done' d1 where f: "feed window ev d = (done', d1)" by fastforce
  obtain ready' where r: "feed_all window evs d1 = (ready', d')"
    using Cons.prems(3) f by (auto simp: Let_def split: prod.splits)
  note s = feed_ok [OF Cons.prems(1,2) f]
  from Cons.IH [OF s(1) Cons.prems(2) r] have ih: "debouncer_ok window d' \<and>
      batch d1 @ evs = concat ready' @ batch d' \<and> (\<forall>b\<in>set ready'. batch_ok window b)" .
  have "batch d @ ev # evs = (batch d @ [ev]) @ evs" by simp
  also have "\<dots> = (case done' of None \<Rightarrow> [] | Some b \<Rightarrow> b) @ batch d1 @ evs" by (simp add: s(2))
  finally have "batch d @ ev # evs = (case done' of None \<Rightarrow> [] | Some b \<Rightarrow> b) @ concat ready' @ batch d'"
    using ih by simp
  moreover have "ready = (case done' of None \<Rightarrow> ready' | Some b \<Rightarrow> b # ready')"
    using Cons.prems(3) f r by (simp add: Let_def)
  ultimately show ?case
    using ih s(3) by (cases done') simp_all
qed simp

text \<open>
  Debouncing loses, duplicates and reorders nothing: the batches made of a stretch of
  events, concatenated, are exactly those events in arrival order; no batch is empty, and
  every event of a batch arrived within the window of its first.
\<close>

theorem debounce_keeps_every_event:
  assumes "0 \<le> window"
  shows "concat (debounce window evs) = evs \<and>
    (\<forall>b\<in>set (debounce window evs). b \<noteq> [] \<and>
       (\<forall>e\<in>set b. arrival_time e - arrival_time (hd b) \<le> window))"
proof -
  obtain ready d where r: "feed_all window evs new_debouncer = (ready, d)" by fastforce
  have "debouncer_ok window new_debouncer" by (simp add: debouncer_ok_def new_debouncer_def)
  from feed_all_ok [OF this assms r]
  have ok: "debouncer_ok window d" "evs = concat ready @ batch d" "\<forall>b\<in>set ready. batch_ok window b"
    by (simp_all add: new_debouncer_def)
  have "batch_ok window (batch d)" if "batch d \<noteq> []"
    using ok(1) that by (auto simp: debouncer_ok_def batch_ok_def split: option.splits)
  moreover have deb: "debounce window evs = ready @ (if batch d = [] then [] else [batch d])"
    by (simp add: debounce_def r flush_def)
  ultimately have "\<forall>b\<in>set (debounce window evs). batch_ok window b"
    using ok(3) by auto
  moreover have "concat (debounce window evs) = evs"
    using ok(2) unfolding deb by (cases "batch d = []") simp_all
  ultimately show ?thesis by (simp only: batch_ok_def simp_thms)
qed

section \<open>What becomes of a batch\<close>

definition item_key :: "turn_item \<Rightarrow> str" where
  "item_key i = id_key (it_identity i)"

lemma item_key_for [simp]: "item_key (item_for cfg now p ev) = ident_key ev"
  by (simp add: item_key_def item_for_def Let_def)

lemma arm_apply: "arm now items m k = (if k \<in> item_key ` set items then Some now else m k)"
proof (induction items arbitrary: m)
  case (Cons i its)
  show ?case unfolding arm.simps Cons.IH by (simp add: item_key_def)
qed simp

definition cooled :: "(str \<Rightarrow> str \<Rightarrow> bool) \<Rightarrow> pipeline_cfg \<Rightarrow> secs \<Rightarrow> pipeline \<Rightarrow> str \<Rightarrow> bool" where
  "cooled rx cfg now p key \<longleftrightarrow>
     (case cooldown_for rx cfg key of None \<Rightarrow> False | Some c \<Rightarrow> in_cooldown c now p key)"

lemma eval_loop_spec:
  assumes "eval_loop rx cfg now p seen evs = Some (items, supps)"
  shows "distinct (map item_key items @ map su_key supps) \<and>
    item_key ` set items \<union> su_key ` set supps = ident_key ` set evs - set seen \<and>
    (\<forall>i\<in>set items. \<not> cooled rx cfg now p (item_key i) \<and> it_event i \<in> set evs \<and>
       i = item_for cfg now p (it_event i)) \<and>
    (\<forall>s\<in>set supps. cooled rx cfg now p (su_key s) \<and> su_at s = now)"
  using assms
proof (induction evs arbitrary: seen items supps)
  case Nil
  then show ?case by simp
next
  case (Cons ev evs)
  show ?case
  proof (cases "ident_key ev \<in> set seen")
    case True
    then have "eval_loop rx cfg now p seen evs = Some (items, supps)" using Cons.prems by (simp add: Let_def)
    from Cons.IH [OF this] True show ?thesis by auto
  next
    case False
    from Cons.prems False obtain c items' supps' where
      c: "cooldown_for rx cfg (ident_key ev) = Some c" and
      r: "eval_loop rx cfg now p (ident_key ev # seen) evs = Some (items', supps')" and
      out: "(items, supps) = (if in_cooldown c now p (ident_key ev)
         then (items', \<lparr>su_key = ident_key ev, su_event_id = ev_id ev, su_at = now\<rparr> # supps')
         else (item_for cfg now p ev # items', supps'))"
      by (auto simp: Let_def split: option.splits)
    note ih = Cons.IH [OF r]
    have itev: "it_event (item_for cfg now p ev) = ev" by (simp add: item_for_def Let_def)
    have "ident_key ev \<notin> item_key ` set items' \<union> su_key ` set supps'" using ih by auto
    then show ?thesis
      using ih out False c itev
      by (cases "in_cooldown c now p (ident_key ev)") (auto simp: cooled_def)
  qed
qed

lemma apply_cap_keeps [simp]:
  "last_triaged (snd (apply_cap cfg now p)) = last_triaged p"
  "last_handoff_ref (snd (apply_cap cfg now p)) = last_handoff_ref p"
  by (simp_all add: apply_cap_def Let_def)

lemma evaluate_cases:
  obtains (raised) "eval_loop rx cfg now p [] evs = None"
      and "evaluate rx cfg evs now held p = (Inl (), p)"
  | (quiet) supps where "eval_loop rx cfg now p [] evs = Some ([], supps)"
      and "evaluate rx cfg evs now held p = (Inr (None, supps), p)"
  | (turn) items supps ann surf p2 where "eval_loop rx cfg now p [] evs = Some (items, supps)"
      and "items \<noteq> []"
      and "apply_cap cfg now (p\<lparr>last_triaged := arm now items (last_triaged p)\<rparr>) = ((ann, surf), p2)"
      and "evaluate rx cfg evs now held p = (Inr (Some \<lparr>tn_items = items, tn_announceable = ann,
         tn_suppressed_count = surf, tn_offset = None, tn_held_release = held\<rparr>, supps), p2)"
proof (cases "eval_loop rx cfg now p [] evs")
  case None
  then show ?thesis by (intro raised) (simp_all add: evaluate_def)
next
  case (Some r)
  obtain items supps where r: "r = (items, supps)" by fastforce
  obtain ann surf p2 where
    c: "apply_cap cfg now (p\<lparr>last_triaged := arm now items (last_triaged p)\<rparr>) = ((ann, surf), p2)"
    by (metis surj_pair)
  show ?thesis
  proof (cases "items = []")
    case True
    with Some r show ?thesis by (intro quiet [of supps]) (simp_all add: evaluate_def)
  next
    case False
    with Some r c show ?thesis by (intro turn [of items supps ann surf p2]) (simp_all add: evaluate_def)
  qed
qed

definition items_of :: "event_turn option \<Rightarrow> turn_item list" where
  "items_of t = (case t of None \<Rightarrow> [] | Some turn \<Rightarrow> tn_items turn)"

lemma evaluate_partition:
  assumes "evaluate rx cfg evs now held p = (Inr (t, supps), p')"
  shows "distinct (map item_key (items_of t) @ map su_key supps) \<and>
    item_key ` set (items_of t) \<union> su_key ` set supps = ident_key ` set evs \<and>
    (t = None \<longleftrightarrow> (\<forall>e\<in>set evs. cooled rx cfg now p (ident_key e))) \<and>
    (\<forall>s\<in>set supps. cooled rx cfg now p (su_key s)) \<and>
    (\<forall>k. last_triaged p' k =
       (if k \<in> item_key ` set (items_of t) then Some now else last_triaged p k)) \<and>
    (\<forall>k c later. k \<in> item_key ` set (items_of t) \<longrightarrow> cooldown_for rx cfg k = Some c \<longrightarrow>
       later < now + c \<longrightarrow> cooled rx cfg later p' k)"
proof -
  obtain items where loop: "eval_loop rx cfg now p [] evs = Some (items, supps)"
    and it: "items_of t = items" "t = None \<longleftrightarrow> items = []"
    and lt: "\<And>k. last_triaged p' k = (if k \<in> item_key ` set items then Some now else last_triaged p k)"
  proof (cases rule: evaluate_cases [of rx cfg now p evs held])
    case raised
    with assms show ?thesis by simp
  next
    case (quiet supps')
    with assms show ?thesis by (intro that [of "[]"]) (simp_all add: items_of_def)
  next
    case (turn items' supps' ann surf p2)
    have "last_triaged p2 = arm now items' (last_triaged p)"
      using apply_cap_keeps(1) [of cfg now "p\<lparr>last_triaged := arm now items' (last_triaged p)\<rparr>"] turn(3)
      by simp
    with turn assms show ?thesis
      by (intro that [of items']) (auto simp: items_of_def arm_apply)
  qed
  note s = eval_loop_spec [OF loop]
  have keys: "item_key ` set items \<union> su_key ` set supps = ident_key ` set evs" using s by simp
  have dis: "distinct (map item_key items @ map su_key supps)" using s by blast
  have supp: "\<forall>s\<in>set supps. cooled rx cfg now p (su_key s)" using s by blast
  have live: "\<forall>i\<in>set items. \<not> cooled rx cfg now p (item_key i)" using s by blast
  have "t = None \<longleftrightarrow> (\<forall>e\<in>set evs. cooled rx cfg now p (ident_key e))"
  proof
    assume "t = None"
    then have sk: "su_key ` set supps = ident_key ` set evs" using keys it(2) by simp
    show "\<forall>e\<in>set evs. cooled rx cfg now p (ident_key e)"
    proof
      fix e assume "e \<in> set evs"
      then have "ident_key e \<in> su_key ` set supps" unfolding sk by (rule imageI)
      then show "cooled rx cfg now p (ident_key e)" using supp by auto
    qed
  next
    assume all: "\<forall>e\<in>set evs. cooled rx cfg now p (ident_key e)"
    have "items = []"
    proof (rule ccontr)
      assume "items \<noteq> []"
      then have i: "hd items \<in> set items" by simp
      then have "item_key (hd items) \<in> ident_key ` set evs" using keys by blast
      with all have "cooled rx cfg now p (item_key (hd items))" by auto
      with live i show False by blast
    qed
    with it(2) show "t = None" by simp
  qed
  moreover have "cooled rx cfg later p' k"
    if "k \<in> item_key ` set items" "cooldown_for rx cfg k = Some c" "later < now + c" for k c later
    using that by (simp add: cooled_def in_cooldown_def lt)
  ultimately show ?thesis
    unfolding it(1) using dis keys supp lt by (intro conjI allI impI) assumption+
qed

text \<open>
  No event of a batch is dropped without a trace: each identity in the batch becomes
  exactly one item of the turn or exactly one suppression, the suppressed ones being those
  in cooldown; no survivors means no turn; each identity in the turn is armed at \<open>now\<close> and
  no other cooldown moves, so the same identity arriving again inside its cooldown can only
  be suppressed.
\<close>

theorem batch_is_partitioned:
  assumes "evaluate rx cfg evs now held p = (Inr (t, supps), p')"
  shows "distinct (map item_key (items_of t) @ map su_key supps) \<and>
    item_key ` set (items_of t) \<union> su_key ` set supps = ident_key ` set evs \<and>
    (t = None \<longleftrightarrow> (\<forall>e\<in>set evs. cooled rx cfg now p (ident_key e))) \<and>
    (\<forall>s\<in>set supps. cooled rx cfg now p (su_key s)) \<and>
    (\<forall>k. last_triaged p' k =
       (if k \<in> item_key ` set (items_of t) then Some now else last_triaged p k)) \<and>
    (\<forall>k c later. k \<in> item_key ` set (items_of t) \<longrightarrow> cooldown_for rx cfg k = Some c \<longrightarrow>
       later < now + c \<longrightarrow> cooled rx cfg later p' k)"
  by (rule evaluate_partition [OF assms])

section \<open>The cadence cap over a history\<close>

text \<open>The turns a sequence of batches produces, each with the instant it was evaluated at.\<close>

fun cadence ::
    "(str \<Rightarrow> str \<Rightarrow> bool) \<Rightarrow> pipeline_cfg \<Rightarrow> (event list \<times> secs) list \<Rightarrow> pipeline \<Rightarrow>
     (secs \<times> event_turn) list \<times> pipeline" where
  "cadence rx cfg [] p = ([], p)"
| "cadence rx cfg ((evs, now) # rest) p =
     (let (res, p1) = evaluate rx cfg evs now None p;
          (outs, p2) = cadence rx cfg rest p1
      in (case res of Inr (Some t, _) \<Rightarrow> ((now, t) # outs, p2) | _ \<Rightarrow> (outs, p2)))"

abbreviation announced :: "(secs \<times> event_turn) list \<Rightarrow> secs list" where
  "announced outs \<equiv> map fst (filter (\<lambda>x. tn_announceable (snd x)) outs)"

definition held_back :: "(secs \<times> event_turn) list \<Rightarrow> nat" where
  "held_back outs = length (filter (\<lambda>x. \<not> tn_announceable (snd x)) outs)"

definition surfaced :: "(secs \<times> event_turn) list \<Rightarrow> nat" where
  "surfaced outs = sum_list (map (\<lambda>x. tn_suppressed_count (snd x)) outs)"

definition within_window :: "secs \<Rightarrow> secs \<Rightarrow> secs list \<Rightarrow> secs list" where
  "within_window w t as = filter (\<lambda>a. t - a < w) as"

definition cap_inv :: "pipeline_cfg \<Rightarrow> secs list \<Rightarrow> secs \<Rightarrow> pipeline \<Rightarrow> bool" where
  "cap_inv cfg hist now p \<longleftrightarrow>
     (\<forall>t\<ge>now. within_window (cap_window cfg) t (announce_times p) = within_window (cap_window cfg) t hist) \<and>
     (\<forall>a\<in>set hist. a \<le> now) \<and>
     (\<forall>t. length (filter (\<lambda>a. a \<le> t \<and> t - a < cap_window cfg) hist) \<le> cap_per_24h cfg)"

lemma within_window_shrinks: "now \<le> t \<Longrightarrow> within_window w t (within_window w now as) = within_window w t as"
  by (auto simp: within_window_def intro!: filter_cong)

lemma length_filter_mono: "(\<And>x. P x \<Longrightarrow> Q x) \<Longrightarrow> length (filter P xs) \<le> length (filter Q xs)"
  by (induction xs) auto

lemma cap_inv_mono: "cap_inv cfg hist now p \<Longrightarrow> now \<le> later \<Longrightarrow> cap_inv cfg hist later p"
  by (fastforce simp: cap_inv_def)

lemma apply_cap_inv:
  assumes inv: "cap_inv cfg hist before p" and le: "before \<le> now"
    and cap: "apply_cap cfg now p = ((ann, surf), p')"
  shows "cap_inv cfg (if ann then hist @ [now] else hist) now p'"
proof -
  let ?w = "cap_window cfg"
  let ?recent = "within_window ?w now (announce_times p)"
  have same: "within_window ?w t (announce_times p) = within_window ?w t hist" if "now \<le> t" for t
    using inv le that by (simp add: cap_inv_def)
  have old: "a \<le> now" if "a \<in> set hist" for a using inv le that by (fastforce simp: cap_inv_def)
  have bound: "length (filter (\<lambda>a. a \<le> t \<and> t - a < ?w) hist) \<le> cap_per_24h cfg" for t
    using inv by (simp add: cap_inv_def)
  show ?thesis
  proof (cases "length ?recent < cap_per_24h cfg")
    case True
    then have p': "ann" "announce_times p' = ?recent @ [now]"
      using cap by (auto simp: apply_cap_def Let_def within_window_def)
    have times: "within_window ?w t (announce_times p') = within_window ?w t (hist @ [now])"
      if "now \<le> t" for t
      using within_window_shrinks [OF that, of ?w "announce_times p"] same [OF that]
      unfolding p'(2) by (simp add: within_window_def)
    have "length (filter (\<lambda>a. a \<le> t \<and> t - a < ?w) (hist @ [now])) \<le> cap_per_24h cfg" for t
    proof (cases "now \<le> t")
      case now: True
      have "length (filter (\<lambda>a. a \<le> t \<and> t - a < ?w) hist) \<le> length (within_window ?w now hist)"
        unfolding within_window_def by (rule length_filter_mono) (use now in linarith)
      also have "\<dots> < cap_per_24h cfg" using True same [of now] by simp
      finally show ?thesis by simp
    qed (use bound [of t] in simp)
    with times old p'(1) show ?thesis by (auto simp: cap_inv_def)
  next
    case False
    then have p': "\<not> ann" "announce_times p' = ?recent"
      using cap by (auto simp: apply_cap_def Let_def within_window_def)
    have "within_window ?w t (announce_times p') = within_window ?w t hist" if "now \<le> t" for t
      using within_window_shrinks [OF that, of ?w "announce_times p"] same [OF that]
      unfolding p'(2) by simp
    with bound old p'(1) show ?thesis by (simp add: cap_inv_def)
  qed
qed

lemma evaluate_cap_inv:
  assumes "cap_inv cfg hist before p" and "before \<le> now"
    and "evaluate rx cfg evs now held p = (res, p')"
  shows "cap_inv cfg (case res of Inr (Some t, _) \<Rightarrow>
    if tn_announceable t then hist @ [now] else hist | _ \<Rightarrow> hist) now p'"
proof (cases rule: evaluate_cases [of rx cfg now p evs held])
  case raised
  then show ?thesis using assms cap_inv_mono by (auto split: if_splits)
next
  case (quiet supps)
  then show ?thesis using assms cap_inv_mono by (auto split: if_splits)
next
  case (turn items supps ann surf p2)
  let ?p = "p\<lparr>last_triaged := arm now items (last_triaged p)\<rparr>"
  have "cap_inv cfg hist before ?p" using assms(1) by (simp add: cap_inv_def)
  from apply_cap_inv [OF this assms(2) turn(3)] show ?thesis
    using turn(4) assms(3) by simp
qed

lemma cadence_cap:
  assumes "cap_inv cfg hist before p" and "sorted (before # map snd bs)"
    and "cadence rx cfg bs p = (outs, p')"
  shows "\<exists>last. cap_inv cfg (hist @ announced outs) last p'"
  using assms
proof (induction bs arbitrary: hist before p outs p')
  case Nil
  then show ?case by auto
next
  case (Cons b bs)
  obtain evs now where b: "b = (evs, now)" by fastforce
  obtain res p1 where e: "evaluate rx cfg evs now None p = (res, p1)" by fastforce
  obtain outs' p2 where c: "cadence rx cfg bs p1 = (outs', p2)" by fastforce
  have le: "before \<le> now" and srt: "sorted (now # map snd bs)" using Cons.prems(2) by (auto simp: b)
  note inv = evaluate_cap_inv [OF Cons.prems(1) le e]
  have out: "(outs, p') = (case res of Inr (Some t, _) \<Rightarrow> ((now, t) # outs', p2) | _ \<Rightarrow> (outs', p2))"
    using Cons.prems(3) by (simp add: b e c)
  show ?case
  proof (cases "\<exists>t s. res = Inr (Some t, s)")
    case True
    then obtain t s where res: "res = Inr (Some t, s)" by blast
    with out have o: "outs = (now, t) # outs'" "p' = p2" by simp_all
    from inv have i: "cap_inv cfg (if tn_announceable t then hist @ [now] else hist) now p1"
      by (simp add: res)
    from Cons.IH [OF i srt c] o show ?thesis by (simp split: if_splits)
  next
    case False
    then have o: "outs = outs'" "p' = p2" using out by (auto split: sum.splits option.splits prod.splits)
    from False inv have i: "cap_inv cfg hist now p1" by (auto split: sum.splits option.splits prod.splits)
    from Cons.IH [OF i srt c] o show ?thesis by simp
  qed
qed

lemma apply_cap_count:
  "apply_cap cfg now p = ((ann, surf), p') \<Longrightarrow>
     surf + cap_suppressed p' = cap_suppressed p + (if ann then 0 else 1)"
  by (auto simp: apply_cap_def Let_def split: if_splits)

lemma cadence_count:
  "cadence rx cfg bs p = (outs, p') \<Longrightarrow>
     surfaced outs + cap_suppressed p' = cap_suppressed p + held_back outs"
proof (induction bs arbitrary: p outs p')
  case Nil
  then show ?case by (simp add: surfaced_def held_back_def)
next
  case (Cons b bs)
  obtain evs now where b: "b = (evs, now)" by fastforce
  obtain res p1 where e: "evaluate rx cfg evs now None p = (res, p1)" by fastforce
  obtain outs' p2 where c: "cadence rx cfg bs p1 = (outs', p2)" by fastforce
  note ih = Cons.IH [OF c]
  have out: "(outs, p') = (case res of Inr (Some t, _) \<Rightarrow> ((now, t) # outs', p2) | _ \<Rightarrow> (outs', p2))"
    using Cons.prems by (simp add: b e c)
  show ?case
  proof (cases rule: evaluate_cases [of rx cfg now p evs None])
    case (turn items supps ann surf p3)
    from apply_cap_count [OF turn(3)] turn(4) e out ih show ?thesis
      by (auto simp: surfaced_def held_back_def)
  qed (use e out ih in auto)
qed

text \<open>
  Henk interrupts at most as often as configured, and hides nothing for good: over any
  history of batches in time order, no span of the cap window contains more than
  \<open>cap_per_24h\<close> announceable turns; and the incidents the cap held back are either already
  surfaced, each exactly once, as the suppressed count of a later announceable turn, or
  still in the counter that the next one will surface.
\<close>

theorem cadence_cap_holds:
  assumes "sorted (map snd bs)" and "cadence rx cfg bs new_pipeline = (outs, p')"
  shows "length (filter (\<lambda>a. a \<le> t \<and> t - a < cap_window cfg) (announced outs)) \<le> cap_per_24h cfg \<and>
    surfaced outs + cap_suppressed p' = held_back outs"
proof
  show "surfaced outs + cap_suppressed p' = held_back outs"
    using cadence_count [OF assms(2)] by (simp add: new_pipeline_def)
  show "length (filter (\<lambda>a. a \<le> t \<and> t - a < cap_window cfg) (announced outs)) \<le> cap_per_24h cfg"
  proof (cases bs)
    case Nil
    then show ?thesis using assms(2) by simp
  next
    case (Cons b bs')
    have "cap_inv cfg [] (snd b) new_pipeline" by (simp add: cap_inv_def new_pipeline_def)
    moreover have "sorted (snd b # map snd bs)" using assms(1) by (simp add: Cons)
    ultimately obtain last where "cap_inv cfg ([] @ announced outs) last p'"
      using cadence_cap [OF _ _ assms(2)] by blast
    then show ?thesis by (simp add: cap_inv_def)
  qed
qed

section \<open>A restart re-arms what was armed\<close>

lemma rehydrate_keys_triaged:
  "last_triaged (rehydrate_keys t near h ks p) k =
     (if k \<in> set ks \<and> k \<noteq> [] then Some t else last_triaged p k)"
proof (induction ks arbitrary: p)
  case (Cons x ks)
  show ?case unfolding rehydrate_keys.simps Cons.IH
    by (auto simp: Let_def split: option.splits)
qed simp

lemma rehydrate_loop_triaged:
  assumes "\<forall>r\<in>set rs. t \<le> entry_at r" and "k \<noteq> []"
    and "(\<exists>a\<ge>t. last_triaged p k = Some a) \<or> (\<exists>r\<in>set rs. k \<in> set (ae_keys r))"
  shows "\<exists>a\<ge>t. last_triaged (snd (rehydrate_loop cfg now rs d p)) k = Some a"
  using assms(1,3)
proof (induction rs arbitrary: d p)
  case Nil
  then show ?case by simp
next
  case (Cons r rs)
  let ?p = "rehydrate_keys (entry_at r) (now - entry_at r < recurrence_window cfg) (ae_handoff r) (ae_keys r) p"
  have "(\<exists>a\<ge>t. last_triaged ?p k = Some a) \<or> (\<exists>r\<in>set rs. k \<in> set (ae_keys r))"
    using Cons.prems assms(2) by (auto simp: rehydrate_keys_triaged)
  moreover have "last_triaged (?p\<lparr>announce_times := x\<rparr>) k = last_triaged ?p k" for x by simp
  moreover have "\<forall>r\<in>set rs. t \<le> entry_at r" using Cons.prems(1) by simp
  ultimately have ih: "\<exists>a\<ge>t. last_triaged (snd (rehydrate_loop cfg now rs d' q)) k = Some a"
    if "q = ?p \<or> (\<exists>x. q = ?p\<lparr>announce_times := x\<rparr>)" for d' q
    using that Cons.IH [of q d'] by auto
  show ?case by (auto simp: Let_def intro!: ih split: option.splits bool.splits)
qed

lemma rehydrate_loop_append:
  "rehydrate_loop cfg now (xs @ ys) d p =
     (let (d1, p1) = rehydrate_loop cfg now xs d p in rehydrate_loop cfg now ys d1 p1)"
  by (induction xs arbitrary: d p) (simp_all add: Let_def split: option.splits bool.splits)

lemma fold_max_ge: "(x :: real) \<le> fold max xs x \<and> (\<forall>y\<in>set xs. y \<le> fold max xs x)"
proof (induction xs arbitrary: x)
  case (Cons a xs)
  have "x \<le> max a x" "a \<le> max a x" by simp_all
  with Cons [of "max a x"] show ?case by (auto intro: order_trans)
qed simp

lemma override_for_mem:
  "override_for rx ovs key = Some (Some c) \<Longrightarrow> c \<in> set (List.map_filter ov_cooldown ovs)"
  by (induction ovs) (auto simp: map_filter_simps split: if_splits option.splits)

lemma cooldown_le_widest: "cooldown_for rx cfg key = Some c \<Longrightarrow> c \<le> widest cfg"
proof -
  assume c: "cooldown_for rx cfg key = Some c"
  let ?base = "max (cooldown_seconds cfg) (max (recurrence_window cfg) (cap_window cfg))"
  note ge = fold_max_ge [of ?base "List.map_filter ov_cooldown (cooldown_overrides cfg)"]
  show ?thesis
  proof (cases "override_for rx (cooldown_overrides cfg) key")
    case None
    then show ?thesis using c ge by (simp add: cooldown_for_def widest_def)
  next
    case (Some x)
    then have "c \<in> set (List.map_filter ov_cooldown (cooldown_overrides cfg))"
      using c by (intro override_for_mem [of rx _ key]) (simp add: cooldown_for_def)
    then show ?thesis using ge by (simp add: widest_def)
  qed
qed

text \<open>
  A restart does not re-arm the phone: if the audit log holds a triage of an identity
  that is still inside that identity's cooldown (override included), the rebuilt pipeline
  has the identity in cooldown too, whatever else the log holds and in whatever order.
\<close>

theorem restart_keeps_cooldowns:
  assumes "r \<in> set rs" and "ae_session r" and "ae_event r" and "ae_at r = Some t"
    and "k \<in> set (ae_keys r)" and "k \<noteq> []"
    and "cooldown_for rx cfg k = Some c" and "now - t < c"
  shows "cooled rx cfg now (rehydrate cfg rs now new_pipeline) k"
proof -
  let ?es = "triage_entries cfg now rs"
  have at: "entry_at r = t" by (simp add: entry_at_def assms(4))
  have "now - t < widest cfg" using assms(8) cooldown_le_widest [OF assms(7)] by simp
  then have "r \<in> set ?es" using assms(1-4) at by (simp add: triage_entries_def)
  then obtain xs ys where es: "?es = xs @ r # ys" by (meson split_list)
  have "sorted (map entry_at ?es)" by (simp add: triage_entries_def)
  then have "\<forall>q\<in>set (r # ys). t \<le> entry_at q" by (simp add: es sorted_append at)
  moreover obtain d1 p1 where "rehydrate_loop cfg now xs 0 new_pipeline = (d1, p1)" by fastforce
  ultimately have "\<exists>a\<ge>t. last_triaged (snd (rehydrate_loop cfg now ?es 0 new_pipeline)) k = Some a"
    unfolding es rehydrate_loop_append using assms(5,6)
    by (simp del: rehydrate_loop.simps) (rule rehydrate_loop_triaged, auto)
  then obtain a where a: "t \<le> a" "last_triaged (rehydrate cfg rs now new_pipeline) k = Some a"
    by (auto simp: rehydrate_def split_beta Let_def)
  then show ?thesis using assms(7,8) by (simp add: cooled_def in_cooldown_def)
qed

section \<open>Witnesses\<close>

theorem debounce_keeps_every_event_witness:
  "concat (debounce 120 [gatus_down, gatus_down\<lparr>arrival_time := 500\<rparr>]) =
     [gatus_down, gatus_down\<lparr>arrival_time := 500\<rparr>]"
  using debounce_keeps_every_event [of 120 "[gatus_down, gatus_down\<lparr>arrival_time := 500\<rparr>]"] by simp

definition sample_pipeline_cfg :: pipeline_cfg where
  "sample_pipeline_cfg =
     \<lparr>cooldown_seconds = 21600, recurrence_window = 86400, cap_per_24h = 1, cap_window = 86400,
      cooldown_overrides = []\<rparr>"

lemma sample_cooldown: "cooldown_for rx sample_pipeline_cfg k = Some 21600"
  by (simp add: cooldown_for_def sample_pipeline_cfg_def)

theorem batch_is_partitioned_witness:
  "\<exists>t p'. evaluate (\<lambda>_ _. False) sample_pipeline_cfg [gatus_down] 100 None new_pipeline =
     (Inr (Some t, []), p') \<and>
   cooled (\<lambda>_ _. False) sample_pipeline_cfg 200 p' (ident_key gatus_down)"
proof -
  obtain t p' where e: "evaluate (\<lambda>_ _. False) sample_pipeline_cfg [gatus_down] 100 None new_pipeline =
      (Inr (Some t, []), p')"
    and i: "items_of (Some t) = [item_for sample_pipeline_cfg 100 new_pipeline gatus_down]"
    by (simp add: evaluate_def Let_def sample_cooldown in_cooldown_def new_pipeline_def split_beta items_of_def)
  have "ident_key gatus_down \<in> item_key ` set (items_of (Some t))" by (simp add: i)
  then have "cooled (\<lambda>_ _. False) sample_pipeline_cfg 200 p' (ident_key gatus_down)"
    using batch_is_partitioned [OF e] sample_cooldown by auto
  with e show ?thesis by blast
qed

theorem cadence_cap_holds_witness:
  "\<exists>outs p'. cadence (\<lambda>_ _. False) sample_pipeline_cfg [([gatus_down], 100), ([gatus_down], 90000)]
     new_pipeline = (outs, p') \<and> surfaced outs + cap_suppressed p' = held_back outs"
proof -
  obtain outs p' where c: "cadence (\<lambda>_ _. False) sample_pipeline_cfg
      [([gatus_down], 100), ([gatus_down], 90000)] new_pipeline = (outs, p')" by fastforce
  have "sorted (map snd [([gatus_down], 100 :: real), ([gatus_down], 90000)])" by simp
  from cadence_cap_holds [OF this c] c show ?thesis by blast
qed

definition old_triage :: audit_entry where
  "old_triage = \<lparr>ae_session = True, ae_event = True, ae_at = Some 100, ae_keys = [[7]],
     ae_handoff = None, ae_announceable = Some False\<rparr>"

theorem restart_keeps_cooldowns_witness:
  "cooled (\<lambda>_ _. False) sample_pipeline_cfg 5000
     (rehydrate sample_pipeline_cfg [old_triage] 5000 new_pipeline) [7]"
  by (rule restart_keeps_cooldowns [OF _ _ _ _ _ _ sample_cooldown, where t = 100 and r = old_triage])
    (simp_all add: old_triage_def)

end
