(* ===== verification/Holds.thy ===== *)
theory Holds
  imports Event_Pipeline "HOL-Library.List_Lexorder"
begin

text \<open>
  \<open>henk/store/holds.py\<close> and \<open>henk/events/holds.py\<close>: alerts held during maintenance windows.
  The repository's two tables, and the ledger with its in-flight releases and its receipts.
  The raw frame of an event, carried through as JSON text, is left out.
\<close>

section \<open>The repository\<close>

record hold_window =
  win_id :: str
  win_title :: str
  win_start :: secs
  win_end :: secs
  released_at :: "secs option"

record held_event =
  he_id :: str
  he_window :: str
  he_key :: str
  he_state :: event_state
  he_title :: str
  he_message :: str
  he_published :: secs
  he_arrival :: secs
  he_held_at :: secs

text \<open>Both tables in insertion order; \<open>win_id\<close> and \<open>he_id\<close> are their primary keys.\<close>

record hold_store =
  hold_windows :: "hold_window list"
  held_events :: "held_event list"

definition empty_holds :: hold_store where
  "empty_holds = \<lparr>hold_windows = [], held_events = []\<rparr>"

datatype hold_insert = Held secs | Duplicate_Hold | Closed

definition known_event_ids :: "str list \<Rightarrow> hold_store \<Rightarrow> str list" where
  "known_event_ids ids s =
     filter (\<lambda>i. i \<in> he_id ` set (held_events s)) (filter (\<lambda>i. i \<noteq> []) ids)"

definition window_row :: "str \<Rightarrow> hold_store \<Rightarrow> hold_window option" where
  "window_row w s = find (\<lambda>r. win_id r = w) (hold_windows s)"

definition unreleased_windows :: "hold_store \<Rightarrow> hold_window list" where
  "unreleased_windows s =
     sort_key (\<lambda>w. (win_end w, win_id w))
       (filter (\<lambda>w. released_at w = None \<and> (\<exists>e\<in>set (held_events s). he_window e = win_id w))
         (hold_windows s))"

definition released_since :: "secs \<Rightarrow> hold_store \<Rightarrow> hold_window list" where
  "released_since since s =
     sort_key (\<lambda>w. (win_start w, win_id w))
       (filter (\<lambda>w. case released_at w of None \<Rightarrow> False | Some r \<Rightarrow> r > since) (hold_windows s))"

definition rows_of_window :: "str \<Rightarrow> hold_store \<Rightarrow> held_event list" where
  "rows_of_window w s = sort_key he_published (filter (\<lambda>e. he_window e = w) (held_events s))"

text \<open>\<open>hold\<close>: duplicate check, window row unless present, closed check, event row.\<close>

definition store_hold :: "hold_window \<Rightarrow> held_event \<Rightarrow> hold_store \<Rightarrow> hold_insert \<times> hold_store" where
  "store_hold w e s =
     (if he_id e \<in> he_id ` set (held_events s) then (Duplicate_Hold, s)
      else (let s1 = (if window_row (win_id w) s = None
                      then s\<lparr>hold_windows := hold_windows s @ [w\<lparr>released_at := None\<rparr>]\<rparr> else s)
            in case window_row (win_id w) s1 of
                 None \<Rightarrow> (Closed, s1)
               | Some r \<Rightarrow>
                   if released_at r \<noteq> None then (Closed, s1)
                   else (Held (win_end r), s1\<lparr>held_events := held_events s1 @ [e]\<rparr>)))"

definition store_extend :: "str \<Rightarrow> secs \<Rightarrow> hold_store \<Rightarrow> bool \<times> hold_store" where
  "store_extend w end' s =
     ((\<exists>r\<in>set (hold_windows s). win_id r = w \<and> released_at r = None),
      s\<lparr>hold_windows := map (\<lambda>r. if win_id r = w \<and> released_at r = None
          then r\<lparr>win_end := end'\<rparr> else r) (hold_windows s)\<rparr>)"

definition store_mark_released :: "str \<Rightarrow> secs \<Rightarrow> hold_store \<Rightarrow> held_event list option \<times> hold_store" where
  "store_mark_released w now s =
     (if \<exists>r\<in>set (hold_windows s). win_id r = w \<and> released_at r = None
      then (Some (rows_of_window w s),
            s\<lparr>hold_windows := map (\<lambda>r. if win_id r = w \<and> released_at r = None
                then r\<lparr>released_at := Some now\<rparr> else r) (hold_windows s)\<rparr>)
      else (None, s))"

section \<open>Grouping a release\<close>

record held_groups =
  gr_held :: nat
  gr_recovered :: nat
  gr_forwarded :: "held_event list"

fun put_latest :: "held_event \<Rightarrow> (str \<times> held_event) list \<Rightarrow> (str \<times> held_event) list" where
  "put_latest e [] = [(he_key e, e)]"
| "put_latest e ((k, x) # m) = (if k = he_key e then (k, e) # m else (k, x) # put_latest e m)"

definition latest_by_key :: "held_event list \<Rightarrow> (str \<times> held_event) list" where
  "latest_by_key rs = fold put_latest rs []"

fun position :: "str \<Rightarrow> held_event list \<Rightarrow> nat" where
  "position i [] = 0"
| "position i (r # rs) =
     (if i \<in> he_id ` set rs then Suc (position i rs) else if he_id r = i then 0 else Suc (position i rs))"

definition group_held :: "held_event list \<Rightarrow> held_groups" where
  "group_held rs =
     (let latest = map snd (latest_by_key rs)
      in \<lparr>gr_held = length latest,
          gr_recovered = length (filter (\<lambda>r. he_state r = RESOLVED) latest),
          gr_forwarded = sort_key (\<lambda>r. position (he_id r) rs)
            (filter (\<lambda>r. he_state r \<noteq> RESOLVED) latest)\<rparr>)"

definition rebuild_event :: "held_event \<Rightarrow> event" where
  "rebuild_event r =
     \<lparr>ev_id = he_id r, ev_title = he_title r, ev_message = he_message r,
      arrival_time = he_arrival r, published_at = Some (he_published r)\<rparr>"

section \<open>The ledger\<close>

datatype hold_receipt =
    Hold_Record str event_state str str secs secs       \<comment> \<open>key, state, event, window, its end, published\<close>
  | Release_Record str nat nat nat                      \<comment> \<open>window, held, recovered, forwarded\<close>

record ledger =
  holds :: hold_store
  in_flight :: "(str \<times> str list) list"
  hold_log :: "hold_receipt list"

definition new_ledger :: "hold_store \<Rightarrow> ledger" where
  "new_ledger s = \<lparr>holds = s, in_flight = [], hold_log = []\<rparr>"

datatype hold_result = HELD | DUPLICATE | NOT_HELD

definition publish_time :: "event \<Rightarrow> secs" where
  "publish_time ev = (case published_at ev of Some t \<Rightarrow> t | None \<Rightarrow> arrival_time ev)"

text \<open>The window with the latest end, then the latest start, then the greatest id.\<close>

fun latest_window :: "hold_window list \<Rightarrow> hold_window option" where
  "latest_window [] = None"
| "latest_window (w # ws) =
     (case latest_window ws of
        None \<Rightarrow> Some w
      | Some v \<Rightarrow> if (win_end v, win_start v, win_id v) > (win_end w, win_start w, win_id w)
                  then Some v else Some w)"

definition is_open :: "ledger \<Rightarrow> hold_window \<Rightarrow> bool" where
  "is_open L w \<longleftrightarrow>
     win_id w \<notin> fst ` set (in_flight L) \<and>
     (case window_row (win_id w) (holds L) of None \<Rightarrow> True | Some r \<Rightarrow> released_at r = None)"

definition held_row :: "event \<Rightarrow> str \<Rightarrow> secs \<Rightarrow> secs \<Rightarrow> held_event" where
  "held_row ev w published now =
     \<lparr>he_id = ev_id ev, he_window = w, he_key = ident_key ev,
      he_state = id_state (derive_identity ev), he_title = ev_title ev, he_message = ev_message ev,
      he_published = published, he_arrival = arrival_time ev, he_held_at = now\<rparr>"

text \<open>\<open>HoldLedger.hold\<close>; \<open>store_ok\<close> is false when a read or the write of the store raises
  (the write is one transaction, so nothing of it remains).\<close>

definition ledger_hold ::
    "bool \<Rightarrow> secs \<Rightarrow> event \<Rightarrow> secs \<Rightarrow> hold_window list \<Rightarrow> ledger \<Rightarrow> hold_result \<times> ledger" where
  "ledger_hold store_ok now ev published active L =
     (if ev_id ev = [] \<or> active = [] then (NOT_HELD, L)
      else if \<not> store_ok then (NOT_HELD, L)
      else (case latest_window (filter (is_open L) active) of
          None \<Rightarrow> (NOT_HELD, L)
        | Some w \<Rightarrow>
            (case store_hold w (held_row ev (win_id w) published now) (holds L) of
               (Duplicate_Hold, s) \<Rightarrow> (DUPLICATE, L\<lparr>holds := s\<rparr>)
             | (Closed, s) \<Rightarrow> (NOT_HELD, L\<lparr>holds := s\<rparr>)
             | (Held frozen_end, s) \<Rightarrow>
                 (HELD, L\<lparr>holds := s,
                   hold_log := hold_log L @ [Hold_Record (ident_key ev)
                     (id_state (derive_identity ev)) (ev_id ev) (win_id w) frozen_end published]\<rparr>))))"

definition begin_release :: "str \<Rightarrow> str list \<Rightarrow> ledger \<Rightarrow> ledger" where
  "begin_release w keys L =
     L\<lparr>in_flight := (w, keys) # filter (\<lambda>x. fst x \<noteq> w) (in_flight L)\<rparr>"

definition in_flight_identities :: "ledger \<Rightarrow> str list" where
  "in_flight_identities L = concat (map snd (in_flight L))"

definition ledger_mark_released :: "bool \<Rightarrow> secs \<Rightarrow> str \<Rightarrow> ledger \<Rightarrow> bool \<times> ledger" where
  "ledger_mark_released store_ok now w L =
     (if \<not> store_ok then (False, L)
      else (let (res, s) = store_mark_released w now (holds L);
                L1 = L\<lparr>holds := s, in_flight := filter (\<lambda>x. fst x \<noteq> w) (in_flight L)\<rparr>
            in case res of
                 None \<Rightarrow> (False, L1)
               | Some rs \<Rightarrow>
                   (let g = group_held rs
                    in (True, L1\<lparr>hold_log := hold_log L @
                         [Release_Record w (gr_held g) (gr_recovered g) (gr_held g - gr_recovered g)]\<rparr>))))"

definition ledger_extend :: "str \<Rightarrow> secs \<Rightarrow> ledger \<Rightarrow> ledger" where
  "ledger_extend w end' L = L\<lparr>holds := snd (store_extend w end' (holds L))\<rparr>"

section \<open>Grouping is what it says\<close>

text \<open>The latest row of each identity, picked out directly.\<close>

fun is_last :: "held_event \<Rightarrow> held_event list \<Rightarrow> bool" where
  "is_last e [] = False"
| "is_last e (r # rs) = (if he_key e \<in> he_key ` set rs then is_last e rs else e = r)"

definition last_rows :: "held_event list \<Rightarrow> held_event list" where
  "last_rows rs = filter (\<lambda>e. is_last e rs) rs"

lemma fst_put_latest:
  "fst ` set (put_latest e m) = insert (he_key e) (fst ` set m)"
  "distinct (map fst m) \<Longrightarrow> distinct (map fst (put_latest e m))"
  by (induction e m rule: put_latest.induct) auto

lemma set_put_latest:
  "distinct (map fst m) \<Longrightarrow>
     set (put_latest e m) = insert (he_key e, e) {x \<in> set m. fst x \<noteq> he_key e}"
  by (induction e m rule: put_latest.induct) (auto simp: image_iff split: if_splits)

lemma is_last_snoc:
  "is_last e (rs @ [r]) \<longleftrightarrow> (if he_key e = he_key r then e = r else is_last e rs)"
  by (induction rs) auto

lemma latest_by_key_spec:
  "distinct (map fst (latest_by_key rs)) \<and>
   fst ` set (latest_by_key rs) = he_key ` set rs \<and>
   set (latest_by_key rs) = (\<lambda>e. (he_key e, e)) ` {e \<in> set rs. is_last e rs}"
proof (induction rs rule: rev_induct)
  case Nil
  show ?case by (simp add: latest_by_key_def)
next
  case (snoc r rs)
  have step: "latest_by_key (rs @ [r]) = put_latest r (latest_by_key rs)"
    by (simp add: latest_by_key_def)
  have dis: "distinct (map fst (latest_by_key rs))" using snoc by simp
  have "set (latest_by_key (rs @ [r])) =
      insert (he_key r, r) {x \<in> set (latest_by_key rs). fst x \<noteq> he_key r}"
    unfolding step by (rule set_put_latest [OF dis])
  also have "\<dots> = (\<lambda>e. (he_key e, e)) ` {e \<in> set (rs @ [r]). is_last e (rs @ [r])}"
    using snoc by (auto simp: is_last_snoc)
  finally have st: "set (latest_by_key (rs @ [r])) =
      (\<lambda>e. (he_key e, e)) ` {e \<in> set (rs @ [r]). is_last e (rs @ [r])}" .
  have di: "distinct (map fst (latest_by_key (rs @ [r])))"
    unfolding step by (rule fst_put_latest(2) [OF dis])
  have "fst ` set (latest_by_key rs) = he_key ` set rs" using snoc by blast
  then have ks: "fst ` set (latest_by_key (rs @ [r])) = he_key ` set (rs @ [r])"
    unfolding step fst_put_latest(1) by simp
  show ?case using di ks st by blast
qed

lemma position_less: "i \<in> he_id ` set rs \<Longrightarrow> position i rs < length rs"
  by (induction rs) auto

lemma position_nth: "distinct (map he_id rs) \<Longrightarrow> n < length rs \<Longrightarrow> position (he_id (rs ! n)) rs = n"
proof (induction rs arbitrary: n)
  case (Cons r rs)
  show ?case
  proof (cases n)
    case 0
    then show ?thesis using Cons.prems by simp
  next
    case (Suc m)
    then have "rs ! m \<in> set rs" using Cons.prems(2) by simp
    then have "he_id (rs ! m) \<in> he_id ` set rs" by (rule imageI)
    then show ?thesis using Cons Suc by simp
  qed
qed simp

lemma map_position:
  assumes "distinct (map he_id rs)"
  shows "map (\<lambda>r. position (he_id r) rs) rs = [0..<length rs]"
  by (rule nth_equalityI) (simp_all add: position_nth [OF assms])

lemma sorted_filter_position:
  assumes "distinct (map he_id rs)"
  shows "sorted (map (\<lambda>r. position (he_id r) rs) (filter P rs))"
proof -
  have "sorted (map (\<lambda>r. position (he_id r) rs) rs)" by (simp add: map_position [OF assms])
  then show ?thesis by (rule sorted_filter)
qed

lemma sort_key_unique:
  assumes "distinct xs" and "distinct ys" and "set xs = set ys" and "sorted (map f ys)" and "inj_on f (set ys)"
  shows "sort_key f xs = ys"
proof (rule map_sorted_distinct_set_unique [of f])
  show "inj_on f (set (sort_key f xs) \<union> set ys)" using assms(3,5) by simp
  show "sorted (map f (sort_key f xs))" by simp
  show "distinct (map f (sort_key f xs))" using assms(1,3,5) by (simp add: distinct_map)
  show "sorted (map f ys)" by (rule assms(4))
  show "distinct (map f ys)" using assms(2,5) by (simp add: distinct_map)
  show "set (sort_key f xs) = set ys" using assms(3) by simp
qed

lemma latest_values:
  "distinct (map snd (latest_by_key rs)) \<and> set (map snd (latest_by_key rs)) = set (last_rows rs) \<and>
   length (latest_by_key rs) = card (he_key ` set rs)"
proof -
  note s = latest_by_key_spec [of rs]
  have "inj_on snd (set (latest_by_key rs))" using s by (auto simp: inj_on_def)
  moreover have "distinct (latest_by_key rs)" using s by (simp add: distinct_map)
  ultimately have "distinct (map snd (latest_by_key rs))" by (simp add: distinct_map)
  moreover have "set (map snd (latest_by_key rs)) = set (last_rows rs)"
  proof -
    have "set (latest_by_key rs) = (\<lambda>e. (he_key e, e)) ` {e \<in> set rs. is_last e rs}" using s by blast
    then show ?thesis by (simp add: image_image last_rows_def)
  qed
  moreover have "length (latest_by_key rs) = card (he_key ` set rs)"
  proof -
    have k: "fst ` set (latest_by_key rs) = he_key ` set rs" and d: "distinct (map fst (latest_by_key rs))"
      using s by blast+
    show ?thesis using distinct_card [OF d] unfolding set_map k by simp
  qed
  ultimately show ?thesis by blast
qed

lemma group_held_eq:
  assumes "distinct (map he_id rs)"
  shows "gr_forwarded (group_held rs) = filter (\<lambda>r. he_state r \<noteq> RESOLVED) (last_rows rs)"
    and "gr_held (group_held rs) = card (he_key ` set rs)"
    and "gr_recovered (group_held rs) + length (gr_forwarded (group_held rs)) = gr_held (group_held rs)"
proof -
  let ?L = "map snd (latest_by_key rs)"
  let ?P = "\<lambda>r. he_state r \<noteq> RESOLVED"
  let ?f = "\<lambda>r. position (he_id r) rs"
  note v = latest_values [of rs]
  have dis: "distinct rs" using assms by (simp add: distinct_map)
  have inj: "inj_on ?f (set rs)"
  proof (rule inj_onI)
    fix x y assume "x \<in> set rs" "y \<in> set rs" "?f x = ?f y"
    then obtain m n where "x = rs ! m" "m < length rs" "y = rs ! n" "n < length rs"
      by (metis in_set_conv_nth)
    with \<open>?f x = ?f y\<close> show "x = y" using position_nth [OF assms] by simp
  qed
  show "gr_forwarded (group_held rs) = filter ?P (last_rows rs)"
    unfolding group_held_def Let_def held_groups.simps
  proof (rule sort_key_unique)
    show "distinct (filter ?P ?L)" using v by simp
    show "distinct (filter ?P (last_rows rs))" using dis by (simp add: last_rows_def)
    show "set (filter ?P ?L) = set (filter ?P (last_rows rs))" using v by auto
    show "sorted (map ?f (filter ?P (last_rows rs)))"
      unfolding last_rows_def filter_filter by (rule sorted_filter_position [OF assms])
    show "inj_on ?f (set (filter ?P (last_rows rs)))"
      by (rule inj_on_subset [OF inj]) (auto simp: last_rows_def)
  qed
  show "gr_held (group_held rs) = card (he_key ` set rs)" using v by (simp add: group_held_def Let_def)
  show "gr_recovered (group_held rs) + length (gr_forwarded (group_held rs)) = gr_held (group_held rs)"
    using sum_length_filter_compl [of "\<lambda>r. he_state r = RESOLVED" ?L] by (simp add: group_held_def Let_def)
qed

text \<open>
  A release accounts for every identity it held: grouping the held rows (whose ids are
  distinct) counts each identity once, as recovered when its latest row says resolved and
  otherwise as forwarded; the forwarded rows are exactly the latest unresolved row of each
  such identity, in publish order, at most one per identity.
\<close>

theorem release_accounts_for_every_identity:
  assumes "distinct (map he_id rs)"
  shows "gr_held (group_held rs) = card (he_key ` set rs) \<and>
    gr_recovered (group_held rs) + length (gr_forwarded (group_held rs)) = gr_held (group_held rs) \<and>
    gr_forwarded (group_held rs) =
      filter (\<lambda>r. he_state r \<noteq> RESOLVED) (filter (\<lambda>e. is_last e rs) rs) \<and>
    distinct (map he_key (gr_forwarded (group_held rs)))"
proof -
  note g = group_held_eq [OF assms]
  have "e = f" if "is_last e xs" "is_last f xs" "he_key e = he_key f" for e f xs
    using that by (induction xs) (auto split: if_splits)
  moreover have "distinct rs" using assms by (simp add: distinct_map)
  ultimately have "distinct (map he_key (gr_forwarded (group_held rs)))"
    unfolding g(1) last_rows_def by (auto simp: distinct_map inj_on_def)
  with g show ?thesis by (simp add: last_rows_def)
qed

section \<open>Runs of the ledger\<close>

datatype ledger_op =
    Hold_Event bool secs event secs "hold_window list"
  | Begin_Release str "str list"
  | Release_Done bool secs str
  | Extend_Window str secs

fun ledger_step :: "ledger \<Rightarrow> ledger_op \<Rightarrow> ledger" where
  "ledger_step L (Hold_Event ok now ev published active) = snd (ledger_hold ok now ev published active L)"
| "ledger_step L (Begin_Release w keys) = begin_release w keys L"
| "ledger_step L (Release_Done ok now w) = snd (ledger_mark_released ok now w L)"
| "ledger_step L (Extend_Window w end') = ledger_extend w end' L"

definition release_records :: "str \<Rightarrow> hold_receipt list \<Rightarrow> hold_receipt list" where
  "release_records w recs = filter (\<lambda>x. case x of Release_Record v _ _ _ \<Rightarrow> v = w | _ \<Rightarrow> False) recs"

definition held_ids :: "hold_receipt list \<Rightarrow> str list" where
  "held_ids recs = List.map_filter (\<lambda>x. case x of Hold_Record _ _ i _ _ _ \<Rightarrow> Some i | _ \<Rightarrow> None) recs"

definition closed_window :: "hold_store \<Rightarrow> str \<Rightarrow> bool" where
  "closed_window s w \<longleftrightarrow> (\<exists>r\<in>set (hold_windows s). win_id r = w \<and> released_at r \<noteq> None)"

definition ledger_ok :: "ledger \<Rightarrow> bool" where
  "ledger_ok L \<longleftrightarrow>
     distinct (map win_id (hold_windows (holds L))) \<and>
     distinct (map he_id (held_events (holds L))) \<and>
     he_window ` set (held_events (holds L)) \<subseteq> win_id ` set (hold_windows (holds L)) \<and>
     held_ids (hold_log L) = map he_id (held_events (holds L)) \<and>
     (\<forall>w. release_records w (hold_log L) =
        (if closed_window (holds L) w
         then [let g = group_held (rows_of_window w (holds L))
               in Release_Record w (gr_held g) (gr_recovered g) (gr_held g - gr_recovered g)]
         else []))"

lemma map_filter_snoc:
  "List.map_filter f (xs @ [x]) = List.map_filter f xs @ (case f x of None \<Rightarrow> [] | Some y \<Rightarrow> [y])"
  by (induction xs) (auto simp: map_filter_simps split: option.splits)

lemma log_snoc [simp]:
  "release_records w (recs @ [Hold_Record a b c d e f]) = release_records w recs"
  "release_records w (recs @ [Release_Record v h r f']) =
     release_records w recs @ (if v = w then [Release_Record v h r f'] else [])"
  "held_ids (recs @ [Hold_Record a b c d e f]) = held_ids recs @ [c]"
  "held_ids (recs @ [Release_Record v h r f']) = held_ids recs"
  by (simp_all add: release_records_def held_ids_def map_filter_snoc)

lemma window_row_Some: "window_row w s = Some r \<Longrightarrow> r \<in> set (hold_windows s) \<and> win_id r = w"
  by (auto simp: window_row_def find_Some_iff)

lemma window_row_None: "window_row w s = None \<longleftrightarrow> w \<notin> win_id ` set (hold_windows s)"
  by (auto simp: window_row_def find_None_iff)

lemma win_unique:
  "distinct (map win_id ws) \<Longrightarrow> a \<in> set ws \<Longrightarrow> b \<in> set ws \<Longrightarrow> win_id a = win_id b \<Longrightarrow> a = b"
  by (auto simp: distinct_map inj_on_def)

lemma closed_window_map:
  "closed_window (s\<lparr>hold_windows := map f ws\<rparr>) v \<longleftrightarrow>
     (\<exists>r\<in>set ws. win_id (f r) = v \<and> released_at (f r) \<noteq> None)"
  by (simp add: closed_window_def)

text \<open>What \<open>store_hold\<close> may do: nothing, or (with a new row for the window first, when it has
  none) append the event to a window that is not closed.\<close>

lemma store_hold_cases:
  assumes "store_hold w e s = (res, s')"
    and dw: "distinct (map win_id (hold_windows s))"
  shows "s' = s \<and> (\<forall>c. res \<noteq> Held c) \<or>
    (\<exists>c. res = Held c) \<and> he_id e \<notin> he_id ` set (held_events s) \<and>
      held_events s' = held_events s @ [e] \<and>
      distinct (map win_id (hold_windows s')) \<and>
      set (map win_id (hold_windows s')) = insert (win_id w) (set (map win_id (hold_windows s))) \<and>
      \<not> closed_window s' (win_id w) \<and> (\<forall>v. closed_window s' v = closed_window s v)"
proof (cases "he_id e \<in> he_id ` set (held_events s)")
  case True
  then show ?thesis using assms(1) by (simp add: store_hold_def)
next
  case new: False
  show ?thesis
  proof (cases "window_row (win_id w) s")
    case None
    let ?s1 = "s\<lparr>hold_windows := hold_windows s @ [w\<lparr>released_at := None\<rparr>]\<rparr>"
    have notin: "win_id w \<notin> win_id ` set (hold_windows s)" using None by (simp add: window_row_None)
    have "find P (xs @ [x]) = Some x" if "find P xs = None" "P x" for P x and xs :: "hold_window list"
      using that by (induction xs) (auto split: if_splits)
    then have "window_row (win_id w) ?s1 = Some (w\<lparr>released_at := None\<rparr>)"
      using None by (simp add: window_row_def)
    then have "res = Held (win_end w)" and s': "s' = ?s1\<lparr>held_events := held_events s @ [e]\<rparr>"
      using assms(1) new None by (simp_all add: store_hold_def Let_def)
    then show ?thesis using new notin dw by (auto simp: closed_window_def image_iff)
  next
    case (Some r)
    note r = window_row_Some [OF Some]
    show ?thesis
    proof (cases "released_at r")
      case None
      then have res: "res = Held (win_end r)" and s': "s' = s\<lparr>held_events := held_events s @ [e]\<rparr>"
        using assms(1) new Some by (simp_all add: store_hold_def Let_def)
      have "\<not> closed_window s (win_id w)"
      proof
        assume "closed_window s (win_id w)"
        then obtain q where "q \<in> set (hold_windows s)" "win_id q = win_id w" "released_at q \<noteq> None"
          by (auto simp: closed_window_def)
        moreover from this have "q = r" using r by (intro win_unique [OF dw]) auto
        ultimately show False using None by simp
      qed
      moreover have "win_id w \<in> win_id ` set (hold_windows s)" using r by (metis imageI)
      ultimately show ?thesis using res s' new dw by (auto simp: closed_window_def insert_absorb)
    next
      case (Some t)
      then have "res = Closed" "s' = s"
        using assms(1) new \<open>window_row (win_id w) s = Some r\<close> by (simp_all add: store_hold_def Let_def)
      then show ?thesis by simp
    qed
  qed
qed

lemma rows_of_window_snoc:
  "held_events s' = held_events s @ [e] \<Longrightarrow> he_window e \<noteq> w \<Longrightarrow> rows_of_window w s' = rows_of_window w s"
  by (simp add: rows_of_window_def)

lemma ledger_hold_ok:
  assumes ok: "ledger_ok L"
  shows "ledger_ok (snd (ledger_hold store_ok now ev published active L))"
proof (cases "ev_id ev = [] \<or> active = [] \<or> \<not> store_ok \<or> latest_window (filter (is_open L) active) = None")
  case True
  then show ?thesis using ok by (auto simp: ledger_hold_def)
next
  case False
  then obtain w where w: "latest_window (filter (is_open L) active) = Some w" by auto
  let ?e = "held_row ev (win_id w) published now"
  obtain res s' where st: "store_hold w ?e (holds L) = (res, s')" by fastforce
  note parts = ok [unfolded ledger_ok_def]
  have "distinct (map win_id (hold_windows (holds L)))" using parts by blast
  from store_hold_cases [OF st this] show ?thesis
  proof
    assume "s' = holds L \<and> (\<forall>c. res \<noteq> Held c)"
    then have "snd (ledger_hold store_ok now ev published active L) = L"
      using False w st by (cases res) (simp_all add: ledger_hold_def)
    then show ?thesis using ok by simp
  next
    assume h: "(\<exists>c. res = Held c) \<and> he_id ?e \<notin> he_id ` set (held_events (holds L)) \<and>
      held_events s' = held_events (holds L) @ [?e] \<and> distinct (map win_id (hold_windows s')) \<and>
      set (map win_id (hold_windows s')) = insert (win_id w) (set (map win_id (hold_windows (holds L)))) \<and>
      \<not> closed_window s' (win_id w) \<and> (\<forall>v. closed_window s' v = closed_window (holds L) v)"
    then obtain c where res: "res = Held c" by blast
    have L': "snd (ledger_hold store_ok now ev published active L) =
        L\<lparr>holds := s', hold_log := hold_log L @ [Hold_Record (ident_key ev)
          (id_state (derive_identity ev)) (ev_id ev) (win_id w) c published]\<rparr>"
      using False w st res by (simp add: ledger_hold_def)
    have e: "he_id ?e = ev_id ev" "he_window ?e = win_id w" by (simp_all add: held_row_def)
    have rows: "rows_of_window v s' = rows_of_window v (holds L)" if "closed_window s' v" for v
      using h that e(2) by (intro rows_of_window_snoc [where e = ?e]) auto
    show ?thesis
      unfolding L' ledger_ok_def using parts h rows e by auto
  qed
qed

lemma ledger_ok_windows:
  assumes ok: "ledger_ok L" and ids: "map win_id ws = map win_id (hold_windows (holds L))"
    and cl: "\<And>v. closed_window ((holds L)\<lparr>hold_windows := ws\<rparr>) v = closed_window (holds L) v"
  shows "ledger_ok (L\<lparr>holds := (holds L)\<lparr>hold_windows := ws\<rparr>, in_flight := x\<rparr>)"
proof -
  have "win_id ` set ws = win_id ` set (hold_windows (holds L))" using ids by (metis set_map)
  moreover have "rows_of_window v ((holds L)\<lparr>hold_windows := ws\<rparr>) = rows_of_window v (holds L)" for v
    by (simp add: rows_of_window_def)
  ultimately show ?thesis using ok ids cl by (simp add: ledger_ok_def)
qed

lemma ledger_ok_released:
  assumes ok: "ledger_ok L" and ids: "map win_id ws = map win_id (hold_windows (holds L))"
    and cl: "\<And>v. closed_window ((holds L)\<lparr>hold_windows := ws\<rparr>) v \<longleftrightarrow> v = w \<or> closed_window (holds L) v"
    and w: "\<not> closed_window (holds L) w" and g: "g = group_held (rows_of_window w (holds L))"
  shows "ledger_ok (L\<lparr>holds := (holds L)\<lparr>hold_windows := ws\<rparr>, in_flight := x,
    hold_log := hold_log L @ [Release_Record w (gr_held g) (gr_recovered g) (gr_held g - gr_recovered g)]\<rparr>)"
proof -
  have "win_id ` set ws = win_id ` set (hold_windows (holds L))" using ids by (metis set_map)
  moreover have "rows_of_window v ((holds L)\<lparr>hold_windows := ws\<rparr>) = rows_of_window v (holds L)" for v
    by (simp add: rows_of_window_def)
  ultimately show ?thesis using ok ids cl w by (auto simp: ledger_ok_def g Let_def)
qed

lemma map_ids_update:
  "map win_id (map (\<lambda>r. if P r then r\<lparr>released_at := t\<rparr> else r) ws) = map win_id ws"
  "map win_id (map (\<lambda>r. if P r then r\<lparr>win_end := t'\<rparr> else r) ws) = map win_id ws"
  by (induction ws) auto

lemma ledger_release_ok:
  assumes ok: "ledger_ok L"
  shows "ledger_ok (snd (ledger_mark_released store_ok now w L))"
proof (cases "store_ok \<and> (\<exists>r\<in>set (hold_windows (holds L)). win_id r = w \<and> released_at r = None)")
  case False
  then show ?thesis
    using ok by (auto simp: ledger_mark_released_def store_mark_released_def ledger_ok_def)
next
  case True
  note parts = ok [unfolded ledger_ok_def]
  let ?f = "\<lambda>r. if win_id r = w \<and> released_at r = None then r\<lparr>released_at := Some now\<rparr> else r"
  let ?s = "(holds L)\<lparr>hold_windows := map ?f (hold_windows (holds L))\<rparr>"
  let ?g = "group_held (rows_of_window w (holds L))"
  from True obtain r0 where r0: "r0 \<in> set (hold_windows (holds L))" "win_id r0 = w" "released_at r0 = None"
    by auto
  have open_w: "\<not> closed_window (holds L) w"
  proof
    assume "closed_window (holds L) w"
    then obtain q where q: "q \<in> set (hold_windows (holds L))" "win_id q = w" "released_at q \<noteq> None"
      by (auto simp: closed_window_def)
    moreover have "distinct (map win_id (hold_windows (holds L)))" using parts by blast
    ultimately have "q = r0" using r0 by (intro win_unique [of "hold_windows (holds L)"]) auto
    with q r0 show False by simp
  qed
  have L': "snd (ledger_mark_released store_ok now w L) =
      L\<lparr>holds := ?s, in_flight := filter (\<lambda>x. fst x \<noteq> w) (in_flight L),
        hold_log := hold_log L @
          [Release_Record w (gr_held ?g) (gr_recovered ?g) (gr_held ?g - gr_recovered ?g)]\<rparr>"
    using True by (simp add: ledger_mark_released_def store_mark_released_def Let_def)
  have cl: "closed_window ?s v \<longleftrightarrow> v = w \<or> closed_window (holds L) v" for v
  proof -
    have "closed_window ?s v \<longleftrightarrow> (\<exists>r\<in>set (hold_windows (holds L)). win_id (?f r) = v \<and> released_at (?f r) \<noteq> None)"
      by (rule closed_window_map)
    also have "\<dots> \<longleftrightarrow> (\<exists>r\<in>set (hold_windows (holds L)). win_id r = v \<and> (win_id r = w \<or> released_at r \<noteq> None))"
      by (intro bex_cong refl) auto
    also have "\<dots> \<longleftrightarrow> v = w \<or> closed_window (holds L) v"
      using r0 unfolding closed_window_def by blast
    finally show ?thesis .
  qed
  show ?thesis unfolding L' by (rule ledger_ok_released [OF ok map_ids_update(1) cl open_w refl])
qed

lemma ledger_extend_ok:
  assumes ok: "ledger_ok L"
  shows "ledger_ok (ledger_extend w end' L)"
proof -
  let ?ws = "map (\<lambda>r. if win_id r = w \<and> released_at r = None then r\<lparr>win_end := end'\<rparr> else r)
    (hold_windows (holds L))"
  have L': "ledger_extend w end' L = L\<lparr>holds := (holds L)\<lparr>hold_windows := ?ws\<rparr>, in_flight := in_flight L\<rparr>"
    by (simp add: ledger_extend_def store_extend_def)
  have "closed_window ((holds L)\<lparr>hold_windows := ?ws\<rparr>) v \<longleftrightarrow> closed_window (holds L) v" for v
    by (force simp: closed_window_def)
  then show ?thesis unfolding L' by (rule ledger_ok_windows [OF ok map_ids_update(2)])
qed

interpretation ledger_system: step_system ledger_step ledger_ok "\<lambda>_. True"
proof
  fix L op assume "ledger_ok L"
  then show "ledger_ok (ledger_step L op)"
    using ledger_hold_ok ledger_release_ok ledger_extend_ok
    by (cases op) (simp_all, simp add: begin_release_def ledger_ok_def)
qed


section \<open>Witnesses\<close>

definition sample_window :: hold_window where
  "sample_window = \<lparr>win_id = [119], win_title = [87], win_start = 0, win_end = 1000, released_at = None\<rparr>"

definition sample_held :: held_event where
  "sample_held = \<lparr>he_id = [1], he_window = [119], he_key = [7], he_state = FIRING, he_title = [],
     he_message = [], he_published = 10, he_arrival = 10, he_held_at = 11\<rparr>"

theorem release_accounts_for_every_identity_witness:
  "gr_forwarded (group_held [sample_held, sample_held\<lparr>he_id := [2], he_state := RESOLVED\<rparr>,
     sample_held\<lparr>he_id := [3]\<rparr>]) = [sample_held\<lparr>he_id := [3]\<rparr>]"
proof -
  have "distinct (map he_id [sample_held, sample_held\<lparr>he_id := [2], he_state := RESOLVED\<rparr>,
     sample_held\<lparr>he_id := [3]\<rparr>])" by (simp add: sample_held_def)
  from release_accounts_for_every_identity [OF this] show ?thesis by (simp add: sample_held_def)
qed


end
