(* ===== verification/Coordinator.thy ===== *)
theory Coordinator
  imports Holds
begin

text \<open>
  \<open>henk/events/coordinator.py\<close> and \<open>henk/events/release.py\<close>: what becomes of a debounced
  batch (held, suppressed, or submitted to the core with its checkpoint offset), when the
  intake counts as caught up, and how a due maintenance window is released.
\<close>

section \<open>Catch-up state\<close>

record catch_up =
  queued :: "event list"
  open_debouncer :: "debouncer option"
  ready :: "event list list"
  dispatching :: bool
  keepalive_since_subscribe :: bool
  first_subscribe_at :: "secs option"

definition new_catch_up :: catch_up where
  "new_catch_up = \<lparr>queued = [], open_debouncer = None, ready = [], dispatching = False,
     keepalive_since_subscribe = False, first_subscribe_at = None\<rparr>"

datatype intake_step =
    Subscribe secs
  | Keepalive
  | Unsubscribe
  | Received event             \<comment> \<open>the pump puts it on the queue\<close>
  | Take_First secs            \<comment> \<open>the loop opens a debouncer (with the window) for the next event\<close>
  | Take_More                  \<comment> \<open>the loop feeds the next queued event\<close>
  | Flush_Batches              \<comment> \<open>the deadline: the batches leave for dispatch\<close>
  | Dispatch_Done

definition feed_into :: "event \<Rightarrow> catch_up \<Rightarrow> secs \<Rightarrow> catch_up" where
  "feed_into ev c window =
     (case open_debouncer c of
        None \<Rightarrow> c
      | Some d \<Rightarrow> (let (done, d') = feed window ev d
                   in c\<lparr>open_debouncer := Some d',
                        ready := (case done of None \<Rightarrow> ready c | Some b \<Rightarrow> ready c @ [b])\<rparr>))"

fun intake :: "secs \<Rightarrow> catch_up \<Rightarrow> intake_step \<Rightarrow> catch_up" where
  "intake window c (Subscribe now) =
     c\<lparr>keepalive_since_subscribe := False,
       first_subscribe_at := (case first_subscribe_at c of None \<Rightarrow> Some now | Some t \<Rightarrow> Some t)\<rparr>"
| "intake window c Keepalive = c\<lparr>keepalive_since_subscribe := True\<rparr>"
| "intake window c Unsubscribe = c\<lparr>keepalive_since_subscribe := False\<rparr>"
| "intake window c (Received ev) = c\<lparr>queued := queued c @ [ev]\<rparr>"
| "intake window c (Take_First now) =
     (case queued c of
        [] \<Rightarrow> c
      | ev # evs \<Rightarrow>
          if open_debouncer c \<noteq> None \<or> dispatching c then c
          else feed_into ev (c\<lparr>queued := evs, open_debouncer := Some new_debouncer\<rparr>) window)"
| "intake window c Take_More =
     (case queued c of
        [] \<Rightarrow> c
      | ev # evs \<Rightarrow>
          if open_debouncer c = None \<or> dispatching c then c
          else feed_into ev (c\<lparr>queued := evs\<rparr>) window)"
| "intake window c Flush_Batches =
     (if open_debouncer c = None \<or> dispatching c then c
      else c\<lparr>ready := [], open_debouncer := None, dispatching := True\<rparr>)"
| "intake window c Dispatch_Done = c\<lparr>dispatching := False\<rparr>"

text \<open>\<open>_flush\<close>: the batches handed to the dispatch when the deadline is reached.\<close>

definition flushed_batches :: "catch_up \<Rightarrow> event list list" where
  "flushed_batches c =
     ready c @ (case open_debouncer c of
        None \<Rightarrow> [] | Some d \<Rightarrow> (case fst (flush d) of None \<Rightarrow> [] | Some b \<Rightarrow> [b]))"

definition caught_up :: "catch_up \<Rightarrow> bool" where
  "caught_up c \<longleftrightarrow>
     keepalive_since_subscribe c \<and> queued c = [] \<and> open_debouncer c = None \<and> ready c = [] \<and>
     \<not> dispatching c"

section \<open>Dispatching a batch\<close>

text \<open>
  What the surroundings do during one dispatch: whether there is a ledger, whether the duplicate
  check could be read, whether each event's hold could be stored, the windows the calendar
  reports active (\<open>None\<close> inside when the read raises, \<open>None\<close> outside without a calendar),
  and whether each suppression record was written (\<open>None\<close> without an audit log, when nothing is
  written and nothing can fail).
\<close>

record dispatch_env =
  has_ledger :: bool
  known_ok :: bool
  hold_ok :: "event \<Rightarrow> bool"
  active_at :: "(secs \<Rightarrow> hold_window list option) option"
  audit_ok :: "(suppression \<Rightarrow> bool) option"

fun partition_loop ::
    "dispatch_env \<Rightarrow> secs \<Rightarrow> str list \<Rightarrow> event list \<Rightarrow> ledger \<Rightarrow> event list \<times> ledger" where
  "partition_loop env now known [] L = ([], L)"
| "partition_loop env now known (ev # evs) L =
     (if ev_id ev \<noteq> [] \<and> ev_id ev \<in> set known then partition_loop env now known evs L
      else (case active_at env of
          None \<Rightarrow> (let (rest, L1) = partition_loop env now known evs L in (ev # rest, L1))
        | Some source \<Rightarrow>
            (let published = publish_time ev;
                 active = (case source published of None \<Rightarrow> [] | Some ws \<Rightarrow> ws);
                 (res, L1) = ledger_hold (hold_ok env ev) now ev published active L;
                 (rest, L2) = partition_loop env now known evs L1
             in (if res = NOT_HELD then ev # rest else rest, L2))))"

definition partition_holds ::
    "dispatch_env \<Rightarrow> secs \<Rightarrow> event list \<Rightarrow> ledger \<Rightarrow> event list \<times> ledger" where
  "partition_holds env now evs L =
     (if \<not> has_ledger env then (evs, L)
      else partition_loop env now
        (if known_ok env then known_event_ids (map ev_id evs) (holds L) else []) evs L)"

text \<open>\<open>_write_suppressions\<close>: whether every record persisted, and the records that did.\<close>

definition write_suppressions :: "dispatch_env \<Rightarrow> suppression list \<Rightarrow> bool \<times> suppression list" where
  "write_suppressions env supps =
     (case audit_ok env of
        None \<Rightarrow> (True, [])
      | Some ok \<Rightarrow> (list_all ok supps, filter ok supps))"

datatype submission = Submit_Turn event_turn | Submit_Marker str

text \<open>
  \<open>dispatch_batch\<close>: what is submitted to the core (if anything), with the suppression records
  written; \<open>Inl ()\<close> when \<open>evaluate\<close> raises (the loop of the coordinator logs it and goes on
  with the next batch).
\<close>

definition dispatch_batch ::
    "(str \<Rightarrow> str \<Rightarrow> bool) \<Rightarrow> pipeline_cfg \<Rightarrow> dispatch_env \<Rightarrow> secs \<Rightarrow> event list \<Rightarrow> ledger \<Rightarrow> pipeline \<Rightarrow>
     (unit + submission option \<times> suppression list) \<times> ledger \<times> pipeline" where
  "dispatch_batch rx cfg env now evs L p =
     (let offset = (if evs = [] then None else Some (ev_id (last evs)));
          (survivors, L1) = partition_holds env now evs L;
          (res, p1) = evaluate rx cfg survivors now None p
      in case res of
           Inl e \<Rightarrow> (Inl (), L1, p1)
         | Inr (turn, supps) \<Rightarrow>
             (let (durable, written) = write_suppressions env supps
              in case turn of
                   Some t \<Rightarrow> (Inr (Some (Submit_Turn (t\<lparr>tn_offset := offset\<rparr>)), written), L1, p1)
                 | None \<Rightarrow>
                     (case offset of
                        Some off \<Rightarrow>
                          (Inr (if durable then Some (Submit_Marker off) else None, written), L1, p1)
                      | None \<Rightarrow> (Inr (None, written), L1, p1))))"

section \<open>Releasing a window\<close>

definition RELEASE_FALLBACK :: secs where "RELEASE_FALLBACK = 15 * 60"

definition fallback_due :: "catch_up \<Rightarrow> secs \<Rightarrow> secs \<Rightarrow> secs \<Rightarrow> bool" where
  "fallback_due c fallback due now \<longleftrightarrow>
     (case first_subscribe_at c of None \<Rightarrow> False | Some first \<Rightarrow> max due first + fallback \<le> now)"

text \<open>\<open>_extended\<close>: whether the calendar still has the window, active and covering the held
  events, and the end it moves the stored one to.\<close>

definition extended_to :: "(str \<Rightarrow> secs \<Rightarrow> hold_window option) option \<Rightarrow> hold_window \<Rightarrow> held_event list \<Rightarrow>
    secs \<Rightarrow> secs option" where
  "extended_to source w rs now =
     (case source of
        None \<Rightarrow> None
      | Some active \<Rightarrow> (case active (win_id w) now of
          None \<Rightarrow> None
        | Some cur \<Rightarrow>
            if win_start cur > Min (he_published ` set rs) then None else Some (win_end cur)))"

datatype release_result =
    Not_Due | Nothing_Held | Window_Extended | Waiting_For_Intake | Waiting_For_Release
  | Release_Raised
  | Release_Turn event_turn "suppression list"      \<comment> \<open>the turn and the suppressions recorded\<close>
  | Released_Quietly "suppression list"

text \<open>
  \<open>submit_release\<close>: the forwarded events of a window as one batch, without an offset; the
  window is in flight before the submission. \<open>None\<close> when \<open>evaluate\<close> raises.
\<close>

definition submit_release ::
    "(str \<Rightarrow> str \<Rightarrow> bool) \<Rightarrow> pipeline_cfg \<Rightarrow> dispatch_env \<Rightarrow> secs \<Rightarrow> event list \<Rightarrow> held_release \<Rightarrow>
     ledger \<Rightarrow> pipeline \<Rightarrow>
     (event_turn option \<times> suppression list) option \<times> ledger \<times> pipeline" where
  "submit_release rx cfg env now evs rel L p =
     (let (res, p1) = evaluate rx cfg evs now (Some rel) p
      in case res of
           Inl e \<Rightarrow> (None, L, p1)
         | Inr (None, supps) \<Rightarrow> (Some (None, snd (write_suppressions env supps)), L, p1)
         | Inr (Some t, supps) \<Rightarrow>
             (Some (Some (t\<lparr>tn_offset := None\<rparr>), snd (write_suppressions env supps)),
              begin_release (hr_window_id rel) (map item_key (tn_items t)) L, p1))"

text \<open>\<open>_consider\<close>; \<open>mark_ok\<close> is whether marking a release without a turn could be stored.\<close>

definition consider_window ::
    "(str \<Rightarrow> str \<Rightarrow> bool) \<Rightarrow> pipeline_cfg \<Rightarrow> dispatch_env \<Rightarrow> secs \<Rightarrow> secs \<Rightarrow>
     (str \<Rightarrow> secs \<Rightarrow> hold_window option) option \<Rightarrow> bool \<Rightarrow> catch_up \<Rightarrow> secs \<Rightarrow> hold_window \<Rightarrow>
     ledger \<Rightarrow> pipeline \<Rightarrow> release_result \<times> ledger \<times> pipeline" where
  "consider_window rx cfg env grace fallback source mark_ok c now w L p =
     (let due = win_end w + grace; rs = rows_of_window (win_id w) (holds L) in
      if now < due then (Not_Due, L, p)
      else if rs = [] then (Nothing_Held, L, p)
      else (case extended_to source w rs now of
          Some end' \<Rightarrow>
            (Window_Extended, if end' \<noteq> win_end w then ledger_extend (win_id w) end' L else L, p)
        | None \<Rightarrow>
            if \<not> (caught_up c \<or> fallback_due c fallback due now) then (Waiting_For_Intake, L, p)
            else if set (in_flight_identities L) \<inter> he_key ` set rs \<noteq> {} then (Waiting_For_Release, L, p)
            else (let g = group_held rs;
                      rel = \<lparr>hr_window_id = win_id w, hr_title = win_title w, hr_start = win_start w,
                        hr_end_with_grace = due, hr_held = gr_held g, hr_recovered = gr_recovered g,
                        hr_hold_age = now - win_end w\<rparr>;
                      (submitted, L1, p1) =
                        (if gr_forwarded g = [] then (Some (None, []), L, p)
                         else submit_release rx cfg env now (map rebuild_event (gr_forwarded g)) rel L p)
                  in case submitted of
                       None \<Rightarrow> (Release_Raised, L1, p1)
                     | Some (Some t, written) \<Rightarrow> (Release_Turn t written, L1, p1)
                     | Some (None, written) \<Rightarrow>
                         (Released_Quietly written, snd (ledger_mark_released mark_ok now (win_id w) L1), p1))))"

text \<open>
  One tick over the unreleased windows, read once; each window's failure leaves the others
  alone. \<open>c w\<close> is the catch-up state when window \<open>w\<close> is considered (a submission may wait
  in between).
\<close>

fun release_tick_loop ::
    "(str \<Rightarrow> str \<Rightarrow> bool) \<Rightarrow> pipeline_cfg \<Rightarrow> dispatch_env \<Rightarrow> secs \<Rightarrow> secs \<Rightarrow>
     (str \<Rightarrow> secs \<Rightarrow> hold_window option) option \<Rightarrow> bool \<Rightarrow> (hold_window \<Rightarrow> catch_up) \<Rightarrow> secs \<Rightarrow>
     hold_window list \<Rightarrow> ledger \<Rightarrow> pipeline \<Rightarrow> release_result list \<times> ledger \<times> pipeline" where
  "release_tick_loop rx cfg env grace fallback source mark_ok c now [] L p = ([], L, p)"
| "release_tick_loop rx cfg env grace fallback source mark_ok c now (w # ws) L p =
     (if win_id w \<in> fst ` set (in_flight L)
      then release_tick_loop rx cfg env grace fallback source mark_ok c now ws L p
      else (let (r, L1, p1) = consider_window rx cfg env grace fallback source mark_ok (c w) now w L p;
                (rs, L2, p2) = release_tick_loop rx cfg env grace fallback source mark_ok c now ws L1 p1
            in (r # rs, L2, p2)))"

definition release_tick ::
    "(str \<Rightarrow> str \<Rightarrow> bool) \<Rightarrow> pipeline_cfg \<Rightarrow> dispatch_env \<Rightarrow> secs \<Rightarrow> secs \<Rightarrow>
     (str \<Rightarrow> secs \<Rightarrow> hold_window option) option \<Rightarrow> bool \<Rightarrow> (hold_window \<Rightarrow> catch_up) \<Rightarrow> secs \<Rightarrow>
     ledger \<Rightarrow> pipeline \<Rightarrow> release_result list \<times> ledger \<times> pipeline" where
  "release_tick rx cfg env grace fallback source mark_ok c now L p =
     release_tick_loop rx cfg env grace fallback source mark_ok c now (unreleased_windows (holds L)) L p"

section \<open>Caught up means everything received was dispatched\<close>

text \<open>The intake with what it received and what it handed to the dispatch.\<close>

record intake_trace =
  tr_state :: catch_up
  tr_received :: "event list"
  tr_dispatched :: "event list list"

definition trace_step :: "secs \<Rightarrow> intake_trace \<Rightarrow> intake_step \<Rightarrow> intake_trace" where
  "trace_step window t s =
     \<lparr>tr_state = intake window (tr_state t) s,
      tr_received = tr_received t @ (case s of Received ev \<Rightarrow> [ev] | _ \<Rightarrow> []),
      tr_dispatched = tr_dispatched t @
        (if s = Flush_Batches \<and> open_debouncer (tr_state t) \<noteq> None \<and> \<not> dispatching (tr_state t)
         then flushed_batches (tr_state t) else [])\<rparr>"

definition undispatched :: "catch_up \<Rightarrow> event list" where
  "undispatched c =
     concat (ready c) @ (case open_debouncer c of None \<Rightarrow> [] | Some d \<Rightarrow> batch d) @ queued c"

definition trace_ok :: "secs \<Rightarrow> intake_trace \<Rightarrow> bool" where
  "trace_ok window t \<longleftrightarrow>
     (let c = tr_state t in
      tr_received t = concat (tr_dispatched t) @ undispatched c \<and>
      (open_debouncer c = None \<longrightarrow> ready c = []) \<and>
      (\<forall>d. open_debouncer c = Some d \<longrightarrow> debouncer_ok window d) \<and>
      (\<forall>b\<in>set (tr_dispatched t) \<union> set (ready c). batch_ok window b))"

lemma new_debouncer_ok: "debouncer_ok window new_debouncer" "batch new_debouncer = []"
  by (simp_all add: debouncer_ok_def new_debouncer_def)

lemma feed_into_keeps:
  assumes "open_debouncer c = Some d" and "debouncer_ok window d" and "0 \<le> window"
  shows "\<exists>d'. open_debouncer (feed_into ev c window) = Some d' \<and> debouncer_ok window d' \<and>
    queued (feed_into ev c window) = queued c \<and>
    dispatching (feed_into ev c window) = dispatching c \<and>
    concat (ready (feed_into ev c window)) @ batch d' = concat (ready c) @ batch d @ [ev] \<and>
    (\<forall>b\<in>set (ready (feed_into ev c window)). b \<in> set (ready c) \<or> batch_ok window b)"
proof -
  obtain made d' where f: "feed window ev d = (made, d')" by fastforce
  note s = feed_ok [OF assms(2,3) f]
  have "feed_into ev c window =
      c\<lparr>open_debouncer := Some d', ready := (case made of None \<Rightarrow> ready c | Some b \<Rightarrow> ready c @ [b])\<rparr>"
    by (simp add: feed_into_def assms(1) f)
  then show ?thesis using s by (cases made) auto
qed

lemma flushed_batches_concat:
  assumes "open_debouncer c = Some d" and "debouncer_ok window d"
  shows "concat (flushed_batches c) = concat (ready c) @ batch d"
    and "b \<in> set (flushed_batches c) \<Longrightarrow> b \<in> set (ready c) \<or> batch_ok window b"
  using assms
  by (auto simp: flushed_batches_def flush_def debouncer_ok_def batch_ok_def split: option.splits if_splits)

lemma trace_step_ok:
  assumes ok: "trace_ok window t" and w: "0 \<le> window"
  shows "trace_ok window (trace_step window t s)"
proof -
  let ?c = "tr_state t"
  note inv = ok [unfolded trace_ok_def Let_def]
  show ?thesis
  proof (cases s)
    case (Take_First now)
    show ?thesis
    proof (cases "queued ?c = [] \<or> open_debouncer ?c \<noteq> None \<or> dispatching ?c")
      case True
      then have "intake window ?c s = ?c" by (auto simp: Take_First split: list.split)
      then show ?thesis using inv by (simp add: trace_ok_def trace_step_def Take_First)
    next
      case False
      then obtain ev evs where q: "queued ?c = ev # evs" and nd: "open_debouncer ?c = None" "\<not> dispatching ?c"
        by (cases "queued ?c") auto
      let ?c1 = "?c\<lparr>queued := evs, open_debouncer := Some new_debouncer\<rparr>"
      have st: "intake window ?c s = feed_into ev ?c1 window" using q nd by (simp add: Take_First)
      obtain d' where "open_debouncer (feed_into ev ?c1 window) = Some d'" "debouncer_ok window d'"
        "queued (feed_into ev ?c1 window) = evs"
        "concat (ready (feed_into ev ?c1 window)) @ batch d' = concat (ready ?c) @ [ev]"
        "\<forall>b\<in>set (ready (feed_into ev ?c1 window)). b \<in> set (ready ?c) \<or> batch_ok window b"
        using feed_into_keeps [of ?c1 new_debouncer window ev] new_debouncer_ok w by auto
      then show ?thesis
        using inv q nd unfolding trace_ok_def trace_step_def st
        by (auto simp: Take_First undispatched_def)
    qed
  next
    case Take_More
    show ?thesis
    proof (cases "queued ?c = [] \<or> open_debouncer ?c = None \<or> dispatching ?c")
      case True
      then have "intake window ?c s = ?c" by (auto simp: Take_More split: list.split)
      then show ?thesis using inv by (simp add: trace_ok_def trace_step_def Take_More)
    next
      case False
      then obtain ev evs d where q: "queued ?c = ev # evs" and d: "open_debouncer ?c = Some d" "\<not> dispatching ?c"
        by (cases "queued ?c") auto
      let ?c1 = "?c\<lparr>queued := evs\<rparr>"
      have st: "intake window ?c s = feed_into ev ?c1 window" using q d by (simp add: Take_More)
      have dk: "debouncer_ok window d" using inv d by blast
      obtain d' where "open_debouncer (feed_into ev ?c1 window) = Some d'" "debouncer_ok window d'"
        "queued (feed_into ev ?c1 window) = evs"
        "concat (ready (feed_into ev ?c1 window)) @ batch d' = concat (ready ?c) @ batch d @ [ev]"
        "\<forall>b\<in>set (ready (feed_into ev ?c1 window)). b \<in> set (ready ?c) \<or> batch_ok window b"
        using feed_into_keeps [of ?c1 d window ev] d dk w by auto
      then show ?thesis
        using inv q d unfolding trace_ok_def trace_step_def st
        by (auto simp: Take_More undispatched_def)
    qed
  next
    case Flush_Batches
    show ?thesis
    proof (cases "open_debouncer ?c = None \<or> dispatching ?c")
      case True
      then have "intake window ?c s = ?c" by (auto simp: Flush_Batches)
      then show ?thesis using inv True by (auto simp: trace_ok_def trace_step_def Flush_Batches)
    next
      case False
      then obtain d where d: "open_debouncer ?c = Some d" "\<not> dispatching ?c" by auto
      have dk: "debouncer_ok window d" using inv d by blast
      note f = flushed_batches_concat [OF d(1) dk]
      show ?thesis using inv d f unfolding trace_ok_def trace_step_def
        by (auto simp: Flush_Batches undispatched_def)
    qed
  qed (use inv in \<open>auto simp: trace_ok_def trace_step_def undispatched_def\<close>)
qed

definition new_trace :: intake_trace where
  "new_trace = \<lparr>tr_state = new_catch_up, tr_received = [], tr_dispatched = []\<rparr>"

lemma new_trace_ok: "trace_ok window new_trace"
  by (simp add: trace_ok_def new_trace_def new_catch_up_def undispatched_def)

interpretation intake_system: step_system "trace_step (max 0 window)" "trace_ok (max 0 window)" "\<lambda>_. True"
  for window
proof
  fix t s assume "trace_ok (max 0 window) t"
  then show "trace_ok (max 0 window) (trace_step (max 0 window) t s)" by (rule trace_step_ok) simp
qed

lemma trace_accounts:
  assumes "0 \<le> window" and "t = foldl (trace_step window) new_trace steps"
  shows "tr_received t = concat (tr_dispatched t) @ undispatched (tr_state t) \<and>
    (caught_up (tr_state t) \<longrightarrow> concat (tr_dispatched t) = tr_received t \<and>
       \<not> dispatching (tr_state t) \<and> keepalive_since_subscribe (tr_state t)) \<and>
    (\<forall>b\<in>set (tr_dispatched t). b \<noteq> [] \<and>
       (\<forall>e\<in>set b. arrival_time e - arrival_time (hd b) \<le> window))"
proof -
  have "trace_ok (max 0 window) (foldl (trace_step (max 0 window)) new_trace steps)"
    by (rule intake_system.run_inv [OF new_trace_ok]) (simp add: list_all_iff)
  then have ok: "trace_ok window t" using assms by (simp add: max_absorb2)
  have "caught_up (tr_state t) \<Longrightarrow> undispatched (tr_state t) = []"
    by (simp add: caught_up_def undispatched_def)
  then show ?thesis using ok by (simp add: trace_ok_def Let_def batch_ok_def caught_up_def)
qed

text \<open>
  A release cannot overtake an alert: over any interleaving of the pump, the debounce loop
  and the dispatch, what intake received is, in order, what was handed to the dispatch, then the
  closed batches, the open batch and the queue; so when the intake reports that it is caught up
  every event received so far was in a dispatched batch, no dispatch is running, and a keepalive
  has been seen on the current subscription.
\<close>

theorem caught_up_means_dispatched:
  assumes "0 \<le> window" and "t = foldl (trace_step window) new_trace steps"
  shows "tr_received t = concat (tr_dispatched t) @ undispatched (tr_state t) \<and>
    (caught_up (tr_state t) \<longrightarrow> concat (tr_dispatched t) = tr_received t \<and>
       \<not> dispatching (tr_state t) \<and> keepalive_since_subscribe (tr_state t)) \<and>
    (\<forall>b\<in>set (tr_dispatched t). b \<noteq> [] \<and>
       (\<forall>e\<in>set b. arrival_time e - arrival_time (hd b) \<le> window))"
  using trace_accounts [OF assms] .

section \<open>A dispatched batch loses nothing\<close>

definition held_in :: "ledger \<Rightarrow> event \<Rightarrow> bool" where
  "held_in L ev \<longleftrightarrow> ev_id ev \<in> he_id ` set (held_events (holds L))"

lemma store_hold_rows:
  assumes "store_hold w e s = (r, s')"
  shows "held_events s' = held_events s @ (case r of Held t \<Rightarrow> [e] | _ \<Rightarrow> [])"
    and "r = Duplicate_Hold \<Longrightarrow> he_id e \<in> he_id ` set (held_events s)"
  using assms by (auto simp: store_hold_def Let_def split: if_splits option.splits)

lemma ledger_hold_cases:
  assumes "ledger_hold okay now ev published active L = (r, L')"
  obtains (outside) "r = NOT_HELD" and "L' = L"
  | (stored) w q s where "store_hold w (held_row ev (win_id w) published now) (holds L) = (q, s)"
      and "holds L' = s" and "r = (case q of Held t \<Rightarrow> HELD | Duplicate_Hold \<Rightarrow> DUPLICATE | Closed \<Rightarrow> NOT_HELD)"
proof (cases "ev_id ev = [] \<or> active = [] \<or> \<not> okay \<or> latest_window (filter (is_open L) active) = None")
  case True
  then show ?thesis using assms by (intro outside) (auto simp: ledger_hold_def split: if_splits)
next
  case False
  then obtain w where w: "latest_window (filter (is_open L) active) = Some w" by auto
  obtain q s where h: "store_hold w (held_row ev (win_id w) published now) (holds L) = (q, s)" by fastforce
  show ?thesis
    using assms False w h by (intro stored [OF h]; cases q) (auto simp: ledger_hold_def)
qed

lemma ledger_hold_held:
  assumes "ledger_hold okay now ev published active L = (r, L')"
  shows "held_in L x \<Longrightarrow> held_in L' x" and "r \<noteq> NOT_HELD \<Longrightarrow> held_in L' ev"
proof -
  have "(held_in L x \<longrightarrow> held_in L' x) \<and> (r \<noteq> NOT_HELD \<longrightarrow> held_in L' ev)"
    using assms
  proof (cases rule: ledger_hold_cases)
    case (stored w q s)
    have "he_id (held_row ev (win_id w) published now) = ev_id ev" by (simp add: held_row_def)
    then show ?thesis
      using stored(2,3) store_hold_rows [OF stored(1)] by (cases q) (simp_all add: held_in_def)
  qed simp
  then show "held_in L x \<Longrightarrow> held_in L' x" and "r \<noteq> NOT_HELD \<Longrightarrow> held_in L' ev" by blast+
qed

lemma partition_loop_spec:
  assumes "partition_loop env now known evs L = (survivors, L')"
    and "\<forall>i\<in>set known. i \<in> he_id ` set (held_events (holds L))"
  shows "(\<forall>ev\<in>set evs. ev \<in> set survivors \<or> held_in L' ev) \<and> set survivors \<subseteq> set evs \<and>
    (\<forall>x. held_in L x \<longrightarrow> held_in L' x)"
  using assms
proof (induction evs arbitrary: L survivors)
  case Nil
  then show ?case by simp
next
  case (Cons ev evs)
  show ?case
  proof (cases "ev_id ev \<noteq> [] \<and> ev_id ev \<in> set known")
    case True
    then have "partition_loop env now known evs L = (survivors, L')" using Cons.prems(1) by simp
    from Cons.IH [OF this Cons.prems(2)] show ?thesis
      using True Cons.prems(2) by (auto simp: held_in_def)
  next
    case new: False
    show ?thesis
    proof (cases "active_at env")
      case None
      then obtain rest where r: "partition_loop env now known evs L = (rest, L')" "survivors = ev # rest"
        using Cons.prems(1) new by (auto simp: Let_def split: prod.splits)
      from Cons.IH [OF r(1) Cons.prems(2)] show ?thesis using r(2) by auto
    next
      case (Some source)
      let ?active = "case source (publish_time ev) of None \<Rightarrow> [] | Some ws \<Rightarrow> ws"
      obtain res L1 where h: "ledger_hold (hold_ok env ev) now ev (publish_time ev) ?active L = (res, L1)"
        by fastforce
      obtain rest where r: "partition_loop env now known evs L1 = (rest, L')"
        "survivors = (if res = NOT_HELD then ev # rest else rest)"
        using Cons.prems(1) new Some h by (auto simp: Let_def split: prod.splits)
      note held = ledger_hold_held [OF h]
      have kn: "\<forall>i\<in>set known. i \<in> he_id ` set (held_events (holds L1))"
      proof
        fix i assume "i \<in> set known"
        then have "held_in L (ev\<lparr>ev_id := i\<rparr>)" using Cons.prems(2) by (simp add: held_in_def)
        from held(1) [OF this] show "i \<in> he_id ` set (held_events (holds L1))" by (simp add: held_in_def)
      qed
      note ih = Cons.IH [OF r(1) kn]
      have "ev \<in> set survivors \<or> held_in L' ev"
      proof (cases "res = NOT_HELD")
        case True
        then show ?thesis using r(2) by simp
      next
        case False
        from ih held(2) [OF this] show ?thesis by blast
      qed
      moreover have sub: "set rest \<subseteq> set survivors" "set survivors \<subseteq> insert ev (set rest)"
        using r(2) by auto
      moreover have "\<forall>e\<in>set evs. e \<in> set survivors \<or> held_in L' e" using ih sub(1) by blast
      moreover have "set survivors \<subseteq> set (ev # evs)" using ih sub(2) by auto
      moreover have "\<forall>x. held_in L x \<longrightarrow> held_in L' x" using ih held(1) by blast
      ultimately show ?thesis by simp
    qed
  qed
qed

lemma partition_holds_spec:
  assumes "partition_holds env now evs L = (survivors, L')"
  shows "(\<forall>ev\<in>set evs. ev \<in> set survivors \<or> held_in L' ev) \<and> set survivors \<subseteq> set evs \<and>
    (\<forall>x. held_in L x \<longrightarrow> held_in L' x)"
proof (cases "has_ledger env")
  case False
  then show ?thesis using assms by (auto simp: partition_holds_def)
next
  case True
  then show ?thesis using assms
    by (intro partition_loop_spec) (auto simp: partition_holds_def known_event_ids_def split: if_splits)
qed

lemma write_suppressions_durable:
  assumes "write_suppressions env supps = (True, written)" and "audit_ok env \<noteq> None"
  shows "written = supps"
  using assms by (auto simp: write_suppressions_def list_all_iff)

text \<open>
  C3. No alert is lost between the debouncer and the core: when a batch is dispatched, each of
  its events is a stored held row, or its identity is an item of the turn that goes to the
  core, or its identity was in cooldown. The checkpoint travels only with a durable outcome: a
  turn carries the id of the last event; a marker for the same id is sent only for a batch in
  which every event is a stored row or has its suppression record (with an audit log), and
  nothing else is ever submitted.
\<close>

theorem dispatch_loses_nothing:
  assumes "dispatch_batch rx cfg env now evs L p = (Inr (sub, written), L', p')"
  shows "(\<forall>ev\<in>set evs. held_in L' ev \<or> cooled rx cfg now p (ident_key ev) \<or>
      (\<exists>t. sub = Some (Submit_Turn t) \<and> ident_key ev \<in> item_key ` set (tn_items t))) \<and>
    (\<forall>t. sub = Some (Submit_Turn t) \<longrightarrow> evs \<noteq> [] \<and> tn_offset t = Some (ev_id (last evs))) \<and>
    (\<forall>off. sub = Some (Submit_Marker off) \<longrightarrow> evs \<noteq> [] \<and> off = ev_id (last evs) \<and>
      (\<forall>ev\<in>set evs. held_in L' ev \<or> audit_ok env = None \<or> (\<exists>s\<in>set written. su_key s = ident_key ev)))"
proof -
  obtain survivors L1 where part: "partition_holds env now evs L = (survivors, L1)" by fastforce
  obtain res p1 where ev: "evaluate rx cfg survivors now None p = (res, p1)" by fastforce
  from assms obtain turn supps where res: "res = Inr (turn, supps)"
    by (auto simp: dispatch_batch_def Let_def part ev split: sum.splits)
  obtain durable wr where ws: "write_suppressions env supps = (durable, wr)" by fastforce
  have out: "L' = L1" "wr = written"
    "sub = (case turn of Some t \<Rightarrow> Some (Submit_Turn (t\<lparr>tn_offset := if evs = [] then None else Some (ev_id (last evs))\<rparr>))
      | None \<Rightarrow> if evs \<noteq> [] \<and> durable then Some (Submit_Marker (ev_id (last evs))) else None)"
    using assms by (auto simp: dispatch_batch_def Let_def part ev res ws split: option.splits if_splits)
  note sp = partition_holds_spec [OF part]
  from ev res have ev': "evaluate rx cfg survivors now None p = (Inr (turn, supps), p1)" by simp
  have cover: "item_key ` set (items_of turn) \<union> su_key ` set supps = ident_key ` set survivors"
    and cool: "\<forall>s\<in>set supps. cooled rx cfg now p (su_key s)"
    and none: "turn = None \<longleftrightarrow> (\<forall>e\<in>set survivors. cooled rx cfg now p (ident_key e))"
    using evaluate_partition [OF ev'] by blast+
  have surv: "cooled rx cfg now p (ident_key e) \<or>
      (\<exists>t. sub = Some (Submit_Turn t) \<and> ident_key e \<in> item_key ` set (tn_items t))"
    if "e \<in> set survivors" for e
  proof (cases "ident_key e \<in> su_key ` set supps")
    case True
    then show ?thesis using cool by auto
  next
    case False
    then have "ident_key e \<in> item_key ` set (items_of turn)" using cover that by blast
    then show ?thesis unfolding out(3) by (cases turn) (auto simp: items_of_def)
  qed
  have nonempty: "evs \<noteq> []" if "turn \<noteq> None"
    using that none sp by auto
  have marker: "held_in L' e \<or> audit_ok env = None \<or> (\<exists>s\<in>set written. su_key s = ident_key e)"
    if "sub = Some (Submit_Marker off)" and "e \<in> set evs" for off e
  proof -
    have t: "turn = None" "durable" using that(1) out(3) by (auto split: option.splits if_splits)
    have "e \<in> set survivors \<or> held_in L' e" using sp that(2) out(1) by blast
    moreover have "ident_key e \<in> su_key ` set supps" if "e \<in> set survivors"
      using cover t(1) that by (auto simp: items_of_def)
    moreover have "written = supps" if "audit_ok env \<noteq> None"
      using write_suppressions_durable [OF _ that, of supps written] ws t(2) out(2) by simp
    ultimately show ?thesis by (metis imageE)
  qed
  show ?thesis
  proof (intro conjI)
    show "\<forall>ev\<in>set evs. held_in L' ev \<or> cooled rx cfg now p (ident_key ev) \<or>
        (\<exists>t. sub = Some (Submit_Turn t) \<and> ident_key ev \<in> item_key ` set (tn_items t))"
      using sp surv out(1) by blast
    show "\<forall>t. sub = Some (Submit_Turn t) \<longrightarrow> evs \<noteq> [] \<and> tn_offset t = Some (ev_id (last evs))"
      using nonempty out(3) by (auto split: option.splits if_splits)
    show "\<forall>off. sub = Some (Submit_Marker off) \<longrightarrow> evs \<noteq> [] \<and> off = ev_id (last evs) \<and>
      (\<forall>ev\<in>set evs. held_in L' ev \<or> audit_ok env = None \<or> (\<exists>s\<in>set written. su_key s = ident_key ev))"
      using marker out(3) by (auto split: option.splits if_splits)
  qed
qed

section \<open>When a window is released\<close>

lemma key_of_rebuilt [simp]:
  "ev_id (rebuild_event r) = he_id r" "ev_title (rebuild_event r) = he_title r"
  by (simp_all add: rebuild_event_def)

lemma submit_release_cases:
  obtains (raised) p1 where "submit_release rx cfg env now evs rel L p = (None, L, p1)"
  | (quiet) supps p1 where "evaluate rx cfg evs now (Some rel) p = (Inr (None, supps), p1)"
      and "submit_release rx cfg env now evs rel L p = (Some (None, snd (write_suppressions env supps)), L, p1)"
  | (turn) t supps p1 where "evaluate rx cfg evs now (Some rel) p = (Inr (Some t, supps), p1)"
      and "submit_release rx cfg env now evs rel L p =
        (Some (Some (t\<lparr>tn_offset := None\<rparr>), snd (write_suppressions env supps)),
        begin_release (hr_window_id rel) (map item_key (tn_items t)) L, p1)"
proof -
  obtain res p1 where e: "evaluate rx cfg evs now (Some rel) p = (res, p1)" by fastforce
  show ?thesis
  proof (cases res)
    case (Inl u)
    then show ?thesis using e by (intro raised [of p1]) (simp add: submit_release_def)
  next
    case (Inr r)
    obtain t supps where r: "r = (t, supps)" by fastforce
    show ?thesis
    proof (cases t)
      case None
      then show ?thesis using e Inr r by (intro quiet [of supps p1]) (simp_all add: submit_release_def)
    next
      case (Some u)
      then show ?thesis using e Inr r by (intro turn [of u supps p1]) (simp_all add: submit_release_def)
    qed
  qed
qed

text \<open>The guards of a release, in the order the code has them.\<close>

definition may_release ::
    "secs \<Rightarrow> secs \<Rightarrow> (str \<Rightarrow> secs \<Rightarrow> hold_window option) option \<Rightarrow> catch_up \<Rightarrow> secs \<Rightarrow> hold_window \<Rightarrow>
     ledger \<Rightarrow> bool" where
  "may_release grace fallback source c now w L \<longleftrightarrow>
     (let rs = rows_of_window (win_id w) (holds L) in
      win_end w + grace \<le> now \<and> rs \<noteq> [] \<and> extended_to source w rs now = None \<and>
      (caught_up c \<or> fallback_due c fallback (win_end w + grace) now) \<and>
      set (in_flight_identities L) \<inter> he_key ` set rs = {})"

definition forwarded_keys :: "str \<Rightarrow> ledger \<Rightarrow> str set" where
  "forwarded_keys w L =
     (\<lambda>r. ident_key (rebuild_event r)) ` set (gr_forwarded (group_held (rows_of_window w (holds L))))"

lemma consider_not_released:
  assumes "\<not> may_release grace fallback source c now w L"
  shows "fst (consider_window rx cfg env grace fallback source mark_ok c now w L p)
    \<in> {Not_Due, Nothing_Held, Window_Extended, Waiting_For_Intake, Waiting_For_Release}"
  using assms by (auto simp: consider_window_def may_release_def Let_def split: option.split)

definition release_of :: "secs \<Rightarrow> secs \<Rightarrow> hold_window \<Rightarrow> ledger \<Rightarrow> held_release" where
  "release_of grace now w L =
     (let g = group_held (rows_of_window (win_id w) (holds L))
      in \<lparr>hr_window_id = win_id w, hr_title = win_title w, hr_start = win_start w,
        hr_end_with_grace = win_end w + grace, hr_held = gr_held g, hr_recovered = gr_recovered g,
        hr_hold_age = now - win_end w\<rparr>)"

lemma consider_released:
  assumes "may_release grace fallback source c now w L"
  shows "consider_window rx cfg env grace fallback source mark_ok c now w L p =
    (let fw = gr_forwarded (group_held (rows_of_window (win_id w) (holds L)));
         (submitted, L1, p1) =
           (if fw = [] then (Some (None, []), L, p)
            else submit_release rx cfg env now (map rebuild_event fw) (release_of grace now w L) L p)
     in case submitted of
          None \<Rightarrow> (Release_Raised, L1, p1)
        | Some (Some t, written) \<Rightarrow> (Release_Turn t written, L1, p1)
        | Some (None, written) \<Rightarrow>
            (Released_Quietly written, snd (ledger_mark_released mark_ok now (win_id w) L1), p1))"
proof -
  have g: "win_end w + grace \<le> now" "rows_of_window (win_id w) (holds L) \<noteq> []"
    "extended_to source w (rows_of_window (win_id w) (holds L)) now = None"
    "caught_up c \<or> fallback_due c fallback (win_end w + grace) now"
    "set (in_flight_identities L) \<inter> he_key ` set (rows_of_window (win_id w) (holds L)) = {}"
    using assms unfolding may_release_def Let_def by blast+
  have "\<not> now < win_end w + grace" using g(1) by simp
  then show ?thesis unfolding consider_window_def release_of_def
    by (simp only: Let_def if_False g(2-5) option.case simp_thms not_True_eq_False not_False_eq_True)
qed

text \<open>
  C39. A window is released late enough and with nothing swallowed: a release happens only when
  the window is past its grace, still holds rows, was not extended, the intake has caught up (or
  the fallback has run out), and no other release is still triaging one of its identities. A
  release that produced a turn carries no checkpoint, puts the window in flight (closed to new
  holds, not marked released), and every forwarded identity is in the turn or was in cooldown;
  a window is marked released without a turn only when every forwarded identity was in
  cooldown.
\<close>

theorem release_waits_and_forwards_all:
  assumes "consider_window rx cfg env grace fallback source mark_ok c now w L p = (r, L', p')"
  shows "(\<forall>t written. r = Release_Turn t written \<longrightarrow>
      may_release grace fallback source c now w L \<and> tn_offset t = None \<and>
      tn_held_release t = Some (release_of grace now w L) \<and>
      win_id w \<in> fst ` set (in_flight L') \<and> holds L' = holds L \<and>
      (\<forall>k\<in>forwarded_keys (win_id w) L. k \<in> item_key ` set (tn_items t) \<or> cooled rx cfg now p k)) \<and>
    (\<forall>written. r = Released_Quietly written \<longrightarrow>
      may_release grace fallback source c now w L \<and>
      L' = snd (ledger_mark_released mark_ok now (win_id w) L) \<and>
      (\<forall>k\<in>forwarded_keys (win_id w) L. cooled rx cfg now p k))"
proof (cases "may_release grace fallback source c now w L")
  case False
  from consider_not_released [OF this, of rx cfg env mark_ok p] show ?thesis using assms by auto
next
  case True
  let ?fw = "gr_forwarded (group_held (rows_of_window (win_id w) (holds L)))"
  let ?evs = "map rebuild_event ?fw"
  let ?rel = "release_of grace now w L"
  have keys: "forwarded_keys (win_id w) L = ident_key ` set ?evs"
    by (simp add: forwarded_keys_def image_image)
  note eq = assms [unfolded consider_released [OF True] Let_def]
  show ?thesis
  proof (cases "?fw = []")
    case nil: True
    then have "r = Released_Quietly []" "L' = snd (ledger_mark_released mark_ok now (win_id w) L)"
      and "forwarded_keys (win_id w) L = {}" using eq keys by simp_all
    then show ?thesis using True by simp
  next
    case some: False
    show ?thesis
    proof (cases rule: submit_release_cases [of rx cfg env now ?evs ?rel L p])
      case (raised p1)
      then show ?thesis using eq some by simp
    next
      case (quiet supps p1)
      have "\<forall>e\<in>set ?evs. cooled rx cfg now p (ident_key e)"
        using evaluate_partition [OF quiet(1)] by blast
      moreover have "r = Released_Quietly (snd (write_suppressions env supps))"
        "L' = snd (ledger_mark_released mark_ok now (win_id w) L)"
        using eq some quiet(2) by simp_all
      ultimately show ?thesis using True keys by simp
    next
      case (turn t supps p1)
      have "item_key ` set (tn_items t) \<union> su_key ` set supps = ident_key ` set ?evs"
        and "\<forall>s\<in>set supps. cooled rx cfg now p (su_key s)"
        using evaluate_partition [OF turn(1)] by (simp_all add: items_of_def)
      then have "\<forall>k\<in>forwarded_keys (win_id w) L. k \<in> item_key ` set (tn_items t) \<or> cooled rx cfg now p k"
        unfolding keys by (metis (no_types, lifting) UnE imageE)
      moreover have "tn_held_release t = Some ?rel"
        using turn(1) by (cases rule: evaluate_cases [of rx cfg now p ?evs "Some ?rel"]) auto
      moreover have "r = Release_Turn (t\<lparr>tn_offset := None\<rparr>) (snd (write_suppressions env supps))"
        "L' = begin_release (win_id w) (map item_key (tn_items t)) L"
        using eq some turn(2) by (simp_all add: release_of_def Let_def)
      ultimately show ?thesis
        using True by (simp add: begin_release_def)
    qed
  qed
qed

section \<open>Witnesses\<close>

definition sample_steps :: "intake_step list" where
  "sample_steps = [Subscribe 0, Received gatus_down, Keepalive, Take_First 1, Flush_Batches, Dispatch_Done]"

lemma sample_steps_run:
  "foldl (trace_step 120) new_trace sample_steps =
     \<lparr>tr_state = \<lparr>queued = [], open_debouncer = None, ready = [], dispatching = False,
        keepalive_since_subscribe = True, first_subscribe_at = Some 0\<rparr>,
      tr_received = [gatus_down], tr_dispatched = [[gatus_down]]\<rparr>"
proof -
  let ?c = "\<lambda>q d disp ka. \<lparr>queued = q, open_debouncer = d, ready = [], dispatching = disp,
     keepalive_since_subscribe = ka, first_subscribe_at = Some 0\<rparr>"
  let ?t = "\<lambda>c r out. \<lparr>tr_state = c, tr_received = r, tr_dispatched = out\<rparr>"
  let ?d = "\<lparr>batch = [gatus_down], batch_start = Some (arrival_time gatus_down)\<rparr>"
  have "trace_step 120 new_trace (Subscribe 0) = ?t (?c [] None False False) [] []"
    by (simp add: trace_step_def new_trace_def new_catch_up_def)
  moreover have "trace_step 120 (?t (?c [] None False False) [] []) (Received gatus_down) =
      ?t (?c [gatus_down] None False False) [gatus_down] []"
    by (simp add: trace_step_def)
  moreover have "trace_step 120 (?t (?c [gatus_down] None False False) [gatus_down] []) Keepalive =
      ?t (?c [gatus_down] None False True) [gatus_down] []"
    by (simp add: trace_step_def)
  moreover have "trace_step 120 (?t (?c [gatus_down] None False True) [gatus_down] []) (Take_First 1) =
      ?t (?c [] (Some ?d) False True) [gatus_down] []"
    by (simp add: trace_step_def feed_into_def feed_def new_debouncer_def)
  moreover have "trace_step 120 (?t (?c [] (Some ?d) False True) [gatus_down] []) Flush_Batches =
      ?t (?c [] None True True) [gatus_down] [[gatus_down]]"
    by (simp add: trace_step_def flushed_batches_def flush_def)
  moreover have "trace_step 120 (?t (?c [] None True True) [gatus_down] [[gatus_down]]) Dispatch_Done =
      ?t (?c [] None False True) [gatus_down] [[gatus_down]]"
    by (simp add: trace_step_def)
  ultimately show ?thesis by (simp add: sample_steps_def)
qed

theorem caught_up_means_dispatched_witness:
  "concat (tr_dispatched (foldl (trace_step 120) new_trace sample_steps)) = [gatus_down]"
proof -
  let ?t = "foldl (trace_step 120) new_trace sample_steps"
  have "caught_up (tr_state ?t)" and r: "tr_received ?t = [gatus_down]"
    by (simp_all add: sample_steps_run caught_up_def)
  moreover have "(0::real) \<le> 120" by simp
  ultimately have "concat (tr_dispatched ?t) = tr_received ?t"
    using caught_up_means_dispatched [OF _ refl, of 120 sample_steps] by blast
  then show ?thesis unfolding r .
qed

definition open_env :: dispatch_env where
  "open_env = \<lparr>has_ledger = False, known_ok = True, hold_ok = (\<lambda>_. True), active_at = None,
     audit_ok = Some (\<lambda>_. True)\<rparr>"

lemma sample_write: "write_suppressions open_env [] = (True, [])"
  by (simp add: write_suppressions_def open_env_def)

theorem dispatch_loses_nothing_witness:
  "\<exists>t :: event_turn. fst (snd (dispatch_batch (\<lambda>_ _. False) sample_pipeline_cfg open_env 100 [gatus_down]
       (new_ledger empty_holds) new_pipeline)) = new_ledger empty_holds \<and>
     tn_offset t = Some (ev_id gatus_down) \<and> ident_key gatus_down \<in> item_key ` set (tn_items t)"
proof -
  obtain t p1 where ev: "evaluate (\<lambda>_ _. False) sample_pipeline_cfg [gatus_down] 100 None new_pipeline =
      (Inr (Some t, []), p1)"
    by (simp add: evaluate_def Let_def sample_cooldown in_cooldown_def new_pipeline_def split_beta)
  have part: "partition_holds open_env 100 [gatus_down] (new_ledger empty_holds) =
      ([gatus_down], new_ledger empty_holds)"
    by (simp add: partition_holds_def open_env_def)
  have d: "dispatch_batch (\<lambda>_ _. False) sample_pipeline_cfg open_env 100 [gatus_down]
      (new_ledger empty_holds) new_pipeline =
      (Inr (Some (Submit_Turn (t\<lparr>tn_offset := Some (ev_id gatus_down)\<rparr>)), []), new_ledger empty_holds, p1)"
    using sample_write by (simp add: dispatch_batch_def Let_def part ev)
  have "\<not> held_in (new_ledger empty_holds) gatus_down" by (simp add: held_in_def new_ledger_def empty_holds_def)
  moreover have "\<not> cooled (\<lambda>_ _. False) sample_pipeline_cfg 100 new_pipeline (ident_key gatus_down)"
    by (simp add: cooled_def sample_cooldown in_cooldown_def new_pipeline_def)
  ultimately have "\<exists>u. Submit_Turn (t\<lparr>tn_offset := Some (ev_id gatus_down)\<rparr>) = Submit_Turn u \<and>
      ident_key gatus_down \<in> item_key ` set (tn_items u)"
    using dispatch_loses_nothing [OF d] by simp
  then show ?thesis using d by (intro exI [of _ "t\<lparr>tn_offset := Some (ev_id gatus_down)\<rparr>"] conjI) auto
qed

definition due_window :: hold_window where
  "due_window = \<lparr>win_id = [119], win_title = [87], win_start = 0, win_end = 1000, released_at = None\<rparr>"

definition due_ledger :: ledger where
  "due_ledger = new_ledger \<lparr>hold_windows = [due_window], held_events = [sample_held\<lparr>he_state := RESOLVED\<rparr>]\<rparr>"

definition idle_intake :: catch_up where
  "idle_intake = new_catch_up\<lparr>keepalive_since_subscribe := True\<rparr>"

theorem release_waits_and_forwards_all_witness:
  "may_release 60 900 None idle_intake 2000 due_window due_ledger"
proof -
  have rows: "rows_of_window [119] (holds due_ledger) = [sample_held\<lparr>he_state := RESOLVED\<rparr>]"
    by (simp add: rows_of_window_def due_ledger_def new_ledger_def sample_held_def)
  have "consider_window (\<lambda>_ _. False) sample_pipeline_cfg open_env 60 900 None True idle_intake 2000 due_window
      due_ledger new_pipeline =
    (Released_Quietly [], snd (ledger_mark_released True 2000 [119] due_ledger), new_pipeline)"
    using rows
    by (simp add: consider_window_def due_window_def Let_def extended_to_def caught_up_def idle_intake_def
        new_catch_up_def in_flight_identities_def due_ledger_def new_ledger_def group_held_def
        latest_by_key_def sample_held_def)
  from release_waits_and_forwards_all [OF this] show ?thesis by simp
qed

end
