(* ===== verification/Ending.thy ===== *)
theory Ending
  imports Event_Pipeline
begin

text \<open>
  \<open>henk/agent/ending.py\<close>, with the records of \<open>henk/agent/session.py\<close>: how an agent turn
  ended, decided from the structured signals before the reply text, and the notice the owner
  gets for a triage that did not complete.
\<close>

section \<open>Signals and outcomes\<close>

record turn_ending =
  assistant_error :: "str option"
  refusal :: bool
  result_is_error :: bool
  api_error_status :: "int option"
  terminal_reason :: "str option"

datatype turn_outcome = COMPLETED | ERROR | REFUSED | NO_REPLY

record triage_ending =
  te_outcome :: turn_outcome
  te_error_class :: "str option"
  te_http_status :: "int option"

definition ASSISTANT_ERROR_CLASSES :: "str list" where
  "ASSISTANT_ERROR_CLASSES =
     [cps ''authentication_failed'', cps ''billing_error'', cps ''rate_limit'',
      cps ''invalid_request'', cps ''server_error'', cps ''unknown'']"

definition UNKNOWN_CLASS :: str where "UNKNOWN_CLASS = cps ''unknown''"

definition API_ERROR_PREFIX :: str where "API_ERROR_PREFIX = cps ''API Error''"

definition http_status_of :: "int option \<Rightarrow> int option" where
  "http_status_of v =
     (case v of None \<Rightarrow> None | Some n \<Rightarrow> if 100 \<le> n \<and> n \<le> 599 then Some n else None)"

definition error_ending :: "turn_ending option \<Rightarrow> triage_ending" where
  "error_ending signals =
     (case signals of
        None \<Rightarrow> \<lparr>te_outcome = ERROR, te_error_class = None, te_http_status = None\<rparr>
      | Some s \<Rightarrow>
          \<lparr>te_outcome = ERROR,
           te_error_class =
             (case assistant_error s of
                None \<Rightarrow> None
              | Some e \<Rightarrow>
                  if e = [] then None
                  else if e \<in> set ASSISTANT_ERROR_CLASSES then Some e else Some UNKNOWN_CLASS),
           te_http_status = http_status_of (api_error_status s)\<rparr>)"

definition plain_ending :: "turn_outcome \<Rightarrow> triage_ending" where
  "plain_ending oc = \<lparr>te_outcome = oc, te_error_class = None, te_http_status = None\<rparr>"

text \<open>The two structured error checks of \<open>classify_ending\<close>, in its order.\<close>

definition has_assistant_error :: "turn_ending \<Rightarrow> bool" where
  "has_assistant_error s \<longleftrightarrow> (case assistant_error s of None \<Rightarrow> False | Some e \<Rightarrow> e \<noteq> [])"

definition has_result_error :: "turn_ending \<Rightarrow> bool" where
  "has_result_error s \<longleftrightarrow>
     result_is_error s \<or> api_error_status s \<noteq> None \<or>
     (case terminal_reason s of None \<Rightarrow> False | Some r \<Rightarrow> r \<noteq> cps ''completed'')"

definition classify_ending :: "turn_ending option \<Rightarrow> bool \<Rightarrow> str option \<Rightarrow> triage_ending" where
  "classify_ending signals raised reply =
     (if (case signals of None \<Rightarrow> False | Some s \<Rightarrow> has_assistant_error s \<or> has_result_error s)
      then error_ending signals
      else if raised then error_ending signals
      else (let answer = strip (case reply of None \<Rightarrow> [] | Some r \<Rightarrow> r)
            in if prefix API_ERROR_PREFIX answer then error_ending signals
               else if (case signals of None \<Rightarrow> False | Some s \<Rightarrow> refusal s) then plain_ending REFUSED
               else if answer = [] then plain_ending NO_REPLY
               else plain_ending COMPLETED))"

section \<open>The notice\<close>

definition INCIDENT_NAME_MAX :: int where "INCIDENT_NAME_MAX = 80"
definition NOTICE_MAX_CHARS :: nat where "NOTICE_MAX_CHARS = 320"
definition NOTICE_PREFIX :: str where "NOTICE_PREFIX = cps ''[AI] Triage incomplete for ''"
definition NO_DIAGNOSIS :: str where "NO_DIAGNOSIS = cps ''No diagnosis was produced.''"
definition PICKUP_HANDOFF :: str where
  "PICKUP_HANDOFF = cps ''Pickup: run henk-pickup for the published handoff.''"
definition PICKUP_AUDIT :: str where
  "PICKUP_AUDIT = cps ''Pickup: no handoff was published; see the audit record for this incident.''"

text \<open>\<open>_WHITESPACE.sub(" ", s)\<close>: each run of whitespace becomes one space.\<close>

fun collapse_ws :: "bool \<Rightarrow> str \<Rightarrow> str" where
  "collapse_ws inside [] = []"
| "collapse_ws inside (c # cs) =
     (if is_space c then (if inside then collapse_ws True cs else 32 # collapse_ws True cs)
      else c # collapse_ws False cs)"

definition incident_name :: "event_turn \<Rightarrow> str" where
  "incident_name t =
     (let first = (case tn_items t of [] \<Rightarrow> [] | i # _ \<Rightarrow> id_name (it_identity i));
          flat = strip (collapse_ws False first);
          name = (if flat = [] then cps ''an unnamed incident'' else flat);
          more = int (length (tn_items t)) - 1;
          suff = (if more > 0 then cps '' (+'' @ decimal (nat more) @ cps '' more)'' else []);
          room = INCIDENT_NAME_MAX - int (length suff);
          cut = (if int (length name) > room then rstrip (py_take (room - 1) name) @ [8230] else name)
      in cut @ suff)"

definition how_ended :: "triage_ending \<Rightarrow> str" where
  "how_ended e =
     (case te_outcome e of
        REFUSED \<Rightarrow> cps ''the model declined the request''
      | NO_REPLY \<Rightarrow> cps ''the model produced no reply''
      | _ \<Rightarrow>
          (let parts = (case te_error_class e of None \<Rightarrow> [] | Some c \<Rightarrow> if c = [] then [] else [c]) @
                       (case te_http_status e of None \<Rightarrow> [] | Some n \<Rightarrow> [cps ''HTTP '' @ decimal (nat n)]);
               detail = (if parts = [] then [] else cps '' ('' @ join (cps '', '') parts @ cps '')'')
           in cps ''the triage failed with an error'' @ detail))"

definition incomplete_triage_notice :: "event_turn \<Rightarrow> triage_ending \<Rightarrow> bool \<Rightarrow> str" where
  "incomplete_triage_notice t e handoff_published =
     join [10]
       [NOTICE_PREFIX @ incident_name t @ cps '': '' @ how_ended e @ cps ''.'',
        NO_DIAGNOSIS,
        if handoff_published then PICKUP_HANDOFF else PICKUP_AUDIT]"

section \<open>Classification\<close>

definition structured_error :: "turn_ending option \<Rightarrow> bool" where
  "structured_error signals \<longleftrightarrow>
     (case signals of None \<Rightarrow> False | Some s \<Rightarrow> has_assistant_error s \<or> has_result_error s)"

definition refused :: "turn_ending option \<Rightarrow> bool" where
  "refused signals \<longleftrightarrow> (case signals of None \<Rightarrow> False | Some s \<Rightarrow> refusal s)"

definition answer_of :: "str option \<Rightarrow> str" where
  "answer_of reply = strip (case reply of None \<Rightarrow> [] | Some r \<Rightarrow> r)"

lemma error_ending_fields:
  "te_outcome (error_ending s) = ERROR"
  "te_error_class (error_ending s) = Some c \<Longrightarrow> c \<in> set ASSISTANT_ERROR_CLASSES"
  "te_http_status (error_ending s) = Some n \<Longrightarrow> 100 \<le> n \<and> n \<le> 599"
  by (auto simp: error_ending_def http_status_of_def UNKNOWN_CLASS_def ASSISTANT_ERROR_CLASSES_def
      split: option.splits if_splits)

lemma classify_eq:
  "classify_ending signals raised reply =
     (if structured_error signals \<or> raised \<or> prefix API_ERROR_PREFIX (answer_of reply) then error_ending signals
      else plain_ending (if refused signals then REFUSED
        else if answer_of reply = [] then NO_REPLY else COMPLETED))"
  by (simp add: classify_ending_def structured_error_def refused_def answer_of_def Let_def)

lemma ending_fields:
  "te_error_class (classify_ending signals raised reply) = Some c \<Longrightarrow> c \<in> set ASSISTANT_ERROR_CLASSES"
  "te_http_status (classify_ending signals raised reply) = Some n \<Longrightarrow> 100 \<le> n \<and> n \<le> 599"
  using error_ending_fields [of signals] by (auto simp: classify_eq plain_ending_def split: if_splits)

text \<open>
  Only a clean turn counts as completed: the ending is completed exactly when no structured
  error was reported, the turn did not raise, it was not refused, and the reply is neither blank
  nor an API error rendered as text; every error signal outranks a refusal; and what an ending
  says about the error is one of the known classes and a valid HTTP status, never other text.
\<close>

theorem ending_is_by_priority:
  "(te_outcome (classify_ending signals raised reply) = COMPLETED \<longleftrightarrow>
      \<not> structured_error signals \<and> \<not> raised \<and> \<not> refused signals \<and> answer_of reply \<noteq> [] \<and>
      \<not> prefix API_ERROR_PREFIX (answer_of reply)) \<and>
   (te_outcome (classify_ending signals raised reply) = ERROR \<longleftrightarrow>
      structured_error signals \<or> raised \<or> prefix API_ERROR_PREFIX (answer_of reply)) \<and>
   (\<forall>c. te_error_class (classify_ending signals raised reply) = Some c \<longrightarrow>
      c \<in> set ASSISTANT_ERROR_CLASSES) \<and>
   (\<forall>n. te_http_status (classify_ending signals raised reply) = Some n \<longrightarrow> 100 \<le> n \<and> n \<le> 599)"
  unfolding classify_eq using error_ending_fields [of signals]
  by (auto simp: plain_ending_def)

section \<open>The notice is bounded and on three lines\<close>

lemma collapse_ws_space: "c \<in> set (collapse_ws b s) \<Longrightarrow> is_space c \<Longrightarrow> c = 32"
  by (induction b s rule: collapse_ws.induct) (auto split: if_splits)

lemma set_strip: "c \<in> set (strip s) \<Longrightarrow> c \<in> set s"
  unfolding strip_def by (metis set_dropWhileD set_rev)

text \<open>\<open>one_line s\<close>: the only whitespace in \<open>s\<close> is the space character.\<close>

definition one_line :: "str \<Rightarrow> bool" where
  "one_line s \<longleftrightarrow> (\<forall>c\<in>set s. is_space c \<longrightarrow> c = 32)"

lemma one_line_append [simp]: "one_line (a @ b) \<longleftrightarrow> one_line a \<and> one_line b"
  by (auto simp: one_line_def)

lemma one_line_Nil [simp]: "one_line []"
  by (simp add: one_line_def)

lemma one_line_Cons [simp]: "one_line (c # s) \<longleftrightarrow> (is_space c \<longrightarrow> c = 32) \<and> one_line s"
  by (simp add: one_line_def)

lemma one_line_decimal [simp]: "one_line (decimal n)"
  using decimal_digits [of _ n] by (force simp: one_line_def is_space_def)

lemma one_line_mono: "one_line s \<Longrightarrow> set t \<subseteq> set s \<Longrightarrow> one_line t"
  by (auto simp: one_line_def)

lemma py_take_set: "set (py_take k s) \<subseteq> set s"
  by (simp add: py_take_def set_take_subset)

lemma rstrip_set: "set (rstrip s) \<subseteq> set s"
  unfolding rstrip_def by (metis set_dropWhileD set_rev subsetI)

lemma suffix_text:
  "length (cps '' (+'' @ decimal n @ cps '' more)'') = 9 + length (decimal n)"
  "one_line (cps '' (+'' @ decimal n @ cps '' more)'')"
  by (simp_all add: cps_def is_space_def)

lemma incident_name_bounded:
  assumes "length (tn_items t) < 10 ^ 20"
  shows "length (incident_name t) \<le> 80 \<and> one_line (incident_name t)"
proof -
  define first where "first = (case tn_items t of [] \<Rightarrow> [] | i # _ \<Rightarrow> id_name (it_identity i))"
  define flat where "flat = strip (collapse_ws False first)"
  define name where "name = (if flat = [] then cps ''an unnamed incident'' else flat)"
  define more where "more = int (length (tn_items t)) - 1"
  define suff where "suff = (if more > 0 then cps '' (+'' @ decimal (nat more) @ cps '' more)'' else [])"
  define room where "room = INCIDENT_NAME_MAX - int (length suff)"
  define cut where "cut = (if int (length name) > room then rstrip (py_take (room - 1) name) @ [8230] else name)"
  have eq: "incident_name t = cut @ suff"
    unfolding incident_name_def Let_def cut_def room_def suff_def more_def name_def flat_def first_def ..
  have "nat more < 10 ^ Suc 19" using assms by (simp add: more_def)
  then have "length (decimal (nat more)) \<le> Suc 19" by (rule length_decimal)
  then have s: "length suff \<le> 29" "one_line suff"
    using suffix_text [of "nat more"] by (auto simp: suff_def)
  have r: "51 \<le> room" "room + int (length suff) = 80" using s(1) by (simp_all add: room_def INCIDENT_NAME_MAX_def)
  have "one_line flat"
    unfolding one_line_def flat_def by (meson collapse_ws_space set_strip)
  moreover have "one_line (cps ''an unnamed incident'')" by (simp add: cps_def is_space_def)
  ultimately have nm: "one_line name" by (simp add: name_def)
  have "int (length cut) \<le> room"
  proof (cases "int (length name) > room")
    case True
    have "length (rstrip (py_take (room - 1) name)) \<le> length (py_take (room - 1) name)" by (rule length_rstrip)
    also have "\<dots> \<le> nat (room - 1)" using r(1) by (simp add: py_take_def)
    finally show ?thesis using True r(1) by (simp add: cut_def)
  next
    case False
    then show ?thesis by (simp add: cut_def)
  qed
  moreover have "one_line cut"
  proof -
    have "set (rstrip (py_take (room - 1) name)) \<subseteq> set name"
      using rstrip_set py_take_set by (rule order_trans)
    then have "one_line (rstrip (py_take (room - 1) name))" using nm one_line_mono by blast
    moreover have "\<not> is_space 8230" by (simp add: is_space_def)
    ultimately show ?thesis using nm by (simp add: cut_def)
  qed
  ultimately show ?thesis unfolding eq using s(2) r(2) by simp
qed

lemma known_class:
  "c \<in> set ASSISTANT_ERROR_CLASSES \<Longrightarrow> length c \<le> 21 \<and> one_line c"
  by (auto simp: ASSISTANT_ERROR_CLASSES_def cps_def is_space_def)

lemma how_ended_bounded:
  assumes "\<And>c. te_error_class e = Some c \<Longrightarrow> c \<in> set ASSISTANT_ERROR_CLASSES"
    and "\<And>n. te_http_status e = Some n \<Longrightarrow> 100 \<le> n \<and> n \<le> 599"
  shows "length (how_ended e) \<le> 65 \<and> one_line (how_ended e)"
proof -
  define cl where "cl = (case te_error_class e of None \<Rightarrow> [] | Some c \<Rightarrow> if c = [] then [] else [c])"
  define st where "st = (case te_http_status e of None \<Rightarrow> [] | Some n \<Rightarrow> [cps ''HTTP '' @ decimal (nat n)])"
  have cl: "cl = [] \<or> (\<exists>c. cl = [c] \<and> length c \<le> 21 \<and> one_line c)"
    using assms(1) known_class by (auto simp: cl_def split: option.split)
  have st: "st = [] \<or> (\<exists>h. st = [h] \<and> length h \<le> 8 \<and> one_line h)"
  proof (cases "te_http_status e")
    case None
    then show ?thesis by (simp add: st_def)
  next
    case (Some n)
    from assms(2) [OF this] have "nat n < 10 ^ Suc 2" by (simp add: nat_less_iff)
    then have "length (decimal (nat n)) \<le> Suc 2" by (rule length_decimal)
    then have "length (cps ''HTTP '' @ decimal (nat n)) \<le> 8 \<and> one_line (cps ''HTTP '' @ decimal (nat n))"
      by (simp add: cps_def is_space_def)
    then show ?thesis by (simp add: st_def Some)
  qed
  have "length (join (cps '', '') (cl @ st)) \<le> 31 \<and> one_line (join (cps '', '') (cl @ st))"
    using cl st by (elim disjE exE conjE) (simp_all add: cps_def is_space_def)
  then have "length (cps ''the triage failed with an error'' @
      (if cl @ st = [] then [] else cps '' ('' @ join (cps '', '') (cl @ st) @ cps '')'')) \<le> 65 \<and>
    one_line (cps ''the triage failed with an error'' @
      (if cl @ st = [] then [] else cps '' ('' @ join (cps '', '') (cl @ st) @ cps '')''))"
    by (simp add: cps_def is_space_def)
  moreover have "length (cps ''the model declined the request'') \<le> 65 \<and> one_line (cps ''the model declined the request'')"
    "length (cps ''the model produced no reply'') \<le> 65 \<and> one_line (cps ''the model produced no reply'')"
    by (simp_all add: cps_def is_space_def)
  ultimately show ?thesis
    by (cases "te_outcome e") (simp_all only: how_ended_def Let_def cl_def st_def turn_outcome.case)
qed

definition line_feeds :: "str \<Rightarrow> nat" where
  "line_feeds s = length (filter (\<lambda>c. c = 10) s)"

lemma one_line_no_feed:
  assumes "one_line s"
  shows "line_feeds s = 0"
proof -
  have "is_space 10" by (simp add: is_space_def)
  then have "\<forall>c\<in>set s. c \<noteq> 10" using assms by (auto simp: one_line_def)
  then show ?thesis by (simp add: line_feeds_def)
qed

lemma line_feeds_append: "line_feeds (a @ b) = line_feeds a + line_feeds b"
  by (simp add: line_feeds_def)

text \<open>
  The notice of an incomplete triage is honest and small: whatever the alert is called and
  whatever the session reported, it is at most \<open>NOTICE_MAX_CHARS\<close> characters on exactly three
  lines, with no other line break or tab, so a payload-derived name cannot add a line to it.
\<close>

theorem incomplete_notice_is_bounded:
  assumes "length (tn_items t) < 10 ^ 20"
  shows "length (incomplete_triage_notice t (classify_ending signals raised reply) published) \<le> NOTICE_MAX_CHARS \<and>
    line_feeds (incomplete_triage_notice t (classify_ending signals raised reply) published) = 2 \<and>
    list_all (\<lambda>c. is_space c \<longrightarrow> c = 32 \<or> c = 10)
      (incomplete_triage_notice t (classify_ending signals raised reply) published)"
proof -
  let ?e = "classify_ending signals raised reply"
  define how where "how = how_ended ?e"
  define name where "name = incident_name t"
  define pickup where "pickup = (if published then PICKUP_HANDOFF else PICKUP_AUDIT)"
  have h: "length how \<le> 65" "one_line how"
    using how_ended_bounded [of ?e] ending_fields unfolding how_def by blast+
  have n: "length name \<le> 80" "one_line name"
    using incident_name_bounded [OF assms] unfolding name_def by blast+
  have p: "length pickup \<le> 75" "one_line pickup"
    by (simp_all add: pickup_def PICKUP_HANDOFF_def PICKUP_AUDIT_def cps_def is_space_def)
  have d: "length NO_DIAGNOSIS = 26" "one_line NO_DIAGNOSIS"
    by (simp_all add: NO_DIAGNOSIS_def cps_def is_space_def)
  have f: "length NOTICE_PREFIX = 27" "one_line NOTICE_PREFIX"
    by (simp_all add: NOTICE_PREFIX_def cps_def is_space_def)
  let ?l1 = "NOTICE_PREFIX @ name @ cps '': '' @ how @ cps ''.''"
  have sep: "length (cps '': '') = 2" "length (cps ''.'') = 1" "one_line (cps '': '')" "one_line (cps ''.'')"
    by (simp_all add: cps_def is_space_def)
  have l1: "length ?l1 \<le> 175" "one_line ?l1" using h n f sep by simp_all
  have eq: "incomplete_triage_notice t ?e published = ?l1 @ 10 # NO_DIAGNOSIS @ 10 # pickup"
    by (simp add: incomplete_triage_notice_def how_def name_def pickup_def)
  have "length (?l1 @ 10 # NO_DIAGNOSIS @ 10 # pickup) \<le> NOTICE_MAX_CHARS"
    using l1(1) d(1) p(1) by (simp add: NOTICE_MAX_CHARS_def)
  moreover have "line_feeds (?l1 @ 10 # NO_DIAGNOSIS @ 10 # pickup) = 2"
    using one_line_no_feed [OF l1(2)] one_line_no_feed [OF d(2)] one_line_no_feed [OF p(2)]
    by (simp add: line_feeds_def)
  moreover have "list_all (\<lambda>c. is_space c \<longrightarrow> c = 32 \<or> c = 10) (?l1 @ 10 # NO_DIAGNOSIS @ 10 # pickup)"
    using l1(2) d(2) p(2) unfolding list_all_iff one_line_def by auto
  ultimately show ?thesis unfolding eq by blast
qed

section \<open>Witnesses\<close>

theorem ending_is_by_priority_witness:
  "te_outcome (classify_ending None False (Some (cps ''API Error: 529''))) = ERROR"
proof -
  have "prefix API_ERROR_PREFIX (answer_of (Some (cps ''API Error: 529'')))"
    by (simp add: API_ERROR_PREFIX_def answer_of_def cps_def strip_def is_space_def)
  then show ?thesis using ending_is_by_priority [of None False "Some (cps ''API Error: 529'')"] by simp
qed

theorem incomplete_notice_is_bounded_witness:
  "line_feeds (incomplete_triage_notice
     \<lparr>tn_items = [], tn_announceable = True, tn_suppressed_count = 0, tn_offset = None, tn_held_release = None\<rparr>
     (classify_ending None True None) False) = 2"
  using incomplete_notice_is_bounded [of "\<lparr>tn_items = [], tn_announceable = True, tn_suppressed_count = 0,
     tn_offset = None, tn_held_release = None\<rparr>" None True None False] by simp

end
