(* ===== verification/Triage_Arc.thy ===== *)
theory Triage_Arc
  imports Markers
begin

text \<open>
  The arc check of \<open>henk/agent/triage.py\<close>: whether a triage message holds a diagnosis with a
  confidence, a fix and a pickup line. The module's regular expressions are written out as the
  searches they perform; \<open>word\<close> stands for \<open>\w\<close> (Unicode letters, digits and the underscore).
\<close>

section \<open>Searching\<close>

text \<open>\<open>re.search\<close>: the matcher sees the character before the position and the text from it.\<close>

fun search_from :: "(nat option \<Rightarrow> str \<Rightarrow> 'a option) \<Rightarrow> nat option \<Rightarrow> str \<Rightarrow> 'a option" where
  "search_from m prev [] = m prev []"
| "search_from m prev (c # cs) =
     (case m prev (c # cs) of Some a \<Rightarrow> Some a | None \<Rightarrow> search_from m (Some c) cs)"

definition rest_after :: "str \<Rightarrow> str \<Rightarrow> str option" where
  "rest_after w s = map_option snd (match_word w s)"

definition line_start :: "nat option \<Rightarrow> bool" where
  "line_start prev \<longleftrightarrow> prev = None \<or> prev = Some 10"

definition word_start :: "(nat \<Rightarrow> bool) \<Rightarrow> nat option \<Rightarrow> bool" where
  "word_start word prev \<longleftrightarrow> (case prev of None \<Rightarrow> True | Some c \<Rightarrow> \<not> word c)"

text \<open>\<open>\b\s*[:\-]\<close> after a word: what follows the separator.\<close>

definition after_separator :: "str \<Rightarrow> str option" where
  "after_separator s =
     (case dropWhile is_space s of
        [] \<Rightarrow> None | c # cs \<Rightarrow> if c = 58 \<or> c = 45 then Some cs else None)"

section \<open>The patterns\<close>

definition LEVELS :: "str list" where
  "LEVELS = [cps ''HIGH'', cps ''MODERATE'', cps ''MEDIUM'', cps ''LOW'', cps ''UNKNOWN'']"

fun first_level :: "str list \<Rightarrow> str \<Rightarrow> str option" where
  "first_level [] s = None"
| "first_level (l # ls) s =
     (case match_word l s of Some (x, r) \<Rightarrow> Some x | None \<Rightarrow> first_level ls s)"

text \<open>\<open>confidence\s*[:=]?\s*(high|moderate|medium|low|unknown)\<close>\<close>

definition confidence_at :: "nat option \<Rightarrow> str \<Rightarrow> str option" where
  "confidence_at prev s =
     (case rest_after (cps ''CONFIDENCE'') s of
        None \<Rightarrow> None
      | Some r \<Rightarrow>
          (case dropWhile is_space r of
             [] \<Rightarrow> None
           | c # cs \<Rightarrow>
               first_level LEVELS (if c = 58 \<or> c = 61 then dropWhile is_space cs else c # cs)))"

text \<open>\<open>\bdiagnosis\b\s*[:\-]\<close> and \<open>\bpickup\b\s*[:\-]\<close>\<close>

definition label_at :: "(nat \<Rightarrow> bool) \<Rightarrow> str \<Rightarrow> nat option \<Rightarrow> str \<Rightarrow> unit option" where
  "label_at word w prev s =
     (if word_start word prev
      then (case rest_after w s of
          None \<Rightarrow> None | Some r \<Rightarrow> map_option (\<lambda>_. ()) (after_separator r))
      else None)"

text \<open>\<open>^\s*(?:suggested\s+)?fix\b\s*[:\-]\<close>\<close>

definition fix_at :: "nat option \<Rightarrow> str \<Rightarrow> unit option" where
  "fix_at prev s =
     (if line_start prev
      then (let r = dropWhile is_space s;
                r1 = (case rest_after (cps ''SUGGESTED'') r of
                        None \<Rightarrow> r
                      | Some q \<Rightarrow> if takeWhile is_space q = [] then r else dropWhile is_space q)
            in case rest_after (cps ''FIX'') r1 of
                 None \<Rightarrow> None | Some q \<Rightarrow> map_option (\<lambda>_. ()) (after_separator q))
      else None)"

text \<open>\<open>^\s*diagnosis\b\s*[:\-]\s*(.+)$\<close>: the group. When only whitespace is left, the greedy
  \<open>\s*\<close> gives back from its end the last character that is not a line feed.\<close>

definition diagnosis_line_at :: "nat option \<Rightarrow> str \<Rightarrow> str option" where
  "diagnosis_line_at prev s =
     (if line_start prev
      then (case rest_after (cps ''DIAGNOSIS'') (dropWhile is_space s) of
          None \<Rightarrow> None
        | Some q \<Rightarrow>
            (case after_separator q of
               None \<Rightarrow> None
             | Some r \<Rightarrow>
                 (let v = dropWhile is_space r
                  in if v \<noteq> [] then Some (takeWhile (\<lambda>c. c \<noteq> 10) v)
                     else if filter (\<lambda>c. c \<noteq> 10) r = [] then None
                     else Some [last (filter (\<lambda>c. c \<noteq> 10) r)])))
      else None)"

definition extract_diagnosis :: "str \<Rightarrow> str option" where
  "extract_diagnosis s = map_option strip (search_from diagnosis_line_at None s)"

record triage_arc =
  arc_diagnosis :: bool
  arc_fix :: bool
  arc_pickup :: bool
  arc_confidence :: "str option"

definition arc_complete :: "triage_arc \<Rightarrow> bool" where
  "arc_complete a \<longleftrightarrow> arc_diagnosis a \<and> arc_fix a \<and> arc_pickup a"

definition check_triage_arc :: "(nat \<Rightarrow> bool) \<Rightarrow> str \<Rightarrow> triage_arc" where
  "check_triage_arc word s =
     (let conf = map_option lower (search_from confidence_at None s)
      in \<lparr>arc_diagnosis = search_from (label_at word (cps ''DIAGNOSIS'')) None s \<noteq> None \<and> conf \<noteq> None,
          arc_fix = search_from fix_at None s \<noteq> None,
          arc_pickup = search_from (label_at word (cps ''PICKUP'')) None s \<noteq> None,
          arc_confidence = conf\<rparr>)"

section \<open>A reply in the asked form is recognised\<close>

lemma search_from_suffix:
  "m (Some c) s = Some a \<Longrightarrow> search_from m prev (xs @ c # s) \<noteq> None"
proof (induction xs arbitrary: prev)
  case Nil
  then show ?case by (cases s) (auto split: option.split)
next
  case (Cons x xs)
  then show ?case by (auto split: option.split)
qed

lemma rest_after_text:
  "list_all2 letter_matches w x \<Longrightarrow> rest_after w (x @ r) = Some r"
  using match_word_Some [of w "x @ r" x r] by (simp add: rest_after_def)

lemma asked_words:
  "list_all2 letter_matches (cps ''DIAGNOSIS'') (cps ''Diagnosis'')"
  "list_all2 letter_matches (cps ''FIX'') (cps ''Fix'')"
  "list_all2 letter_matches (cps ''PICKUP'') (cps ''Pickup'')"
  "list_all2 letter_matches (cps ''CONFIDENCE'') (cps ''confidence'')"
  "list_all2 letter_matches (cps ''HIGH'') (cps ''high'')"
  by (simp_all add: cps_def letter_matches_def)

lemma after_colon: "after_separator (58 # r) = Some r"
  by (simp add: after_separator_def is_space_def)

lemma label_at_text:
  "list_all2 letter_matches w x \<Longrightarrow> \<not> word 10 \<Longrightarrow> label_at word w (Some 10) (x @ 58 # r) = Some ()"
  by (simp add: label_at_def word_start_def rest_after_text after_colon)

lemma not_suggested: "rest_after (cps ''SUGGESTED'') (70 # r) = None"
  by (simp add: rest_after_def cps_def letter_matches_def)

lemma fix_at_text: "fix_at (Some 10) (cps ''Fix'' @ 58 # r) = Some ()"
proof -
  have f: "cps ''Fix'' @ 58 # r = 70 # cps ''ix'' @ 58 # r" by (simp add: cps_def)
  have d: "dropWhile is_space (cps ''Fix'' @ 58 # r) = cps ''Fix'' @ 58 # r"
    unfolding f by (simp add: is_space_def)
  have n: "rest_after (cps ''SUGGESTED'') (cps ''Fix'' @ 58 # r) = None"
    unfolding f by (rule not_suggested)
  show ?thesis
    by (simp add: fix_at_def line_start_def d n Let_def rest_after_text [OF asked_words(2)] after_colon)
qed

lemma confidence_at_text: "confidence_at prev (cps ''confidence'' @ 58 # 32 # cps ''high'' @ r) = Some (cps ''high'')"
proof -
  have "dropWhile is_space (32 # cps ''high'' @ r) = cps ''high'' @ r"
    by (simp add: cps_def is_space_def)
  moreover have "first_level LEVELS (cps ''high'' @ r) = Some (cps ''high'')"
    using match_word_Some [of "cps ''HIGH''" "cps ''high'' @ r" "cps ''high''" r] asked_words(5)
    by (simp add: LEVELS_def)
  moreover have "dropWhile is_space (58 # q) = 58 # q" for q by (simp add: is_space_def)
  ultimately show ?thesis
    by (simp add: confidence_at_def rest_after_text [OF asked_words(4)])
qed

text \<open>
  A reply in the form the triage framing asks for is always recognised as complete,
  whatever precedes the three lines and whatever they say.
\<close>

theorem asked_form_is_complete:
  assumes "\<not> word 10"
  shows "arc_complete (check_triage_arc word
    (body @ 10 # cps ''Diagnosis: '' @ x @ cps '' (confidence: high)'' @ 10 # cps ''Fix: '' @ y @
     10 # cps ''Pickup: '' @ z))"
proof -
  let ?pick = "cps ''Pickup'' @ 58 # 32 # z"
  let ?fix = "cps ''Fix'' @ 58 # 32 # y @ 10 # ?pick"
  let ?conf = "cps ''confidence'' @ 58 # 32 # cps ''high'' @ 41 # 10 # ?fix"
  let ?diag = "cps ''Diagnosis'' @ 58 # 32 # x @ 32 # 40 # ?conf"
  let ?s = "body @ 10 # cps ''Diagnosis: '' @ x @ cps '' (confidence: high)'' @ 10 # cps ''Fix: '' @ y @
     10 # cps ''Pickup: '' @ z"
  have forms: "?s = body @ 10 # ?diag"
    "?s = (body @ 10 # cps ''Diagnosis'' @ 58 # 32 # x @ [32]) @ 40 # ?conf"
    "?s = (body @ 10 # cps ''Diagnosis'' @ 58 # 32 # x @ cps '' (confidence: high)'') @ 10 # ?fix"
    "?s = (body @ 10 # cps ''Diagnosis'' @ 58 # 32 # x @ cps '' (confidence: high)'' @ 10 #
       cps ''Fix'' @ 58 # 32 # y) @ 10 # ?pick"
    by (simp_all add: cps_def)
  have "search_from (label_at word (cps ''DIAGNOSIS'')) None ?s \<noteq> None"
    unfolding forms(1) by (rule search_from_suffix) (rule label_at_text [where word = word, OF asked_words(1) assms])
  moreover have "search_from confidence_at None ?s \<noteq> None"
    unfolding forms(2) by (rule search_from_suffix) (rule confidence_at_text)
  moreover have "search_from fix_at None ?s \<noteq> None"
    unfolding forms(3) by (rule search_from_suffix) (rule fix_at_text)
  moreover have "search_from (label_at word (cps ''PICKUP'')) None ?s \<noteq> None"
    unfolding forms(4) by (rule search_from_suffix) (rule label_at_text [where word = word, OF asked_words(3) assms])
  ultimately show ?thesis
    by (simp add: check_triage_arc_def arc_complete_def Let_def)
qed

theorem asked_form_is_complete_witness:
  "arc_complete (check_triage_arc (\<lambda>c. 97 \<le> c)
    ([] @ 10 # cps ''Diagnosis: '' @ [] @ cps '' (confidence: high)'' @ 10 # cps ''Fix: '' @ [] @
     10 # cps ''Pickup: '' @ []))"
  using asked_form_is_complete [of "\<lambda>c. 97 \<le> c" "[]" "[]" "[]" "[]"] by simp

end
