(* ===== verification/Agent_Core.thy ===== *)
theory Agent_Core
  imports Permission Coordinator Ending Triage_Arc
begin

text \<open>
  \<open>henk/agent/core.py\<close>: the serial loop over owner turns, event turns and checkpoint markers,
  the sessions it opens and closes, the audit record of each session, and the durability latch
  in front of the event checkpoint. The agent session itself (the SDK), the clock, the audit
  file and the providers of the context blocks are the environment of a turn: one record of
  what they answer.
\<close>

section \<open>Session metadata and audit records\<close>

record tool_call =
  tc_name :: str
  tc_class :: "tool_class option"
  tc_result :: "str option"

record session_stats =
  st_calls :: "tool_call list"
  st_model :: "str option"
  st_input :: "int option"
  st_output :: "int option"
  st_cache :: "int option"

record session_profile =
  pf_name :: str
  pf_effort :: "str option"
  pf_model :: "str option"

record session_acc =
  ac_trigger :: str
  ac_events :: "turn_item list"
  ac_had_event :: bool
  ac_arc :: "bool option"
  ac_diagnosis :: "str option"
  ac_confidence :: "str option"
  ac_announceable :: "bool option"
  ac_turns :: nat
  ac_outcome :: turn_outcome
  ac_flushed :: bool
  ac_approvals :: "gate_receipt list"
  ac_memory_hash :: "str option"
  ac_prior :: "nat list option"
  ac_profile :: session_profile
  ac_recording :: "str option"
  ac_baseline :: "session_stats option"

text \<open>The record written for a session; \<open>sr_session\<close> is the session it is about (not a field of
  the file, which has no session ids).\<close>

record session_record =
  sr_session :: nat
  sr_trigger :: str
  sr_events :: "turn_item list option"
  sr_calls :: "(tool_call \<times> bool) list"
  sr_diagnosis :: "str option"
  sr_confidence :: "str option"
  sr_handoff :: "str option"
  sr_arc :: "bool option"
  sr_approvals :: "gate_receipt list"
  sr_memory_hash :: "str option"
  sr_prior :: "nat list option"
  sr_recording :: "str option"
  sr_profile :: session_profile
  sr_outcome :: turn_outcome
  sr_announceable :: "bool option"
  sr_turns :: nat
  sr_model :: "str option"
  sr_usage :: "(int option \<times> int option \<times> int option) option"

definition new_acc :: "str \<Rightarrow> session_profile \<Rightarrow> session_acc" where
  "new_acc trigger pf =
     \<lparr>ac_trigger = trigger, ac_events = [], ac_had_event = False, ac_arc = None, ac_diagnosis = None,
      ac_confidence = None, ac_announceable = None, ac_turns = 0, ac_outcome = COMPLETED,
      ac_flushed = False, ac_approvals = [], ac_memory_hash = None, ac_prior = None, ac_profile = pf,
      ac_recording = None, ac_baseline = None\<rparr>"

definition HANDOFF_TOOL_NAME :: str where "HANDOFF_TOOL_NAME = cps ''publish_handoff''"

section \<open>Configuration, environment and state\<close>

datatype command_result = Not_A_Command | Command_Reply str | Command_Raised

record core_cfg =
  idle_timeout :: secs
  error_reply :: str
  core_model :: "str option"
  chat_profile :: session_profile
  triage_profile :: "session_profile option"   \<comment> \<open>of the event factory, when one is wired\<close>
  has_audit :: bool
  has_checkpoint :: bool
  has_gate :: bool
  has_recall :: bool
  has_recorder :: bool
  has_release_sink :: bool
  has_incident_context :: bool
  word_char :: "nat \<Rightarrow> bool"
  compose_event :: "event_turn \<Rightarrow> str option \<Rightarrow> str"   \<comment> \<open>the turn and the recall block\<close>
  release_line :: "held_release \<Rightarrow> str option"            \<comment> \<open>\<open>None\<close> when it raises\<close>

record turn_env =
  now_at :: secs
  done_at :: secs
  create_ok :: bool                          \<comment> \<open>\<open>factory.create()\<close> returns\<close>
  fresh_stats :: "session_stats option"
  run_result :: "str option"                 \<comment> \<open>\<open>None\<close> when \<open>run_turn\<close> raises\<close>
  turn_calls :: "gate_event list"            \<comment> \<open>what happens at the gate while the turn runs\<close>
  run_stats :: "session_stats option"        \<comment> \<open>\<open>stats()\<close> from then on\<close>
  run_signals :: "turn_ending option"
  recall_read :: "(str \<times> str) option option"  \<comment> \<open>\<open>None\<close> when it raises; text and hash\<close>
  command_result :: command_result
  context_blocks :: "str option list"        \<comment> \<open>deliveries, maintenance and time, inner first\<close>
  digest_ids :: "nat list"
  recording_id :: "str option"
  close_write_ok :: bool                     \<comment> \<open>the audit write of a displaced session\<close>
  flush_write_ok :: bool                     \<comment> \<open>the audit write of this triage\<close>

datatype message = Reply str | Proactively str "str option"

record run_entry =
  re_session :: nat
  re_context :: turn_context
  re_content :: str

text \<open>
  The core with what it has put out: the records that were written, the messages asked of the
  channel, the calls of the two sinks, and the turns it ran.
\<close>

record core =
  cur_session :: "nat option"
  sessions_made :: nat
  cur_stats :: "session_stats option"
  last_activity :: "secs option"
  cur_acc :: "session_acc option"
  session_tainted :: bool
  session_taint_source :: "str option"
  recall_given :: bool
  checkpoint_blocked :: bool
  checkpoint :: "str option"
  incidents :: "event_turn option"
  core_gate :: gate
  audit_log :: "session_record list"
  out :: "message list"
  handoff_refs :: "(str \<times> str) list"
  releases :: "str list"
  ran :: "run_entry list"

definition new_core :: "gate \<Rightarrow> core" where
  "new_core g =
     \<lparr>cur_session = None, sessions_made = 0, cur_stats = None, last_activity = None, cur_acc = None,
      session_tainted = False, session_taint_source = None, recall_given = False,
      checkpoint_blocked = False, checkpoint = None, incidents = None, core_gate = g,
      audit_log = [], out = [], handoff_refs = [], releases = [], ran = []\<rparr>"

definition RESET_COMMAND :: str where "RESET_COMMAND = cps ''/new''"
definition RESET_CONFIRMATION :: str where "RESET_CONFIRMATION = cps ''Session reset.''"
definition DEGRADED_DURABILITY_NOTICE :: str where
  "DEGRADED_DURABILITY_NOTICE = [9888, 65039] @
     cps ('' Henk: an audit write failed, so the event checkpoint is frozen. Events '' @
       ''will replay on the next restart (some may re-notify). A restart is advised '' @ ''to clear this.'')"
definition TRIAGE_FAILURE_NOTICE :: str where
  "TRIAGE_FAILURE_NOTICE = [91, 9888] @ cps '' part of this alert could not be delivered]''"

section \<open>The audit record\<close>

definition sub_count :: "int option \<Rightarrow> int option \<Rightarrow> int option" where
  "sub_count cur base =
     (case cur of None \<Rightarrow> None | Some c \<Rightarrow> Some (c - (case base of None \<Rightarrow> 0 | Some b \<Rightarrow> b)))"

definition stats_since :: "session_stats option \<Rightarrow> session_stats \<Rightarrow> session_stats option" where
  "stats_since current base =
     (case current of
        None \<Rightarrow> None
      | Some c \<Rightarrow> Some
          \<lparr>st_calls = drop (length (st_calls base)) (st_calls c), st_model = st_model c,
           st_input = sub_count (st_input c) (st_input base),
           st_output = sub_count (st_output c) (st_output base),
           st_cache = sub_count (st_cache c) (st_cache base)\<rparr>)"

definition outcomes_by_tool :: "gate_receipt list \<Rightarrow> str \<Rightarrow> approval_outcome list" where
  "outcomes_by_tool rs name = map rc_outcome (filter (\<lambda>r. rc_tool r = name) rs)"

definition was_executed ::
    "tool_call \<Rightarrow> (str \<Rightarrow> approval_outcome list) \<Rightarrow> bool \<times> (str \<Rightarrow> approval_outcome list)" where
  "was_executed call waiting =
     (if tc_class call \<noteq> Some MUTATING then (True, waiting)
      else (case waiting (tc_name call) of
          [] \<Rightarrow> (False, waiting)
        | oc # rest \<Rightarrow> (oc \<in> EXECUTING_OUTCOMES, waiting(tc_name call := rest))))"

fun flag_calls ::
    "tool_call list \<Rightarrow> (str \<Rightarrow> approval_outcome list) \<Rightarrow> (tool_call \<times> bool) list" where
  "flag_calls [] waiting = []"
| "flag_calls (call # calls) waiting =
     (let (e, waiting1) = was_executed call waiting in (call, e) # flag_calls calls waiting1)"

definition handoff_of :: "tool_call list \<Rightarrow> str option" where
  "handoff_of calls =
     fold (\<lambda>call found. if tc_name call = HANDOFF_TOOL_NAME \<and> tc_result call \<noteq> None \<and> tc_result call \<noteq> Some []
                        then tc_result call else found) calls None"

definition record_of ::
    "core_cfg \<Rightarrow> nat \<Rightarrow> session_stats option \<Rightarrow> session_acc \<Rightarrow> session_record" where
  "record_of cfg s stats a =
     (let calls = (case stats of None \<Rightarrow> [] | Some st \<Rightarrow> st_calls st)
      in \<lparr>sr_session = s, sr_trigger = ac_trigger a,
          sr_events = (if ac_had_event a then Some (ac_events a) else None),
          sr_calls = flag_calls calls (outcomes_by_tool (ac_approvals a)),
          sr_diagnosis = ac_diagnosis a, sr_confidence = ac_confidence a, sr_handoff = handoff_of calls,
          sr_arc = (if ac_had_event a then ac_arc a else None), sr_approvals = ac_approvals a,
          sr_memory_hash = ac_memory_hash a, sr_prior = ac_prior a, sr_recording = ac_recording a,
          sr_profile = ac_profile a, sr_outcome = ac_outcome a, sr_announceable = ac_announceable a,
          sr_turns = ac_turns a,
          sr_model = (case stats of
              Some st \<Rightarrow> (case st_model st of
                  Some m \<Rightarrow> if m \<noteq> [] then Some m
                            else (case pf_model (ac_profile a) of
                                Some p \<Rightarrow> if p \<noteq> [] then Some p else core_model cfg | None \<Rightarrow> core_model cfg)
                | None \<Rightarrow> (case pf_model (ac_profile a) of
                                Some p \<Rightarrow> if p \<noteq> [] then Some p else core_model cfg | None \<Rightarrow> core_model cfg))
            | None \<Rightarrow> (case pf_model (ac_profile a) of
                                Some p \<Rightarrow> if p \<noteq> [] then Some p else core_model cfg | None \<Rightarrow> core_model cfg)),
          sr_usage = map_option (\<lambda>st. (st_input st, st_output st, st_cache st)) stats\<rparr>)"

text \<open>\<open>_write_audit_record\<close>: whether the record is durable, and the handoff the session published.\<close>

definition write_audit_record ::
    "core_cfg \<Rightarrow> bool \<Rightarrow> nat \<Rightarrow> session_stats option \<Rightarrow> session_acc \<Rightarrow> core \<Rightarrow> (bool \<times> str option) \<times> core" where
  "write_audit_record cfg write_ok s stats a c =
     (let effective = (case ac_baseline a of None \<Rightarrow> stats | Some b \<Rightarrow> stats_since stats b);
          rec = record_of cfg s effective a
      in if \<not> has_audit cfg then ((False, sr_handoff rec), c)
         else if write_ok then ((True, sr_handoff rec), c\<lparr>audit_log := audit_log c @ [rec]\<rparr>)
         else ((False, sr_handoff rec), c))"

section \<open>Sessions\<close>

definition close_session :: "core_cfg \<Rightarrow> bool \<Rightarrow> core \<Rightarrow> core" where
  "close_session cfg write_ok c =
     (let c1 = c\<lparr>incidents := (if has_incident_context cfg then None else incidents c),
                 session_tainted := False, session_taint_source := None\<rparr>
      in case cur_session c1 of
           None \<Rightarrow> c1
         | Some s \<Rightarrow>
             (let c2 = c1\<lparr>cur_session := None, cur_acc := None, cur_stats := None, recall_given := False\<rparr>
              in case cur_acc c1 of
                   None \<Rightarrow> c2
                 | Some a \<Rightarrow>
                     if ac_flushed a then c2
                     else snd (write_audit_record cfg write_ok s (cur_stats c1) a c2)))"

definition open_session ::
    "secs \<Rightarrow> session_stats option \<Rightarrow> bool \<Rightarrow> str \<Rightarrow> session_profile \<Rightarrow> core \<Rightarrow> core" where
  "open_session now stats taint trigger pf c =
     c\<lparr>cur_session := Some (sessions_made c), sessions_made := Suc (sessions_made c),
       cur_stats := stats, last_activity := Some now, session_tainted := taint,
       session_taint_source := None, recall_given := False, cur_acc := Some (new_acc trigger pf)\<rparr>"

text \<open>\<open>_ensure_session\<close>; \<open>False\<close> when \<open>factory.create()\<close> raised.\<close>

definition ensure_session :: "core_cfg \<Rightarrow> turn_env \<Rightarrow> str \<Rightarrow> core \<Rightarrow> bool \<times> core" where
  "ensure_session cfg env trigger c =
     (let expired = (case last_activity c of None \<Rightarrow> False | Some t \<Rightarrow> now_at env - t > idle_timeout cfg)
      in if cur_session c = None \<or> expired then
           (let c1 = close_session cfg (close_write_ok env) c
            in if create_ok env
               then (True, open_session (now_at env) (fresh_stats env) False trigger (chat_profile cfg) c1)
               else (False, c1))
         else (case cur_acc c of
             None \<Rightarrow> (True, c)
           | Some a \<Rightarrow>
               if ac_flushed a then
                 (True, c\<lparr>cur_acc := Some ((new_acc trigger (ac_profile a))
                     \<lparr>ac_baseline := cur_stats c, ac_memory_hash := ac_memory_hash a\<rparr>)\<rparr>)
               else (True, c)))"

definition start_event_session :: "core_cfg \<Rightarrow> turn_env \<Rightarrow> event_turn \<Rightarrow> core \<Rightarrow> bool \<times> core" where
  "start_event_session cfg env t c =
     (let c1 = close_session cfg (close_write_ok env) c;
          pf = (case triage_profile cfg of None \<Rightarrow> chat_profile cfg | Some p \<Rightarrow> p)
      in if create_ok env
         then (True, (open_session (now_at env) (fresh_stats env) True (cps ''event'') pf c1)
                 \<lparr>incidents := (if has_incident_context cfg then Some t else incidents c1)\<rparr>)
         else (False, c1))"

section \<open>Running a turn\<close>

definition take_recall :: "core_cfg \<Rightarrow> turn_env \<Rightarrow> core \<Rightarrow> str option \<times> core" where
  "take_recall cfg env c =
     (if \<not> has_recall cfg \<or> recall_given c then (None, c)
      else (case recall_read env of
          None \<Rightarrow> (None, c)
        | Some None \<Rightarrow> (None, c\<lparr>recall_given := True\<rparr>)
        | Some (Some (block, hash)) \<Rightarrow>
            (Some block, c\<lparr>recall_given := True,
               cur_acc := map_option (\<lambda>a. a\<lparr>ac_memory_hash := Some hash\<rparr>) (cur_acc c)\<rparr>)))"

text \<open>
  \<open>_framed_turn\<close> around \<open>run_turn\<close>: the gate sees the turn's context, the receipts of the turn
  are noted in the session's accumulator, and taint a tool raised stays with the session.
\<close>

definition run_framed ::
    "core_cfg \<Rightarrow> turn_env \<Rightarrow> turn_type \<Rightarrow> bool \<Rightarrow> str \<Rightarrow> core \<Rightarrow> str option \<times> core" where
  "run_framed cfg env kind ann content c =
     (let k = \<lparr>turn_kind = kind, announceable = ann, tainted = session_tainted c,
               taint_source = session_taint_source c\<rparr>;
          entry = \<lparr>re_session = (case cur_session c of None \<Rightarrow> 0 | Some s \<Rightarrow> s), re_context = k,
                   re_content = content\<rparr>;
          c1 = c\<lparr>ran := ran c @ [entry], cur_stats := run_stats env\<rparr>
      in if \<not> has_gate cfg then (run_result env, c1)
         else (let g1 = gate_run (enter_turn k (core_gate c)) (turn_calls env);
                   (left, g2) = exit_turn g1;
                   new = drop (length (receipts_out (core_gate c))) (receipts_out g2);
                   c2 = c1\<lparr>core_gate := g2,
                     cur_acc := map_option (\<lambda>a. a\<lparr>ac_approvals := ac_approvals a @ new\<rparr>) (cur_acc c1)\<rparr>
               in (run_result env,
                   case left of
                     None \<Rightarrow> c2
                   | Some k' \<Rightarrow>
                       if tainted k' \<and> \<not> session_tainted c
                       then c2\<lparr>session_tainted := True, session_taint_source := taint_source k'\<rparr>
                       else c2)))"

definition say :: "message \<Rightarrow> core \<Rightarrow> core" where
  "say m c = c\<lparr>out := out c @ [m]\<rparr>"

definition upd_acc :: "(session_acc \<Rightarrow> session_acc) \<Rightarrow> core \<Rightarrow> core" where
  "upd_acc f c = c\<lparr>cur_acc := map_option f (cur_acc c)\<rparr>"

fun with_blocks :: "str option list \<Rightarrow> str \<Rightarrow> str" where
  "with_blocks [] s = s"
| "with_blocks (b # bs) s =
     with_blocks bs (case b of None \<Rightarrow> s | Some h \<Rightarrow> if h = [] then s else h @ [10, 10] @ s)"

text \<open>The order of the blocks: deliveries innermost, then recall, maintenance and the time.\<close>

definition owner_content :: "core_cfg \<Rightarrow> turn_env \<Rightarrow> str \<Rightarrow> core \<Rightarrow> str \<times> core" where
  "owner_content cfg env msg c =
     (let (recall, c1) = take_recall cfg env c
      in (with_blocks (take 1 (context_blocks env) @ [recall] @ drop 1 (context_blocks env)) msg, c1))"

definition owner_turn :: "core_cfg \<Rightarrow> turn_env \<Rightarrow> str \<Rightarrow> core \<Rightarrow> core" where
  "owner_turn cfg env msg c =
     (let (ready, c1) = ensure_session cfg env (cps ''owner-message'') c
      in if \<not> ready then say (Reply (error_reply cfg)) (upd_acc (\<lambda>a. a\<lparr>ac_outcome := ERROR\<rparr>) c1)
         else (let (content, c2) = owner_content cfg env msg c1;
                   (res, c3) = run_framed cfg env OWNER True content c2
               in case res of
                    None \<Rightarrow>
                      (say (Reply (error_reply cfg)) (upd_acc (\<lambda>a. a\<lparr>ac_outcome := ERROR\<rparr>) c3))
                        \<lparr>last_activity := Some (done_at env)\<rparr>
                  | Some reply \<Rightarrow>
                      (let oc = te_outcome (classify_ending (run_signals env) False (Some reply));
                           c4 = (upd_acc (\<lambda>a. a\<lparr>ac_turns := Suc (ac_turns a),
                                    ac_outcome := (if oc \<noteq> COMPLETED \<and> ac_outcome a \<noteq> ERROR then oc
                                                   else ac_outcome a)\<rparr>) c3)
                                  \<lparr>last_activity := Some (done_at env)\<rparr>
                       in if oc = ERROR then say (Reply (error_reply cfg)) c4
                          else if reply \<noteq> [] then say (Reply reply) c4
                          else c4)))"

definition process_owner :: "core_cfg \<Rightarrow> turn_env \<Rightarrow> str \<Rightarrow> core \<Rightarrow> core" where
  "process_owner cfg env msg c =
     (if strip msg = RESET_COMMAND then
        say (Reply RESET_CONFIRMATION) ((close_session cfg (close_write_ok env) c)\<lparr>last_activity := None\<rparr>)
      else (case command_result env of
          Command_Reply r \<Rightarrow> say (Reply r) c
        | Command_Raised \<Rightarrow> say (Reply (error_reply cfg)) c
        | Not_A_Command \<Rightarrow> owner_turn cfg env msg c))"

section \<open>Triage\<close>

definition advance_checkpoint :: "core_cfg \<Rightarrow> str option \<Rightarrow> core \<Rightarrow> core" where
  "advance_checkpoint cfg off c =
     (if checkpoint_blocked c \<or> \<not> has_checkpoint cfg \<or> off = None \<or> off = Some [] then c
      else c\<lparr>checkpoint := off\<rparr>)"

definition flush_event_triage :: "core_cfg \<Rightarrow> turn_env \<Rightarrow> event_turn \<Rightarrow> core \<Rightarrow> str option \<times> core" where
  "flush_event_triage cfg env t c =
     (case cur_acc c of
        None \<Rightarrow> (None, c)
      | Some a \<Rightarrow>
          if ac_flushed a then (None, c)
          else
            (let ((okay, handoff), c1) = write_audit_record cfg (flush_write_ok env)
                   (case cur_session c of None \<Rightarrow> 0 | Some s \<Rightarrow> s) (cur_stats c) a c;
                 c2 = c1\<lparr>cur_acc := Some (a\<lparr>ac_flushed := True\<rparr>)\<rparr>;
                 c3 = (case handoff of None \<Rightarrow> c2 | Some h \<Rightarrow>
                         if h = [] then c2
                         else c2\<lparr>handoff_refs := handoff_refs c2 @ map (\<lambda>i. (item_key i, h)) (tn_items t)\<rparr>);
                 c4 = (case tn_held_release t of None \<Rightarrow> c3 | Some r \<Rightarrow>
                         if has_release_sink cfg \<and> (okay \<or> \<not> has_audit cfg)
                         then c3\<lparr>releases := releases c3 @ [hr_window_id r]\<rparr> else c3);
                 c5 = (if has_audit cfg \<and> \<not> okay \<and> \<not> checkpoint_blocked c4
                       then say (Proactively DEGRADED_DURABILITY_NOTICE None) (c4\<lparr>checkpoint_blocked := True\<rparr>)
                       else c4)
             in (handoff, if okay then advance_checkpoint cfg (tn_offset t) c5 else c5)))"

definition with_suppressed_note :: "str \<Rightarrow> event_turn \<Rightarrow> str" where
  "with_suppressed_note reply t =
     (let n = tn_suppressed_count t
      in if n = 0 then reply
         else reply @ [10, 10] @ cps ''(Note: '' @ decimal n @ cps '' earlier incident'' @
           (if n \<noteq> 1 then cps ''s'' else []) @
           cps '' were suppressed to stay under the alert cap '' @ [8212] @
           cps '' retrieve them with henk-pickup.)'')"

definition with_release_line :: "core_cfg \<Rightarrow> str \<Rightarrow> event_turn \<Rightarrow> str" where
  "with_release_line cfg msg t =
     (case tn_held_release t of
        None \<Rightarrow> msg
      | Some r \<Rightarrow> (case release_line cfg r of None \<Rightarrow> msg | Some l \<Rightarrow> msg @ [10, 10] @ l))"

definition note_ending :: "core_cfg \<Rightarrow> triage_ending \<Rightarrow> str option \<Rightarrow> session_acc \<Rightarrow> session_acc" where
  "note_ending cfg e res a =
     (let a1 = a\<lparr>ac_outcome := te_outcome e,
                ac_turns := (if res \<noteq> None then Suc (ac_turns a) else ac_turns a)\<rparr>;
          reply = (case res of None \<Rightarrow> [] | Some r \<Rightarrow> r);
          arc = check_triage_arc (word_char cfg) reply
      in if te_outcome e = COMPLETED
         then a1\<lparr>ac_arc := Some (arc_complete arc), ac_confidence := arc_confidence arc,
                ac_diagnosis := extract_diagnosis reply\<rparr>
         else a1\<lparr>ac_arc := Some False\<rparr>)"

text \<open>\<open>_process_event\<close> up to the flush; \<open>None\<close> when the session could not be created.\<close>

definition triage_run ::
    "core_cfg \<Rightarrow> turn_env \<Rightarrow> event_turn \<Rightarrow> core \<Rightarrow> (triage_ending \<times> str option) option \<times> core" where
  "triage_run cfg env t c =
     (let (ready, c1) = start_event_session cfg env t c
      in if \<not> ready then (None, c1)
         else (let c2 = upd_acc (\<lambda>a. a\<lparr>ac_had_event := True, ac_announceable := Some (tn_announceable t),
                          ac_events := ac_events a @ tn_items t\<rparr>) c1;
                   (recall, c3) = take_recall cfg env c2;
                   c4 = upd_acc (\<lambda>a. a\<lparr>ac_prior := Some (digest_ids env)\<rparr>) c3;
                   (res, c5) = run_framed cfg env EVENT (tn_announceable t) (compose_event cfg t recall) c4;
                   e = classify_ending (run_signals env) (res = None) res;
                   c6 = (upd_acc (note_ending cfg e res) c5)\<lparr>last_activity := Some (done_at env)\<rparr>;
                   c7 = upd_acc (\<lambda>a. a\<lparr>ac_recording :=
                          (if has_recorder cfg then recording_id env else None)\<rparr>) c6
               in (Some (e, res), c7)))"

definition process_event :: "core_cfg \<Rightarrow> turn_env \<Rightarrow> event_turn \<Rightarrow> core \<Rightarrow> core" where
  "process_event cfg env t c =
     (case triage_run cfg env t c of
        (None, c1) \<Rightarrow> c1
      | (Some (e, res), c1) \<Rightarrow>
          (let (handoff, c2) = flush_event_triage cfg env t c1
           in if \<not> tn_announceable t then c2
              else (let msg = (if te_outcome e = COMPLETED then (case res of None \<Rightarrow> [] | Some r \<Rightarrow> r)
                               else incomplete_triage_notice t e (handoff \<noteq> None \<and> handoff \<noteq> Some []))
                    in say (Proactively (with_release_line cfg (with_suppressed_note msg t) t)
                         (Some TRIAGE_FAILURE_NOTICE)) c2)))"

section \<open>The loop\<close>

datatype core_turn = Owner_Turn str | Event_Turn event_turn | Marker str

definition process_turn :: "core_cfg \<Rightarrow> core \<Rightarrow> core_turn \<times> turn_env \<Rightarrow> core" where
  "process_turn cfg c te =
     (case fst te of
        Owner_Turn msg \<Rightarrow> process_owner cfg (snd te) msg c
      | Event_Turn t \<Rightarrow> process_event cfg (snd te) t c
      | Marker off \<Rightarrow> advance_checkpoint cfg (Some off) c)"

abbreviation core_run :: "core_cfg \<Rightarrow> core \<Rightarrow> (core_turn \<times> turn_env) list \<Rightarrow> core" where
  "core_run cfg \<equiv> foldl (process_turn cfg)"

end
