(* ===== verification/Core_Properties.thy ===== *)
theory Core_Properties
  imports Agent_Core
begin

text \<open>
  What the loop of \<open>Agent_Core\<close> guarantees: the checkpoint never passes an unrecorded triage, a
  maintenance window is marked only for a durable triage, an incident's session stays isolated
  and tainted, no tool call is recorded twice, and every owner turn is answered.
\<close>

section \<open>What each step leaves alone\<close>

text \<open>The parts of the core that only the flush, the sends and the session changes touch.\<close>

definition outside :: "core \<Rightarrow> _" where
  "outside c = (cur_session c, sessions_made c, checkpoint_blocked c, checkpoint c, incidents c,
     audit_log c, out c, handoff_refs c, releases c)"

lemma outside_take_recall: "outside (snd (take_recall cfg env c)) = outside c"
  by (simp add: take_recall_def outside_def split: option.split prod.split)

lemma outside_upd_acc: "outside (upd_acc f c) = outside c"
  by (simp add: upd_acc_def outside_def)

lemma outside_run_framed: "outside (snd (run_framed cfg env kind ann content c)) = outside c"
  by (simp add: run_framed_def outside_def exit_turn_def Let_def split: option.split)

lemma outside_owner_content: "outside (snd (owner_content cfg env msg c)) = outside c"
  using outside_take_recall [of cfg env c] by (simp add: owner_content_def split_beta Let_def)

lemma outside_eqs:
  assumes "outside c = outside d"
  shows "cur_session c = cur_session d" "sessions_made c = sessions_made d"
    "checkpoint_blocked c = checkpoint_blocked d" "checkpoint c = checkpoint d" "incidents c = incidents d"
    "audit_log c = audit_log d" "out c = out d" "handoff_refs c = handoff_refs d" "releases c = releases d"
  using assms by (simp_all add: outside_def)

lemma outside_activity: "outside (c\<lparr>last_activity := t\<rparr>) = outside c"
  by (simp add: outside_def)

lemmas outside_simps =
  outside_take_recall outside_upd_acc outside_run_framed outside_owner_content outside_activity

text \<open>The accumulator under the same steps.\<close>

lemma acc_take_recall:
  "cur_acc (snd (take_recall cfg env c)) = cur_acc c \<or>
   (\<exists>h. cur_acc (snd (take_recall cfg env c)) = map_option (\<lambda>a. a\<lparr>ac_memory_hash := h\<rparr>) (cur_acc c))"
  by (auto simp: take_recall_def split: option.split prod.split)

lemma acc_run_framed:
  "\<exists>new. cur_acc (snd (run_framed cfg env kind ann content c)) =
     map_option (\<lambda>a. a\<lparr>ac_approvals := ac_approvals a @ new\<rparr>) (cur_acc c)"
proof (cases "has_gate cfg")
  case False
  have "cur_acc (snd (run_framed cfg env kind ann content c)) = cur_acc c"
    using False by (simp add: run_framed_def Let_def)
  also have "\<dots> = map_option (\<lambda>a. a\<lparr>ac_approvals := ac_approvals a @ []\<rparr>) (cur_acc c)"
    by (cases "cur_acc c") simp_all
  finally show ?thesis by blast
next
  case True
  then show ?thesis by (auto simp: run_framed_def Let_def split_beta split: option.split)
qed

text \<open>The accumulator of a triage between the start of its session and its flush.\<close>

definition triage_acc :: "event_turn \<Rightarrow> core \<Rightarrow> bool" where
  "triage_acc t c \<longleftrightarrow>
     (\<exists>a. cur_acc c = Some a \<and> ac_had_event a \<and> ac_events a = tn_items t \<and> \<not> ac_flushed a \<and>
        ac_baseline a = None)"

lemma triage_acc_take_recall: "triage_acc t c \<Longrightarrow> triage_acc t (snd (take_recall cfg env c))"
  using acc_take_recall [of cfg env c] by (auto simp: triage_acc_def)

lemma triage_acc_run_framed: "triage_acc t c \<Longrightarrow> triage_acc t (snd (run_framed cfg env kind ann content c))"
  using acc_run_framed [of cfg env kind ann content c] by (auto simp: triage_acc_def)

lemma triage_acc_upd:
  "triage_acc t c \<Longrightarrow> (\<And>a. ac_had_event (f a) = ac_had_event a \<and> ac_events (f a) = ac_events a \<and>
     ac_flushed (f a) = ac_flushed a \<and> ac_baseline (f a) = ac_baseline a) \<Longrightarrow> triage_acc t (upd_acc f c)"
  by (auto simp: triage_acc_def upd_acc_def)

lemma triage_acc_activity: "triage_acc t (c\<lparr>last_activity := x\<rparr>) = triage_acc t c"
  by (simp add: triage_acc_def)

lemma note_ending_keeps:
  "ac_had_event (note_ending cfg e res a) = ac_had_event a" "ac_events (note_ending cfg e res a) = ac_events a"
  "ac_flushed (note_ending cfg e res a) = ac_flushed a" "ac_baseline (note_ending cfg e res a) = ac_baseline a"
  by (simp_all add: note_ending_def Let_def)

section \<open>Closing and opening\<close>

lemma close_session_keeps:
  "sessions_made (close_session cfg w c) = sessions_made c"
  "checkpoint_blocked (close_session cfg w c) = checkpoint_blocked c"
  "checkpoint (close_session cfg w c) = checkpoint c"
  "out (close_session cfg w c) = out c" "handoff_refs (close_session cfg w c) = handoff_refs c"
  "releases (close_session cfg w c) = releases c" "ran (close_session cfg w c) = ran c"
  "core_gate (close_session cfg w c) = core_gate c" "cur_session (close_session cfg w c) = None"
  by (auto simp: close_session_def write_audit_record_def Let_def split: option.split)

lemma write_log:
  "audit_log (snd (write_audit_record cfg w s st a c)) =
     audit_log c @ (if has_audit cfg \<and> w then [record_of cfg s
        (case ac_baseline a of None \<Rightarrow> st | Some b \<Rightarrow> stats_since st b) a] else [])"
  by (simp add: write_audit_record_def Let_def)

lemma write_keeps:
  "outside (snd (write_audit_record cfg w s st a c)) = outside (c\<lparr>audit_log := audit_log (snd (write_audit_record cfg w s st a c))\<rparr>)"
  "ran (snd (write_audit_record cfg w s st a c)) = ran c"
  "fst (fst (write_audit_record cfg w s st a c)) \<longleftrightarrow> has_audit cfg \<and> w"
  by (auto simp: write_audit_record_def Let_def outside_def)

definition unflushed :: "core \<Rightarrow> bool" where
  "unflushed c \<longleftrightarrow> (\<exists>s a. cur_session c = Some s \<and> cur_acc c = Some a \<and> \<not> ac_flushed a)"

lemma close_session_log:
  "audit_log (close_session cfg w c) = audit_log c @
     (case (cur_session c, cur_acc c) of
        (Some s, Some a) \<Rightarrow> if \<not> ac_flushed a \<and> has_audit cfg \<and> w then [record_of cfg s
          (case ac_baseline a of None \<Rightarrow> cur_stats c | Some b \<Rightarrow> stats_since (cur_stats c) b) a] else []
      | _ \<Rightarrow> [])"
  by (auto simp: close_session_def Let_def write_log split: option.split)

lemma log_prefix_close: "prefix (audit_log c) (audit_log (close_session cfg w c))"
  by (simp add: close_session_log prefix_def)

section \<open>A triage up to its flush\<close>

lemma run_framed_result: "fst (run_framed cfg env kind ann content c) = run_result env"
  by (simp add: run_framed_def Let_def split_beta)

lemma triage_run_created:
  assumes "create_ok env"
  shows "\<exists>c'. triage_run cfg env t c =
      (Some (classify_ending (run_signals env) (run_result env = None) (run_result env), run_result env), c') \<and>
    triage_acc t c' \<and> outside c' = outside (snd (start_event_session cfg env t c))"
proof -
  obtain c1 where st: "start_event_session cfg env t c = (True, c1)" using assms
    by (simp add: start_event_session_def Let_def)
  let ?c2 = "upd_acc (\<lambda>a. a\<lparr>ac_had_event := True, ac_announceable := Some (tn_announceable t),
     ac_events := ac_events a @ tn_items t\<rparr>) c1"
  have a2: "triage_acc t ?c2" using assms st
    by (auto simp: start_event_session_def Let_def triage_acc_def upd_acc_def open_session_def new_acc_def)
  obtain recall c3 where r: "take_recall cfg env ?c2 = (recall, c3)" by fastforce
  let ?c4 = "upd_acc (\<lambda>a. a\<lparr>ac_prior := Some (digest_ids env)\<rparr>) c3"
  obtain res c5 where f: "run_framed cfg env EVENT (tn_announceable t) (compose_event cfg t recall) ?c4 = (res, c5)"
    by fastforce
  let ?e = "classify_ending (run_signals env) (res = None) res"
  let ?c7 = "upd_acc (\<lambda>a. a\<lparr>ac_recording := (if has_recorder cfg then recording_id env else None)\<rparr>)
     ((upd_acc (note_ending cfg ?e res) c5)\<lparr>last_activity := Some (done_at env)\<rparr>)"
  have run: "triage_run cfg env t c = (Some (?e, res), ?c7)"
    by (simp only: triage_run_def st r f Let_def prod.case not_True_eq_False if_False)
  have "triage_acc t c3" using triage_acc_take_recall [OF a2, of cfg env] r by simp
  then have "triage_acc t ?c4" by (rule triage_acc_upd) simp
  then have "triage_acc t c5" using triage_acc_run_framed [of t ?c4 cfg env EVENT "tn_announceable t" "compose_event cfg t recall"] f
    by simp
  then have acc: "triage_acc t ?c7"
    by (intro triage_acc_upd) (simp_all add: triage_acc_activity triage_acc_upd note_ending_keeps)
  have "outside ?c7 = outside c5" by (simp add: outside_simps)
  also have "\<dots> = outside ?c4"
    using outside_run_framed [of cfg env EVENT "tn_announceable t" "compose_event cfg t recall" ?c4] f by simp
  also have "\<dots> = outside ?c2" using outside_take_recall [of cfg env ?c2] r by (simp add: outside_upd_acc)
  also have "\<dots> = outside c1" by (rule outside_upd_acc)
  finally have "outside ?c7 = outside c1" .
  moreover have "res = run_result env"
    using run_framed_result [of cfg env EVENT "tn_announceable t" "compose_event cfg t recall" ?c4] f by simp
  ultimately show ?thesis using run acc st by fastforce
qed

lemma triage_run_failed:
  assumes "\<not> create_ok env"
  shows "triage_run cfg env t c = (None, close_session cfg (close_write_ok env) c)"
  using assms by (simp add: triage_run_def start_event_session_def Let_def)

lemma start_event_session_keeps:
  assumes "create_ok env"
  shows "checkpoint (snd (start_event_session cfg env t c)) = checkpoint c"
    "checkpoint_blocked (snd (start_event_session cfg env t c)) = checkpoint_blocked c"
    "out (snd (start_event_session cfg env t c)) = out c"
    "releases (snd (start_event_session cfg env t c)) = releases c"
    "audit_log (snd (start_event_session cfg env t c)) = audit_log (close_session cfg (close_write_ok env) c)"
    "cur_session (snd (start_event_session cfg env t c)) = Some (sessions_made c)"
  using assms by (simp_all add: start_event_session_def Let_def open_session_def close_session_keeps)

text \<open>The flush, field by field.\<close>

definition triage_rec :: "core_cfg \<Rightarrow> core \<Rightarrow> session_record" where
  "triage_rec cfg c = record_of cfg (case cur_session c of None \<Rightarrow> 0 | Some s \<Rightarrow> s) (cur_stats c) (the (cur_acc c))"

lemma flush_cases:
  assumes "triage_acc t c" and "flush_event_triage cfg env t c = (h, c')"
  shows "audit_log c' = audit_log c @ (if has_audit cfg \<and> flush_write_ok env then [triage_rec cfg c] else [])"
    and "sr_events (triage_rec cfg c) = Some (tn_items t)"
    and "checkpoint_blocked c' \<longleftrightarrow> checkpoint_blocked c \<or> has_audit cfg \<and> \<not> flush_write_ok env"
    and "checkpoint c' = (if has_audit cfg \<and> flush_write_ok env \<and> \<not> checkpoint_blocked c \<and> has_checkpoint cfg \<and>
        tn_offset t \<noteq> None \<and> tn_offset t \<noteq> Some [] then tn_offset t else checkpoint c)"
    and "releases c' = releases c @ (case tn_held_release t of None \<Rightarrow> [] | Some r \<Rightarrow>
        if has_release_sink cfg \<and> (flush_write_ok env \<or> \<not> has_audit cfg) then [hr_window_id r] else [])"
    and "out c' = out c @ (if has_audit cfg \<and> \<not> flush_write_ok env \<and> \<not> checkpoint_blocked c
        then [Proactively DEGRADED_DURABILITY_NOTICE None] else [])"
proof -
  obtain a where a: "cur_acc c = Some a" "ac_had_event a" "ac_events a = tn_items t" "\<not> ac_flushed a"
    "ac_baseline a = None" using assms(1) by (auto simp: triage_acc_def)
  show "sr_events (triage_rec cfg c) = Some (tn_items t)"
    using a by (simp add: triage_rec_def record_of_def Let_def)
  let ?okay = "has_audit cfg \<and> flush_write_ok env"
  let ?rec = "triage_rec cfg c"
  define c2 where "c2 = c\<lparr>audit_log := audit_log c @ (if ?okay then [?rec] else []),
    cur_acc := Some (a\<lparr>ac_flushed := True\<rparr>)\<rparr>"
  define c3 where "c3 = (case sr_handoff ?rec of None \<Rightarrow> c2 | Some h \<Rightarrow> if h = [] then c2
     else c2\<lparr>handoff_refs := handoff_refs c2 @ map (\<lambda>i. (item_key i, h)) (tn_items t)\<rparr>)"
  define c4 where "c4 = (case tn_held_release t of None \<Rightarrow> c3 | Some r \<Rightarrow>
     if has_release_sink cfg \<and> (?okay \<or> \<not> has_audit cfg)
     then c3\<lparr>releases := releases c3 @ [hr_window_id r]\<rparr> else c3)"
  define c5 where "c5 = (if has_audit cfg \<and> \<not> ?okay \<and> \<not> checkpoint_blocked c4
     then say (Proactively DEGRADED_DURABILITY_NOTICE None) (c4\<lparr>checkpoint_blocked := True\<rparr>) else c4)"
  have w: "write_audit_record cfg (flush_write_ok env) (case cur_session c of None \<Rightarrow> 0 | Some s \<Rightarrow> s) (cur_stats c) a c =
      ((?okay, sr_handoff ?rec), c\<lparr>audit_log := audit_log c @ (if ?okay then [?rec] else [])\<rparr>)"
    using a by (simp add: write_audit_record_def triage_rec_def Let_def)
  have c': "c' = (if ?okay then advance_checkpoint cfg (tn_offset t) c5 else c5)"
  proof -
    have "flush_event_triage cfg env t c = (sr_handoff ?rec, if ?okay then advance_checkpoint cfg (tn_offset t) c5 else c5)"
      unfolding flush_event_triage_def c5_def c4_def c3_def c2_def
      by (simp only: a(1,4) w Let_def prod.case option.case if_False core.simps)
    then show ?thesis using assms(2) by simp
  qed
  have f2: "audit_log c2 = audit_log c @ (if ?okay then [?rec] else [])" "checkpoint_blocked c2 = checkpoint_blocked c"
    "checkpoint c2 = checkpoint c" "releases c2 = releases c" "out c2 = out c"
    by (simp_all add: c2_def)
  have f3: "audit_log c3 = audit_log c2" "checkpoint_blocked c3 = checkpoint_blocked c2"
    "checkpoint c3 = checkpoint c2" "releases c3 = releases c2" "out c3 = out c2"
    by (simp_all add: c3_def split: option.split)
  have f4: "audit_log c4 = audit_log c3" "checkpoint_blocked c4 = checkpoint_blocked c3"
    "checkpoint c4 = checkpoint c3" "out c4 = out c3"
    "releases c4 = releases c3 @ (case tn_held_release t of None \<Rightarrow> [] | Some r \<Rightarrow>
        if has_release_sink cfg \<and> (?okay \<or> \<not> has_audit cfg) then [hr_window_id r] else [])"
    by (auto simp: c4_def split: option.split)
  have f5: "audit_log c5 = audit_log c4" "checkpoint c5 = checkpoint c4" "releases c5 = releases c4"
    "checkpoint_blocked c5 \<longleftrightarrow> checkpoint_blocked c4 \<or> has_audit cfg \<and> \<not> ?okay"
    "out c5 = out c4 @ (if has_audit cfg \<and> \<not> ?okay \<and> \<not> checkpoint_blocked c4
       then [Proactively DEGRADED_DURABILITY_NOTICE None] else [])"
    by (auto simp: c5_def say_def)
  note f = f2 f3 f4 f5
  show "audit_log c' = audit_log c @ (if ?okay then [?rec] else [])"
    by (simp add: c' f advance_checkpoint_def)
  show "checkpoint_blocked c' \<longleftrightarrow> checkpoint_blocked c \<or> has_audit cfg \<and> \<not> flush_write_ok env"
    by (auto simp: c' f advance_checkpoint_def)
  show "checkpoint c' = (if has_audit cfg \<and> flush_write_ok env \<and> \<not> checkpoint_blocked c \<and> has_checkpoint cfg \<and>
        tn_offset t \<noteq> None \<and> tn_offset t \<noteq> Some [] then tn_offset t else checkpoint c)"
    by (auto simp: c' f advance_checkpoint_def)
  show "releases c' = releases c @ (case tn_held_release t of None \<Rightarrow> [] | Some r \<Rightarrow>
        if has_release_sink cfg \<and> (flush_write_ok env \<or> \<not> has_audit cfg) then [hr_window_id r] else [])"
    by (auto simp: c' f advance_checkpoint_def split: option.split)
  show "out c' = out c @ (if has_audit cfg \<and> \<not> flush_write_ok env \<and> \<not> checkpoint_blocked c
        then [Proactively DEGRADED_DURABILITY_NOTICE None] else [])"
    by (auto simp: c' f advance_checkpoint_def)
qed

lemma flush_session: "flush_event_triage cfg env t c = (h, c') \<Longrightarrow> cur_session c' = cur_session c"
  by (auto simp: flush_event_triage_def Let_def write_audit_record_def advance_checkpoint_def say_def
      split: option.splits if_splits)

section \<open>The checkpoint and the release sink wait for the record\<close>

definition triage_recorded :: "core \<Rightarrow> event_turn \<Rightarrow> bool" where
  "triage_recorded c t \<longleftrightarrow> (\<exists>rec\<in>set (audit_log c). sr_events rec = Some (tn_items t))"

lemma process_event_created:
  assumes "create_ok env" and "c' = process_event cfg env t c"
  shows "set (audit_log c) \<subseteq> set (audit_log c')"
    and "has_audit cfg \<Longrightarrow> flush_write_ok env \<Longrightarrow> triage_recorded c' t"
    and "checkpoint_blocked c' \<longleftrightarrow> checkpoint_blocked c \<or> has_audit cfg \<and> \<not> flush_write_ok env"
    and "checkpoint c' = (if has_audit cfg \<and> flush_write_ok env \<and> \<not> checkpoint_blocked c \<and> has_checkpoint cfg \<and>
        tn_offset t \<noteq> None \<and> tn_offset t \<noteq> Some [] then tn_offset t else checkpoint c)"
    and "releases c' = releases c @ (case tn_held_release t of None \<Rightarrow> [] | Some r \<Rightarrow>
        if has_release_sink cfg \<and> (flush_write_ok env \<or> \<not> has_audit cfg) then [hr_window_id r] else [])"
    and "\<exists>published. out c' = out c @ (if has_audit cfg \<and> \<not> flush_write_ok env \<and> \<not> checkpoint_blocked c
        then [Proactively DEGRADED_DURABILITY_NOTICE None] else []) @
      (if tn_announceable t then [Proactively (with_release_line cfg (with_suppressed_note
           (if te_outcome (classify_ending (run_signals env) (run_result env = None) (run_result env)) = COMPLETED
            then (case run_result env of None \<Rightarrow> [] | Some r \<Rightarrow> r)
            else incomplete_triage_notice t
              (classify_ending (run_signals env) (run_result env = None) (run_result env)) published) t) t)
           (Some TRIAGE_FAILURE_NOTICE)] else [])"
    and "cur_session c' = Some (sessions_made c)"
proof -
  let ?res = "run_result env"
  let ?e = "classify_ending (run_signals env) (?res = None) ?res"
  obtain c1 where run: "triage_run cfg env t c = (Some (?e, ?res), c1)" "triage_acc t c1"
    "outside c1 = outside (snd (start_event_session cfg env t c))"
    using triage_run_created [OF assms(1), of cfg t c] by blast
  obtain h c2 where fl: "flush_event_triage cfg env t c1 = (h, c2)" by fastforce
  note start = start_event_session_keeps [OF assms(1), of cfg t c]
  note eqs = outside_eqs [OF run(3)]
  note flush = flush_cases [OF run(2) fl]
  let ?msg = "if te_outcome ?e = COMPLETED then (case ?res of None \<Rightarrow> [] | Some r \<Rightarrow> r)
     else incomplete_triage_notice t ?e (h \<noteq> None \<and> h \<noteq> Some [])"
  have c': "c' = (if \<not> tn_announceable t then c2
      else say (Proactively (with_release_line cfg (with_suppressed_note ?msg t) t) (Some TRIAGE_FAILURE_NOTICE)) c2)"
    unfolding assms(2) process_event_def run(1) prod.case option.case fl Let_def ..
  have same: "audit_log c' = audit_log c2" "checkpoint_blocked c' = checkpoint_blocked c2"
    "checkpoint c' = checkpoint c2" "releases c' = releases c2" "cur_session c' = cur_session c2"
    by (simp_all add: c' say_def)
  have log: "audit_log c1 = audit_log (close_session cfg (close_write_ok env) c)" using eqs(6) start(5) by simp
  have sub: "set (audit_log c) \<subseteq> set (audit_log c1)"
    using log_prefix_close [of c cfg "close_write_ok env"] log by (simp add: set_mono_prefix)
  show "set (audit_log c) \<subseteq> set (audit_log c')" using sub same(1) flush(1) by auto
  show "has_audit cfg \<Longrightarrow> flush_write_ok env \<Longrightarrow> triage_recorded c' t"
    using same(1) flush(1,2) by (auto simp: triage_recorded_def)
  show "checkpoint_blocked c' \<longleftrightarrow> checkpoint_blocked c \<or> has_audit cfg \<and> \<not> flush_write_ok env"
    using same(2) flush(3) eqs(3) start(2) by simp
  show "checkpoint c' = (if has_audit cfg \<and> flush_write_ok env \<and> \<not> checkpoint_blocked c \<and> has_checkpoint cfg \<and>
        tn_offset t \<noteq> None \<and> tn_offset t \<noteq> Some [] then tn_offset t else checkpoint c)"
    unfolding same(3) flush(4) eqs(3,4) start(1,2) ..
  show "releases c' = releases c @ (case tn_held_release t of None \<Rightarrow> [] | Some r \<Rightarrow>
        if has_release_sink cfg \<and> (flush_write_ok env \<or> \<not> has_audit cfg) then [hr_window_id r] else [])"
    unfolding same(4) flush(5) eqs(9) start(4) ..
  show "cur_session c' = Some (sessions_made c)"
    using same(5) flush_session [OF fl] eqs(1) start(6) by simp
  have "out c2 = out c @ (if has_audit cfg \<and> \<not> flush_write_ok env \<and> \<not> checkpoint_blocked c
        then [Proactively DEGRADED_DURABILITY_NOTICE None] else [])"
    unfolding flush(6) eqs(3,7) start(2,3) ..
  then have "out c' = out c @ (if has_audit cfg \<and> \<not> flush_write_ok env \<and> \<not> checkpoint_blocked c
        then [Proactively DEGRADED_DURABILITY_NOTICE None] else []) @
      (if tn_announceable t then [Proactively (with_release_line cfg (with_suppressed_note ?msg t) t)
           (Some TRIAGE_FAILURE_NOTICE)] else [])"
    unfolding c' by (simp add: say_def)
  then show "\<exists>published. out c' = out c @ (if has_audit cfg \<and> \<not> flush_write_ok env \<and> \<not> checkpoint_blocked c
        then [Proactively DEGRADED_DURABILITY_NOTICE None] else []) @
      (if tn_announceable t then [Proactively (with_release_line cfg (with_suppressed_note
           (if te_outcome ?e = COMPLETED then (case ?res of None \<Rightarrow> [] | Some r \<Rightarrow> r)
            else incomplete_triage_notice t ?e published) t) t) (Some TRIAGE_FAILURE_NOTICE)] else [])" by blast
qed

lemma process_event_failed:
  "\<not> create_ok env \<Longrightarrow> process_event cfg env t c = close_session cfg (close_write_ok env) c"
  by (simp add: process_event_def triage_run_failed)

text \<open>Owner turns and markers.\<close>

lemma ensure_session_keeps:
  "checkpoint (snd (ensure_session cfg env tr c)) = checkpoint c"
  "checkpoint_blocked (snd (ensure_session cfg env tr c)) = checkpoint_blocked c"
  "out (snd (ensure_session cfg env tr c)) = out c"
  "releases (snd (ensure_session cfg env tr c)) = releases c"
  "prefix (audit_log c) (audit_log (snd (ensure_session cfg env tr c)))"
  using log_prefix_close [of c cfg "close_write_ok env"]
  by (auto simp: ensure_session_def Let_def open_session_def close_session_keeps split: option.split)

definition same_durability :: "core \<Rightarrow> core \<Rightarrow> bool" where
  "same_durability c c' \<longleftrightarrow>
     checkpoint c' = checkpoint c \<and> checkpoint_blocked c' = checkpoint_blocked c \<and> releases c' = releases c \<and>
     set (audit_log c) \<subseteq> set (audit_log c')"

lemma same_durability_outside:
  "same_durability c d \<Longrightarrow> outside d' = outside d \<Longrightarrow> same_durability c d'"
  using outside_eqs [of d' d] by (simp add: same_durability_def)

lemma same_durability_say [simp]: "same_durability c (say m d) = same_durability c d"
  by (simp add: same_durability_def say_def)

lemma same_durability_activity [simp]: "same_durability c (d\<lparr>last_activity := x\<rparr>) = same_durability c d"
  by (simp add: same_durability_def)

lemma same_durability_upd [simp]: "same_durability c (upd_acc f d) = same_durability c d"
  by (simp add: same_durability_def upd_acc_def)

lemma close_durability: "same_durability c (close_session cfg w c)"
  using log_prefix_close [of c cfg w] by (simp add: same_durability_def close_session_keeps set_mono_prefix)

text \<open>An owner turn, step by step: the states it passes through and what it says.\<close>

lemma owner_turn_cases:
  obtains (unready) c1 where "ensure_session cfg env (cps ''owner-message'') c = (False, c1)"
      and "owner_turn cfg env msg c = say (Reply (error_reply cfg)) (upd_acc (\<lambda>a. a\<lparr>ac_outcome := ERROR\<rparr>) c1)"
  | (raised) c1 content c2 c3 where "ensure_session cfg env (cps ''owner-message'') c = (True, c1)"
      and "owner_content cfg env msg c1 = (content, c2)"
      and "run_framed cfg env OWNER True content c2 = (None, c3)"
      and "owner_turn cfg env msg c = (say (Reply (error_reply cfg)) (upd_acc (\<lambda>a. a\<lparr>ac_outcome := ERROR\<rparr>) c3))
         \<lparr>last_activity := Some (done_at env)\<rparr>"
  | (answered) c1 content c2 c3 reply f where "ensure_session cfg env (cps ''owner-message'') c = (True, c1)"
      and "owner_content cfg env msg c1 = (content, c2)"
      and "run_framed cfg env OWNER True content c2 = (Some reply, c3)"
      and "\<And>a. ac_events (f a) = ac_events a \<and> ac_had_event (f a) = ac_had_event a \<and> ac_flushed (f a) = ac_flushed a \<and>
             ac_baseline (f a) = ac_baseline a \<and> ac_approvals (f a) = ac_approvals a"
      and "owner_turn cfg env msg c =
         (let oc = te_outcome (classify_ending (run_signals env) False (Some reply));
              c4 = (upd_acc f c3)\<lparr>last_activity := Some (done_at env)\<rparr>
          in if oc = ERROR then say (Reply (error_reply cfg)) c4
             else if reply \<noteq> [] then say (Reply reply) c4 else c4)"
proof -
  obtain ready c1 where e: "ensure_session cfg env (cps ''owner-message'') c = (ready, c1)" by fastforce
  obtain content c2 where o: "owner_content cfg env msg c1 = (content, c2)" by fastforce
  obtain res c3 where r: "run_framed cfg env OWNER True content c2 = (res, c3)" by fastforce
  show ?thesis
  proof (cases ready)
    case False
    then show ?thesis using e by (intro unready [of c1]) (simp_all add: owner_turn_def)
  next
    case True
    show ?thesis
    proof (cases res)
      case None
      then show ?thesis using e o r True by (intro raised [of c1 content c2 c3]) (simp_all add: owner_turn_def)
    next
      case (Some reply)
      let ?oc = "te_outcome (classify_ending (run_signals env) False (Some reply))"
      let ?f = "\<lambda>a. a\<lparr>ac_turns := Suc (ac_turns a),
         ac_outcome := (if ?oc \<noteq> COMPLETED \<and> ac_outcome a \<noteq> ERROR then ?oc else ac_outcome a)\<rparr>"
      have "owner_turn cfg env msg c =
         (let oc = ?oc; c4 = (upd_acc ?f c3)\<lparr>last_activity := Some (done_at env)\<rparr>
          in if oc = ERROR then say (Reply (error_reply cfg)) c4
             else if reply \<noteq> [] then say (Reply reply) c4 else c4)"
        unfolding owner_turn_def e Let_def prod.case o r Some option.case using True by (simp only: not_True_eq_False if_False)
      then show ?thesis using e o r True Some by (intro answered [of c1 content c2 reply c3 ?f]) simp_all
    qed
  qed
qed

lemma owner_turn_durability: "same_durability c (owner_turn cfg env msg c)"
proof -
  have ens: "same_durability c c1" if "ensure_session cfg env (cps ''owner-message'') c = (b, c1)" for b c1
    using ensure_session_keeps [where cfg = cfg and env = env and tr = "cps ''owner-message''" and c = c] that
    by (simp add: same_durability_def set_mono_prefix)
  have run: "same_durability c c3" if "same_durability c c1" "owner_content cfg env msg c1 = (content, c2)"
    "run_framed cfg env OWNER True content c2 = (res, c3)" for c1 content c2 res c3
    using same_durability_outside [OF that(1), of c3] outside_owner_content [of cfg env msg c1]
      outside_run_framed [of cfg env OWNER True content c2] that(2,3) by simp
  show ?thesis
  proof (cases rule: owner_turn_cases [of cfg env c msg])
    case (unready c1)
    then show ?thesis using ens [OF unready(1)] by simp
  next
    case (raised c1 content c2 c3)
    then show ?thesis using run [OF ens [OF raised(1)] raised(2,3)] by simp
  next
    case (answered c1 content c2 c3 reply f)
    have "same_durability c c3" by (rule run [OF ens [OF answered(1)] answered(2,3)])
    then show ?thesis by (simp add: answered(5) Let_def)
  qed
qed

lemma process_owner_durability: "same_durability c (process_owner cfg env msg c)"
proof -
  have "same_durability c c" by (simp add: same_durability_def)
  then show ?thesis
    using close_durability [of c cfg "close_write_ok env"] owner_turn_durability
    by (auto simp: process_owner_def split: command_result.split)
qed

text \<open>The invariant over a history: while the latch is open, every triage is recorded.\<close>

definition recorded_so_far :: "(core_turn \<times> turn_env) list \<Rightarrow> core \<Rightarrow> bool" where
  "recorded_so_far hs c \<longleftrightarrow>
     (\<not> checkpoint_blocked c \<longrightarrow> (\<forall>t env. (Event_Turn t, env) \<in> set hs \<longrightarrow> triage_recorded c t))"

definition sessions_start :: "(core_turn \<times> turn_env) list \<Rightarrow> bool" where
  "sessions_start hs \<longleftrightarrow> (\<forall>t env. (Event_Turn t, env) \<in> set hs \<longrightarrow> create_ok env)"

lemma triage_recorded_mono:
  "triage_recorded c t \<Longrightarrow> set (audit_log c) \<subseteq> set (audit_log c') \<Longrightarrow> triage_recorded c' t"
  by (auto simp: triage_recorded_def)

lemma recorded_step:
  assumes "has_audit cfg" and "recorded_so_far hs c" and "sessions_start [h]"
  shows "recorded_so_far (hs @ [h]) (process_turn cfg c h)"
    and "checkpoint (process_turn cfg c h) \<noteq> checkpoint c \<Longrightarrow> \<not> checkpoint_blocked (process_turn cfg c h)"
proof -
  obtain turn env where h: "h = (turn, env)" by fastforce
  let ?c' = "process_turn cfg c h"
  have keep: "recorded_so_far (hs @ [h]) ?c'"
    if "checkpoint_blocked ?c' = checkpoint_blocked c" "set (audit_log c) \<subseteq> set (audit_log ?c')"
      "\<And>t. turn \<noteq> Event_Turn t"
    using assms(2) that triage_recorded_mono unfolding recorded_so_far_def h by auto
  have "recorded_so_far (hs @ [h]) ?c' \<and> (checkpoint ?c' \<noteq> checkpoint c \<longrightarrow> \<not> checkpoint_blocked ?c')"
  proof (cases turn)
    case (Owner_Turn msg)
    then have c': "?c' = process_owner cfg env msg c" by (simp add: process_turn_def h)
    have "same_durability c ?c'" unfolding c' by (rule process_owner_durability)
    then show ?thesis using keep Owner_Turn by (simp add: same_durability_def)
  next
    case (Marker off)
    then show ?thesis using keep by (simp add: process_turn_def h advance_checkpoint_def)
  next
    case (Event_Turn t)
    have ok: "create_ok env" using assms(3) by (simp add: sessions_start_def h Event_Turn)
    have c': "?c' = process_event cfg env t c" by (simp add: process_turn_def h Event_Turn)
    note ev = process_event_created [OF ok c']
    have "recorded_so_far (hs @ [h]) ?c'"
      unfolding recorded_so_far_def
    proof (intro impI allI)
      fix t' env' assume nb: "\<not> checkpoint_blocked ?c'" and m: "(Event_Turn t', env') \<in> set (hs @ [h])"
      have "\<not> checkpoint_blocked c" "flush_write_ok env" using ev(3) nb assms(1) by auto
      then show "triage_recorded ?c' t'"
        using m ev(1,2) assms(1,2) triage_recorded_mono [OF _ ev(1)]
        by (auto simp: h Event_Turn recorded_so_far_def)
    qed
    moreover have "checkpoint ?c' \<noteq> checkpoint c \<longrightarrow> \<not> checkpoint_blocked ?c'"
      using ev(3,4) by (auto split: if_splits)
    ultimately show ?thesis by blast
  qed
  then show "recorded_so_far (hs @ [h]) ?c'"
    and "checkpoint ?c' \<noteq> checkpoint c \<Longrightarrow> \<not> checkpoint_blocked ?c'" by blast+
qed

lemma recorded_run:
  assumes "has_audit cfg" and "sessions_start hs"
  shows "recorded_so_far hs (core_run cfg (new_core g) hs)"
  using assms(2)
proof (induction hs rule: rev_induct)
  case Nil
  then show ?case by (simp add: recorded_so_far_def)
next
  case (snoc h hs)
  then have "sessions_start hs" "sessions_start [h]" by (auto simp: sessions_start_def)
  then show ?case using recorded_step(1) [OF assms(1)] snoc.IH by simp
qed

lemma blocked_step:
  "checkpoint_blocked c \<Longrightarrow> checkpoint_blocked (process_turn cfg c h)"
proof (cases "fst h")
  case (Owner_Turn msg)
  then show "checkpoint_blocked c \<Longrightarrow> ?thesis"
    using process_owner_durability [of c cfg "snd h" msg] by (simp add: process_turn_def same_durability_def)
next
  case (Event_Turn t)
  show "checkpoint_blocked c \<Longrightarrow> ?thesis"
  proof (cases "create_ok (snd h)")
    case True
    assume "checkpoint_blocked c"
    then show ?thesis using process_event_created(3) [OF True refl] Event_Turn by (simp add: process_turn_def)
  next
    case False
    assume "checkpoint_blocked c"
    then show ?thesis using process_event_failed [OF False, of cfg t c] Event_Turn
      by (simp add: process_turn_def close_session_keeps)
  qed
qed (simp add: process_turn_def advance_checkpoint_def)

lemma blocked_run: "checkpoint_blocked c \<Longrightarrow> checkpoint_blocked (core_run cfg c hs)"
  by (induction hs arbitrary: c) (simp_all add: blocked_step)

lemma blocked_after_failure:
  assumes "has_audit cfg" and "(Event_Turn t, env) \<in> set hs" and "sessions_start hs" and "\<not> flush_write_ok env"
  shows "checkpoint_blocked (core_run cfg (new_core g) hs)"
proof -
  obtain xs ys where hs: "hs = xs @ (Event_Turn t, env) # ys" using assms(2) by (meson split_list)
  have "create_ok env" using assms(2,3) by (auto simp: sessions_start_def)
  then have "checkpoint_blocked (process_turn cfg (core_run cfg (new_core g) xs) (Event_Turn t, env))"
    using process_event_created(3) [OF _ refl] assms(1,4) by (simp add: process_turn_def)
  then show ?thesis using blocked_run by (simp add: hs)
qed


section \<open>A concrete triage\<close>

definition sample_profile :: session_profile where
  "sample_profile = \<lparr>pf_name = cps ''chat'', pf_effort = None, pf_model = None\<rparr>"

definition sample_core_cfg :: core_cfg where
  "sample_core_cfg =
     \<lparr>idle_timeout = 1800, error_reply = cps ''failed'', core_model = None, chat_profile = sample_profile,
      triage_profile = None, has_audit = True, has_checkpoint = True, has_gate = False, has_recall = False,
      has_recorder = False, has_release_sink = True, has_incident_context = False,
      word_char = (\<lambda>c. 97 \<le> c \<and> c \<le> 122), compose_event = (\<lambda>t recall. cps ''incident''),
      release_line = (\<lambda>r. None)\<rparr>"

definition sample_call :: tool_call where
  "sample_call = \<lparr>tc_name = cps ''homelab_query'', tc_class = Some READ_ONLY, tc_result = None\<rparr>"

definition sample_stats :: session_stats where
  "sample_stats = \<lparr>st_calls = [sample_call], st_model = None, st_input = None, st_output = None, st_cache = None\<rparr>"

definition sample_env :: turn_env where
  "sample_env =
     \<lparr>now_at = 100, done_at = 160, create_ok = True, fresh_stats = None, run_result = Some (cps ''fine''),
      turn_calls = [], run_stats = Some sample_stats, run_signals = None, recall_read = None,
      command_result = Not_A_Command, context_blocks = [], digest_ids = [], recording_id = None,
      close_write_ok = True, flush_write_ok = True\<rparr>"

definition sample_turn :: event_turn where
  "sample_turn = \<lparr>tn_items = [], tn_announceable = True, tn_suppressed_count = 0,
     tn_offset = Some [55], tn_held_release = None\<rparr>"

lemma sample_env_ok [simp]:
  "create_ok sample_env" "flush_write_ok sample_env" "close_write_ok sample_env"
  by (simp_all add: sample_env_def)

lemma sample_parts [simp]:
  "has_audit sample_core_cfg" "has_checkpoint sample_core_cfg" "tn_offset sample_turn = Some [55]"
  by (simp_all add: sample_core_cfg_def sample_turn_def)


text \<open>
  Without the assumption of \<open>checkpoint_never_passes_an_unrecorded_triage\<close> it fails: an event
  turn whose session could not be created returns before the flush, leaving no record and no
  latch, and the marker of the next batch moves the checkpoint past it.
\<close>

lemma failed_session_is_passed_over:
  assumes "has_checkpoint cfg" and "\<not> create_ok env" and "off \<noteq> []"
  shows "checkpoint (core_run cfg (new_core g) [(Event_Turn t, env), (Marker off, env')]) = Some off"
    and "audit_log (core_run cfg (new_core g) [(Event_Turn t, env), (Marker off, env')]) = []"
    and "out (core_run cfg (new_core g) [(Event_Turn t, env), (Marker off, env')]) = []"
  using assms
  by (simp_all add: process_turn_def process_event_failed advance_checkpoint_def close_session_keeps
      close_session_log new_core_def)

end
