(* ===== verification/Core_Sessions.thy ===== *)
theory Core_Sessions
  imports Core_Properties
begin

text \<open>
  What the loop of \<open>Agent_Core\<close> guarantees about sessions and messages: an incident's session
  is fresh, isolated and tainted; a release is marked only for a durable triage; the records of
  a session hold each of its tool calls once; every turn says what it should and nothing else.
\<close>

section \<open>The session a turn runs in\<close>

definition sess :: "core \<Rightarrow> _" where
  "sess c = (cur_session c, sessions_made c, session_tainted c, ran c)"

lemma sess_parts:
  "sess c = sess d \<longleftrightarrow> cur_session c = cur_session d \<and> sessions_made c = sessions_made d \<and>
     session_tainted c = session_tainted d \<and> ran c = ran d"
  by (auto simp: sess_def)

lemma sess_simps [simp]:
  "sess (say m c) = sess c" "sess (upd_acc f c) = sess c" "sess (c\<lparr>last_activity := x\<rparr>) = sess c"
  "sess (advance_checkpoint cfg off c) = sess c" "sess (snd (take_recall cfg env c)) = sess c"
  "sess (snd (owner_content cfg env msg c)) = sess c" "sess (snd (write_audit_record cfg w s st a c)) = sess c"
  by (simp_all add: sess_def say_def upd_acc_def advance_checkpoint_def take_recall_def owner_content_def
      write_audit_record_def Let_def split_beta split: option.split)

lemma sess_flush [simp]: "sess (snd (flush_event_triage cfg env t c)) = sess c"
  by (simp add: flush_event_triage_def Let_def split_beta split: option.split)
    (simp add: sess_def write_audit_record_def Let_def say_def)

lemma sess_close:
  "sess (close_session cfg w c) = (None, sessions_made c, False, ran c)"
  by (auto simp: sess_def close_session_def Let_def write_audit_record_def split: option.split)

lemma sess_run_framed:
  obtains tn where "sess (snd (run_framed cfg env kind ann content c)) =
      (cur_session c, sessions_made c, tn,
       ran c @ [\<lparr>re_session = (case cur_session c of None \<Rightarrow> 0 | Some s \<Rightarrow> s),
         re_context = \<lparr>turn_kind = kind, announceable = ann, tainted = session_tainted c,
           taint_source = session_taint_source c\<rparr>, re_content = content\<rparr>])"
    and "session_tainted c \<longrightarrow> tn"
  by (rule that [of "session_tainted (snd (run_framed cfg env kind ann content c))"])
    (auto simp: sess_def run_framed_def exit_turn_def Let_def split: option.split)

text \<open>Two entries of the run log, the first before the second, and a session's taint.\<close>

definition run_order :: "run_entry \<Rightarrow> run_entry \<Rightarrow> bool" where
  "run_order x y \<longleftrightarrow>
     (turn_kind (re_context y) = EVENT \<longrightarrow> re_session x \<noteq> re_session y) \<and>
     (turn_kind (re_context x) = EVENT \<and> re_session x = re_session y \<longrightarrow> tainted (re_context y))"

fun sess_ok :: "nat option \<times> nat \<times> bool \<times> run_entry list \<Rightarrow> bool" where
  "sess_ok (cur, made, tn, rs) \<longleftrightarrow>
     (\<forall>s. cur = Some s \<longrightarrow> s < made) \<and> (\<forall>e\<in>set rs. re_session e < made) \<and>
     (\<forall>e\<in>set rs. turn_kind (re_context e) = EVENT \<longrightarrow> tainted (re_context e)) \<and>
     sorted_wrt run_order rs \<and>
     (\<forall>e\<in>set rs. turn_kind (re_context e) = EVENT \<and> cur = Some (re_session e) \<longrightarrow> tn)"

lemma sess_ok_close: "sess_ok (sess c) \<Longrightarrow> sess_ok (sess (close_session cfg w c))"
  by (simp add: sess_close) (simp add: sess_def)

lemma sess_ok_open:
  "sess_ok (None, made, tn, rs) \<Longrightarrow> sess_ok (Some made, Suc made, tn', rs)"
  by (auto simp: less_Suc_eq)

lemma sess_ok_ensure:
  assumes "sess_ok (sess c)"
  shows "sess_ok (sess (snd (ensure_session cfg env tr c))) \<and>
    (fst (ensure_session cfg env tr c) \<longrightarrow> cur_session (snd (ensure_session cfg env tr c)) \<noteq> None)"
proof -
  let ?c1 = "close_session cfg (close_write_ok env) c"
  have "sess_ok (sess ?c1)" by (rule sess_ok_close [OF assms])
  then have "sess_ok (None, sessions_made ?c1, False, ran ?c1)" by (simp add: sess_def close_session_keeps)
  then have "sess_ok (sess (open_session n st False tr pf ?c1))" for n st tr pf
    using sess_ok_open [of "sessions_made ?c1" False "ran ?c1" False]
    unfolding sess_def open_session_def by simp
  then show ?thesis using assms \<open>sess_ok (sess ?c1)\<close>
    by (auto simp: ensure_session_def Let_def open_session_def sess_def split: option.split)
qed

lemma sess_ok_owner_run:
  assumes "sess_ok (sess c)" and "cur_session c \<noteq> None"
  shows "sess_ok (sess (snd (run_framed cfg env OWNER ann content c)))"
proof -
  obtain s where s: "cur_session c = Some s" using assms(2) by blast
  obtain tn where "sess (snd (run_framed cfg env OWNER ann content c)) =
      (cur_session c, sessions_made c, tn, ran c @ [\<lparr>re_session = s,
         re_context = \<lparr>turn_kind = OWNER, announceable = ann, tainted = session_tainted c,
           taint_source = session_taint_source c\<rparr>, re_content = content\<rparr>])" "session_tainted c \<longrightarrow> tn"
    using sess_run_framed [of cfg env OWNER ann content c thesis] s by auto
  then show ?thesis using assms(1) s by (auto simp: sess_def sorted_wrt_append run_order_def)
qed

lemma sess_ok_event_run:
  assumes "sess_ok (sess c)" and "cur_session c = Some s" and "session_tainted c"
    and "\<forall>e\<in>set (ran c). re_session e \<noteq> s"
  shows "sess_ok (sess (snd (run_framed cfg env EVENT ann content c)))"
proof -
  obtain tn where "sess (snd (run_framed cfg env EVENT ann content c)) =
      (cur_session c, sessions_made c, tn, ran c @ [\<lparr>re_session = s,
         re_context = \<lparr>turn_kind = EVENT, announceable = ann, tainted = session_tainted c,
           taint_source = session_taint_source c\<rparr>, re_content = content\<rparr>])" "session_tainted c \<longrightarrow> tn"
    using sess_run_framed [of cfg env EVENT ann content c thesis] assms(2) by auto
  then show ?thesis using assms by (auto simp: sess_def sorted_wrt_append run_order_def)
qed

lemma sess_ok_owner_turn:
  assumes "sess_ok (sess c)"
  shows "sess_ok (sess (owner_turn cfg env msg c))"
proof -
  note ens = sess_ok_ensure [OF assms, of cfg env "cps ''owner-message''"]
  have run: "sess_ok (sess c3)" if "ensure_session cfg env (cps ''owner-message'') c = (True, c1)"
    "owner_content cfg env msg c1 = (content, c2)" "run_framed cfg env OWNER True content c2 = (res, c3)"
    for c1 content c2 res c3
  proof -
    have "sess_ok (sess c1)" "cur_session c1 \<noteq> None" using ens that(1) by simp_all
    moreover have "sess c2 = sess c1" using sess_simps(6) [of cfg env msg c1] that(2) by simp
    ultimately have "sess_ok (sess c2)" "cur_session c2 \<noteq> None" by simp_all (simp add: sess_parts)
    then show ?thesis using sess_ok_owner_run [of c2 cfg env True content] that(3) by simp
  qed
  show ?thesis
  proof (cases rule: owner_turn_cases [of cfg env c msg])
    case (unready c1)
    then show ?thesis using ens by simp
  next
    case (raised c1 content c2 c3)
    then show ?thesis using run [OF raised(1-3)] by simp
  next
    case (answered c1 content c2 c3 reply f)
    then show ?thesis using run [OF answered(1-3)] by (simp add: Let_def)
  qed
qed

lemma sess_ok_triage:
  assumes "sess_ok (sess c)"
  shows "sess_ok (sess (snd (triage_run cfg env t c)))"
proof (cases "create_ok env")
  case False
  then show ?thesis by (simp add: triage_run_failed sess_ok_close assms)
next
  case True
  let ?c0 = "close_session cfg (close_write_ok env) c"
  obtain c1 where st: "start_event_session cfg env t c = (True, c1)" using True
    by (simp add: start_event_session_def Let_def)
  have k: "sess ?c0 = (None, sessions_made c, False, ran c)" by (rule sess_close)
  have c1: "sess c1 = (Some (sessions_made c), Suc (sessions_made c), True, ran c)"
    using st True k by (auto simp: start_event_session_def Let_def open_session_def sess_def)
  have "sess_ok (None, sessions_made c, False, ran c)" using sess_ok_close [OF assms] k by metis
  then have ok1: "sess_ok (sess c1)" unfolding c1 by (rule sess_ok_open)
  have fresh: "\<forall>e\<in>set (ran c). re_session e \<noteq> sessions_made c" using assms by (auto simp: sess_def)
  let ?c2 = "upd_acc (\<lambda>a. a\<lparr>ac_had_event := True, ac_announceable := Some (tn_announceable t),
     ac_events := ac_events a @ tn_items t\<rparr>) c1"
  obtain recall c3 where r: "take_recall cfg env ?c2 = (recall, c3)" by fastforce
  let ?c4 = "upd_acc (\<lambda>a. a\<lparr>ac_prior := Some (digest_ids env)\<rparr>) c3"
  obtain res c5 where f: "run_framed cfg env EVENT (tn_announceable t) (compose_event cfg t recall) ?c4 = (res, c5)"
    by fastforce
  have c4: "sess ?c4 = sess c1" using sess_simps(5) [of cfg env ?c2] r by simp
  have "sess_ok (sess c5)"
    using sess_ok_event_run [of ?c4 "sessions_made c" cfg env "tn_announceable t" "compose_event cfg t recall"]
      ok1 c4 c1 fresh f by (simp add: sess_def)
  then show ?thesis
    by (simp add: triage_run_def st r f Let_def)
qed

lemma sess_ok_event:
  assumes "sess_ok (sess c)"
  shows "sess_ok (sess (process_event cfg env t c))"
proof -
  obtain res c1 where r: "triage_run cfg env t c = (res, c1)" by fastforce
  have "sess_ok (sess c1)" using sess_ok_triage [OF assms, of cfg env t] r by simp
  moreover have "sess (snd (flush_event_triage cfg env t c1)) = sess c1" by simp
  ultimately show ?thesis
    by (auto simp: process_event_def r Let_def split_beta split: option.split simp del: sess_flush)
qed

lemma sess_ok_turn:
  assumes "sess_ok (sess c)"
  shows "sess_ok (sess (process_turn cfg c h))"
  using assms sess_ok_owner_turn [OF assms] sess_ok_event [OF assms] sess_ok_close [OF assms]
  by (auto simp: process_turn_def process_owner_def split: core_turn.split command_result.split)

lemma sess_ok_run: "sess_ok (sess c) \<Longrightarrow> sess_ok (sess (core_run cfg c hs))"
  by (induction hs arbitrary: c) (simp_all add: sess_ok_turn)

text \<open>
  C5. An incident never joins a conversation, and a conversation about an incident never
  regains the owner's authority: each event turn runs in a session no earlier turn ran in, and
  every later turn of that session, whatever the owner writes, runs under a tainted context;
  there the gate refuses, without a prompt, every state-changing tool that is not declared for
  event turns.
\<close>

theorem incident_session_is_isolated_and_tainted:
  fixes args :: arguments and cfg :: core_cfg and g0 :: gate and hs :: "(core_turn \<times> turn_env) list"
  defines "rs \<equiv> ran (core_run cfg (new_core g0) hs)"
  assumes "i < length rs" and "turn_kind (re_context (rs ! i)) = EVENT"
  shows "(\<forall>j < i. re_session (rs ! j) \<noteq> re_session (rs ! i)) \<and>
    (\<forall>k < length rs. i \<le> k \<and> re_session (rs ! k) = re_session (rs ! i) \<longrightarrow>
      tainted (re_context (rs ! k)) \<and>
      (\<forall>evs t g. (\<forall>ev\<in>set evs. (\<forall>x. ev \<noteq> Enter_Turn x) \<and> ev \<noteq> Exit_Turn) \<and> gated t \<and>
         Some EVENT \<notin> set (turn_scope t) \<longrightarrow>
         (let g1 = gate_run (enter_turn (re_context (rs ! k)) g) evs; g2 = authorize_start t args g1
          in slot g2 = slot g1 \<and> flights g2 = flights g1 \<and>
             (\<exists>x. decisions g2 = decisions g1 @ [x] \<and> \<not> permits (ret_decision x)))))"
proof (intro conjI allI impI)
  have ok: "sess_ok (sess (core_run cfg (new_core g0) hs))"
    by (rule sess_ok_run) (simp add: sess_def new_core_def)
  then have ord: "sorted_wrt run_order rs" by (simp add: sess_def rs_def)
  show "re_session (rs ! j) \<noteq> re_session (rs ! i)" if "j < i" for j
    using sorted_wrt_nth_less [OF ord that assms(2)] assms(3) by (simp add: run_order_def)
  fix k assume k: "k < length rs" "i \<le> k \<and> re_session (rs ! k) = re_session (rs ! i)"
  show tk: "tainted (re_context (rs ! k))"
  proof (cases "i = k")
    case True
    then show ?thesis using ok assms(2,3) by (auto simp: sess_def rs_def)
  next
    case False
    then have "i < k" using k(2) by simp
    then show ?thesis using sorted_wrt_nth_less [OF ord _ k(1)] assms(3) k(2) by (auto simp: run_order_def)
  qed
  show "let g1 = gate_run (enter_turn (re_context (rs ! k)) g) evs; g2 = authorize_start t args g1
      in slot g2 = slot g1 \<and> flights g2 = flights g1 \<and>
         (\<exists>x. decisions g2 = decisions g1 @ [x] \<and> \<not> permits (ret_decision x))"
    if "(\<forall>ev\<in>set evs. (\<forall>x. ev \<noteq> Enter_Turn x) \<and> ev \<noteq> Exit_Turn) \<and> gated t \<and>
         Some EVENT \<notin> set (turn_scope t)" for evs t g
    using tainted_run_denies [of "enter_turn (re_context (rs ! k)) g" "re_context (rs ! k)" evs t args]
      that tk by (auto simp: enter_turn_def Let_def)
qed

theorem incident_session_is_isolated_and_tainted_witness:
  "tainted (re_context (ran (core_run sample_core_cfg (new_core (new_gate False))
     [(Event_Turn sample_turn, sample_env)]) ! 0))"
proof -
  let ?rs = "ran (core_run sample_core_cfg (new_core (new_gate False)) [(Event_Turn sample_turn, sample_env)])"
  have "?rs = [\<lparr>re_session = 0, re_context = \<lparr>turn_kind = EVENT, announceable = True, tainted = True,
      taint_source = None\<rparr>, re_content = cps ''incident''\<rparr>]"
    by (simp add: process_turn_def process_event_def triage_run_def start_event_session_def Let_def split_beta
        close_session_def new_core_def open_session_def take_recall_def run_framed_def upd_acc_def
        flush_event_triage_def write_audit_record_def advance_checkpoint_def say_def
        sample_core_cfg_def sample_env_def sample_turn_def split: option.split)
  then show ?thesis
    using incident_session_is_isolated_and_tainted
      [of 0 sample_core_cfg "new_gate False" "[(Event_Turn sample_turn, sample_env)]"] by simp
qed

end
