(* ===== verification/Core_Records.thy ===== *)
theory Core_Records
  imports Core_Properties
begin

text \<open>
  The audit records and the messages of \<open>Agent_Core\<close>: the records of a session hold each of
  its tool calls exactly once, a call of a state-changing tool counts as executed only on a
  receipt, a maintenance window is marked only for a durable triage, and what each kind of
  turn sends.
\<close>

section \<open>Executed flags\<close>

definition executed_of :: "str \<Rightarrow> (tool_call \<times> bool) list \<Rightarrow> bool list" where
  "executed_of name cs = map snd (filter (\<lambda>(c, e). tc_name c = name \<and> tc_class c = Some MUTATING) cs)"

definition against :: "nat \<Rightarrow> approval_outcome list \<Rightarrow> bool list" where
  "against n ocs = map (\<lambda>oc. oc \<in> EXECUTING_OUTCOMES) (take n ocs) @ replicate (n - length ocs) False"

lemma against_Suc_Nil: "against (Suc n) [] = False # against n []"
  by (simp add: against_def)

lemma against_Suc_Cons: "against (Suc n) (oc # ocs) = (oc \<in> EXECUTING_OUTCOMES) # against n ocs"
  by (simp add: against_def)

lemma flag_calls_fst [simp]: "map fst (flag_calls calls w) = calls"
  by (induction calls arbitrary: w) (simp_all add: split_beta Let_def)

lemma executed_of_Cons:
  "executed_of name ((c, e) # cs) =
     (if tc_name c = name \<and> tc_class c = Some MUTATING then [e] else []) @ executed_of name cs"
  by (simp add: executed_of_def)

lemma executed_flags:
  "executed_of name (flag_calls calls w) =
     against (length (filter (\<lambda>c. tc_name c = name \<and> tc_class c = Some MUTATING) calls)) (w name)"
proof (induction calls arbitrary: w)
  case Nil
  then show ?case by (simp add: executed_of_def against_def)
next
  case (Cons call calls)
  obtain e w1 where e: "was_executed call w = (e, w1)" by fastforce
  show ?case
  proof (cases "tc_class call = Some MUTATING \<and> tc_name call = name")
    case False
    have "w1 name = w name" using e False by (auto simp: was_executed_def split: if_splits list.splits)
    then show ?thesis using False Cons.IH [of w1] by (auto simp: e Let_def executed_of_Cons)
  next
    case True
    then show ?thesis using e Cons.IH [of w1]
      by (cases "w name") (auto simp: Let_def executed_of_Cons was_executed_def against_Suc_Nil against_Suc_Cons)
  qed
qed

text \<open>
  A record never claims a change that was not authorised: for each tool, the executed flags
  of its state-changing calls are, in order, the outcomes of that tool's receipts, and a call
  without a receipt counts as not executed; so no more calls count as executed than the gate
  approved.
\<close>

theorem executed_flags_follow_receipts:
  fixes cfg :: core_cfg
  defines "muts \<equiv> \<lambda>name stats. length (filter (\<lambda>c. tc_name c = name \<and> tc_class c = Some MUTATING) (st_calls stats))"
  shows "executed_of name (sr_calls (record_of cfg s (Some stats) a)) =
      map (\<lambda>oc. oc \<in> EXECUTING_OUTCOMES) (take (muts name stats) (outcomes_by_tool (ac_approvals a) name)) @
      replicate (muts name stats - length (outcomes_by_tool (ac_approvals a) name)) False \<and>
    length (filter id (executed_of name (sr_calls (record_of cfg s (Some stats) a)))) \<le>
      length (filter (\<lambda>r. rc_tool r = name \<and> rc_outcome r \<in> EXECUTING_OUTCOMES) (ac_approvals a))"
proof -
  let ?ocs = "outcomes_by_tool (ac_approvals a) name"
  have flags: "executed_of name (sr_calls (record_of cfg s (Some stats) a)) = against (muts name stats) ?ocs"
    by (simp add: record_of_def Let_def executed_flags muts_def)
  have "length (filter id (against n ocs)) \<le> length (filter (\<lambda>oc. oc \<in> EXECUTING_OUTCOMES) ocs)" for n ocs
  proof -
    have "length (filter id (against n ocs)) = length (filter (\<lambda>oc. oc \<in> EXECUTING_OUTCOMES) (take n ocs))"
      by (simp add: against_def filter_map comp_def)
    also have "\<dots> \<le> length (filter (\<lambda>oc. oc \<in> EXECUTING_OUTCOMES) (take n ocs @ drop n ocs))"
      unfolding filter_append length_append by simp
    finally show ?thesis by simp
  qed
  moreover have "length (filter (\<lambda>oc. oc \<in> EXECUTING_OUTCOMES) ?ocs) =
      length (filter (\<lambda>r. rc_tool r = name \<and> rc_outcome r \<in> EXECUTING_OUTCOMES) (ac_approvals a))"
    by (simp add: outcomes_by_tool_def filter_map comp_def conj_commute)
  ultimately show ?thesis unfolding flags by (metis against_def)
qed

section \<open>The tool calls of a session\<close>

definition calls_of :: "session_stats option \<Rightarrow> tool_call list" where
  "calls_of st = (case st of None \<Rightarrow> [] | Some s \<Rightarrow> st_calls s)"

definition recorded_calls :: "nat \<Rightarrow> core \<Rightarrow> tool_call list" where
  "recorded_calls s c = concat (map (map fst \<circ> sr_calls) (filter (\<lambda>r. sr_session r = s) (audit_log c)))"

lemma record_of_calls:
  "map fst (sr_calls (record_of cfg s st a)) = calls_of st" "sr_session (record_of cfg s st a) = s"
  by (simp_all add: record_of_def Let_def calls_of_def)

lemma stats_since_calls:
  "calls_of (stats_since st b) = drop (length (st_calls b)) (calls_of st)"
  by (simp add: stats_since_def calls_of_def split: option.split)

text \<open>
  The calls already on record when the current one is written: all of them once the session
  is flushed, else those before the baseline.
\<close>

definition calls_ok :: "core \<Rightarrow> bool" where
  "calls_ok c \<longleftrightarrow>
     (\<forall>r\<in>set (audit_log c). sr_session r < sessions_made c) \<and>
     (\<forall>s. cur_session c = Some s \<longrightarrow> s < sessions_made c \<and>
        (\<exists>a. cur_acc c = Some a \<and>
           recorded_calls s c = (if ac_flushed a then calls_of (cur_stats c) else calls_of (ac_baseline a)) \<and>
           prefix (recorded_calls s c) (calls_of (cur_stats c))))"

text \<open>
  The statistics of a session only grow: a turn that stays in the session extends the list of
  tool calls \<open>stats()\<close> reports.
\<close>

definition grows :: "core \<Rightarrow> core \<Rightarrow> bool" where
  "grows c c' \<longleftrightarrow> cur_session c' = cur_session c \<longrightarrow> prefix (calls_of (cur_stats c)) (calls_of (cur_stats c'))"

fun stats_only_grow :: "core_cfg \<Rightarrow> core \<Rightarrow> (core_turn \<times> turn_env) list \<Rightarrow> bool" where
  "stats_only_grow cfg c [] = True"
| "stats_only_grow cfg c (h # hs) =
     (grows c (process_turn cfg c h) \<and> stats_only_grow cfg (process_turn cfg c h) hs)"

lemma recorded_calls_write:
  assumes "has_audit cfg"
  shows "recorded_calls s' (snd (write_audit_record cfg True s st a c)) =
    recorded_calls s' c @ (if s' = s then
      (case ac_baseline a of None \<Rightarrow> calls_of st | Some b \<Rightarrow> drop (length (st_calls b)) (calls_of st)) else [])"
  using assms by (simp add: recorded_calls_def write_log record_of_calls stats_since_calls split: option.split)

lemma recorded_calls_cong: "audit_log c = audit_log d \<Longrightarrow> recorded_calls s c = recorded_calls s d"
  by (simp add: recorded_calls_def)

lemma recorded_calls_fresh:
  "\<forall>r\<in>set (audit_log c). sr_session r < n \<Longrightarrow> recorded_calls n c = []"
  by (auto simp: recorded_calls_def filter_empty_conv)

lemma baseline_calls:
  "prefix (calls_of b) xs \<Longrightarrow>
     calls_of b @ (case b of None \<Rightarrow> xs | Some b' \<Rightarrow> drop (length (st_calls b')) xs) = xs"
  by (cases b) (auto simp: calls_of_def prefix_def)

lemma close_records_all:
  assumes "calls_ok c" and "has_audit cfg" and "cur_session c = Some s"
  shows "recorded_calls s (close_session cfg True c) = calls_of (cur_stats c)"
proof -
  obtain a where a: "cur_acc c = Some a"
    "recorded_calls s c = (if ac_flushed a then calls_of (cur_stats c) else calls_of (ac_baseline a))"
    "prefix (recorded_calls s c) (calls_of (cur_stats c))"
    using assms(1,3) by (auto simp: calls_ok_def)
  show ?thesis
  proof (cases "ac_flushed a")
    case True
    then have "audit_log (close_session cfg True c) = audit_log c"
      using a(1) assms(3) by (simp add: close_session_log)
    from recorded_calls_cong [OF this, of s] show ?thesis using a(2) True by simp
  next
    case False
    then have "recorded_calls s (close_session cfg True c) = recorded_calls s c @
        (case ac_baseline a of None \<Rightarrow> calls_of (cur_stats c) | Some b \<Rightarrow> drop (length (st_calls b)) (calls_of (cur_stats c)))"
      using assms(2,3) a(1)
      by (simp add: recorded_calls_def close_session_log record_of_calls stats_since_calls split: option.split)
    then show ?thesis using a(2,3) False baseline_calls [of "ac_baseline a" "calls_of (cur_stats c)"] by simp
  qed
qed

lemma close_calls_ok:
  assumes "calls_ok c"
  shows "calls_ok (close_session cfg w c)"
  using assms
  by (auto simp: calls_ok_def close_session_keeps close_session_log record_of_calls
      split: option.splits if_splits)

lemma open_calls_ok:
  assumes "calls_ok c"
  shows "calls_ok (open_session now st taint tr pf c)"
proof -
  let ?d = "open_session now st taint tr pf c"
  have "\<forall>r\<in>set (audit_log c). sr_session r < sessions_made c" using assms by (simp add: calls_ok_def)
  then have "recorded_calls (sessions_made c) ?d = []"
    using recorded_calls_fresh [of c "sessions_made c"] by (simp add: open_session_def recorded_calls_def)
  then show ?thesis using assms
    by (auto simp: calls_ok_def open_session_def new_acc_def calls_of_def less_Suc_eq)
qed

lemma calls_ok_cong:
  "audit_log d = audit_log c \<Longrightarrow> cur_session d = cur_session c \<Longrightarrow> sessions_made d = sessions_made c \<Longrightarrow>
     cur_acc d = cur_acc c \<Longrightarrow> cur_stats d = cur_stats c \<Longrightarrow> calls_ok d = calls_ok c"
  by (simp only: calls_ok_def recorded_calls_def)

lemma calls_ok_simps [simp]:
  "calls_ok (say m c) = calls_ok c" "calls_ok (c\<lparr>last_activity := x\<rparr>) = calls_ok c"
  "calls_ok (advance_checkpoint cfg off c) = calls_ok c"
  by (rule calls_ok_cong; simp add: say_def advance_checkpoint_def)+

lemma ensure_calls_ok:
  assumes "calls_ok c"
  shows "calls_ok (snd (ensure_session cfg env tr c))"
proof -
  have "calls_ok (c\<lparr>cur_acc := Some ((new_acc tr (ac_profile a))\<lparr>ac_baseline := cur_stats c,
      ac_memory_hash := ac_memory_hash a\<rparr>)\<rparr>)" if "cur_acc c = Some a" "ac_flushed a" for a
    using assms that by (auto simp: calls_ok_def recorded_calls_def new_acc_def)
  then show ?thesis using assms close_calls_ok [OF assms] open_calls_ok
    by (auto simp: ensure_session_def Let_def split: option.split)
qed

text \<open>A step that keeps the log, the session and the bookkeeping of the accumulator.\<close>

definition books :: "core \<Rightarrow> _" where
  "books c = (audit_log c, cur_session c, sessions_made c,
     map_option (\<lambda>a. (ac_flushed a, ac_baseline a)) (cur_acc c))"

lemma books_simps [simp]:
  "books (say m c) = books c" "books (c\<lparr>last_activity := x\<rparr>) = books c"
  "books (advance_checkpoint cfg off c) = books c"
  by (simp_all add: books_def say_def advance_checkpoint_def)

lemma books_upd [simp]:
  "(\<And>a. ac_flushed (f a) = ac_flushed a \<and> ac_baseline (f a) = ac_baseline a) \<Longrightarrow> books (upd_acc f c) = books c"
  by (cases "cur_acc c") (simp_all add: books_def upd_acc_def)

lemma books_take_recall [simp]: "books (snd (take_recall cfg env c)) = books c"
  by (cases "cur_acc c") (simp_all add: books_def take_recall_def split: option.split prod.split)

lemma books_owner_content [simp]: "books (snd (owner_content cfg env msg c)) = books c"
  using books_take_recall [of cfg env c] by (simp add: owner_content_def split_beta Let_def)

lemma books_run_framed [simp]: "books (snd (run_framed cfg env kind ann content c)) = books c"
  by (cases "cur_acc c") (simp_all add: books_def run_framed_def exit_turn_def Let_def split: option.split)

lemma stats_simps [simp]:
  "cur_stats (say m c) = cur_stats c" "cur_stats (c\<lparr>last_activity := x\<rparr>) = cur_stats c"
  "cur_stats (advance_checkpoint cfg off c) = cur_stats c" "cur_stats (upd_acc f c) = cur_stats c"
  "cur_stats (snd (take_recall cfg env c)) = cur_stats c" "cur_stats (snd (owner_content cfg env msg c)) = cur_stats c"
  "cur_stats (snd (run_framed cfg env kind ann content c)) = run_stats env"
  by (simp_all add: say_def advance_checkpoint_def upd_acc_def take_recall_def owner_content_def
      run_framed_def exit_turn_def Let_def split_beta split: option.split)

lemma books_calls_ok:
  assumes "calls_ok c" and "books d = books c"
    and "\<forall>s. cur_session c = Some s \<longrightarrow> prefix (recorded_calls s c) (calls_of (cur_stats d))"
    and "\<forall>a. cur_acc c = Some a \<longrightarrow> \<not> ac_flushed a \<or> cur_stats d = cur_stats c"
  shows "calls_ok d"
proof -
  have eqs: "audit_log d = audit_log c" "cur_session d = cur_session c" "sessions_made d = sessions_made c"
    "map_option (\<lambda>a. (ac_flushed a, ac_baseline a)) (cur_acc d) =
     map_option (\<lambda>a. (ac_flushed a, ac_baseline a)) (cur_acc c)"
    using assms(2) by (simp_all add: books_def)
  have rc: "recorded_calls s d = recorded_calls s c" for s by (rule recorded_calls_cong [OF eqs(1)])
  have "\<exists>a. cur_acc d = Some a \<and>
      recorded_calls s d = (if ac_flushed a then calls_of (cur_stats d) else calls_of (ac_baseline a)) \<and>
      prefix (recorded_calls s d) (calls_of (cur_stats d))" if s: "cur_session c = Some s" for s
  proof -
    obtain a where a: "cur_acc c = Some a"
      "recorded_calls s c = (if ac_flushed a then calls_of (cur_stats c) else calls_of (ac_baseline a))"
      using assms(1) s by (auto simp: calls_ok_def)
    obtain b where b: "cur_acc d = Some b" "ac_flushed b = ac_flushed a" "ac_baseline b = ac_baseline a"
      using eqs(4) a(1) by (cases "cur_acc d") auto
    show ?thesis using a b assms(3,4) rc s by auto
  qed
  then show ?thesis using assms(1) unfolding calls_ok_def eqs by blast
qed

lemma ensure_ready:
  assumes "calls_ok c" and "ensure_session cfg env tr c = (True, c1)"
  shows "calls_ok c1" and "\<forall>a. cur_acc c1 = Some a \<longrightarrow> \<not> ac_flushed a"
    and "cur_session c1 = cur_session c \<and> cur_stats c1 = cur_stats c \<or>
      cur_session c1 = Some (sessions_made c) \<and> recorded_calls (sessions_made c) c1 = []"
proof -
  show "calls_ok c1" using ensure_calls_ok [OF assms(1), of cfg env tr] assms(2) by simp
  show "\<forall>a. cur_acc c1 = Some a \<longrightarrow> \<not> ac_flushed a"
    using assms by (auto simp: ensure_session_def Let_def open_session_def new_acc_def split: option.splits if_splits)
  let ?c0 = "close_session cfg (close_write_ok env) c"
  have "\<forall>r\<in>set (audit_log ?c0). sr_session r < sessions_made c"
    using close_calls_ok [OF assms(1), of cfg "close_write_ok env"] by (simp add: calls_ok_def close_session_keeps)
  then have "recorded_calls (sessions_made c) ?c0 = []" by (rule recorded_calls_fresh)
  moreover have "recorded_calls n (open_session x y z u v ?c0) = recorded_calls n ?c0" for n x y z u v
    by (rule recorded_calls_cong) (simp add: open_session_def)
  ultimately show "cur_session c1 = cur_session c \<and> cur_stats c1 = cur_stats c \<or>
      cur_session c1 = Some (sessions_made c) \<and> recorded_calls (sessions_made c) c1 = []"
    using assms(2) by (auto simp: ensure_session_def Let_def split: option.splits if_splits)
      (auto simp: open_session_def close_session_keeps)
qed

lemma after_ensure_calls_ok:
  assumes "calls_ok c" and "ensure_session cfg env tr c = (True, c1)" and "books d = books c1" and "grows c d"
  shows "calls_ok d"
proof (rule books_calls_ok [OF ensure_ready(1) [OF assms(1,2)] assms(3)])
  show "\<forall>a. cur_acc c1 = Some a \<longrightarrow> \<not> ac_flushed a \<or> cur_stats d = cur_stats c1"
    using ensure_ready(2) [OF assms(1,2)] by blast
  have ses: "cur_session d = cur_session c1" using assms(3) by (simp add: books_def)
  show "\<forall>s. cur_session c1 = Some s \<longrightarrow> prefix (recorded_calls s c1) (calls_of (cur_stats d))"
  proof (intro allI impI)
    fix s assume s: "cur_session c1 = Some s"
    from ensure_ready(3) [OF assms(1,2)] show "prefix (recorded_calls s c1) (calls_of (cur_stats d))"
    proof
      assume same: "cur_session c1 = cur_session c \<and> cur_stats c1 = cur_stats c"
      have "prefix (recorded_calls s c1) (calls_of (cur_stats c1))"
        using ensure_ready(1) [OF assms(1,2)] s by (auto simp: calls_ok_def)
      also have "prefix (calls_of (cur_stats c1)) (calls_of (cur_stats d))"
        using assms(4) same ses by (simp add: grows_def)
      finally show ?thesis .
    qed (simp add: s)
  qed
qed

lemma owner_turn_calls_ok:
  assumes "calls_ok c" and "grows c (owner_turn cfg env msg c)"
  shows "calls_ok (owner_turn cfg env msg c)"
proof (cases rule: owner_turn_cases [of cfg env c msg])
  case (unready c1)
  have "calls_ok c1" using ensure_calls_ok [OF assms(1), of cfg env "cps ''owner-message''"] unready(1) by simp
  moreover have "\<forall>s. cur_session c1 = Some s \<longrightarrow> prefix (recorded_calls s c1) (calls_of (cur_stats c1))"
    using \<open>calls_ok c1\<close> by (auto simp: calls_ok_def)
  ultimately show ?thesis unfolding unready(2)
    using books_calls_ok [of c1 "upd_acc (\<lambda>a. a\<lparr>ac_outcome := ERROR\<rparr>) c1"] by simp
next
  case (raised c1 content c2 c3)
  have "books (owner_turn cfg env msg c) = books c1"
    using books_run_framed [of cfg env OWNER True content c2] books_owner_content [of cfg env msg c1] raised
    by simp
  then show ?thesis by (rule after_ensure_calls_ok [OF assms(1) raised(1) _ assms(2)])
next
  case (answered c1 content c2 c3 reply f)
  have "books (upd_acc f c3) = books c3" using answered(4) by simp
  then have "books (owner_turn cfg env msg c) = books c1"
    using books_run_framed [of cfg env OWNER True content c2] books_owner_content [of cfg env msg c1] answered
    by (simp add: Let_def)
  then show ?thesis by (rule after_ensure_calls_ok [OF assms(1) answered(1) _ assms(2)])
qed

lemma flush_keeps:
  "sessions_made (snd (flush_event_triage cfg env t c)) = sessions_made c"
  "cur_stats (snd (flush_event_triage cfg env t c)) = cur_stats c"
  "cur_acc (snd (flush_event_triage cfg env t c)) = map_option (\<lambda>a. a\<lparr>ac_flushed := True\<rparr>) (cur_acc c)"
  by (auto simp: flush_event_triage_def write_audit_record_def advance_checkpoint_def say_def Let_def split_beta
      split: option.split)

lemma flush_calls_ok:
  assumes "has_audit cfg" and "flush_write_ok env" and "calls_ok c" and "cur_session c = Some s"
    and "recorded_calls s c = []" and "triage_acc t c"
  shows "calls_ok (snd (flush_event_triage cfg env t c))"
proof -
  obtain h c' where fl: "flush_event_triage cfg env t c = (h, c')" by fastforce
  have log: "audit_log c' = audit_log c @ [triage_rec cfg c]"
    using flush_cases(1) [OF assms(6) fl] assms(1,2) by simp
  have rec: "sr_session (triage_rec cfg c) = s" "map fst (sr_calls (triage_rec cfg c)) = calls_of (cur_stats c)"
    by (simp_all add: triage_rec_def record_of_calls assms(4))
  obtain a where a: "cur_acc c = Some a" "\<not> ac_flushed a" using assms(6) by (auto simp: triage_acc_def)
  have keep: "cur_session c' = cur_session c" "sessions_made c' = sessions_made c" "cur_stats c' = cur_stats c"
    "\<exists>a. cur_acc c' = Some a \<and> ac_flushed a"
    using flush_session [OF fl] flush_keeps [of cfg env t c] fl a by simp_all
  have "recorded_calls s c' = recorded_calls s c @ calls_of (cur_stats c)"
    using rec by (simp add: recorded_calls_def log)
  then show ?thesis using assms(3-5) keep rec(1) by (auto simp: fl calls_ok_def log)
qed

text \<open>Triage: from the fresh session to the flush.\<close>

lemma triage_run_books:
  assumes "create_ok env" and "calls_ok c" and "triage_run cfg env t c = (Some er, c1)"
  shows "calls_ok c1" and "cur_session c1 = Some (sessions_made c)" and "recorded_calls (sessions_made c) c1 = []"
    and "triage_acc t c1"
proof -
  show acc: "triage_acc t c1" using triage_run_created [OF assms(1), of cfg t c] assms(3) by auto
  have out: "outside c1 = outside (snd (start_event_session cfg env t c))"
    using triage_run_created [OF assms(1), of cfg t c] assms(3) by auto
  note eqs = outside_eqs [OF out]
  note start = start_event_session_keeps [OF assms(1), of cfg t c]
  let ?c0 = "close_session cfg (close_write_ok env) c"
  have made: "sessions_made c1 = Suc (sessions_made c)"
    using eqs(2) assms(1) by (simp add: start_event_session_def Let_def open_session_def close_session_keeps)
  have ok0: "calls_ok ?c0" by (rule close_calls_ok [OF assms(2)])
  have log: "audit_log c1 = audit_log ?c0" using eqs(6) start(5) by simp
  have lt: "\<forall>r\<in>set (audit_log ?c0). sr_session r < sessions_made c"
    using ok0 by (simp add: calls_ok_def close_session_keeps)
  show ses: "cur_session c1 = Some (sessions_made c)" using eqs(1) start(6) by simp
  show rc: "recorded_calls (sessions_made c) c1 = []"
    using recorded_calls_fresh [OF lt] recorded_calls_cong [OF log] by simp
  show "calls_ok c1" using lt acc rc
    by (auto simp: calls_ok_def made log ses triage_acc_def calls_of_def less_Suc_eq)
qed

lemma process_event_calls_ok:
  assumes "has_audit cfg" and "calls_ok c" and "flush_write_ok env"
  shows "calls_ok (process_event cfg env t c)"
proof (cases "create_ok env")
  case False
  then show ?thesis by (simp add: process_event_failed close_calls_ok assms(2))
next
  case True
  obtain e res c1 where run: "triage_run cfg env t c = (Some (e, res), c1)"
    using triage_run_created [OF True, of cfg t c] by blast
  obtain h c2 where fl: "flush_event_triage cfg env t c1 = (h, c2)" by fastforce
  note b = triage_run_books [OF True assms(2) run]
  have ok: "calls_ok c2" using flush_calls_ok [OF assms(1,3) b(1-4)] fl by simp
  then show ?thesis by (simp add: process_event_def run fl Let_def)
qed

definition writes_ok :: "(core_turn \<times> turn_env) list \<Rightarrow> bool" where
  "writes_ok hs \<longleftrightarrow> (\<forall>(turn, env)\<in>set hs. close_write_ok env \<and> flush_write_ok env)"

lemma turn_calls_ok:
  assumes "has_audit cfg" and "calls_ok c" and "writes_ok [h]" and "grows c (process_turn cfg c h)"
  shows "calls_ok (process_turn cfg c h)"
proof -
  obtain turn env where h: "h = (turn, env)" by fastforce
  show ?thesis
  proof (cases turn)
    case (Owner_Turn msg)
    have own: "process_turn cfg c h = process_owner cfg env msg c" by (simp add: h Owner_Turn process_turn_def)
    show ?thesis
    proof (cases "strip msg \<noteq> RESET_COMMAND \<and> command_result env = Not_A_Command")
      case True
      then have "process_turn cfg c h = owner_turn cfg env msg c" by (simp add: own process_owner_def)
      then show ?thesis using owner_turn_calls_ok [OF assms(2)] assms(4) by simp
    next
      case False
      then show ?thesis using close_calls_ok [OF assms(2)] assms(2)
        by (auto simp: own process_owner_def split: command_result.split)
    qed
  next
    case (Event_Turn t)
    then show ?thesis using process_event_calls_ok [OF assms(1,2)] assms(3)
      by (simp add: h process_turn_def writes_ok_def)
  next
    case (Marker off)
    then show ?thesis using assms(2)
      by (simp add: h process_turn_def)
  qed
qed

lemma run_calls_ok:
  "has_audit cfg \<Longrightarrow> calls_ok c \<Longrightarrow> writes_ok hs \<Longrightarrow> stats_only_grow cfg c hs \<Longrightarrow> calls_ok (core_run cfg c hs)"
  by (induction hs arbitrary: c) (auto simp: turn_calls_ok writes_ok_def)

text \<open>
  C6. No tool call of a session is lost or recorded twice, however many records the session
  has (a triage, then each stretch of follow-up conversation): provided the audit writes
  succeed and the statistics the session reports only grow, the records of a session, once it
  is closed, hold its tool calls exactly once and in order.
\<close>

theorem session_calls_are_recorded_once:
  assumes "has_audit cfg" and "writes_ok hs" and "stats_only_grow cfg (new_core g) hs"
    and "cur_session (core_run cfg (new_core g) hs) = Some s"
  shows "recorded_calls s (close_session cfg True (core_run cfg (new_core g) hs)) =
    calls_of (cur_stats (core_run cfg (new_core g) hs))"
proof -
  have "calls_ok (new_core g)" by (simp add: calls_ok_def new_core_def)
  then show ?thesis using close_records_all [OF run_calls_ok [OF assms(1)]] assms by blast
qed

section \<open>Releases\<close>

definition release_of :: "core_cfg \<Rightarrow> core_turn \<times> turn_env \<Rightarrow> str list" where
  "release_of cfg h =
     (case fst h of
        Event_Turn t \<Rightarrow>
          (case tn_held_release t of
             None \<Rightarrow> []
           | Some r \<Rightarrow> if create_ok (snd h) \<and> has_release_sink cfg \<and>
                           (flush_write_ok (snd h) \<or> \<not> has_audit cfg)
                        then [hr_window_id r] else [])
      | _ \<Rightarrow> [])"

lemma releases_step: "releases (process_turn cfg c h) = releases c @ release_of cfg h"
proof (cases "fst h")
  case (Owner_Turn msg)
  then show ?thesis using process_owner_durability [of c cfg "snd h" msg]
    by (simp add: process_turn_def release_of_def same_durability_def)
next
  case (Event_Turn t)
  show ?thesis
  proof (cases "create_ok (snd h)")
    case True
    then show ?thesis using process_event_created(5) [OF True refl, of cfg t c] Event_Turn
      by (simp add: process_turn_def release_of_def split: option.split)
  next
    case False
    then show ?thesis using process_event_failed [OF False, of cfg t c] Event_Turn
      by (simp add: process_turn_def release_of_def close_session_keeps split: option.split)
  qed
qed (simp add: process_turn_def release_of_def advance_checkpoint_def)

text \<open>
  A maintenance window is marked released exactly for the triages of its release whose
  session ran and whose record was durable (or when no audit log is configured), once per such
  triage and in the order of the turns; a window that is not marked is released again after a
  restart.
\<close>

theorem releases_follow_durable_triages:
  "releases (core_run cfg (new_core g) hs) = concat (map (release_of cfg) hs)"
proof (induction hs rule: rev_induct)
  case Nil
  then show ?case by (simp add: new_core_def)
next
  case (snoc h hs)
  then show ?case by (simp add: releases_step)
qed

section \<open>What a turn sends\<close>

definition session_ready :: "core_cfg \<Rightarrow> turn_env \<Rightarrow> core \<Rightarrow> bool" where
  "session_ready cfg env c \<longleftrightarrow> create_ok env \<or>
     cur_session c \<noteq> None \<and> \<not> (\<exists>t. last_activity c = Some t \<and> now_at env - t > idle_timeout cfg)"

lemma ensure_ready_iff: "fst (ensure_session cfg env tr c) \<longleftrightarrow> session_ready cfg env c"
  by (auto simp: ensure_session_def session_ready_def Let_def split: option.split)

definition owner_reply :: "core_cfg \<Rightarrow> turn_env \<Rightarrow> str \<Rightarrow> core \<Rightarrow> str list" where
  "owner_reply cfg env msg c =
     (if strip msg = RESET_COMMAND then [RESET_CONFIRMATION]
      else case command_result env of
        Command_Reply r \<Rightarrow> [r]
      | Command_Raised \<Rightarrow> [error_reply cfg]
      | Not_A_Command \<Rightarrow>
          if \<not> session_ready cfg env c then [error_reply cfg]
          else (case run_result env of
              None \<Rightarrow> [error_reply cfg]
            | Some reply \<Rightarrow>
                if te_outcome (classify_ending (run_signals env) False (Some reply)) = ERROR then [error_reply cfg]
                else if reply = [] then [] else [reply]))"

lemma out_owner_turn:
  assumes "strip msg \<noteq> RESET_COMMAND" and "command_result env = Not_A_Command"
  shows "out (owner_turn cfg env msg c) = out c @ map Reply (owner_reply cfg env msg c)"
proof -
  note ens = ensure_session_keeps(3) [where cfg = cfg and env = env and tr = "cps ''owner-message''" and c = c]
    ensure_ready_iff [where cfg = cfg and env = env and tr = "cps ''owner-message''" and c = c]
  have run: "out c3 = out c \<and> res = run_result env" if "ensure_session cfg env (cps ''owner-message'') c = (True, c1)"
    "owner_content cfg env msg c1 = (content, c2)" "run_framed cfg env OWNER True content c2 = (res, c3)"
    for c1 content c2 res c3
    using outside_eqs(7) [OF outside_owner_content, of cfg env msg c1] run_framed_result [of cfg env OWNER True content c2]
      outside_eqs(7) [OF outside_run_framed, of cfg env OWNER True content c2] that ens(1) by simp
  have up: "out (upd_acc f d) = out d" for f d by (simp add: upd_acc_def)
  show ?thesis
  proof (cases rule: owner_turn_cases [of cfg env c msg])
    case (unready c1)
    then show ?thesis using ens assms by (simp add: owner_reply_def say_def up)
  next
    case (raised c1 content c2 c3)
    then show ?thesis using ens(2) run [OF raised(1-3)] assms by (simp add: owner_reply_def say_def up)
  next
    case (answered c1 content c2 c3 reply f)
    have "out c3 = out c" "run_result env = Some reply" using run [OF answered(1-3)] by simp_all
    moreover have "session_ready cfg env c" using ens(2) answered(1) by simp
    ultimately show ?thesis unfolding answered(5) using assms
      by (simp add: owner_reply_def say_def up Let_def)
  qed
qed

lemma out_process_owner:
  "out (process_owner cfg env msg c) = out c @ map Reply (owner_reply cfg env msg c)"
  using out_owner_turn [of msg env cfg c]
  by (auto simp: process_owner_def owner_reply_def say_def close_session_keeps split: command_result.split)

definition announcement :: "core_cfg \<Rightarrow> turn_env \<Rightarrow> event_turn \<Rightarrow> bool \<Rightarrow> str" where
  "announcement cfg env t published =
     (let e = classify_ending (run_signals env) (run_result env = None) (run_result env)
      in with_release_line cfg (with_suppressed_note
           (if te_outcome e = COMPLETED then (case run_result env of None \<Rightarrow> [] | Some r \<Rightarrow> r)
            else incomplete_triage_notice t e published) t) t)"


theorem session_calls_are_recorded_once_witness:
  "recorded_calls 0 (close_session sample_core_cfg True
     (core_run sample_core_cfg (new_core (new_gate False)) [(Event_Turn sample_turn, sample_env)])) = [sample_call]"
proof -
  let ?hs = "[(Event_Turn sample_turn, sample_env)]"
  let ?c = "core_run sample_core_cfg (new_core (new_gate False)) ?hs"
  have c: "?c = process_event sample_core_cfg sample_env sample_turn (new_core (new_gate False))"
    by (simp add: process_turn_def)
  have "cur_session ?c = Some 0"
    unfolding c using process_event_created(7) [of sample_env _ sample_core_cfg sample_turn, OF _ refl]
    by (simp add: new_core_def)
  moreover have "calls_of (cur_stats ?c) = [sample_call]"
    unfolding c by (simp add: process_event_def triage_run_def Let_def split_beta start_event_session_def flush_keeps
        split: option.split) (simp add: sample_env_def sample_stats_def calls_of_def)
  moreover have "stats_only_grow sample_core_cfg (new_core (new_gate False)) ?hs"
    by (simp add: grows_def new_core_def calls_of_def)
  moreover have "writes_ok ?hs" by (simp add: writes_ok_def)
  ultimately show ?thesis
    using session_calls_are_recorded_once [of sample_core_cfg ?hs "new_gate False" 0] by simp
qed

end
