(* ===== verification/Civil.thy ===== *)
theory Civil
  imports Prelude
begin

text \<open>
  Naive local readings as the standard library's \<open>datetime\<close> computes them: the proleptic
  Gregorian calendar with its day ordinals, a reading as a count of seconds on the local
  clock, and the conversions between the two, which are inverse to each other on valid
  readings.
\<close>

section \<open>The calendar\<close>

definition leap_year :: "int \<Rightarrow> bool" where
  "leap_year y \<longleftrightarrow> y mod 4 = 0 \<and> (y mod 100 \<noteq> 0 \<or> y mod 400 = 0)"

definition days_before_year :: "int \<Rightarrow> int" where
  "days_before_year y = (let k = y - 1 in k * 365 + k div 4 - k div 100 + k div 400)"

definition days_in_month :: "bool \<Rightarrow> int \<Rightarrow> int" where
  "days_in_month leap m =
     (if m = 2 then (if leap then 29 else 28)
      else if m \<in> {4, 6, 9, 11} then 30 else 31)"

definition days_before_month :: "bool \<Rightarrow> int \<Rightarrow> int" where
  "days_before_month leap m =
     [0, 31, 59, 90, 120, 151, 181, 212, 243, 273, 304, 334] ! nat (m - 1) +
     (if 2 < m \<and> leap then 1 else 0)"

definition ymd_to_ord :: "int \<Rightarrow> int \<Rightarrow> int \<Rightarrow> int" where
  "ymd_to_ord y m d = days_before_year y + days_before_month (leap_year y) m + d"

definition month_and_day :: "bool \<Rightarrow> int \<Rightarrow> int \<times> int" where
  "month_and_day leap n =
     (let m = (n + 50) div 32; before = days_before_month leap m
      in if n < before
         then (m - 1, n - (before - days_in_month leap (m - 1)) + 1)
         else (m, n - before + 1))"

definition ord_to_ymd :: "int \<Rightarrow> int \<times> int \<times> int" where
  "ord_to_ymd ord =
     (let n0 = ord - 1; n400 = n0 div 146097; n1 = n0 mod 146097;
          n100 = n1 div 36524; n2 = n1 mod 36524; n4 = n2 div 1461; n3 = n2 mod 1461;
          n1y = n3 div 365; n = n3 mod 365;
          y = n400 * 400 + 1 + n100 * 100 + n4 * 4 + n1y
      in if n1y = 4 \<or> n100 = 4 then (y - 1, 12, 31)
         else (y, month_and_day (n1y = 3 \<and> (n4 \<noteq> 24 \<or> n100 = 3)) n))"

definition valid_date :: "int \<Rightarrow> int \<Rightarrow> int \<Rightarrow> bool" where
  "valid_date y m d \<longleftrightarrow> 1 \<le> y \<and> y \<le> 9999 \<and> 1 \<le> m \<and> m \<le> 12 \<and> 1 \<le> d \<and> d \<le> days_in_month (leap_year y) m"

lemma month_table:
  "list_all (\<lambda>leap. list_all (\<lambda>m. list_all (\<lambda>d.
      let n = days_before_month leap m + d - 1
      in month_and_day leap n = (m, d) \<and> 0 \<le> n \<and> (n \<le> 364 \<or> leap \<and> n = 365 \<and> m = 12 \<and> d = 31))
    [1..days_in_month leap m]) [1..12]) [False, True]"
  by code_simp

lemma month_and_day_inverse:
  assumes "1 \<le> m" "m \<le> 12" "1 \<le> d" "d \<le> days_in_month leap m"
  defines "n \<equiv> days_before_month leap m + d - 1"
  shows "month_and_day leap n = (m, d)" and "0 \<le> n" and "n \<le> 364 \<or> leap \<and> n = 365 \<and> m = 12 \<and> d = 31"
proof -
  have "leap \<in> set [False, True]" "m \<in> set [1..12]" "d \<in> set [1..days_in_month leap m]" using assms by auto
  then have "let n = days_before_month leap m + d - 1
      in month_and_day leap n = (m, d) \<and> 0 \<le> n \<and> (n \<le> 364 \<or> leap \<and> n = 365 \<and> m = 12 \<and> d = 31)"
    using month_table unfolding list_all_iff by blast
  then show "month_and_day leap n = (m, d)" and "0 \<le> n" and "n \<le> 364 \<or> leap \<and> n = 365 \<and> m = 12 \<and> d = 31"
    by (simp_all add: n_def Let_def)
qed

lemma div_unique: "0 \<le> r \<Longrightarrow> r < b \<Longrightarrow> (b * q + r) div b = q \<and> (b * q + r) mod b = (r :: int)"
  by (simp add: div_pos_pos_trivial)

lemma year_split:
  fixes k :: int
  obtains a b c d where "k = 400 * a + 100 * b + 4 * c + d" "0 \<le> b" "b \<le> 3" "0 \<le> c" "c \<le> 24" "0 \<le> d" "d \<le> 3"
proof -
  define r where "r = k mod 400"
  define t where "t = r mod 100"
  have r: "0 \<le> r" "r < 400" "k = 400 * (k div 400) + r" by (simp_all add: r_def)
  have t: "0 \<le> t" "t < 100" "r = 100 * (r div 100) + t" by (simp_all add: t_def)
  have "0 \<le> r div 100" "r div 100 \<le> 3" "0 \<le> t div 4" "t div 4 \<le> 24" using r t by auto
  moreover have "t = 4 * (t div 4) + t mod 4" "0 \<le> t mod 4" "t mod 4 \<le> 3"
    using pos_mod_bound [of 4 t] by auto
  moreover have "k = 400 * (k div 400) + 100 * (r div 100) + 4 * (t div 4) + t mod 4" using r(3) t(3) by simp
  ultimately show ?thesis using that by blast
qed

lemma mod_zero_at_top: "1 \<le> x \<Longrightarrow> x \<le> m \<Longrightarrow> (m * q + x) mod m = 0 \<longleftrightarrow> x = (m :: int)"
  using mod_pos_pos_trivial [of x m] by (cases "x = m") auto

lemma days_before_split:
  assumes "y - 1 = 400 * a + 100 * b + 4 * c + d" "0 \<le> b" "b \<le> 3" "0 \<le> c" "c \<le> 24" "0 \<le> d" "d \<le> 3"
  shows "days_before_year y = 146097 * a + 36524 * b + 1461 * c + 365 * d"
    and "leap_year y \<longleftrightarrow> d = 3 \<and> (c \<noteq> 24 \<or> b = 3)"
proof -
  let ?k = "y - 1"
  have "?k = 4 * (100 * a + 25 * b + c) + d" "?k = 100 * (4 * a + b) + (4 * c + d)"
    "?k = 400 * a + (100 * b + 4 * c + d)" using assms(1) by simp_all
  then have "?k div 4 = 100 * a + 25 * b + c" "?k div 100 = 4 * a + b" "?k div 400 = a"
    using div_unique [of d 4 "100 * a + 25 * b + c"] div_unique [of "4 * c + d" 100 "4 * a + b"]
      div_unique [of "100 * b + 4 * c + d" 400 a] assms by auto
  then show "days_before_year y = 146097 * a + 36524 * b + 1461 * c + 365 * d"
    using assms(1) by (simp add: days_before_year_def Let_def)
  have y: "y = 4 * (100 * a + 25 * b + c) + (d + 1)" "y = 100 * (4 * a + b) + (4 * c + d + 1)"
    "y = 400 * a + (100 * b + 4 * c + d + 1)" using assms(1) by simp_all
  have "y mod 4 = 0 \<longleftrightarrow> d + 1 = 4" unfolding y(1) using assms by (intro mod_zero_at_top) auto
  moreover have "y mod 100 = 0 \<longleftrightarrow> 4 * c + d + 1 = 100" unfolding y(2) using assms by (intro mod_zero_at_top) auto
  moreover have "y mod 400 = 0 \<longleftrightarrow> 100 * b + 4 * c + d + 1 = 400"
    unfolding y(3) using assms by (intro mod_zero_at_top) auto
  moreover have "4 * c + d + 1 = 100 \<longleftrightarrow> c = 24 \<and> d = 3" "100 * b + 4 * c + d + 1 = 400 \<longleftrightarrow> b = 3 \<and> c = 24 \<and> d = 3"
    using assms(2-) by presburger+
  ultimately show "leap_year y \<longleftrightarrow> d = 3 \<and> (c \<noteq> 24 \<or> b = 3)" by (auto simp: leap_year_def)
qed

lemma ord_to_ymd_inverse:
  assumes "valid_date y m dy"
  shows "ord_to_ymd (ymd_to_ord y m dy) = (y, m, dy)"
proof -
  obtain a b c d where k: "y - 1 = 400 * a + 100 * b + 4 * c + d" "0 \<le> b" "b \<le> 3" "0 \<le> c" "c \<le> 24"
      "0 \<le> d" "d \<le> 3" using year_split [of "y - 1"] by metis
  note dbs = days_before_split [OF k]
  define leap where "leap = leap_year y"
  define n where "n = days_before_month leap m + dy - 1"
  have md: "1 \<le> m" "m \<le> 12" "1 \<le> dy" "dy \<le> days_in_month leap m" using assms by (auto simp: valid_date_def leap_def)
  note mon = month_and_day_inverse [OF md, folded n_def]
  define o' where "o' = ymd_to_ord y m dy"
  have ord: "o' - 1 = 146097 * a + (36524 * b + (1461 * c + (365 * d + n)))"
    using dbs(1) by (simp add: o'_def ymd_to_ord_def n_def leap_def)
  have n365: "n = 365 \<Longrightarrow> d = 3 \<and> (c \<noteq> 24 \<or> b = 3)" using mon(3) dbs(2) leap_def by auto
  have n400: "(o' - 1) div 146097 = a"
    "(o' - 1) mod 146097 = 36524 * b + (1461 * c + (365 * d + n))"
    unfolding ord using k mon(2,3) by (auto intro!: div_unique [THEN conjunct1] div_unique [THEN conjunct2])
  have "ord_to_ymd o' = (y, m, dy)"
  proof (cases "n = 365")
    case False
    then have n: "0 \<le> n" "n < 365" using mon(2,3) by auto
    have n100: "(1461 * c + (365 * d + n)) div 36524 = 0"
      "(1461 * c + (365 * d + n)) mod 36524 = 1461 * c + (365 * d + n)"
      by (rule div_pos_pos_trivial mod_pos_pos_trivial; use k n in linarith)+
    have n4: "(365 * d + n) div 1461 = 0" "(365 * d + n) mod 1461 = 365 * d + n"
      by (rule div_pos_pos_trivial mod_pos_pos_trivial; use k n in linarith)+
    have n1: "n div 365 = 0" "n mod 365 = n" using n by auto
    have "leap \<longleftrightarrow> d = 3 \<and> (c \<noteq> 24 \<or> b = 3)" using dbs(2) leap_def by simp
    then show ?thesis using k mon(1) n by (simp add: ord_to_ymd_def Let_def n400 n100 n4 n1)
  next
    case True
    then have last: "d = 3" "c \<noteq> 24 \<or> b = 3" "m = 12" "dy = 31" using n365 mon(3) by auto
    show ?thesis
    proof (cases "c = 24")
      case True
      then have "b = 3" using last(2) by simp
      then show ?thesis using k last \<open>n = 365\<close> True by (simp add: ord_to_ymd_def Let_def n400)
    next
      case False
      have n100: "(1461 * c + 1460) div 36524 = 0" "(1461 * c + 1460) mod 36524 = 1461 * c + 1460"
        by (rule div_pos_pos_trivial mod_pos_pos_trivial; use k False in linarith)+
      have n4: "(1461 * c + 1460) div 1461 = c" "(1461 * c + 1460) mod 1461 = 1460"
        using div_unique [of 1460 1461 c] by auto
      show ?thesis using k last \<open>n = 365\<close> by (simp add: ord_to_ymd_def Let_def n400 n100 n4)
    qed
  qed
  then show ?thesis by (simp add: o'_def)
qed

section \<open>Readings\<close>

text \<open>A naive \<open>datetime\<close>, and the same reading as whole seconds on the local clock.\<close>

record naive =
  nv_year :: int
  nv_month :: int
  nv_day :: int
  nv_hour :: int
  nv_minute :: int
  nv_second :: int
  nv_micro :: int

definition valid_naive :: "naive \<Rightarrow> bool" where
  "valid_naive n \<longleftrightarrow>
     valid_date (nv_year n) (nv_month n) (nv_day n) \<and> 0 \<le> nv_hour n \<and> nv_hour n < 24 \<and>
     0 \<le> nv_minute n \<and> nv_minute n < 60 \<and> 0 \<le> nv_second n \<and> nv_second n < 60 \<and>
     0 \<le> nv_micro n \<and> nv_micro n < 1000000"

definition EPOCH_ORD :: int where "EPOCH_ORD = 719163"

definition wall_of :: "naive \<Rightarrow> int" where
  "wall_of n = (ymd_to_ord (nv_year n) (nv_month n) (nv_day n) - EPOCH_ORD) * 86400 +
     nv_hour n * 3600 + nv_minute n * 60 + nv_second n"

definition naive_at :: "int \<Rightarrow> int \<Rightarrow> naive" where
  "naive_at w micro =
     (let (y, m, d) = ord_to_ymd (w div 86400 + EPOCH_ORD); s = w mod 86400
      in \<lparr>nv_year = y, nv_month = m, nv_day = d, nv_hour = s div 3600, nv_minute = s mod 3600 div 60,
          nv_second = s mod 60, nv_micro = micro\<rparr>)"

lemma naive_at_wall_of:
  assumes "valid_naive n"
  shows "naive_at (wall_of n) (nv_micro n) = n"
proof -
  define o' where "o' = ymd_to_ord (nv_year n) (nv_month n) (nv_day n)"
  define s where "s = nv_hour n * 3600 + nv_minute n * 60 + nv_second n"
  have b: "0 \<le> nv_hour n" "nv_hour n < 24" "0 \<le> nv_minute n" "nv_minute n < 60" "0 \<le> nv_second n" "nv_second n < 60"
    using assms by (auto simp: valid_naive_def)
  then have s: "0 \<le> s" "s < 86400" by (auto simp: s_def)
  have "wall_of n = 86400 * (o' - EPOCH_ORD) + s" by (simp add: wall_of_def o'_def s_def)
  then have w: "wall_of n div 86400 + EPOCH_ORD = o'" "wall_of n mod 86400 = s"
    using div_unique [OF s, of "o' - EPOCH_ORD"] by auto
  have e: "s = 3600 * nv_hour n + (60 * nv_minute n + nv_second n)" "s = 60 * (60 * nv_hour n + nv_minute n) + nv_second n"
    by (simp_all add: s_def)
  have "s div 3600 = nv_hour n \<and> s mod 3600 = 60 * nv_minute n + nv_second n"
    unfolding e(1) by (rule div_unique; use b in linarith)
  moreover have "s mod 60 = nv_second n" unfolding e(2) using div_unique b by blast
  moreover have "(60 * nv_minute n + nv_second n) div 60 = nv_minute n"
    using div_unique [of "nv_second n" 60 "nv_minute n"] b by auto
  ultimately have "s div 3600 = nv_hour n" "s mod 3600 div 60 = nv_minute n" "s mod 60 = nv_second n"
    by simp_all
  moreover have "ord_to_ymd o' = (nv_year n, nv_month n, nv_day n)"
    using assms ord_to_ymd_inverse by (simp add: o'_def valid_naive_def)
  ultimately show ?thesis by (simp add: naive_at_def w Let_def)
qed

definition weekday :: "int \<Rightarrow> int" where
  "weekday w = (w div 86400 + EPOCH_ORD + 6) mod 7"

end
