(* ===== verification/Zone.thy ===== *)
theory Zone
  imports Civil
begin

text \<open>
  The owner's time zone as \<open>zoneinfo\<close> reads it: an initial offset and the list of its
  transitions, looked up by instant (\<open>fromtimestamp\<close>) and by local reading with a fold
  (\<open>utcoffset\<close>, \<open>timestamp\<close>); and the two functions of \<open>henk/reminders/timeparse.py\<close> that deal
  with its transitions, \<open>classify_local\<close> and \<open>gap_neighbours\<close>. Instants and readings are whole
  seconds here; a fraction of a second passes through both lookups unchanged.
\<close>

section \<open>Lookups\<close>

record tti =
  off :: int
  abbr :: "str option"

record zone =
  zone_key :: str
  zone_first :: tti
  zone_trans :: "(int \<times> tti) list"

text \<open>The transition in force: the last one at or before the instant.\<close>

fun in_force :: "int \<Rightarrow> tti \<Rightarrow> (int \<times> tti) list \<Rightarrow> tti" where
  "in_force u cur [] = cur"
| "in_force u cur ((t, n) # ts) = (if t \<le> u then in_force u n ts else cur)"

text \<open>
  The one a local reading selects: \<open>zoneinfo\<close> compares the reading with each transition shown
  on the later of the two clocks for \<open>fold=0\<close> and on the earlier one for \<open>fold=1\<close>.
\<close>

fun in_force_local :: "bool \<Rightarrow> int \<Rightarrow> tti \<Rightarrow> (int \<times> tti) list \<Rightarrow> tti" where
  "in_force_local late w cur [] = cur"
| "in_force_local late w cur ((t, n) # ts) =
     (if t + (if late then min (off cur) (off n) else max (off cur) (off n)) \<le> w
      then in_force_local late w n ts else cur)"

definition tti_at :: "zone \<Rightarrow> int \<Rightarrow> tti" where
  "tti_at z u = in_force u (zone_first z) (zone_trans z)"

definition local_at :: "zone \<Rightarrow> int \<Rightarrow> int" where
  "local_at z u = u + off (tti_at z u)"

definition utcoffset :: "zone \<Rightarrow> int \<Rightarrow> bool \<Rightarrow> int" where
  "utcoffset z w late = off (in_force_local late w (zone_first z) (zone_trans z))"

definition timestamp :: "zone \<Rightarrow> int \<Rightarrow> bool \<Rightarrow> int" where
  "timestamp z w late = w - utcoffset z w late"

section \<open>Classification and gaps\<close>

datatype reading_kind = NORMAL | IMAGINARY | AMBIGUOUS

definition classify_local :: "zone \<Rightarrow> int \<Rightarrow> reading_kind" where
  "classify_local z w =
     (if utcoffset z w False = utcoffset z w True then NORMAL
      else if local_at z (timestamp z w False) = w then AMBIGUOUS else IMAGINARY)"

function bisect_gap :: "zone \<Rightarrow> int \<Rightarrow> int \<Rightarrow> int \<Rightarrow> int" where
  "bisect_gap z after low high =
     (if low + 1 < high then
        (let mid = (low + high) div 2
         in if off (tti_at z mid) = after then bisect_gap z after low mid else bisect_gap z after mid high)
      else high)"
  by auto
termination
  by (relation "measure (\<lambda>(z, after, low, high). nat (high - low))") auto

declare bisect_gap.simps [simp del]

text \<open>\<open>int(timestamp())\<close> cuts a fraction off towards zero.\<close>

definition int_timestamp :: "zone \<Rightarrow> int \<Rightarrow> int \<Rightarrow> bool \<Rightarrow> int" where
  "int_timestamp z w micro late =
     (if timestamp z w late < 0 \<and> 0 < micro then timestamp z w late + 1 else timestamp z w late)"

definition gap_transition :: "zone \<Rightarrow> int \<Rightarrow> int \<Rightarrow> int" where
  "gap_transition z w micro =
     bisect_gap z (utcoffset z w True) (int_timestamp z w micro True) (int_timestamp z w micro False)"

definition gap_neighbours :: "zone \<Rightarrow> int \<Rightarrow> int \<Rightarrow> int \<times> int" where
  "gap_neighbours z w micro =
     (let t = gap_transition z w micro in (local_at z (t - 60), local_at z t))"

section \<open>Zones\<close>

text \<open>
  What the time zone data guarantee: the transitions are ordered, and two in a row are further
  apart than the clock jumps at them and a minute.
\<close>

fun spaced :: "int \<Rightarrow> int \<Rightarrow> (int \<times> tti) list \<Rightarrow> bool" where
  "spaced a b [] = True"   \<comment> \<open>the offsets before and after the last transition\<close>
| "spaced a b [(t, n)] = True"
| "spaced a b ((t, n) # (t', n') # ts) =
     (\<bar>off n - b\<bar> + \<bar>off n' - off n\<bar> + 60 < t' - t \<and> spaced b (off n) ((t', n') # ts))"

text \<open>One transition in front of the list, seen from either side.\<close>

definition zone_ok :: "zone \<Rightarrow> bool" where
  "zone_ok z \<longleftrightarrow> spaced (off (zone_first z)) (off (zone_first z)) (zone_trans z)"

lemma spaced_first: "spaced a b ts = spaced a' b ts"
  by (cases "(a, b, ts)" rule: spaced.cases) simp_all

lemma spaced_tail: "spaced a b ((t, n) # ts) \<Longrightarrow> spaced c (off n) ts"
  by (cases ts) (auto intro: spaced_first [THEN iffD1])

lemma spaced_next:
  "spaced a b ((t, n) # (t', n') # ts) \<Longrightarrow> \<bar>off n - b\<bar> + \<bar>off n' - off n\<bar> + 60 < t' - t"
  by simp

text \<open>From a transition on, the local clock never shows less than just after it.\<close>

lemma after_transition:
  "spaced a b ((t, n) # ts) \<Longrightarrow> t \<le> u \<Longrightarrow> t + off n \<le> u + off (in_force u n ts)"
proof (induction ts arbitrary: a b t n)
  case Nil
  then show ?case by simp
next
  case (Cons p ts)
  obtain t' n' where p: "p = (t', n')" by fastforce
  show ?case
  proof (cases "t' \<le> u")
    case False
    then show ?thesis using Cons.prems by (simp add: p)
  next
    case True
    have sp: "\<bar>off n - b\<bar> + \<bar>off n' - off n\<bar> + 60 < t' - t" "spaced b (off n) ((t', n') # ts)"
      using Cons.prems(1) by (simp_all add: p)
    have "t' + off n' \<le> u + off (in_force u n' ts)" by (rule Cons.IH [OF sp(2) True])
    then show ?thesis using True sp(1) by (simp add: p)
  qed
qed

text \<open>The instants that show a reading, from a point where \<open>cur\<close> is in force.\<close>

definition shows_at :: "tti \<Rightarrow> (int \<times> tti) list \<Rightarrow> int \<Rightarrow> int set" where
  "shows_at cur ts w = {u. u + off (in_force u cur ts) = w}"

lemma shows_Cons:
  "shows_at cur ((t, n) # ts) w =
     {u. u < t \<and> u + off cur = w} \<union> {u \<in> shows_at n ts w. t \<le> u}"
  by (auto simp: shows_at_def)

lemma shows_before: "spaced a b ((t, n) # ts) \<Longrightarrow> w < t + off n \<Longrightarrow> {u \<in> shows_at n ts w. t \<le> u} = {}"
  using after_transition [of a b t n ts] by (fastforce simp: shows_at_def)

lemma shows_late:
  assumes "spaced a b ((t, n) # ts)" and "t + max b (off n) \<le> w"
  shows "{u \<in> shows_at n ts w. t \<le> u} = shows_at n ts w"
proof -
  have "t \<le> u" if "u + off (in_force u n ts) = w" for u
  proof (rule ccontr)
    assume u: "\<not> t \<le> u"
    then have "in_force u n ts = n" using assms(1) by (cases ts) auto
    then show False using that u assms(2) by simp
  qed
  then show ?thesis by (auto simp: shows_at_def)
qed

text \<open>
  What the two folds select, and the instants there are: past both clocks of a transition one
  goes on with the rest of the list; before both, and in between, this transition decides.
\<close>

lemma fold_cases:
  assumes "spaced (off cur) (off cur) ((t, n) # ts)"
  shows "t + max (off cur) (off n) \<le> w \<Longrightarrow>
      in_force_local late w cur ((t, n) # ts) = in_force_local late w n ts \<and>
      shows_at cur ((t, n) # ts) w = shows_at n ts w"
    and "w < t + min (off cur) (off n) \<Longrightarrow>
      in_force_local late w cur ((t, n) # ts) = cur \<and> shows_at cur ((t, n) # ts) w = {w - off cur}"
    and "t + min (off cur) (off n) \<le> w \<Longrightarrow> w < t + max (off cur) (off n) \<Longrightarrow>
      in_force_local False w cur ((t, n) # ts) = cur \<and> in_force_local True w cur ((t, n) # ts) = n \<and>
      shows_at cur ((t, n) # ts) w = (if off n < off cur then {w - off cur, w - off n} else {})"
proof -
  show "in_force_local late w cur ((t, n) # ts) = in_force_local late w n ts \<and>
      shows_at cur ((t, n) # ts) w = shows_at n ts w" if w: "t + max (off cur) (off n) \<le> w"
  proof -
    have "{u. u < t \<and> u + off cur = w} = {}" using w by auto
    moreover have "t + (if late then min (off cur) (off n) else max (off cur) (off n)) \<le> w"
      using w by (cases late) (simp_all add: min_def max_def split: if_splits)
    ultimately show ?thesis by (simp only: shows_Cons shows_late [OF assms w] in_force_local.simps if_True) simp
  qed
  show "in_force_local late w cur ((t, n) # ts) = cur \<and> shows_at cur ((t, n) # ts) w = {w - off cur}"
    if w: "w < t + min (off cur) (off n)"
  proof -
    have "{u \<in> shows_at n ts w. t \<le> u} = {}" by (rule shows_before [OF assms]) (use w in simp)
    moreover have "{u. u < t \<and> u + off cur = w} = {w - off cur}" using w by auto
    moreover have "\<not> t + (if late then min (off cur) (off n) else max (off cur) (off n)) \<le> w"
      using w by (cases late) (simp_all add: min_def max_def split: if_splits)
    ultimately show ?thesis by (simp only: shows_Cons in_force_local.simps if_False) simp
  qed
  assume w: "t + min (off cur) (off n) \<le> w" "w < t + max (off cur) (off n)"
  have n: "in_force_local True w n ts = n"
  proof (cases ts)
    case (Cons q ts')
    obtain t' n' where q: "q = (t', n')" by fastforce
    have "\<bar>off n - off cur\<bar> + \<bar>off n' - off n\<bar> + 60 < t' - t" using assms by (simp add: Cons q)
    then have "\<not> t' + min (off n) (off n') \<le> w" using w by linarith
    then show ?thesis by (simp add: Cons q)
  qed simp
  have "shows_at cur ((t, n) # ts) w = (if off n < off cur then {w - off cur, w - off n} else {})"
  proof (cases "off n < off cur")
    case False
    have "{u \<in> shows_at n ts w. t \<le> u} = {}" by (rule shows_before [OF assms]) (use w False in simp)
    moreover have "{u. u < t \<and> u + off cur = w} = {}" using w False by auto
    ultimately show ?thesis using False by (simp only: shows_Cons if_False) simp
  next
    case True
    have n: "in_force (w - off n) n ts = n"
    proof (cases ts)
      case (Cons q ts')
      obtain t' n' where q: "q = (t', n')" by fastforce
      have "\<bar>off n - off cur\<bar> + \<bar>off n' - off n\<bar> + 60 < t' - t" using assms by (simp add: Cons q)
      then have "\<not> t' \<le> w - off n" using w True by simp
      then show ?thesis by (simp add: Cons q)
    qed simp
    have "{u \<in> shows_at n ts w. t \<le> u} = {w - off n}"
    proof (intro equalityI subsetI)
      fix u assume u: "u \<in> {u \<in> shows_at n ts w. t \<le> u}"
      have "in_force u n ts = n"
      proof (cases ts)
        case (Cons p ts')
        obtain t' n' where p: "p = (t', n')" by fastforce
        show ?thesis
        proof (cases "t' \<le> u")
          case True
          have "spaced (off cur) (off n) ((t', n') # ts')" using assms Cons p by simp
          from after_transition [OF this True] have "t' + off n' \<le> w"
            using u True by (simp add: shows_at_def Cons p)
          moreover have "\<bar>off n - off cur\<bar> + \<bar>off n' - off n\<bar> + 60 < t' - t" using assms by (simp add: Cons p)
          then have "w < t' + off n'" using w \<open>off n < off cur\<close> by simp
          ultimately show ?thesis by simp
        qed (simp add: Cons p)
      qed simp
      then show "u \<in> {w - off n}" using u by (auto simp: shows_at_def)
    next
      fix u assume "u \<in> {w - off n}"
      then have u: "u = w - off n" by simp
      have "w - off n + off (in_force (w - off n) n ts) = w" unfolding n by simp
      moreover have "t \<le> w - off n" using w True by linarith
      ultimately show "u \<in> {u \<in> shows_at n ts w. t \<le> u}" unfolding u shows_at_def by blast
    qed
    moreover have "{u. u < t \<and> u + off cur = w} = {w - off cur}" using w True by auto
    ultimately show ?thesis using True by (simp only: shows_Cons if_True) blast
  qed
  then show "in_force_local False w cur ((t, n) # ts) = cur \<and> in_force_local True w cur ((t, n) # ts) = n \<and>
      shows_at cur ((t, n) # ts) w = (if off n < off cur then {w - off cur, w - off n} else {})"
    using w n by (simp only: in_force_local.simps) simp
qed

text \<open>The instants a reading has, by the offsets its two folds select.\<close>

lemma shows_by_folds:
  fixes w :: int
  assumes "spaced (off cur) (off cur) ts"
  defines "a \<equiv> off (in_force_local False w cur ts)" and "b \<equiv> off (in_force_local True w cur ts)"
  shows "shows_at cur ts w = (if a = b then {w - a} else if b < a then {w - a, w - b} else {})"
  using assms(1) unfolding a_def b_def
proof (induction ts arbitrary: cur)
  case Nil
  then show ?case by (auto simp: shows_at_def)
next
  case (Cons p ts)
  obtain t n where p: "p = (t, n)" by fastforce
  have sp: "spaced (off cur) (off cur) ((t, n) # ts)" using Cons.prems by (simp add: p)
  consider "t + max (off cur) (off n) \<le> w" | "w < t + min (off cur) (off n)"
    | "t + min (off cur) (off n) \<le> w" "w < t + max (off cur) (off n)" by linarith
  then show ?case
  proof cases
    case 1
    then show ?thesis using fold_cases(1) [OF sp 1] Cons.IH [OF spaced_tail [OF sp]] by (simp only: p)
  next
    case 2
    then show ?thesis using fold_cases(2) [OF sp 2] by (simp only: p simp_thms if_True)
  next
    case 3
    have "off cur \<noteq> off n" using 3 by auto
    then show ?thesis using fold_cases(3) [OF sp 3] by (simp only: p if_False)
  qed
qed

text \<open>The transition behind a reading that does not exist.\<close>

lemma gap_found:
  assumes "spaced (off cur) (off cur) ts" and "off (in_force_local False w cur ts) = a"
    and "off (in_force_local True w cur ts) = b" and "a < b"
  shows "\<exists>t. t + a \<le> w \<and> w < t + b \<and>
    (\<forall>u. t - (b - a) - 60 \<le> u \<and> u < t \<longrightarrow> off (in_force u cur ts) = a) \<and>
    (\<forall>u. t \<le> u \<and> u \<le> t + (b - a) \<longrightarrow> off (in_force u cur ts) = b) \<and>
    (\<forall>v. t + a \<le> v \<and> v < t + b \<longrightarrow> shows_at cur ts v = {}) \<and>
    (\<forall>t0 c. spaced c c ((t0, cur) # ts) \<longrightarrow> t0 \<le> t - (b - a) - 60 \<and> t0 + max c (off cur) \<le> t + a)"
  using assms
proof (induction ts arbitrary: cur)
  case Nil
  then show ?case by simp
next
  case (Cons p ts)
  obtain t n where p: "p = (t, n)" by fastforce
  have sp: "spaced (off cur) (off cur) ((t, n) # ts)" using Cons.prems by (simp add: p)
  consider "t + max (off cur) (off n) \<le> w" | "w < t + min (off cur) (off n)"
    | "t + min (off cur) (off n) \<le> w" "w < t + max (off cur) (off n)" by linarith
  then show ?case
  proof cases
    case 1
    have ab: "off (in_force_local False w n ts) = a" "off (in_force_local True w n ts) = b"
      using Cons.prems(2,3) fold_cases(1) [OF sp 1] by (simp_all only: p)
    obtain t1 where t1: "t1 + a \<le> w" "w < t1 + b"
      "\<forall>u. t1 - (b - a) - 60 \<le> u \<and> u < t1 \<longrightarrow> off (in_force u n ts) = a"
      "\<forall>u. t1 \<le> u \<and> u \<le> t1 + (b - a) \<longrightarrow> off (in_force u n ts) = b"
      "\<forall>v. t1 + a \<le> v \<and> v < t1 + b \<longrightarrow> shows_at n ts v = {}"
      "\<forall>t0 c. spaced c c ((t0, n) # ts) \<longrightarrow> t0 \<le> t1 - (b - a) - 60 \<and> t0 + max c (off n) \<le> t1 + a"
      using Cons.IH [OF spaced_tail [OF sp] ab Cons.prems(4)] by blast
    have t: "t \<le> t1 - (b - a) - 60" "t + max (off cur) (off n) \<le> t1 + a" using t1(6) sp by blast+
    have "shows_at cur ((t, n) # ts) v = {}" if "t1 + a \<le> v" "v < t1 + b" for v
      using t1(5) that t(2) by (auto simp: shows_Cons)
    moreover have "t0 \<le> t1 - (b - a) - 60 \<and> t0 + max c (off cur) \<le> t1 + a"
      if "spaced c c ((t0, cur) # (t, n) # ts)" for t0 c
      using spaced_next [OF that] t by (auto simp: max_def split: if_splits)
    ultimately show ?thesis using t1 t Cons.prems(4) by (intro exI [of _ t1]) (simp add: p)
  next
    case 2
    have "a = b" using fold_cases(2) [OF sp 2] Cons.prems(2,3) by (simp only: p)
    then show ?thesis using Cons.prems(4) by simp
  next
    case 3
    have ab: "a = off cur" "b = off n" using fold_cases(3) [OF sp 3] Cons.prems(2,3) by (simp_all add: p)
    have n: "in_force u n ts = n" if "u \<le> t + (b - a)" for u
    proof (cases ts)
      case (Cons q ts')
      then show ?thesis using sp that Cons.prems ab by (cases q) auto
    qed simp
    have "shows_at cur ((t, n) # ts) v = {}" if "t + a \<le> v" "v < t + b" for v
      using fold_cases(3) [OF sp, of v] that ab Cons.prems(4) by simp
    moreover have "t0 \<le> t - (b - a) - 60 \<and> t0 + max c (off cur) \<le> t + a"
      if "spaced c c ((t0, cur) # (t, n) # ts)" for t0 c
      using spaced_next [OF that] ab Cons.prems(4) by (auto simp: max_def)
    ultimately show ?thesis using 3 ab Cons.prems(4) n by (intro exI [of _ t]) (simp add: p)
  qed
qed

lemma bisect_finds:
  assumes "low < t" and "t \<le> high" and "\<And>u. low < u \<Longrightarrow> u < high \<Longrightarrow> off (tti_at z u) = b \<longleftrightarrow> t \<le> u"
  shows "bisect_gap z b low high = t"
  using assms
proof (induction z b low high rule: bisect_gap.induct)
  case (1 z b low high)
  show ?case
  proof (cases "low + 1 < high")
    case False
    then show ?thesis using "1.prems" by (simp add: bisect_gap.simps [of z b low high])
  next
    case True
    let ?mid = "(low + high) div 2"
    have mid: "low < ?mid" "?mid < high" using True by simp_all
    then have "off (tti_at z ?mid) = b \<longleftrightarrow> t \<le> ?mid" using "1.prems"(3) by blast
    then show ?thesis using "1.IH" [OF True refl] "1.prems" mid True
      by (subst bisect_gap.simps) (auto simp: Let_def)
  qed
qed

section \<open>The classification is exact\<close>

lemma shows_zone: "{u. local_at z u = w} = shows_at (zone_first z) (zone_trans z) w"
  by (simp add: local_at_def tti_at_def shows_at_def)

lemma instants_by_folds:
  assumes "zone_ok z"
  shows "{u. local_at z u = w} =
    (if utcoffset z w False = utcoffset z w True then {timestamp z w False}
     else if utcoffset z w True < utcoffset z w False then {timestamp z w False, timestamp z w True} else {})"
  unfolding shows_zone timestamp_def utcoffset_def
  using shows_by_folds assms unfolding zone_ok_def by blast

lemma classify_instants:
  assumes "zone_ok z"
  shows "classify_local z w = NORMAL \<Longrightarrow> {u. local_at z u = w} = {timestamp z w False} \<and> timestamp z w True = timestamp z w False"
    and "classify_local z w = AMBIGUOUS \<Longrightarrow> {u. local_at z u = w} = {timestamp z w False, timestamp z w True} \<and>
      timestamp z w False < timestamp z w True"
    and "classify_local z w = IMAGINARY \<Longrightarrow> {u. local_at z u = w} = {} \<and> utcoffset z w False < utcoffset z w True"
proof -
  note inst = instants_by_folds [OF assms, of w]
  have mem: "local_at z (timestamp z w False) = w \<longleftrightarrow> timestamp z w False \<in> {u. local_at z u = w}" by simp
  show "classify_local z w = NORMAL \<Longrightarrow> {u. local_at z u = w} = {timestamp z w False} \<and> timestamp z w True = timestamp z w False"
    using inst by (auto simp: classify_local_def timestamp_def split: if_splits)
  show "classify_local z w = AMBIGUOUS \<Longrightarrow> {u. local_at z u = w} = {timestamp z w False, timestamp z w True} \<and>
      timestamp z w False < timestamp z w True"
    using inst mem unfolding classify_local_def timestamp_def by (auto split: if_splits)
  show "classify_local z w = IMAGINARY \<Longrightarrow> {u. local_at z u = w} = {} \<and> utcoffset z w False < utcoffset z w True"
    using inst mem unfolding classify_local_def timestamp_def by (auto split: if_splits)
qed

text \<open>
  The two-step classification of a local reading agrees with the ground truth in every
  zone: normal means exactly one instant shows that reading, ambiguous exactly two, imaginary
  none.
\<close>

theorem classification_is_exact:
  assumes "zone_ok z"
  shows "(classify_local z w = NORMAL \<longleftrightarrow> card {u. local_at z u = w} = 1) \<and>
    (classify_local z w = AMBIGUOUS \<longleftrightarrow> card {u. local_at z u = w} = 2) \<and>
    (classify_local z w = IMAGINARY \<longleftrightarrow> {u. local_at z u = w} = {})"
proof -
  define S where "S = {u. local_at z u = w}"
  have "classify_local z w = NORMAL \<Longrightarrow> card S = 1" "classify_local z w = AMBIGUOUS \<Longrightarrow> card S = 2"
    "classify_local z w = IMAGINARY \<Longrightarrow> S = {}"
    using classify_instants [OF assms, of w, folded S_def] by (auto simp: card_insert_if)
  then show ?thesis unfolding S_def [symmetric] by (cases "classify_local z w") auto
qed

text \<open>
  C35. The bisection finds the gap a nonexistent reading falls into: the reading lies in it, no
  instant shows any reading of it, the neighbour named before is one minute before its start
  and the one named after is its end; both exist.
\<close>

theorem gap_neighbours_bracket_the_gap:
  assumes "zone_ok z" and "classify_local z w = IMAGINARY" and "micro = 0 \<or> 0 \<le> timestamp z w True"
    and "gap_neighbours z w micro = (before, after)"
  shows "before + 60 \<le> w \<and> w < after \<and> (\<forall>v. before + 60 \<le> v \<and> v < after \<longrightarrow> {u. local_at z u = v} = {}) \<and>
    {u. local_at z u = before} \<noteq> {} \<and> {u. local_at z u = after} \<noteq> {} \<and>
    after - (before + 60) = utcoffset z w True - utcoffset z w False"
proof -
  let ?a = "utcoffset z w False" and ?b = "utcoffset z w True"
  have ab: "?a < ?b" using classify_instants(3) [OF assms(1,2)] by blast
  obtain t where t: "t + ?a \<le> w" "w < t + ?b"
    "\<And>u. t - (?b - ?a) - 60 \<le> u \<Longrightarrow> u < t \<Longrightarrow> off (tti_at z u) = ?a"
    "\<And>u. t \<le> u \<Longrightarrow> u \<le> t + (?b - ?a) \<Longrightarrow> off (tti_at z u) = ?b"
    "\<And>v. t + ?a \<le> v \<Longrightarrow> v < t + ?b \<Longrightarrow> {u. local_at z u = v} = {}"
    using gap_found [of "zone_first z" "zone_trans z" w ?a ?b] assms(1) ab
    unfolding zone_ok_def utcoffset_def tti_at_def shows_zone by metis
  have "int_timestamp z w micro True = w - ?b" "int_timestamp z w micro False = w - ?a"
    using assms(3) ab by (auto simp: int_timestamp_def timestamp_def)
  then have "gap_transition z w micro = bisect_gap z ?b (w - ?b) (w - ?a)" by (simp add: gap_transition_def)
  also have "\<dots> = t"
  proof (rule bisect_finds)
    show "w - ?b < t" "t \<le> w - ?a" using t(1,2) by simp_all
    fix u assume u: "w - ?b < u" "u < w - ?a"
    show "off (tti_at z u) = ?b \<longleftrightarrow> t \<le> u"
      using t(3) [of u] t(4) [of u] u t(1,2) ab by (cases "t \<le> u") auto
  qed
  finally have na: "before = local_at z (t - 60)" "after = local_at z t"
    using assms(4) by (simp_all add: gap_neighbours_def Let_def)
  have "off (tti_at z (t - 60)) = ?a" "off (tti_at z t) = ?b" using t(3) [of "t - 60"] t(4) [of t] ab by simp_all
  then have "before + 60 = t + ?a" "after = t + ?b" using na by (simp_all add: local_at_def)
  moreover have "{u. local_at z u = before} \<noteq> {}" "{u. local_at z u = after} \<noteq> {}" using na by blast+
  ultimately show ?thesis using t(1,2,5) by auto
qed

section \<open>Amsterdam, 2026\<close>

definition amsterdam :: zone where
  "amsterdam = \<lparr>zone_key = cps ''Europe/Amsterdam'', zone_first = \<lparr>off = 3600, abbr = Some (cps ''CET'')\<rparr>,
     zone_trans = [(1774746000, \<lparr>off = 7200, abbr = Some (cps ''CEST'')\<rparr>),
                   (1792890000, \<lparr>off = 3600, abbr = Some (cps ''CET'')\<rparr>)]\<rparr>"

lemma amsterdam_ok: "zone_ok amsterdam"
  by (simp add: zone_ok_def amsterdam_def)

lemma amsterdam_readings:
  "classify_local amsterdam (1774746000 + 3600 + 1800) = IMAGINARY"
  "classify_local amsterdam (1792890000 + 3600 + 1800) = AMBIGUOUS"
  "timestamp amsterdam (1774746000 + 3600 + 1800) True = 1774744200"
  by (simp_all add: classify_local_def utcoffset_def timestamp_def local_at_def tti_at_def amsterdam_def)

theorem classification_is_exact_witness:
  "card {u. local_at amsterdam u = 1792890000 + 3600 + 1800} = 2"
  using classification_is_exact [OF amsterdam_ok, of "1792890000 + 3600 + 1800"] amsterdam_readings(2) by simp

theorem gap_neighbours_bracket_the_gap_witness:
  "fst (gap_neighbours amsterdam (1774746000 + 3600 + 1800) 0) + 60 \<le> 1774746000 + 3600 + 1800"
proof -
  obtain b a where g: "gap_neighbours amsterdam (1774746000 + 3600 + 1800) 0 = (b, a)" by fastforce
  show ?thesis using gap_neighbours_bracket_the_gap [OF amsterdam_ok amsterdam_readings(1) _ g] unfolding g by simp
qed

end
