(* ===== verification/Time_Parse.thy ===== *)
theory Time_Parse
  imports Zone "HOL-Library.Monad_Syntax"
begin

text \<open>
  \<open>henk/reminders/timeparse.py\<close>: the whitelist of accepted forms, the resolver that turns a
  submitted time into an instant or a rejection, and the rendering of an instant. An instant is
  epoch seconds with a fraction; a local reading is whole seconds on the local clock and a
  fraction in microseconds. The log line of a rejection (and the reason it carries) is left out.
\<close>

section \<open>The grammar\<close>

text \<open>
  \<open>\d\<close> and \<open>int()\<close> accept every Unicode decimal digit: the parameter \<open>dg\<close> gives the value of one.
\<close>

fun take_digits :: "(nat \<Rightarrow> int option) \<Rightarrow> nat \<Rightarrow> int \<Rightarrow> str \<Rightarrow> (int \<times> str) option" where
  "take_digits dg 0 acc s = Some (acc, s)"
| "take_digits dg (Suc k) acc [] = None"
| "take_digits dg (Suc k) acc (c # cs) =
     (case dg c of None \<Rightarrow> None | Some v \<Rightarrow> take_digits dg k (acc * 10 + v) cs)"

fun digits_upto :: "(nat \<Rightarrow> int option) \<Rightarrow> nat \<Rightarrow> str \<Rightarrow> int list \<times> str" where
  "digits_upto dg 0 s = ([], s)"
| "digits_upto dg (Suc k) [] = ([], [])"
| "digits_upto dg (Suc k) (c # cs) =
     (case dg c of None \<Rightarrow> ([], c # cs)
      | Some v \<Rightarrow> (let (vs, r) = digits_upto dg k cs in (v # vs, r)))"

definition value_of :: "int list \<Rightarrow> int" where
  "value_of vs = foldl (\<lambda>acc v. acc * 10 + v) 0 vs"

fun one_of :: "nat list \<Rightarrow> str \<Rightarrow> str option" where
  "one_of cs [] = None"
| "one_of cs (x # xs) = (if x \<in> set cs then Some xs else None)"

definition date_part :: "(nat \<Rightarrow> int option) \<Rightarrow> str \<Rightarrow> ((int \<times> int \<times> int) \<times> str) option" where
  "date_part dg s = do {
     (y, s1) \<leftarrow> take_digits dg 4 0 s; s2 \<leftarrow> one_of [45] s1;
     (m, s3) \<leftarrow> take_digits dg 2 0 s2; s4 \<leftarrow> one_of [45] s3;
     (d, s5) \<leftarrow> take_digits dg 2 0 s4;
     Some ((y, m, d), s5) }"

definition clock_part :: "(nat \<Rightarrow> int option) \<Rightarrow> str \<Rightarrow> ((int \<times> int) \<times> str) option" where
  "clock_part dg s = do {
     (h, s1) \<leftarrow> take_digits dg 2 0 s; s2 \<leftarrow> one_of [58] s1;
     (m, s3) \<leftarrow> take_digits dg 2 0 s2;
     Some ((h, m), s3) }"

text \<open>The optional seconds and fraction, in seconds and microseconds.\<close>

definition seconds_part :: "(nat \<Rightarrow> int option) \<Rightarrow> str \<Rightarrow> (int \<times> int) \<times> str" where
  "seconds_part dg s =
     (case one_of [58] s \<bind> take_digits dg 2 0 of
        None \<Rightarrow> ((0, 0), s)
      | Some (sec, s1) \<Rightarrow>
          (case one_of [46] s1 of
             None \<Rightarrow> ((sec, 0), s1)
           | Some s2 \<Rightarrow>
               (let (vs, s3) = digits_upto dg 6 s2
                in if vs = [] then ((sec, 0), s1)
                   else ((sec, value_of vs * 10 ^ (6 - length vs)), s3))))"

definition dated_part :: "(nat \<Rightarrow> int option) \<Rightarrow> str \<Rightarrow> (naive \<times> str) option" where
  "dated_part dg s = do {
     ((y, m, d), s1) \<leftarrow> date_part dg s; s2 \<leftarrow> one_of [84, 32] s1;
     ((h, mi), s3) \<leftarrow> clock_part dg s2;
     (let ((sec, micro), s4) = seconds_part dg s3
      in Some (\<lparr>nv_year = y, nv_month = m, nv_day = d, nv_hour = h, nv_minute = mi, nv_second = sec,
                nv_micro = micro\<rparr>, s4)) }"

definition match_dated :: "(nat \<Rightarrow> int option) \<Rightarrow> str \<Rightarrow> naive option" where
  "match_dated dg s = do { (n, r) \<leftarrow> dated_part dg s; if r = [] then Some n else None }"

definition match_clock :: "(nat \<Rightarrow> int option) \<Rightarrow> str \<Rightarrow> (int \<times> int) option" where
  "match_clock dg s = do { (hm, r) \<leftarrow> clock_part dg s; if r = [] then Some hm else None }"

definition unit_seconds :: "nat \<Rightarrow> int option" where
  "unit_seconds c =
     (if c = 109 then Some 60 else if c = 104 then Some 3600 else if c = 100 then Some 86400 else None)"

definition match_duration :: "(nat \<Rightarrow> int option) \<Rightarrow> str \<Rightarrow> (int \<times> int) option" where
  "match_duration dg s = do {
     s1 \<leftarrow> one_of [43] s;
     (let (vs, r) = digits_upto dg 6 s1
      in if vs = [] then None
         else (case r of [c] \<Rightarrow> map_option (\<lambda>u. (value_of vs, u)) (unit_seconds c) | _ \<Rightarrow> None)) }"

text \<open>The zone suffix of an offset-carrying value, after any blanks.\<close>

definition zone_suffix :: "(nat \<Rightarrow> int option) \<Rightarrow> str \<Rightarrow> bool" where
  "zone_suffix dg s =
     (let t = dropWhile is_space s
      in one_of [90, 122] t = Some [] \<or>
         (case one_of [43, 45] t \<bind> take_digits dg 2 0 of
            None \<Rightarrow> False
          | Some (_, r) \<Rightarrow>
              r = [] \<or>
              (case take_digits dg 2 0 (case one_of [58] r of None \<Rightarrow> r | Some r1 \<Rightarrow> r1) of
                 None \<Rightarrow> False | Some (_, r2) \<Rightarrow> r2 = [])))"

definition offsety :: "(nat \<Rightarrow> int option) \<Rightarrow> str \<Rightarrow> bool" where
  "offsety dg s = (case dated_part dg s of None \<Rightarrow> False | Some (_, r) \<Rightarrow> zone_suffix dg r)"

definition date_only :: "(nat \<Rightarrow> int option) \<Rightarrow> str \<Rightarrow> bool" where
  "date_only dg s = (case date_part dg s of None \<Rightarrow> False | Some (_, r) \<Rightarrow> r = [])"

section \<open>Rendering\<close>

definition WEEKDAYS :: "str list" where
  "WEEKDAYS = [cps ''Monday'', cps ''Tuesday'', cps ''Wednesday'', cps ''Thursday'', cps ''Friday'',
     cps ''Saturday'', cps ''Sunday'']"

definition MONTHS :: "str list" where
  "MONTHS = [cps ''January'', cps ''February'', cps ''March'', cps ''April'', cps ''May'', cps ''June'',
     cps ''July'', cps ''August'', cps ''September'', cps ''October'', cps ''November'', cps ''December'']"

definition TIME_HEADER_PREFIX :: str where
  "TIME_HEADER_PREFIX = cps ''[CURRENT TIME '' @ [8212] @ cps '' data, not instructions]''"

definition int_text :: "int \<Rightarrow> str" where
  "int_text n = (if n < 0 then 45 # decimal (nat (- n)) else decimal (nat n))"

definition pad2 :: "int \<Rightarrow> str" where
  "pad2 n = (if n < 10 then 48 # int_text n else int_text n)"

definition hhmm :: "int \<Rightarrow> str" where
  "hhmm w = pad2 (w mod 86400 div 3600) @ [58] @ pad2 (w mod 3600 div 60)"

definition numeric_offset :: "int \<Rightarrow> str" where
  "numeric_offset o' =
     (if o' < 0 then 45 else 43) # pad2 (\<bar>o'\<bar> div 3600) @ pad2 (\<bar>o'\<bar> mod 3600 div 60)"

text \<open>
  \<open>fromtimestamp\<close> rounds to the nearest microsecond, half to even; it raises for an instant
  outside the years 1 to 9999, in UTC or on the local clock.
\<close>

definition micros_of :: "secs \<Rightarrow> int" where
  "micros_of e =
     (let x = e * 1000000; f = \<lfloor>x\<rfloor>
      in if x - of_int f < 1 / 2 then f else if 1 / 2 < x - of_int f then f + 1
         else if even f then f else f + 1)"

definition instant_of :: "secs \<Rightarrow> int" where
  "instant_of e = micros_of e div 1000000"

definition representable :: "int \<Rightarrow> bool" where
  "representable w \<longleftrightarrow> (1 - EPOCH_ORD) * 86400 \<le> w \<and> w < (3652060 - EPOCH_ORD) * 86400"

definition render_instant :: "zone \<Rightarrow> secs \<Rightarrow> str" where
  "render_instant z e =
     (let u = instant_of e; w = local_at z u; k = tti_at z u; n = naive_at w 0;
          marker = (case abbr k of None \<Rightarrow> numeric_offset (off k)
                    | Some a \<Rightarrow> if a = [] then numeric_offset (off k) else a)
      in if \<not> representable u \<or> \<not> representable w then cps ''an unreadable time''
         else WEEKDAYS ! nat (weekday w) @ [32] @ int_text (nv_day n) @ [32] @
           MONTHS ! nat (nv_month n - 1) @ cps '' at '' @ hhmm w @ [32] @ marker)"

definition current_time_header :: "zone \<Rightarrow> secs \<Rightarrow> str" where
  "current_time_header z e = TIME_HEADER_PREFIX @ [32] @ render_instant z e"

section \<open>The resolver\<close>

datatype time_path = TOOL | COMMAND

record resolver =
  rs_zone :: zone
  horizon_days :: int
  clock_skew :: secs
  dgt :: "nat \<Rightarrow> int option"

record rejection =
  rj_message :: str
  rj_shape :: str

record resolution =
  rn_due_at :: secs
  rn_disclosure :: str

definition DASH :: str where "DASH = [32, 8212, 32]"

definition ACCEPTED_FORMS :: "time_path \<Rightarrow> str" where
  "ACCEPTED_FORMS p =
     (case p of
        TOOL \<Rightarrow> cps (''accepted forms are a local date and time with no UTC offset '' @
          ''(2026-08-25 07:30 or 2026-08-25T07:30), or a relative offset '' @ ''(+90m, +2h, +3d)'')
      | COMMAND \<Rightarrow> cps (''accepted forms are +90m / +2h / +3d, a clock time like 07:30, or a dated '' @
          ''time like 2026-08-25 07:30''))"

definition capitalize :: "str \<Rightarrow> str" where
  "capitalize s =
     (case s of [] \<Rightarrow> [] | c # cs \<Rightarrow> (if 97 \<le> c \<and> c \<le> 122 then c - 32 else c) # lower cs)"

definition reject :: "str \<Rightarrow> str \<Rightarrow> rejection + 'a" where
  "reject shape msg = Inl \<lparr>rj_message = msg, rj_shape = shape\<rparr>"

text \<open>An instant from a reading, one fold and the microseconds.\<close>

definition moment :: "zone \<Rightarrow> int \<Rightarrow> int \<Rightarrow> bool \<Rightarrow> secs" where
  "moment z w micro late = of_int (timestamp z w late) + of_int micro / 1000000"

definition imaginary_error :: "resolver \<Rightarrow> time_path \<Rightarrow> int \<Rightarrow> int \<Rightarrow> rejection + 'a" where
  "imaginary_error r p w micro =
     (let (before, after) = gap_neighbours (rs_zone r) w micro; n = naive_at w micro
      in reject (cps ''imaginary-wall-clock'')
        (hhmm w @ cps '' does not exist on '' @ int_text (nv_day n) @ [32] @ MONTHS ! nat (nv_month n - 1) @
         [32] @ int_text (nv_year n) @ cps '' in '' @ zone_key (rs_zone r) @ DASH @
         cps ''the clocks go forward from '' @ hhmm (before + 60) @ cps '' to '' @ hhmm after @
         cps '' that night. The nearest valid readings are '' @ hhmm before @ cps '' and '' @ hhmm after @ cps ''.'' @
         (if p = TOOL then cps ('' Ask the owner which of those two they meant; do not pick one '' @
            ''yourself and do not retry with a substituted time.'') else [])))"

definition evaluate_reading ::
    "resolver \<Rightarrow> time_path \<Rightarrow> int \<Rightarrow> int \<Rightarrow> secs option \<Rightarrow> rejection + (secs \<times> str)" where
  "evaluate_reading r p w micro chosen =
     (let z = rs_zone r; kind = classify_local z w
      in if kind = IMAGINARY then imaginary_error r p w micro
         else (let fold0 = moment z w micro False;
                   due = (case chosen of None \<Rightarrow> fold0 | Some c \<Rightarrow> c)
               in if kind = NORMAL then Inr (due, [])
                  else Inr (due, cps ''that reading occurs twice that night'' @ DASH @
                    cps ''the clocks go back'' @ DASH @ cps ''and this is the '' @
                    (if due = fold0 then cps ''first'' else cps ''second'') @ cps '' of the two'')))"

definition check_past :: "resolver \<Rightarrow> secs \<Rightarrow> secs \<Rightarrow> rejection + unit" where
  "check_past r due now =
     (if due \<ge> now - clock_skew r then Inr ()
      else reject (cps ''past'') (cps ''that time is already in the past'' @ DASH @
        cps ''it is currently '' @ render_instant (rs_zone r) now @ cps ''.''))"

definition check_horizon :: "resolver \<Rightarrow> secs \<Rightarrow> secs \<Rightarrow> rejection + unit" where
  "check_horizon r due now =
     (if due \<le> now + of_int (horizon_days r * 86400) then Inr ()
      else reject (cps ''beyond-horizon'') (cps ''that is further ahead than the '' @
        int_text (horizon_days r) @ cps (''-day limit on '' @ ''reminders; nothing was scheduled.'')))"

definition resolve_duration :: "resolver \<Rightarrow> time_path \<Rightarrow> int \<times> int \<Rightarrow> secs \<Rightarrow> rejection + resolution" where
  "resolve_duration r p m now =
     (let (magnitude, unit) = m
      in if magnitude \<le> 0 then
           reject (cps ''duration-zero'') (cps ''a relative offset must be more than zero'' @ DASH @
             ACCEPTED_FORMS p @ cps ''.'')
         else (let due = now + of_int (magnitude * unit)
               in case check_horizon r due now of
                    Inl e \<Rightarrow> Inl e
                  | Inr _ \<Rightarrow> Inr \<lparr>rn_due_at = due, rn_disclosure = []\<rparr>))"

definition resolve_dated :: "resolver \<Rightarrow> time_path \<Rightarrow> naive \<Rightarrow> secs \<Rightarrow> rejection + resolution" where
  "resolve_dated r p n now =
     (if \<not> valid_naive n then
        reject (cps ''invalid-calendar-value'') (cps ''that is not a real date and time'' @ DASH @
          ACCEPTED_FORMS p @ cps ''.'')
      else (case evaluate_reading r p (wall_of n) (nv_micro n) None of
          Inl e \<Rightarrow> Inl e
        | Inr (due, disclosure) \<Rightarrow>
            (case check_past r due now of
               Inl e \<Rightarrow> Inl e
             | Inr _ \<Rightarrow>
                 (case check_horizon r due now of
                    Inl e \<Rightarrow> Inl e
                  | Inr _ \<Rightarrow> Inr \<lparr>rn_due_at = due, rn_disclosure = disclosure\<rparr>))))"

text \<open>A day is its ordinal; the reading on it, and the earliest of its instants after now.\<close>

definition reading_on :: "int \<Rightarrow> int \<Rightarrow> int \<Rightarrow> int" where
  "reading_on day h m = (day - EPOCH_ORD) * 86400 + h * 3600 + m * 60"

definition select_candidate :: "resolver \<Rightarrow> int \<Rightarrow> int \<Rightarrow> int \<Rightarrow> secs \<Rightarrow> (int \<times> secs) option" where
  "select_candidate r day h m now =
     (let w = reading_on day h m; a = moment (rs_zone r) w 0 False; b = moment (rs_zone r) w 0 True
      in if now < min a b then Some (w, min a b) else if now < max a b then Some (w, max a b) else None)"

definition resolve_next_occurrence ::
    "resolver \<Rightarrow> time_path \<Rightarrow> int \<times> int \<Rightarrow> secs \<Rightarrow> rejection + resolution" where
  "resolve_next_occurrence r p hm now =
     (let (h, m) = hm
      in if 23 < h \<or> 59 < m then
           reject (cps ''invalid-clock-reading'') (pad2 h @ [58] @ pad2 m @ cps '' is not a clock time'' @ DASH @
             ACCEPTED_FORMS p @ cps ''.'')
         else (let today = local_at (rs_zone r) (instant_of now) div 86400 + EPOCH_ORD;
                   selected = (case select_candidate r today h m now of
                       Some s \<Rightarrow> Some s
                     | None \<Rightarrow> select_candidate r (today + 1) h m now)
               in case selected of
                    None \<Rightarrow> reject (cps ''clock-reading-unreachable'')
                      (pad2 h @ [58] @ pad2 m @ cps '' has no next occurrence in the next day.'')
                  | Some (w, due) \<Rightarrow>
                      (case evaluate_reading r p w 0 (Some due) of
                         Inl e \<Rightarrow> Inl e
                       | Inr (due', disclosure) \<Rightarrow>
                           (case check_horizon r due' now of
                              Inl e \<Rightarrow> Inl e
                            | Inr _ \<Rightarrow> Inr \<lparr>rn_due_at = due', rn_disclosure = disclosure\<rparr>))))"

definition reject_shape :: "resolver \<Rightarrow> time_path \<Rightarrow> str \<Rightarrow> rejection + 'a" where
  "reject_shape r p raw =
     (if offsety (dgt r) raw then
        reject (cps ''offset-carrying'') (cps (''a reminder time must be the owner'' @ [CHR 0x27] @
          ''s local time with no UTC offset '' @ ''and no Z suffix'') @ DASH @
          cps (''an offset is a conversion I cannot check, and it '' @
            ''is how a local reading becomes silently hours wrong. '') @ capitalize (ACCEPTED_FORMS p) @ cps ''.'')
      else if date_only (dgt r) raw then
        reject (cps ''date-only'') (cps ''that is a date with no time of day; a reminder needs both. '' @
          capitalize (ACCEPTED_FORMS p) @ cps ''.'')
      else if match_clock (dgt r) raw \<noteq> None then
        reject (cps ''bare-clock-on-tool-path'') (cps ''a bare clock time is not accepted here'' @ DASH @
          cps (''give the date as well, so '' @ ''there is no guessing which day is meant. '') @
          capitalize (ACCEPTED_FORMS p) @ cps ''.'')
      else reject (cps ''unrecognized'') (cps ''I could not read that as a time. '' @
          capitalize (ACCEPTED_FORMS p) @ cps ''.''))"

definition resolve_time :: "resolver \<Rightarrow> str \<Rightarrow> time_path \<Rightarrow> secs \<Rightarrow> rejection + resolution" where
  "resolve_time r when p now =
     (let raw = strip when
      in case match_duration (dgt r) raw of
           Some m \<Rightarrow> resolve_duration r p m now
         | None \<Rightarrow>
             (case match_dated (dgt r) raw of
                Some n \<Rightarrow> resolve_dated r p n now
              | None \<Rightarrow>
                  (case match_clock (dgt r) raw of
                     Some hm \<Rightarrow> if p = COMMAND then resolve_next_occurrence r p hm now else reject_shape r p raw
                   | None \<Rightarrow> reject_shape r p raw)))"

section \<open>Which forms are accepted\<close>

text \<open>Of the ASCII characters only the ten digits are decimal digits.\<close>

definition ascii_digits_only :: "(nat \<Rightarrow> int option) \<Rightarrow> bool" where
  "ascii_digits_only dg \<longleftrightarrow>
     list_all (\<lambda>c. dg c = (if 48 \<le> c \<and> c \<le> 57 then Some (int c - 48) else None)) [0..<128]"

lemma not_a_digit: "ascii_digits_only dg \<Longrightarrow> dg 43 = None \<and> dg 58 = None"
  by (simp add: ascii_digits_only_def list_all_iff)

lemma take_digits_SucE:
  assumes "take_digits dg (Suc k) acc s = Some r"
  obtains c cs v where "s = c # cs" "dg c = Some v" "take_digits dg k (acc * 10 + v) cs = Some r"
  using assms by (cases s) (auto split: option.splits)

lemma date_part_start:
  assumes "date_part dg s = Some r"
  shows "\<exists>c1 c2 c3 cs. s = c1 # c2 # c3 # cs \<and> dg c1 \<noteq> None \<and> dg c3 \<noteq> None"
proof -
  obtain q where "take_digits dg 4 0 s = Some q" using assms by (auto simp: date_part_def bind_eq_Some_conv)
  moreover have "(4 :: nat) = Suc (Suc (Suc (Suc 0)))" by simp
  ultimately have "take_digits dg (Suc (Suc (Suc (Suc 0)))) 0 s = Some q" by metis
  then obtain c1 s1 v1 where 1: "s = c1 # s1" "dg c1 = Some v1" "take_digits dg (Suc (Suc (Suc 0))) (0 * 10 + v1) s1 = Some q"
    by (rule take_digits_SucE)
  from 1(3) obtain c2 s2 v2 where 2: "s1 = c2 # s2" "take_digits dg (Suc (Suc 0)) ((0 * 10 + v1) * 10 + v2) s2 = Some q"
    by (rule take_digits_SucE)
  from 2(2) obtain c3 s3 v3 where "s2 = c3 # s3" "dg c3 = Some v3" by (rule take_digits_SucE)
  then show ?thesis using 1 2 by simp
qed

lemma clock_part_start:
  assumes "clock_part dg s = Some r"
  shows "\<exists>c1 c2 cs. s = c1 # c2 # 58 # cs \<and> dg c1 \<noteq> None"
proof -
  obtain v s1 s2 where d: "take_digits dg 2 0 s = Some (v, s1)" and "one_of [58] s1 = Some s2"
    using assms by (auto simp: clock_part_def bind_eq_Some_conv)
  then have s1: "\<exists>cs. s1 = 58 # cs" by (cases s1) (auto split: if_splits)
  have "(2 :: nat) = Suc (Suc 0)" by simp
  then have "take_digits dg (Suc (Suc 0)) 0 s = Some (v, s1)" using d by metis
  then obtain c1 t1 v1 where 1: "s = c1 # t1" "dg c1 = Some v1" "take_digits dg (Suc 0) (0 * 10 + v1) t1 = Some (v, s1)"
    by (rule take_digits_SucE)
  from 1(3) obtain c2 t2 where "t1 = c2 # t2" "t2 = s1" by (elim take_digits_SucE) simp
  then show ?thesis using 1 s1 by auto
qed

lemma dated_part_date: "dated_part dg s = Some r \<Longrightarrow> \<exists>q. date_part dg s = Some q"
proof (cases "date_part dg s")
  case None
  then have "dated_part dg s = None" unfolding dated_part_def by (simp only: Option.bind.simps)
  then show "dated_part dg s = Some r \<Longrightarrow> ?thesis" by simp
qed blast

lemma no_duration:
  assumes "ascii_digits_only dg" and "s = c # cs" and "dg c \<noteq> None"
  shows "match_duration dg s = None"
proof -
  have "c \<noteq> 43" using not_a_digit [OF assms(1)] assms(3) by auto
  then have "one_of [43] s = None" using assms(2) by simp
  then show ?thesis unfolding match_duration_def by (simp only: Option.bind.simps)
qed

lemma dated_not_duration: "ascii_digits_only dg \<Longrightarrow> dated_part dg s = Some r \<Longrightarrow> match_duration dg s = None"
proof -
  assume dg: "ascii_digits_only dg" and "dated_part dg s = Some r"
  then obtain q where "date_part dg s = Some q" using dated_part_date by blast
  then obtain c cs where "s = c # cs" "dg c \<noteq> None" using date_part_start by blast
  then show "match_duration dg s = None" by (rule no_duration [OF dg])
qed

lemma clock_not_others:
  assumes "ascii_digits_only dg" and "match_clock dg s \<noteq> None"
  shows "match_duration dg s = None" and "dated_part dg s = None"
proof -
  obtain q where "clock_part dg s = Some q" using assms(2) by (auto simp: match_clock_def bind_eq_Some_conv)
  then obtain c1 c2 cs where s: "s = c1 # c2 # 58 # cs" "dg c1 \<noteq> None" using clock_part_start by blast
  show "match_duration dg s = None" by (rule no_duration [OF assms(1) s])
  show "dated_part dg s = None"
  proof (rule ccontr)
    assume "dated_part dg s \<noteq> None"
    then obtain q where "date_part dg s = Some q" using dated_part_date by blast
    then show False using date_part_start not_a_digit [OF assms(1)] s by fastforce
  qed
qed

lemma match_dated_part: "match_dated dg s = Some n \<Longrightarrow> dated_part dg s = Some (n, [])"
  by (auto simp: match_dated_def bind_eq_Some_conv split: if_splits)

text \<open>
  Only whitelisted forms are accepted: a relative offset, a dated time and, from the owner's
  own command only, a bare clock time. A dated time that carries a UTC offset or a Z suffix is
  rejected as such, whatever it denotes.
\<close>

theorem only_whitelisted_forms_are_accepted:
  assumes "ascii_digits_only (dgt r)"
  shows "(\<forall>res. resolve_time r raw p now = Inr res \<longrightarrow>
      match_duration (dgt r) (strip raw) \<noteq> None \<or> match_dated (dgt r) (strip raw) \<noteq> None \<or>
      p = COMMAND \<and> match_clock (dgt r) (strip raw) \<noteq> None) \<and>
    (offsety (dgt r) (strip raw) \<longrightarrow>
      (\<exists>msg. resolve_time r raw p now = Inl \<lparr>rj_message = msg, rj_shape = cps ''offset-carrying''\<rparr>))"
proof (intro conjI impI)
  show "\<forall>res. resolve_time r raw p now = Inr res \<longrightarrow>
      match_duration (dgt r) (strip raw) \<noteq> None \<or> match_dated (dgt r) (strip raw) \<noteq> None \<or>
      p = COMMAND \<and> match_clock (dgt r) (strip raw) \<noteq> None"
    by (auto simp: resolve_time_def Let_def reject_shape_def reject_def split: option.splits if_splits)
  assume o: "offsety (dgt r) (strip raw)"
  then obtain n s1 where d: "dated_part (dgt r) (strip raw) = Some (n, s1)" and z: "zone_suffix (dgt r) s1"
    by (auto simp: offsety_def split: option.splits)
  have "s1 \<noteq> []" using z by (auto simp: zone_suffix_def)
  then have "match_dated (dgt r) (strip raw) = None" by (simp add: match_dated_def d)
  moreover have "match_duration (dgt r) (strip raw) = None" by (rule dated_not_duration [OF assms d])
  moreover have "match_clock (dgt r) (strip raw) = None" using clock_not_others(2) [OF assms] d by fastforce
  ultimately show "\<exists>msg. resolve_time r raw p now = Inl \<lparr>rj_message = msg, rj_shape = cps ''offset-carrying''\<rparr>"
    using o by (simp add: resolve_time_def Let_def reject_shape_def reject_def)
qed

text \<open>
  A relative offset is elapsed time, exactly: it is accepted precisely when it is positive
  and within the horizon, and then the instant is now plus the offset, in every zone and across
  every clock change, with nothing to disclose.
\<close>

theorem durations_are_elapsed_time:
  assumes "match_duration (dgt r) (strip raw) = Some (n, u)"
  shows "resolve_time r raw p now = Inr res \<longleftrightarrow>
    0 < n \<and> n * u \<le> horizon_days r * 86400 \<and> res = \<lparr>rn_due_at = now + of_int (n * u), rn_disclosure = []\<rparr>"
proof -
  have "now + of_int (n * u) \<le> now + of_int (horizon_days r * 86400) \<longleftrightarrow> n * u \<le> horizon_days r * 86400"
    by (simp only: add_le_cancel_left of_int_le_iff)
  then show ?thesis using assms
    by (auto simp: resolve_time_def Let_def resolve_duration_def check_horizon_def reject_def
        simp del: of_int_mult split: if_splits)
qed

section \<open>What an accepted reading denotes\<close>

lemma micros_of_int: "micros_of (of_int t + of_int m / 1000000) = t * 1000000 + m"
proof -
  have "(of_int t + of_int m / 1000000) * 1000000 = (of_int (t * 1000000 + m) :: real)" by simp
  then show ?thesis unfolding micros_of_def Let_def by (simp only: floor_of_int) simp
qed

lemma instant_of_moment:
  assumes "0 \<le> m" and "m < 1000000"
  shows "instant_of (moment z w m late) = timestamp z w late"
  using div_unique [OF assms, of "timestamp z w late"] assms
  by (simp add: instant_of_def moment_def micros_of_int mult.commute)

lemma evaluate_accepted:
  assumes "zone_ok (rs_zone r)" and "evaluate_reading r p w m chosen = Inr (due, disclosure)"
  shows "classify_local (rs_zone r) w \<noteq> IMAGINARY"
    and "due = (case chosen of None \<Rightarrow> moment (rs_zone r) w m False | Some c \<Rightarrow> c)"
    and "disclosure \<noteq> [] \<longleftrightarrow> classify_local (rs_zone r) w = AMBIGUOUS"
  using assms(2)
  by (cases "classify_local (rs_zone r) w";
      force simp: evaluate_reading_def Let_def imaginary_error_def reject_def DASH_def split_beta split: if_splits)+

text \<open>
  C34. An accepted dated time means what it says: the instant stored reads back on the owner's
  clock as exactly the date and time that was typed, it is the first instant that does, it is
  neither past beyond the tolerance nor beyond the horizon, and the owner is told of a second
  occurrence exactly when there is one.
\<close>

theorem accepted_dated_time_reads_back:
  assumes "zone_ok (rs_zone r)" and "ascii_digits_only (dgt r)"
    and "match_dated (dgt r) (strip raw) = Some n" and "resolve_time r raw p now = Inr res"
  defines "u \<equiv> instant_of (rn_due_at res)"
  shows "naive_at (local_at (rs_zone r) u) (nv_micro n) = n \<and>
    rn_due_at res = of_int u + of_int (nv_micro n) / 1000000 \<and>
    (\<forall>v. local_at (rs_zone r) v = wall_of n \<longrightarrow> u \<le> v) \<and>
    now - clock_skew r \<le> rn_due_at res \<and> rn_due_at res \<le> now + of_int (horizon_days r * 86400) \<and>
    (rn_disclosure res \<noteq> [] \<longleftrightarrow> card {v. local_at (rs_zone r) v = wall_of n} = 2)"
proof -
  let ?z = "rs_zone r" and ?w = "wall_of n" and ?m = "nv_micro n"
  have "match_duration (dgt r) (strip raw) = None"
    by (rule dated_not_duration [OF assms(2) match_dated_part [OF assms(3)]])
  then have r: "resolve_dated r p n now = Inr res" using assms(3,4) by (simp add: resolve_time_def Let_def)
  then have val: "valid_naive n" by (auto simp: resolve_dated_def reject_def split: if_splits)
  obtain due disc where ev: "evaluate_reading r p ?w ?m None = Inr (due, disc)"
    and past: "check_past r due now = Inr ()" and hor: "check_horizon r due now = Inr ()"
    and res: "res = \<lparr>rn_due_at = due, rn_disclosure = disc\<rparr>"
    using r val by (auto simp: resolve_dated_def split: sum.splits)
  note acc = evaluate_accepted [OF assms(1) ev]
  have m: "0 \<le> ?m" "?m < 1000000" using val by (auto simp: valid_naive_def)
  have due: "due = moment ?z ?w ?m False" using acc(2) by simp
  have u: "u = timestamp ?z ?w False" unfolding u_def res due using instant_of_moment [OF m] by simp
  note inst = classify_instants [OF assms(1), of ?w]
  have set: "u \<in> {v. local_at ?z v = ?w} \<and> (\<forall>v\<in>{v. local_at ?z v = ?w}. u \<le> v) \<and>
      (classify_local ?z ?w = AMBIGUOUS \<longleftrightarrow> card {v. local_at ?z v = ?w} = 2)"
  proof (cases "classify_local ?z ?w")
    case NORMAL
    then show ?thesis using inst(1) [OF NORMAL] by (simp add: u)
  next
    case AMBIGUOUS
    then show ?thesis using inst(2) [OF AMBIGUOUS] by (simp add: u card_insert_if)
  next
    case IMAGINARY
    then show ?thesis using acc(1) by simp
  qed
  have "naive_at (local_at ?z u) ?m = n" using set naive_at_wall_of [OF val] by simp
  moreover have "now - clock_skew r \<le> due" using past by (auto simp: check_past_def reject_def split: if_splits)
  moreover have "due \<le> now + of_int (horizon_days r * 86400)"
    using hor by (auto simp: check_horizon_def reject_def split: if_splits)
  ultimately show ?thesis using set acc(3) due u by (simp add: res moment_def)
qed

section \<open>The next occurrence of a clock reading\<close>

text \<open>The instants after now that show a reading.\<close>

definition later_instants :: "zone \<Rightarrow> int \<Rightarrow> secs \<Rightarrow> int set" where
  "later_instants z w now = {u. local_at z u = w \<and> now < of_int u}"

lemma select_None:
  assumes "zone_ok (rs_zone r)" and "select_candidate r day h m now = None"
  shows "later_instants (rs_zone r) (reading_on day h m) now = {}"
proof -
  let ?z = "rs_zone r" and ?w = "reading_on day h m"
  have "\<not> now < of_int (timestamp ?z ?w False)" "\<not> now < of_int (timestamp ?z ?w True)"
    using assms(2) by (auto simp: select_candidate_def Let_def moment_def split: if_splits)
  moreover have "{u. local_at ?z u = ?w} \<subseteq> {timestamp ?z ?w False, timestamp ?z ?w True}"
    using classify_instants [OF assms(1), of ?w] by (cases "classify_local ?z ?w") auto
  ultimately show ?thesis by (auto simp: later_instants_def)
qed

lemma select_Some:
  assumes "zone_ok (rs_zone r)" and "select_candidate r day h m now = Some (w, due)"
    and "classify_local (rs_zone r) w \<noteq> IMAGINARY"
  shows "w = reading_on day h m"
    and "\<exists>u. due = of_int u \<and> u \<in> later_instants (rs_zone r) w now \<and> (\<forall>v\<in>later_instants (rs_zone r) w now. u \<le> v)"
proof -
  let ?z = "rs_zone r"
  let ?a = "timestamp ?z w False" and ?b = "timestamp ?z w True"
  show w: "w = reading_on day h m" using assms(2) by (auto simp: select_candidate_def Let_def split: if_splits)
  have m: "moment ?z w 0 late = of_int (timestamp ?z w late)" for late by (simp add: moment_def)
  have le: "?a \<le> ?b" and set: "{u. local_at ?z u = w} = {?a, ?b}"
    using classify_instants [OF assms(1), of w] assms(3) by (cases "classify_local ?z w"; simp)+
  have mm: "min (of_int ?a) (of_int ?b :: real) = of_int ?a" "max (of_int ?a) (of_int ?b :: real) = of_int ?b"
    using le by (simp_all add: min_def max_def)
  have due: "due = (if now < of_int ?a then of_int ?a else of_int ?b)" "now < of_int ?b"
    using assms(2) le unfolding select_candidate_def Let_def w [symmetric] m mm by (auto split: if_splits)
  have later: "later_instants ?z w now = {u \<in> {?a, ?b}. now < of_int u}"
    unfolding later_instants_def using set by blast
  show "\<exists>u. due = of_int u \<and> u \<in> later_instants ?z w now \<and> (\<forall>v\<in>later_instants ?z w now. u \<le> v)"
  proof (cases "now < of_int ?a")
    case True
    then show ?thesis using due le by (intro exI [of _ ?a]) (auto simp: later)
  next
    case False
    then show ?thesis using due by (intro exI [of _ ?b]) (auto simp: later)
  qed
qed

text \<open>
  A bare clock reading means its next occurrence: the instant is the first one after now at
  which the owner's clock shows that time on today's local date, or, when there is none left
  today, the first one on the next date; where the reading repeats, a second pass that is still
  ahead counts. A reading the selected date does not have is refused, never moved further.
\<close>

theorem clock_reading_means_next_occurrence:
  assumes "zone_ok (rs_zone r)" and "ascii_digits_only (dgt r)"
    and "match_clock (dgt r) (strip raw) = Some (h, m)" and "resolve_time r raw COMMAND now = Inr res"
  defines "today \<equiv> local_at (rs_zone r) (instant_of now) div 86400 + EPOCH_ORD"
  defines "S \<equiv> \<lambda>day. later_instants (rs_zone r) (reading_on day h m) now"
  shows "\<exists>u day. rn_due_at res = of_int u \<and> u \<in> S day \<and> (\<forall>v\<in>S day. u \<le> v) \<and>
      (day = today \<or> day = today + 1 \<and> S today = {}) \<and>
      h \<le> 23 \<and> m \<le> 59 \<and> rn_due_at res \<le> now + of_int (horizon_days r * 86400)"
proof -
  have mc: "match_clock (dgt r) (strip raw) \<noteq> None" using assms(3) by simp
  have "match_dated (dgt r) (strip raw) = None"
    using clock_not_others(2) [OF assms(2) mc] by (simp add: match_dated_def)
  then have r: "resolve_next_occurrence r COMMAND (h, m) now = Inr res"
    using assms(3,4) clock_not_others(1) [OF assms(2) mc] by (simp add: resolve_time_def Let_def)
  then have hm: "\<not> (23 < h \<or> 59 < m)" by (auto simp: resolve_next_occurrence_def reject_def split: if_splits)
  let ?sel = "case select_candidate r today h m now of
      Some s \<Rightarrow> Some s | None \<Rightarrow> select_candidate r (today + 1) h m now"
  obtain w due where sel: "?sel = Some (w, due)"
    using r hm by (cases ?sel) (auto simp: resolve_next_occurrence_def Let_def reject_def simp flip: today_def)
  obtain due' disc where ev: "evaluate_reading r COMMAND w 0 (Some due) = Inr (due', disc)"
    and hor: "check_horizon r due' now = Inr ()" and res: "res = \<lparr>rn_due_at = due', rn_disclosure = disc\<rparr>"
    using r hm sel by (auto simp: resolve_next_occurrence_def Let_def simp flip: today_def split: sum.splits)
  note acc = evaluate_accepted [OF assms(1) ev]
  have due': "due' = due" using acc(2) by simp
  have bound: "rn_due_at res \<le> now + of_int (horizon_days r * 86400)"
    using hor by (auto simp: check_horizon_def reject_def res split: if_splits)
  have found: "\<exists>u. due = of_int u \<and> u \<in> S day \<and> (\<forall>v\<in>S day. u \<le> v)"
    if "select_candidate r day h m now = Some (w, due)" for day
    using select_Some [OF assms(1) that acc(1)] unfolding S_def by blast
  show ?thesis
  proof (cases "select_candidate r today h m now")
    case (Some s)
    then have "select_candidate r today h m now = Some (w, due)" using sel by simp
    from found [OF this] show ?thesis using hm bound by (auto simp: res due')
  next
    case None
    then have "select_candidate r (today + 1) h m now = Some (w, due)" using sel by simp
    from found [OF this] obtain u where "due = of_int u" "u \<in> S (today + 1)" "\<forall>v\<in>S (today + 1). u \<le> v" by blast
    moreover have "S today = {}" using select_None [OF assms(1) None] by (simp add: S_def)
    ultimately show ?thesis using hm bound by (intro exI [of _ u] exI [of _ "today + 1"]) (auto simp: res due')
  qed
qed

section \<open>Examples\<close>

definition ascii_digit :: "nat \<Rightarrow> int option" where
  "ascii_digit c = (if 48 \<le> c \<and> c \<le> 57 then Some (int c - 48) else None)"

lemma ascii_digit_ok: "ascii_digits_only ascii_digit"
  by (simp add: ascii_digits_only_def ascii_digit_def list_all_iff)

definition dutch :: resolver where
  "dutch = \<lparr>rs_zone = amsterdam, horizon_days = 365, clock_skew = 120, dgt = ascii_digit\<rparr>"

lemma dutch_parts [simp]:
  "rs_zone dutch = amsterdam" "horizon_days dutch = 365" "clock_skew dutch = 120" "dgt dutch = ascii_digit"
  by (simp_all add: dutch_def)

text \<open>\<open>2026-10-25 02:30\<close>, in the repeated hour, and the same with a Z.\<close>

definition repeated :: str where
  "repeated = [50, 48, 50, 54, 45, 49, 48, 45, 50, 53, 32, 48, 50, 58, 51, 48]"

lemmas grammar_eval =
  match_dated_def dated_part_def date_part_def clock_part_def seconds_part_def match_clock_def
  match_duration_def numeral_eq_Suc ascii_digit_def

lemma repeated_strip: "strip repeated = repeated" "strip (repeated @ [90]) = repeated @ [90]"
  by (simp_all add: strip_def repeated_def is_space_def)

lemma repeated_part: "dated_part ascii_digit (repeated @ z) =
  Some (let (sm, s4) = seconds_part ascii_digit z in
    (\<lparr>nv_year = 2026, nv_month = 10, nv_day = 25, nv_hour = 2, nv_minute = 30, nv_second = fst sm, nv_micro = snd sm\<rparr>, s4))"
  by (simp add: repeated_def dated_part_def date_part_def clock_part_def numeral_eq_Suc ascii_digit_def
      split_beta Let_def)

lemma repeated_dated: "match_dated ascii_digit repeated =
    Some \<lparr>nv_year = 2026, nv_month = 10, nv_day = 25, nv_hour = 2, nv_minute = 30, nv_second = 0, nv_micro = 0\<rparr>"
  using repeated_part [of "[]"] by (simp add: match_dated_def seconds_part_def)

lemma repeated_offsety: "offsety ascii_digit (repeated @ [90])"
  using repeated_part [of "[90]"] by (simp add: offsety_def seconds_part_def zone_suffix_def is_space_def)

theorem only_whitelisted_forms_are_accepted_witness:
  "\<exists>msg. resolve_time dutch (repeated @ [90]) TOOL 0 = Inl \<lparr>rj_message = msg, rj_shape = cps ''offset-carrying''\<rparr>"
  using only_whitelisted_forms_are_accepted [of dutch "repeated @ [90]" TOOL 0] ascii_digit_ok repeated_offsety
  by (simp add: repeated_strip)

definition three_days :: str where "three_days = [43, 51, 100]"

lemma three_days_duration: "match_duration ascii_digit (strip three_days) = Some (3, 86400)"
proof -
  have "strip three_days = three_days" by (simp add: three_days_def strip_def is_space_def)
  then show ?thesis
    by (simp add: three_days_def match_duration_def numeral_eq_Suc ascii_digit_def value_of_def unit_seconds_def)
qed

theorem durations_are_elapsed_time_witness:
  "resolve_time dutch three_days TOOL 1774700000 =
     Inr \<lparr>rn_due_at = 1774700000 + 259200, rn_disclosure = []\<rparr>"
proof -
  show ?thesis
    using three_days_duration durations_are_elapsed_time [of dutch three_days 3 86400 TOOL 1774700000
        "\<lparr>rn_due_at = 1774700000 + 259200, rn_disclosure = []\<rparr>"] by simp
qed

lemma repeated_wall:
  "wall_of \<lparr>nv_year = 2026, nv_month = 10, nv_day = 25, nv_hour = 2, nv_minute = 30, nv_second = 0, nv_micro = 0\<rparr> =
     1792890000 + 3600 + 1800"
  by (simp add: wall_of_def ymd_to_ord_def days_before_year_def days_before_month_def leap_year_def EPOCH_ORD_def)

lemma repeated_resolved: "\<exists>res. resolve_time dutch repeated TOOL 1792000000 = Inr res"
proof -
  have d: "match_duration ascii_digit repeated = None"
    by (rule dated_not_duration [OF ascii_digit_ok match_dated_part [OF repeated_dated]])
  let ?n = "\<lparr>nv_year = 2026, nv_month = 10, nv_day = 25, nv_hour = 2, nv_minute = 30, nv_second = 0, nv_micro = 0\<rparr>"
  have v: "valid_naive ?n" by (simp add: valid_naive_def valid_date_def days_in_month_def)
  have ts: "timestamp amsterdam (1792890000 + 3600 + 1800) False = 1792888200"
    by (simp add: timestamp_def utcoffset_def amsterdam_def)
  obtain disc where "evaluate_reading dutch TOOL (wall_of ?n) 0 None = Inr (1792888200, disc)"
    using amsterdam_readings(2) ts
    by (simp add: evaluate_reading_def Let_def repeated_wall moment_def)
  then show ?thesis using v
    by (simp add: resolve_time_def Let_def repeated_strip d repeated_dated resolve_dated_def check_past_def check_horizon_def)
qed

theorem accepted_dated_time_reads_back_witness:
  "\<exists>res. resolve_time dutch repeated TOOL 1792000000 = Inr res \<and> rn_disclosure res \<noteq> []"
proof -
  obtain res where r: "resolve_time dutch repeated TOOL 1792000000 = Inr res" using repeated_resolved by blast
  have "card {v. local_at amsterdam v = 1792890000 + 3600 + 1800} = 2"
    using classify_instants(2) [OF amsterdam_ok amsterdam_readings(2)] by (simp add: card_insert_if)
  then show ?thesis
    using accepted_dated_time_reads_back [OF _ _ _ r] amsterdam_ok ascii_digit_ok repeated_dated r
    by (simp add: repeated_strip repeated_wall)
qed

text \<open>\<open>02:45\<close> sent at 02:50 during the first pass of the repeated hour.\<close>

definition quarter_to :: str where "quarter_to = [48, 50, 58, 52, 53]"

lemma quarter_to_clock: "match_clock ascii_digit (strip quarter_to) = Some (2, 45)"
proof -
  have "strip quarter_to = quarter_to" by (simp add: quarter_to_def strip_def is_space_def)
  then show ?thesis by (simp add: quarter_to_def match_clock_def clock_part_def numeral_eq_Suc ascii_digit_def)
qed

lemma quarter_to_resolved: "\<exists>res. resolve_time dutch quarter_to COMMAND 1792889400 = Inr res"
proof -
  have mc: "match_clock ascii_digit (strip quarter_to) \<noteq> None" using quarter_to_clock by simp
  have n: "match_duration ascii_digit (strip quarter_to) = None" "match_dated ascii_digit (strip quarter_to) = None"
    using clock_not_others [OF ascii_digit_ok mc] by (simp_all add: match_dated_def)
  have i: "instant_of 1792889400 = 1792889400"
    using micros_of_int [of 1792889400 0] by (simp add: instant_of_def)
  have l: "local_at amsterdam 1792889400 = 1792889400 + 7200"
    by (simp add: local_at_def tti_at_def amsterdam_def)
  have w: "reading_on ((1792889400 + 7200) div 86400 + EPOCH_ORD) 2 45 = 1792896300"
    by (simp add: reading_on_def)
  have ts: "timestamp amsterdam 1792896300 False = 1792889100" "timestamp amsterdam 1792896300 True = 1792892700"
    by (simp_all add: timestamp_def utcoffset_def amsterdam_def)
  have k: "classify_local amsterdam 1792896300 = AMBIGUOUS"
    by (simp add: classify_local_def utcoffset_def timestamp_def local_at_def tti_at_def amsterdam_def)
  have s: "select_candidate dutch ((1792889400 + 7200) div 86400 + EPOCH_ORD) 2 45 1792889400 = Some (1792896300, 1792892700)"
    unfolding select_candidate_def Let_def w by (simp add: moment_def ts)
  obtain disc where "evaluate_reading dutch COMMAND 1792896300 0 (Some 1792892700) = Inr (1792892700, disc)"
    using k by (simp add: evaluate_reading_def Let_def split: if_splits)
  then show ?thesis using s n quarter_to_clock
    unfolding resolve_time_def Let_def resolve_next_occurrence_def by (simp add: i l check_horizon_def)
qed

theorem clock_reading_means_next_occurrence_witness:
  "\<exists>res u. resolve_time dutch quarter_to COMMAND 1792889400 = Inr res \<and> rn_due_at res = of_int u"
proof -
  obtain res where r: "resolve_time dutch quarter_to COMMAND 1792889400 = Inr res" using quarter_to_resolved by blast
  then show ?thesis
    using clock_reading_means_next_occurrence [of dutch quarter_to 2 45 1792889400 res] amsterdam_ok ascii_digit_ok
      quarter_to_clock by auto
qed

text \<open>
  A rejection prints the accepted forms through \<open>str.capitalize\<close>, which lowers every other letter:
  the form it then advertises is not accepted.
\<close>

lemma advertised_form_is_not_accepted:
  "contains (cps ''2026-08-25t07:30'') (capitalize (ACCEPTED_FORMS TOOL))"
  "match_dated ascii_digit (cps ''2026-08-25t07:30'') = None"
  by code_simp+

end
