(* ===== verification/Block_Text.thy ===== *)
theory Block_Text
  imports Markers
begin

text \<open>
  Composing block text out of constant pieces and neutralised strings without forming a marker
  at a seam: text is \<open>clean\<close> when no marker phrase occurs in it, and gluing two clean texts is
  clean when the seam shows a character no phrase has.
\<close>

section \<open>Clean text\<close>

definition phrase_texts :: "str list" where
  "phrase_texts = map (join [32]) PHRASES"

definition clean :: "str \<Rightarrow> bool" where
  "clean s \<longleftrightarrow> list_all (\<lambda>p. \<not> contains p s) phrase_texts"

text \<open>The characters of the phrases: capitals and the space between the words.\<close>

definition phrase_char :: "nat \<Rightarrow> bool" where
  "phrase_char c \<longleftrightarrow> c = 32 \<or> 65 \<le> c \<and> c \<le> 90"

lemma phrase_texts_shape:
  "list_all (\<lambda>p. list_all phrase_char p \<and> p \<noteq> [] \<and> hd p \<noteq> 32 \<and> last p \<noteq> 32) phrase_texts"
  by (simp add: phrase_texts_def PHRASES_def cps_def phrase_char_def)

lemma phrase_letters:
  "p \<in> set phrase_texts \<Longrightarrow> (\<forall>c\<in>set p. phrase_char c) \<and> p \<noteq> [] \<and> hd p \<noteq> 32 \<and> last p \<noteq> 32"
  using phrase_texts_shape by (auto simp: list_all_iff)

lemma clean_neutral [simp]: "clean (neutralise_markers t)"
  using no_phrase_contains [OF neutral_no_phrase] by (auto simp: clean_def list_all_iff phrase_texts_def)

lemma clean_no_marker: "clean s \<Longrightarrow> m \<in> set MARKERS \<Longrightarrow> \<not> contains m s"
  using marker_holds_phrase contains_trans by (fastforce simp: clean_def list_all_iff phrase_texts_def)

lemma clean_Nil [simp]: "clean []"
  using phrase_letters by (auto simp: clean_def list_all_iff)

lemma contains_part: "contains s (x @ s @ y)"
  by (auto simp: contains_iff)

lemma clean_part: "clean (x @ s @ y) \<Longrightarrow> clean s"
  unfolding clean_def list_all_iff using contains_trans [OF _ contains_part] by blast

lemma clean_prefix: "clean s \<Longrightarrow> prefix t s \<Longrightarrow> clean t"
  using clean_part [of "[]" t] by (auto simp: prefix_def)

lemma clean_suffix: "clean s \<Longrightarrow> suffix t s \<Longrightarrow> clean t"
  using clean_part [of _ t "[]"] by (auto simp: suffix_def)

lemma prefix_before: "prefix p (x @ c # y) \<Longrightarrow> c \<notin> set p \<Longrightarrow> prefix p x"
  by (auto simp: prefix_append prefix_Cons)

lemma contains_at_seam: "contains p (x @ c # y) \<Longrightarrow> c \<notin> set p \<Longrightarrow> contains p x \<or> contains p y"
proof (induction x)
  case Nil
  then have "prefix p (c # y) \<or> contains p y" by simp
  moreover have "p = []" if "prefix p (c # y)" using that Nil.prems(2) by (cases p) auto
  moreover have "contains [] y" by (cases y) simp_all
  ultimately show ?case by blast
next
  case (Cons a x)
  then have "prefix p ((a # x) @ c # y) \<or> contains p (x @ c # y)" by simp
  then show ?case
  proof
    assume "prefix p ((a # x) @ c # y)"
    then have "prefix p (a # x)" using Cons.prems(2) by (rule prefix_before)
    then show ?thesis by simp
  next
    assume "contains p (x @ c # y)"
    then show ?thesis using Cons.IH Cons.prems(2) by auto
  qed
qed

text \<open>Gluing at a character no phrase has, also after a space.\<close>

lemma clean_seam:
  assumes "\<not> phrase_char c"
  shows "clean (x @ c # y) \<longleftrightarrow> clean x \<and> clean y"
proof
  assume c: "clean (x @ c # y)"
  show "clean x \<and> clean y" using clean_prefix [OF c, of x] clean_suffix [OF c, of y]
    by (auto simp: suffix_def)
next
  assume c: "clean x \<and> clean y"
  have "\<not> contains p (x @ c # y)" if "p \<in> set phrase_texts" for p
  proof -
    have "c \<notin> set p" using phrase_letters [OF that] assms by blast
    then show ?thesis using contains_at_seam [of p x c y] c that by (auto simp: clean_def list_all_iff)
  qed
  then show "clean (x @ c # y)" by (simp add: clean_def list_all_iff)
qed

lemma contains_trailing: "contains p (x @ [c]) \<Longrightarrow> p \<noteq> [] \<Longrightarrow> last p \<noteq> c \<Longrightarrow> contains p x"
proof -
  assume "contains p (x @ [c])" and p: "p \<noteq> []" "last p \<noteq> c"
  then obtain us vs where e: "x @ [c] = us @ p @ vs" by (auto simp: contains_iff)
  have "vs \<noteq> []"
  proof
    assume "vs = []"
    then have "last (us @ p) = c" using e by (metis append_Nil2 last_snoc)
    then show False using p by simp
  qed
  then have "x = us @ p @ butlast vs" using e by (metis append_assoc butlast_append butlast_snoc)
  then show ?thesis by (auto simp: contains_iff)
qed

lemma contains_leading: "contains p (c # x) \<Longrightarrow> p \<noteq> [] \<Longrightarrow> hd p \<noteq> c \<Longrightarrow> contains p x"
  by (cases p) auto

lemma clean_snoc_space: "clean (x @ [32]) = clean x"
proof
  show "clean (x @ [32]) \<Longrightarrow> clean x" by (erule clean_prefix) simp
  show "clean x \<Longrightarrow> clean (x @ [32])"
    using contains_trailing [of _ x 32] phrase_letters unfolding clean_def list_all_iff by blast
qed

lemma clean_Cons_space: "clean (32 # x) = clean x"
proof
  show "clean (32 # x) \<Longrightarrow> clean x" by (erule clean_suffix) (simp add: suffix_Cons)
  show "clean x \<Longrightarrow> clean (32 # x)"
    using contains_leading [of _ 32 x] phrase_letters unfolding clean_def list_all_iff by blast
qed

lemma clean_seam_space:
  assumes "\<not> phrase_char c"
  shows "clean (x @ 32 # c # y) \<longleftrightarrow> clean x \<and> clean y"
  using clean_seam [OF assms, of "x @ [32]" y] by (simp add: clean_snoc_space)

lemma clean_seam_last:
  assumes "x \<noteq> []" and "\<not> phrase_char (last x)"
  shows "clean (x @ y) \<longleftrightarrow> clean x \<and> clean y"
proof -
  obtain z c where x: "x = z @ [c]" using assms(1) by (metis append_butlast_last_id)
  then have "\<not> phrase_char c" using assms(2) by simp
  from clean_seam [OF this, of z y] clean_seam [OF this, of z "[]"] show ?thesis by (simp add: x)
qed

lemma clean_seam_last_space:
  assumes "x \<noteq> []" and "\<not> phrase_char (last x)"
  shows "clean (x @ 32 # y) \<longleftrightarrow> clean x \<and> clean y"
  using clean_seam_last [OF assms, of "32 # y"] by (simp add: clean_Cons_space)

text \<open>Text without capitals holds no phrase: digits, dates of the lower case, punctuation.\<close>

lemma clean_no_capitals:
  assumes "list_all (\<lambda>c. \<not> phrase_char c \<or> c = 32) s"
  shows "clean s"
proof -
  have "\<not> contains p s" if p: "p \<in> set phrase_texts" for p
  proof
    assume "contains p s"
    then have "set p \<subseteq> set s" by (auto simp: contains_iff)
    moreover have "hd p \<in> set p" "phrase_char (hd p)" "hd p \<noteq> 32" using phrase_letters [OF p] by auto
    ultimately show False using assms by (auto simp: list_all_iff)
  qed
  then show ?thesis by (simp add: clean_def list_all_iff)
qed

lemma clean_decimal [simp]: "clean (decimal n)"
  by (rule clean_no_capitals) (use decimal_digits in \<open>fastforce simp: list_all_iff phrase_char_def\<close>)

section \<open>Lines\<close>

definition join_lines :: "str list \<Rightarrow> str" where
  "join_lines ls = join [10] ls"

lemma newline_seam: "\<not> phrase_char 10"
  by (simp add: phrase_char_def)

lemma clean_join_lines: "clean (join_lines ls) \<longleftrightarrow> list_all clean ls"
  unfolding join_lines_def
proof (induction "[10 :: nat]" ls rule: join.induct)
  case (3 w v ws)
  then show ?case using clean_seam [OF newline_seam, of w] by simp
qed simp_all

lemma join_lines_append:
  "xs \<noteq> [] \<Longrightarrow> ys \<noteq> [] \<Longrightarrow> join_lines (xs @ ys) = join_lines xs @ 10 # join_lines ys"
  unfolding join_lines_def
proof (induction "[10 :: nat]" xs rule: join.induct)
  case (2 w)
  then show ?case by (cases ys) simp_all
qed simp_all

lemma join_lines_single [simp]: "join_lines [l] = l" "join_lines [] = []"
  by (simp_all add: join_lines_def)

lemma join_lines_Cons: "ls \<noteq> [] \<Longrightarrow> join_lines (l # ls) = l @ 10 # join_lines ls"
  using join_lines_append [of "[l]" ls] by simp

text \<open>Each line of the list occurs in the joined text.\<close>

lemma line_in_join: "l \<in> set ls \<Longrightarrow> contains l (join_lines ls)"
proof -
  assume "l \<in> set ls"
  then obtain xs ys where ls: "ls = xs @ [l] @ ys" using split_list by fastforce
  show ?thesis
  proof (cases "xs = []")
    case True
    show ?thesis
    proof (cases "ys = []")
      case True
      then show ?thesis using \<open>xs = []\<close> ls contains_part [of l "[]" "[]"] by simp
    next
      case False
      then show ?thesis using \<open>xs = []\<close> ls contains_part [of l "[]"] by (simp add: join_lines_Cons)
    qed
  next
    case False
    then have j: "join_lines ls = join_lines xs @ 10 # join_lines ([l] @ ys)" using ls by (simp add: join_lines_append)
    show ?thesis
    proof (cases "ys = []")
      case True
      then show ?thesis using j contains_part [of l "join_lines xs @ [10]" "[]"] by simp
    next
      case False
      then show ?thesis using j contains_part [of l "join_lines xs @ [10]" "10 # join_lines ys"] by (simp add: join_lines_Cons)
    qed
  qed
qed

lemma rstrip_prefix: "prefix (rstrip s) s"
proof -
  obtain xs where "rev s = xs @ dropWhile is_space (rev s)" by (metis takeWhile_dropWhile_id)
  then have "s = rstrip s @ rev xs" unfolding rstrip_def by (metis rev_append rev_rev_ident)
  then show ?thesis by (metis prefixI)
qed

end
