(* ===== verification/Handoff_Store.thy ===== *)
theory Handoff_Store
  imports Store_Tx Channel
begin

text \<open>
  \<open>henk/store/handoffs.py\<close>: the archive of published handoffs. A retain inserts the row and
  applies both retention bounds in one transaction; reads see only rows within the age bound.
  A backend failure of a statement is the rollback of \<open>Store_Tx\<close>.
\<close>

section \<open>Message ids\<close>

definition HANDOFF_MAX_COUNT :: nat where "HANDOFF_MAX_COUNT = 500"
definition HANDOFF_MAX_AGE :: secs where "HANDOFF_MAX_AGE = 90 * 86400"
definition HANDOFF_DOCUMENT_MAX_BYTES :: nat where "HANDOFF_DOCUMENT_MAX_BYTES = 32 * 1024"

definition RESULT_PREFIX :: str where "RESULT_PREFIX = cps ''handoff published (id: ''"

definition format_handoff_result :: "str \<Rightarrow> str" where
  "format_handoff_result mid = RESULT_PREFIX @ mid @ cps '')''"

text \<open>\<open>_RESULT_FORM\<close>: the text between \<open>(id:\<close> and the closing parenthesis.\<close>

definition result_form :: "str \<Rightarrow> str option" where
  "result_form t =
     (let head = cps ''handoff published (id:''; rest = drop (length head) t
      in if prefix head t \<and> rest \<noteq> [] \<and> last rest = 41 then Some (butlast rest) else None)"

definition parse_handoff_message_id :: "str option \<Rightarrow> str option" where
  "parse_handoff_message_id ref =
     (case ref of
        None \<Rightarrow> None
      | Some r \<Rightarrow>
          (let t = strip r;
               mid = (case result_form t of None \<Rightarrow> t | Some g \<Rightarrow> strip g)
           in if mid = [] then None else Some mid))"

section \<open>Rows\<close>

record handoff =
  ho_id :: nat
  ho_message :: "str option"
  ho_published :: secs
  ho_document :: str
  ho_truncated :: bool
  ho_identities :: "str list"
  ho_rules :: "str list"
  ho_nodes :: "str list"

type_synonym archive = "handoff table"

definition truncation_marker :: "nat \<Rightarrow> str" where
  "truncation_marker n =
     [10] @ cps ''[handoff truncated here: the published document was '' @ decimal n @
     cps ('' bytes; '' @ ''the archive keeps at most '') @ decimal HANDOFF_DOCUMENT_MAX_BYTES @ cps '' bytes]''"

text \<open>The cut keeps the characters that fit the byte budget whole.\<close>

definition bounded_document :: "str \<Rightarrow> str \<times> bool" where
  "bounded_document d =
     (if byte_length d \<le> HANDOFF_DOCUMENT_MAX_BYTES then (d, False)
      else (let marker = truncation_marker (byte_length d);
                budget = HANDOFF_DOCUMENT_MAX_BYTES - byte_length marker
            in (take (chars_within d budget) d @ marker, True)))"

datatype handoff_error = No_Incident_Identity

definition newest_first :: "handoff list \<Rightarrow> handoff list" where
  "newest_first hs = rev (sort_key (\<lambda>h. (ho_published h, ho_id h)) hs)"

definition prune_locked :: "secs \<Rightarrow> nat \<Rightarrow> archive \<Rightarrow> archive" where
  "prune_locked now protect t =
     (let t1 = delete_rows (\<lambda>h. ho_published h < now - HANDOFF_MAX_AGE \<and> ho_id h \<noteq> protect) t;
          drop_ids = ho_id ` set (drop (HANDOFF_MAX_COUNT - 1)
            (newest_first (filter (\<lambda>h. ho_id h \<noteq> protect) (rows t1))))
      in delete_rows (\<lambda>h. ho_id h \<in> drop_ids) t1)"

definition new_handoff ::
    "str \<Rightarrow> str option \<Rightarrow> str list \<Rightarrow> str list \<Rightarrow> str list \<Rightarrow> secs \<Rightarrow> nat \<Rightarrow> handoff" where
  "new_handoff doc mid identities rules node_names now i =
     \<lparr>ho_id = i, ho_message = parse_handoff_message_id mid, ho_published = now,
      ho_document = fst (bounded_document doc), ho_truncated = snd (bounded_document doc),
      ho_identities = identities, ho_rules = rules, ho_nodes = node_names\<rparr>"

definition retain_body ::
    "secs \<Rightarrow> str \<Rightarrow> str option \<Rightarrow> str list \<Rightarrow> str list \<Rightarrow> str list \<Rightarrow> archive \<Rightarrow> (handoff_error + handoff) \<times> archive" where
  "retain_body now doc mid identities rules node_names t =
     (if identities = [] then (Inl No_Incident_Identity, t)
      else (let h = new_handoff doc mid identities rules node_names now
            in (Inr (h (next_id t)), prune_locked now (next_id t) (insert_row h t))))"

definition retain ::
    "secs \<Rightarrow> str \<Rightarrow> str option \<Rightarrow> str list \<Rightarrow> str list \<Rightarrow> str list \<Rightarrow> archive \<Rightarrow> (handoff_error + handoff) \<times> archive" where
  "retain now doc mid identities rules node_names =
     atomically (retain_body now doc mid identities rules node_names)"

definition eligible :: "secs \<Rightarrow> archive \<Rightarrow> handoff list" where
  "eligible now t =
     take HANDOFF_MAX_COUNT (newest_first (filter (\<lambda>h. now - HANDOFF_MAX_AGE \<le> ho_published h) (rows t)))"

definition find_by_message_ref :: "str option \<Rightarrow> secs \<Rightarrow> archive \<Rightarrow> handoff option" where
  "find_by_message_ref ref now t =
     (case parse_handoff_message_id ref of
        None \<Rightarrow> None
      | Some mid \<Rightarrow>
          (case newest_first (filter (\<lambda>h. ho_message h = Some mid \<and> now - HANDOFF_MAX_AGE \<le> ho_published h) (rows t)) of
             [] \<Rightarrow> None | h # _ \<Rightarrow> Some h))"

definition handoff_count :: "archive \<Rightarrow> nat" where
  "handoff_count t = length (rows t)"

section \<open>The two forms of a reference\<close>

lemma strip_id: "s = [] \<or> \<not> is_space (hd s) \<and> \<not> is_space (last s) \<Longrightarrow> strip s = s"
proof -
  assume s: "s = [] \<or> \<not> is_space (hd s) \<and> \<not> is_space (last s)"
  then have "dropWhile is_space s = s" "dropWhile is_space (rev s) = rev s"
    by (auto simp: dropWhile_eq_self_iff hd_rev)
  then show ?thesis by (simp add: strip_def)
qed

lemma result_form_format: "result_form (format_handoff_result mid) = Some (32 # mid)"
proof -
  have "format_handoff_result mid = cps ''handoff published (id:'' @ (32 # mid) @ [41]"
    by (simp add: format_handoff_result_def RESULT_PREFIX_def cps_def)
  then show ?thesis by (simp add: result_form_def Let_def butlast_append)
qed

lemma strip_format: "strip (format_handoff_result mid) = format_handoff_result mid"
  by (rule strip_id) (simp add: format_handoff_result_def RESULT_PREFIX_def cps_def is_space_def)

lemma strip_space_Cons: "strip (32 # s) = strip s"
  by (simp add: strip_def is_space_def)

text \<open>
  The result a publish reports and the bare message id are the same reference: parsing the
  tool's whole result string gives the id that was formatted into it (trimmed), parsing that id
  again changes nothing unless it itself has the shape of a result, and an empty id in either
  form is no reference.
\<close>

theorem handoff_reference_round_trip:
  "parse_handoff_message_id (Some (format_handoff_result mid)) = (if strip mid = [] then None else Some (strip mid)) \<and>
   (result_form (strip mid) = None \<longrightarrow>
      parse_handoff_message_id (Some mid) = parse_handoff_message_id (Some (format_handoff_result mid)))"
  by (simp add: parse_handoff_message_id_def strip_format result_form_format Let_def strip_space_Cons)

section \<open>Documents\<close>

lemma byte_length_ascii: "list_all (\<lambda>c. c < 128) s \<Longrightarrow> byte_length s = length s"
  by (induction s) (simp_all add: utf8_width_def)

lemma ascii_decimal: "list_all (\<lambda>c. c < 128) (decimal n)"
  using decimal_digits by (fastforce simp: list_all_iff)

lemma marker_length: "byte_length (truncation_marker n) = 99 + length (decimal n)"
proof -
  have "list_all (\<lambda>c. c < 128) (truncation_marker n)"
    using ascii_decimal by (simp add: truncation_marker_def cps_def)
  then have "byte_length (truncation_marker n) = length (truncation_marker n)" by (rule byte_length_ascii)
  also have "\<dots> = 99 + length (decimal n)"
    by (simp add: truncation_marker_def HANDOFF_DOCUMENT_MAX_BYTES_def cps_def decimal.simps [of 32768]
        decimal.simps [of 3276] decimal.simps [of 327] decimal.simps [of 32] decimal.simps [of 3])
  finally show ?thesis .
qed

text \<open>
  A document is stored whole when it fits the byte bound and otherwise cut to as many whole
  characters as fit in front of a marker that names its size; what is stored never exceeds the
  bound, and the flag says exactly whether it was cut.
\<close>

theorem stored_document_is_bounded:
  assumes "byte_length d < 10 ^ 100"
  shows "byte_length (fst (bounded_document d)) \<le> HANDOFF_DOCUMENT_MAX_BYTES \<and>
    (snd (bounded_document d) \<longleftrightarrow> HANDOFF_DOCUMENT_MAX_BYTES < byte_length d) \<and>
    (\<not> snd (bounded_document d) \<longrightarrow> fst (bounded_document d) = d) \<and>
    (snd (bounded_document d) \<longrightarrow>
      (\<exists>k < length d. fst (bounded_document d) = take k d @ truncation_marker (byte_length d) \<and>
         HANDOFF_DOCUMENT_MAX_BYTES < byte_length (take (Suc k) d @ truncation_marker (byte_length d))))"
proof (cases "byte_length d \<le> HANDOFF_DOCUMENT_MAX_BYTES")
  case True
  then show ?thesis by (simp add: bounded_document_def)
next
  case False
  let ?m = "truncation_marker (byte_length d)"
  let ?b = "HANDOFF_DOCUMENT_MAX_BYTES - byte_length ?m"
  let ?k = "chars_within d ?b"
  have "length (decimal (byte_length d)) \<le> Suc 99" by (rule length_decimal) (use assms in simp)
  then have m: "byte_length ?m \<le> HANDOFF_DOCUMENT_MAX_BYTES" by (simp add: marker_length HANDOFF_DOCUMENT_MAX_BYTES_def)
  have eq: "bounded_document d = (take ?k d @ ?m, True)" using False by (simp add: bounded_document_def Let_def)
  have fits: "byte_length (take ?k d) \<le> ?b" using chars_within_from_fits [of 0 ?b d] by (simp add: chars_within_def)
  have max: "?k < length d \<and> ?b < byte_length (take (Suc ?k) d)"
    using chars_within_from_max [of 0 ?b d] False m by (simp add: chars_within_def)
  show ?thesis using fits max m False by (auto simp: eq intro!: exI [of _ ?k])
qed

section \<open>Retention\<close>

definition handoff_key :: "handoff \<Rightarrow> secs \<times> nat" where
  "handoff_key h = (ho_published h, ho_id h)"

lemma newest_first_set [simp]: "set (newest_first hs) = set hs"
  by (simp add: newest_first_def)

lemma newest_first_length [simp]: "length (newest_first hs) = length hs"
  by (simp add: newest_first_def)

lemma newest_first_sorted: "sorted_wrt (\<lambda>x y. handoff_key y \<le> handoff_key x) (newest_first hs)"
proof -
  have "sorted (map handoff_key (sort_key handoff_key hs))" by (rule sorted_sort_key)
  then show ?thesis
    by (simp add: newest_first_def handoff_key_def [abs_def] sorted_wrt_rev sorted_wrt_map)
qed

lemma newest_first_distinct: "distinct (map ho_id hs) \<Longrightarrow> distinct (newest_first hs)"
  by (simp add: newest_first_def distinct_map)

lemma taken_newer:
  assumes "q \<in> set (take n (newest_first hs))" and "r \<in> set (drop n (newest_first hs))"
  shows "handoff_key r \<le> handoff_key q"
proof -
  have "sorted_wrt (\<lambda>x y. handoff_key y \<le> handoff_key x) (take n (newest_first hs) @ drop n (newest_first hs))"
    using newest_first_sorted [of hs] by simp
  then show ?thesis using assms unfolding sorted_wrt_append by blast
qed

lemma prune_rows:
  fixes p :: nat and now :: secs
  assumes "wf_table ho_id t"
  defines "others \<equiv> filter (\<lambda>h. ho_id h \<noteq> p \<and> now - HANDOFF_MAX_AGE \<le> ho_published h) (rows t)"
  shows "set (rows (prune_locked now p t)) =
    {h \<in> set (rows t). ho_id h = p \<or> h \<in> set (take (HANDOFF_MAX_COUNT - 1) (newest_first others))}"
proof -
  let ?n = "HANDOFF_MAX_COUNT - 1"
  have f: "filter (\<lambda>h. ho_id h \<noteq> p) (rows (delete_rows (\<lambda>h. ho_published h < now - HANDOFF_MAX_AGE \<and> ho_id h \<noteq> p) t)) = others"
    unfolding others_def by (simp, rule filter_cong) auto
  have dist: "distinct (newest_first others)"
    using assms(1) by (intro newest_first_distinct) (simp add: others_def wf_table_def distinct_map_filter)
  have split: "h \<in> set (take ?n (newest_first others)) \<longleftrightarrow> h \<notin> set (drop ?n (newest_first others))"
    if "h \<in> set others" for h
  proof -
    have "set (newest_first others) = set (take ?n (newest_first others)) \<union> set (drop ?n (newest_first others))"
      by (metis append_take_drop_id set_append)
    moreover have "set (take ?n (newest_first others)) \<inter> set (drop ?n (newest_first others)) = {}"
      using dist by (metis append_take_drop_id distinct_append)
    ultimately show ?thesis using that by auto
  qed
  have ids: "ho_id h \<in> ho_id ` set (drop ?n (newest_first others)) \<longleftrightarrow> h \<in> set (drop ?n (newest_first others))"
    if "h \<in> set (rows t)" for h
  proof
    assume "ho_id h \<in> ho_id ` set (drop ?n (newest_first others))"
    then obtain q where q: "q \<in> set (drop ?n (newest_first others))" "ho_id h = ho_id q" by auto
    then have "q \<in> set others" by (metis in_set_dropD newest_first_set)
    then have "q \<in> set (rows t)" by (simp add: others_def)
    then show "h \<in> set (drop ?n (newest_first others))" using wf_table_unique [OF assms(1) that] q by metis
  qed auto
  have sub: "set (take ?n (newest_first others)) \<subseteq> set others" "set (drop ?n (newest_first others)) \<subseteq> set others"
    by (metis newest_first_set set_take_subset) (metis newest_first_set set_drop_subset)
  have mem: "h \<in> set (rows (prune_locked now p t)) \<longleftrightarrow>
      h \<in> set (rows t) \<and> \<not> (ho_published h < now - HANDOFF_MAX_AGE \<and> ho_id h \<noteq> p) \<and>
      h \<notin> set (drop ?n (newest_first others))" for h
  proof -
    have "rows (prune_locked now p t) = filter (\<lambda>h. \<not> ho_id h \<in> ho_id ` set (drop ?n (newest_first others)))
        (rows (delete_rows (\<lambda>h. ho_published h < now - HANDOFF_MAX_AGE \<and> ho_id h \<noteq> p) t))"
      unfolding prune_locked_def Let_def f by (simp only: row_op_simps)
    then have "h \<in> set (rows (prune_locked now p t)) \<longleftrightarrow>
        h \<in> set (rows t) \<and> \<not> (ho_published h < now - HANDOFF_MAX_AGE \<and> ho_id h \<noteq> p) \<and>
        \<not> ho_id h \<in> ho_id ` set (drop ?n (newest_first others))"
      by (simp only: row_op_simps set_filter mem_Collect_eq) blast
    then show ?thesis using ids [of h] by blast
  qed
  have oth: "h \<in> set others \<longleftrightarrow> h \<in> set (rows t) \<and> ho_id h \<noteq> p \<and> \<not> ho_published h < now - HANDOFF_MAX_AGE" for h
    by (auto simp: others_def)
  have "h \<in> set (rows (prune_locked now p t)) \<longleftrightarrow>
      h \<in> set (rows t) \<and> (ho_id h = p \<or> h \<in> set (take ?n (newest_first others)))" for h
    using mem [of h] split [of h] sub oth [of h] by blast
  then show ?thesis by blast
qed

lemma wf_prune: "wf_table ho_id t \<Longrightarrow> wf_table ho_id (prune_locked now p t)"
  by (simp add: prune_locked_def Let_def wf_delete_rows)

lemma retain_Inr:
  assumes "retain now doc mid identities rules node_names t = (Inr h, t')"
  shows "h = new_handoff doc mid identities rules node_names now (next_id t) \<and>
    t' = prune_locked now (next_id t) (insert_row (new_handoff doc mid identities rules node_names now) t)"
  using assms unfolding retain_def atomically_def retain_body_def Let_def
  by (cases "identities = []") simp_all

text \<open>
  C33. Retention keeps the archive bounded without losing what it just stored: after a retain the
  archive holds the new handoff and at most 500 rows, every other row is within the age bound,
  row ids stay unique and are never reused, no row is altered, and a row that was within the age
  bound and had to go is older than every row kept.
\<close>

theorem retention_is_bounded_and_oldest_first:
  assumes "wf_table ho_id t" and "retain now doc mid identities rules node_names t = (Inr h, t')"
  shows "h \<in> set (rows t') \<and> ho_id h = next_id t \<and> handoff_count t' \<le> HANDOFF_MAX_COUNT \<and> wf_table ho_id t' \<and>
    next_id t < next_id t' \<and> set (rows t') \<subseteq> insert h (set (rows t)) \<and>
    (\<forall>q\<in>set (rows t'). q = h \<or> now - HANDOFF_MAX_AGE \<le> ho_published q) \<and>
    (\<forall>r\<in>set (rows t) - set (rows t'). ho_published r < now - HANDOFF_MAX_AGE \<or>
       (\<forall>q\<in>set (rows t') - {h}. (ho_published r, ho_id r) < (ho_published q, ho_id q)))"
proof -
  define mk where "mk = new_handoff doc mid identities rules node_names now"
  define u where "u = insert_row mk t"
  define others where "others = filter (\<lambda>h. ho_id h \<noteq> next_id t \<and> now - HANDOFF_MAX_AGE \<le> ho_published h) (rows u)"
  have h: "h = mk (next_id t)" and t': "t' = prune_locked now (next_id t) u"
    using retain_Inr [OF assms(2)] by (simp_all only: mk_def u_def)
  have id: "ho_id h = next_id t" by (simp add: h mk_def new_handoff_def)
  have wf: "wf_table ho_id u" unfolding u_def by (rule wf_insert_row [OF assms(1)]) (simp add: mk_def new_handoff_def)
  have rows_u: "set (rows u) = insert h (set (rows t))" by (auto simp: u_def h)
  have old: "ho_id r \<noteq> next_id t" if "r \<in> set (rows t)" for r using assms(1) that by (auto simp: wf_table_def)
  have only: "q = h" if "q \<in> set (rows u)" "ho_id q = next_id t" for q
    using that rows_u old by auto
  let ?L = "newest_first others"
  have rows': "set (rows t') = {q \<in> set (rows u). ho_id q = next_id t \<or> q \<in> set (take (HANDOFF_MAX_COUNT - 1) ?L)}"
    unfolding t' others_def by (rule prune_rows [OF wf])
  have wf': "wf_table ho_id t'" unfolding t' by (rule wf_prune [OF wf])
  have sub: "set (rows t') \<subseteq> insert h (set (take (HANDOFF_MAX_COUNT - 1) ?L))" using rows' only by auto
  have "distinct (rows t')" using wf' by (simp add: wf_table_def distinct_map)
  then have "handoff_count t' = card (set (rows t'))" by (simp add: handoff_count_def distinct_card)
  also have "\<dots> \<le> card (insert h (set (take (HANDOFF_MAX_COUNT - 1) ?L)))" by (rule card_mono [OF _ sub]) simp
  also have "\<dots> \<le> Suc (card (set (take (HANDOFF_MAX_COUNT - 1) ?L)))" by (simp add: card_insert_if)
  also have "\<dots> \<le> Suc (length (take (HANDOFF_MAX_COUNT - 1) ?L))" by (simp only: Suc_le_mono card_length)
  also have "\<dots> \<le> HANDOFF_MAX_COUNT" by (simp add: HANDOFF_MAX_COUNT_def)
  finally have count: "handoff_count t' \<le> HANDOFF_MAX_COUNT" .
  have tk: "q \<in> set others" if "q \<in> set (take n ?L)" for q n using that by (metis in_set_takeD newest_first_set)
  have keep: "q = h \<or> now - HANDOFF_MAX_AGE \<le> ho_published q \<and> q \<in> set (take (HANDOFF_MAX_COUNT - 1) ?L)"
    if "q \<in> set (rows t')" for q using that sub tk [of q] by (auto simp: others_def)
  have gone: "(ho_published r, ho_id r) < (ho_published q, ho_id q)"
    if r: "r \<in> set (rows t) - set (rows t')" "\<not> ho_published r < now - HANDOFF_MAX_AGE" and q: "q \<in> set (rows t') - {h}" for r q
  proof -
    have ro: "r \<in> set others" using r old [of r] rows_u by (auto simp: others_def)
    have nt: "r \<notin> set (take (HANDOFF_MAX_COUNT - 1) ?L)" using r rows' rows_u by auto
    have "r \<in> set (drop (HANDOFF_MAX_COUNT - 1) ?L)"
      using ro nt newest_first_set [of others] by (metis Un_iff append_take_drop_id set_append)
    moreover have qt: "q \<in> set (take (HANDOFF_MAX_COUNT - 1) ?L)" using keep [of q] q by auto
    ultimately have "handoff_key r \<le> handoff_key q" by (rule taken_newer [rotated])
    moreover have "ho_id r \<noteq> ho_id q"
      using wf_table_unique [OF wf, of r q] r q rows_u rows' nt qt by auto
    ultimately show ?thesis by (auto simp: handoff_key_def less_le)
  qed
  have "next_id t < next_id t'" by (simp add: t' u_def prune_locked_def Let_def)
  moreover have "h \<in> set (rows t')" using rows' rows_u id by blast
  moreover have "set (rows t') \<subseteq> insert h (set (rows t))" using rows' rows_u by blast
  ultimately show ?thesis using count wf' id keep gone by blast
qed

text \<open>
  What was just published is found again by the reference the publish reported: unless a row
  under the same id carries a later publish time, the lookup with the tool's result string
  returns the handoff that was stored.
\<close>

theorem retained_handoff_is_found:
  assumes "wf_table ho_id t" and "retain now doc (Some (format_handoff_result mid)) identities rules node_names t = (Inr h, t')"
    and "strip mid \<noteq> []" and "\<forall>q\<in>set (rows t). ho_message q = Some (strip mid) \<longrightarrow> ho_published q \<le> now"
  shows "find_by_message_ref (Some (format_handoff_result mid)) now t' = Some h"
proof -
  let ?mk = "new_handoff doc (Some (format_handoff_result mid)) identities rules node_names now"
  have p: "parse_handoff_message_id (Some (format_handoff_result mid)) = Some (strip mid)"
    using assms(3) by (simp add: parse_handoff_message_id_def strip_format result_form_format Let_def strip_space_Cons)
  have h: "ho_message h = Some (strip mid)" "ho_published h = now" "ho_id h = next_id t"
    using retain_Inr [OF assms(2)] p by (simp_all add: new_handoff_def)
  have ret: "h \<in> set (rows t') \<and> set (rows t') \<subseteq> insert h (set (rows t))"
  proof -
    have wf: "wf_table ho_id (insert_row ?mk t)"
      by (rule wf_insert_row [OF assms(1)]) (simp add: new_handoff_def)
    have "set (rows (insert_row ?mk t)) = insert h (set (rows t))"
      using retain_Inr [OF assms(2)] by auto
    then show ?thesis using prune_rows [OF wf, of now "next_id t"] retain_Inr [OF assms(2)] h(3) by auto
  qed
  let ?L = "newest_first (filter (\<lambda>h. ho_message h = Some (strip mid) \<and> now - HANDOFF_MAX_AGE \<le> ho_published h) (rows t'))"
  have hin: "h \<in> set ?L" using ret h by (simp add: HANDOFF_MAX_AGE_def)
  then obtain x xs where L: "?L = x # xs" by (cases ?L) auto
  have "handoff_key h \<le> handoff_key x"
    using newest_first_sorted [of "filter (\<lambda>h. ho_message h = Some (strip mid) \<and> now - HANDOFF_MAX_AGE \<le> ho_published h) (rows t')"]
      hin unfolding L by auto
  moreover have "x = h \<or> handoff_key x < handoff_key h"
  proof -
    have "x \<in> set ?L" by (simp add: L)
    then have "x \<in> set (rows t')" "ho_message x = Some (strip mid)" by simp_all
    then have "x = h \<or> x \<in> set (rows t) \<and> ho_published x \<le> now" using ret assms(4) by auto
    moreover have "ho_id q < ho_id h" if "q \<in> set (rows t)" for q using that assms(1) h(3) by (auto simp: wf_table_def)
    ultimately have "x = h \<or> ho_published x \<le> ho_published h \<and> ho_id x < ho_id h" using h(2) by auto
    then show ?thesis by (auto simp: handoff_key_def)
  qed
  ultimately have "x = h" by auto
  then show ?thesis by (simp add: find_by_message_ref_def p L)
qed

section \<open>Examples\<close>

theorem stored_document_is_bounded_witness:
  "byte_length (fst (bounded_document [97, 97, 97])) \<le> HANDOFF_DOCUMENT_MAX_BYTES"
proof -
  have "byte_length [97, 97, 97] = 3" by (simp add: utf8_width_def)
  then have "byte_length [97, 97, 97] < 10 ^ 100" by simp
  then show ?thesis by (rule stored_document_is_bounded [THEN conjunct1])
qed

theorem retention_is_bounded_and_oldest_first_witness:
  "handoff_count (snd (retain 100 [97] None [[98]] [] [] empty_table)) \<le> HANDOFF_MAX_COUNT"
proof -
  obtain h t' where r: "retain 100 [97] None [[98]] [] [] empty_table = (Inr h, t')"
    by (simp add: retain_def atomically_def retain_body_def Let_def)
  show ?thesis using retention_is_bounded_and_oldest_first [OF wf_empty_table r] by (simp add: r)
qed

theorem retained_handoff_is_found_witness:
  "\<exists>h t'. retain 100 [97] (Some (format_handoff_result [120])) [[98]] [] [] empty_table = (Inr h, t') \<and>
     find_by_message_ref (Some (format_handoff_result [120])) 100 t' = Some h"
proof -
  obtain h t' where r: "retain 100 [97] (Some (format_handoff_result [120])) [[98]] [] [] empty_table = (Inr h, t')"
    by (simp add: retain_def atomically_def retain_body_def Let_def)
  have "strip [120] \<noteq> []" by (simp add: strip_def is_space_def)
  then show ?thesis using retained_handoff_is_found [OF wf_empty_table r] r by (simp add: empty_table_def)
qed

theorem handoff_reference_round_trip_witness:
  "parse_handoff_message_id (Some (cps ''a1'')) = parse_handoff_message_id (Some (format_handoff_result (cps ''a1'')))"
  using handoff_reference_round_trip [of "cps ''a1''"]
  by (simp add: cps_def strip_def is_space_def result_form_def Let_def)

end
