(* ===== verification/Incident_Context.thy ===== *)
theory Incident_Context
  imports Markers Event_Pipeline
begin

text \<open>
  \<open>henk/events/incident_context.py\<close> with the job names of \<open>henk/tools/query_projection.py\<close>: what
  a session knows about the incidents it was started for. The node search is the scan of the
  compiled pattern; the lookup of a matched token in \<open>_NODE_TOKENS\<close> can fail and is a branch.
\<close>

section \<open>Node names\<close>

definition NODE_EXPORTER_JOBS :: "(str \<times> str) list" where
  "NODE_EXPORTER_JOBS = [(cps ''rp5'', cps ''node-exporter-pi5''), (cps ''vps'', cps ''node-exporter-vps''),
     (cps ''rp2'', cps ''node-exporter-pi2'')]"

definition CADVISOR_JOBS :: "(str \<times> str) list" where
  "CADVISOR_JOBS = [(cps ''rp5'', cps ''cadvisor-pi5''), (cps ''vps'', cps ''cadvisor-vps'')]"

definition NODE_FOR_JOB :: "(str \<times> str) list" where
  "NODE_FOR_JOB = map (\<lambda>(n, j). (j, n)) (NODE_EXPORTER_JOBS @ CADVISOR_JOBS)"

definition NODES :: "str list" where
  "NODES = [cps ''rp5'', cps ''vps'', cps ''rp2'']"

definition NODE_TOKENS :: "(str \<times> str) list" where
  "NODE_TOKENS = map (\<lambda>n. (n, n)) NODES @ filter (\<lambda>(j, n). n \<in> set NODES) NODE_FOR_JOB"

text \<open>\<open>sorted(_NODE_TOKENS, key=len, reverse=True)\<close>: longest first, ties in their order.\<close>

definition alternatives :: "str list" where
  "alternatives = sort_key (\<lambda>t. - int (length t)) (map fst NODE_TOKENS)"

section \<open>The scan\<close>

definition ascii_letter :: "nat \<Rightarrow> bool" where
  "ascii_letter c \<longleftrightarrow> 65 \<le> c \<and> c \<le> 90 \<or> 97 \<le> c \<and> c \<le> 122"

definition ascii_digit :: "nat \<Rightarrow> bool" where
  "ascii_digit c \<longleftrightarrow> 48 \<le> c \<and> c \<le> 57"

text \<open>\<open>[A-Za-z0-9_]\<close> ignoring case: the class gains the four non-ASCII letters that fold into it.\<close>

definition word_char :: "nat \<Rightarrow> bool" where
  "word_char c \<longleftrightarrow> ascii_letter c \<or> ascii_digit c \<or> c = 95 \<or> c \<in> {304, 305, 383, 8490}"

definition token_letter :: "nat \<Rightarrow> nat \<Rightarrow> bool" where
  "token_letter l c \<longleftrightarrow> c = l \<or> 97 \<le> l \<and> l \<le> 122 \<and> letter_matches (l - 32) c"

definition token_at :: "str \<Rightarrow> str \<Rightarrow> bool" where
  "token_at tok s \<longleftrightarrow> list_all2 token_letter tok (take (length tok) s)"

definition at_boundary :: "str \<Rightarrow> bool" where
  "at_boundary s \<longleftrightarrow> (case s of [] \<Rightarrow> True | c # _ \<Rightarrow> \<not> word_char c)"

fun first_token :: "str list \<Rightarrow> str \<Rightarrow> str option" where
  "first_token [] s = None"
| "first_token (tok # toks) s =
     (if token_at tok s \<and> at_boundary (drop (length tok) s) then Some (take (length tok) s)
      else first_token toks s)"

text \<open>\<open>_NODE_PATTERN.finditer\<close>: the matched texts, left to right, none overlapping. The flag says
  whether the character before is a word character.\<close>

function (sequential) tokens_in :: "bool \<Rightarrow> str \<Rightarrow> str list" where
  "tokens_in after_word [] = []"
| "tokens_in after_word (c # cs) =
     (case (if after_word then None else first_token alternatives (c # cs)) of
        Some m \<Rightarrow> m # (if m = [] then [] else tokens_in (word_char (last m)) (drop (length m) (c # cs)))
      | None \<Rightarrow> tokens_in (word_char c) cs)"
  by pat_completeness auto
termination by (relation "measure (\<lambda>(_, s). length s)") (auto split: if_splits)

text \<open>\<open>_URL.sub(" ", text)\<close>.\<close>

definition scheme_char :: "nat \<Rightarrow> bool" where
  "scheme_char c \<longleftrightarrow> ascii_letter c \<or> ascii_digit c \<or> c \<in> {43, 45, 46}"

definition after_url :: "str \<Rightarrow> str option" where
  "after_url s =
     (case s of
        [] \<Rightarrow> None
      | c # cs \<Rightarrow>
          (let r = dropWhile scheme_char cs; body = drop 3 r
           in if ascii_letter c \<and> prefix (cps ''://'') r \<and> body \<noteq> [] \<and> \<not> is_space (hd body)
              then Some (dropWhile (\<lambda>c. \<not> is_space c) body) else None))"

lemma after_url_shorter: "after_url (c # cs) = Some r \<Longrightarrow> length r \<le> length cs"
proof -
  assume "after_url (c # cs) = Some r"
  then have "r = dropWhile (\<lambda>c. \<not> is_space c) (drop 3 (dropWhile scheme_char cs))"
    by (simp add: after_url_def Let_def split: if_splits)
  moreover have "length (dropWhile (\<lambda>c. \<not> is_space c) (drop 3 (dropWhile scheme_char cs))) \<le> length (drop 3 (dropWhile scheme_char cs))"
    by (rule length_dropWhile_le)
  moreover have "length (dropWhile scheme_char cs) \<le> length cs" by (rule length_dropWhile_le)
  ultimately show ?thesis by simp
qed

function (sequential) strip_urls :: "str \<Rightarrow> str" where
  "strip_urls [] = []"
| "strip_urls (c # cs) =
     (case after_url (c # cs) of Some r \<Rightarrow> 32 # strip_urls r | None \<Rightarrow> c # strip_urls cs)"
  by pat_completeness auto
termination by (relation "measure length") (auto dest: after_url_shorter)

section \<open>Nodes, rule keys, context\<close>

datatype context_error = Key_Error str

text \<open>\<open>_NODE_TOKENS[match.group("token").lower()]\<close> over the matches, in order. The capital dotted
  \<open>i\<close> lowers to two code points, which only matters in that no token has them.\<close>

fun lookup_tokens :: "str list \<Rightarrow> context_error + str list" where
  "lookup_tokens [] = Inr []"
| "lookup_tokens (m # ms) =
     (case map_of NODE_TOKENS (lower m) of
        None \<Rightarrow> Inl (Key_Error (lower m))
      | Some n \<Rightarrow> (case lookup_tokens ms of Inl e \<Rightarrow> Inl e | Inr ns \<Rightarrow> Inr (n # ns)))"

definition derive_nodes :: "str \<Rightarrow> str \<Rightarrow> context_error + str list" where
  "derive_nodes title message =
     lookup_tokens (tokens_in False (strip_urls title) @ tokens_in False (strip_urls message))"

definition derive_rule_key :: "alert_identity \<Rightarrow> str" where
  "derive_rule_key i = (if id_source i = cps ''grafana'' then cps ''grafana:'' @ id_name i else id_key i)"

text \<open>\<open>dict.fromkeys\<close>: the first of each, in order.\<close>

fun unique_keys :: "'a list \<Rightarrow> 'a list" where
  "unique_keys [] = []"
| "unique_keys (x # xs) = x # filter (\<lambda>y. y \<noteq> x) (unique_keys xs)"

record incident_context =
  ic_identities :: "str list"
  ic_rules :: "str list"
  ic_nodes :: "str list"

definition EMPTY_INCIDENT_CONTEXT :: incident_context where
  "EMPTY_INCIDENT_CONTEXT = \<lparr>ic_identities = [], ic_rules = [], ic_nodes = []\<rparr>"

definition context_empty :: "incident_context \<Rightarrow> bool" where
  "context_empty c \<longleftrightarrow> ic_identities c = []"

fun nodes_of_items :: "turn_item list \<Rightarrow> context_error + str list" where
  "nodes_of_items [] = Inr []"
| "nodes_of_items (it # its) =
     (case derive_nodes (ev_title (it_event it)) (ev_message (it_event it)) of
        Inl e \<Rightarrow> Inl e
      | Inr ns \<Rightarrow> (case nodes_of_items its of Inl e \<Rightarrow> Inl e | Inr ms \<Rightarrow> Inr (ns @ ms)))"

definition from_items :: "turn_item list \<Rightarrow> context_error + incident_context" where
  "from_items its =
     (case nodes_of_items its of
        Inl e \<Rightarrow> Inl e
      | Inr found \<Rightarrow> Inr \<lparr>ic_identities = unique_keys (map (id_key \<circ> it_identity) its),
          ic_rules = unique_keys (map (derive_rule_key \<circ> it_identity) its),
          ic_nodes = filter (\<lambda>n. n \<in> set found) NODES\<rparr>)"

definition from_turn :: "event_turn \<Rightarrow> context_error + incident_context" where
  "from_turn t = from_items (tn_items t)"

section \<open>Whole words\<close>

text \<open>What the scan is for: a token, as a whole word, anywhere in the text.\<close>

definition names_node :: "str \<Rightarrow> str \<Rightarrow> bool" where
  "names_node s n \<longleftrightarrow>
     (\<exists>p q r. s = p @ q @ r \<and> (p = [] \<or> \<not> word_char (last p)) \<and> at_boundary r \<and>
        map_of NODE_TOKENS (lower q) = Some n)"

text \<open>The letters whose lower case leaves ASCII.\<close>

definition plain_letters :: "str \<Rightarrow> bool" where
  "plain_letters s \<longleftrightarrow> list_all (\<lambda>c. c \<notin> {304, 305, 383}) s"

lemma token_tables:
  "NODE_TOKENS = [(cps ''rp5'', cps ''rp5''), (cps ''vps'', cps ''vps''), (cps ''rp2'', cps ''rp2''),
     (cps ''node-exporter-pi5'', cps ''rp5''), (cps ''node-exporter-vps'', cps ''vps''),
     (cps ''node-exporter-pi2'', cps ''rp2''), (cps ''cadvisor-pi5'', cps ''rp5''), (cps ''cadvisor-vps'', cps ''vps'')]"
  "alternatives = [cps ''node-exporter-pi5'', cps ''node-exporter-vps'', cps ''node-exporter-pi2'',
     cps ''cadvisor-pi5'', cps ''cadvisor-vps'', cps ''rp5'', cps ''vps'', cps ''rp2'']"
  by code_simp+

lemma set_alternatives: "set alternatives = fst ` set NODE_TOKENS"
  by (simp add: alternatives_def)

definition token_chars :: "str \<Rightarrow> bool" where
  "token_chars t \<longleftrightarrow> t \<noteq> [] \<and> list_all (\<lambda>l. 97 \<le> l \<and> l \<le> 122 \<and> l \<noteq> 107 \<or> 48 \<le> l \<and> l \<le> 57 \<or> l = 45) t"

lemma alternatives_chars: "tok \<in> set alternatives \<Longrightarrow> token_chars tok"
proof -
  have "list_all token_chars alternatives" unfolding token_tables by code_simp
  then show "tok \<in> set alternatives \<Longrightarrow> token_chars tok" by (simp add: list_all_iff)
qed

lemma token_letter_lower:
  assumes "97 \<le> l \<and> l \<le> 122 \<and> l \<noteq> 107 \<or> 48 \<le> l \<and> l \<le> 57 \<or> l = 45" and "c \<notin> {304, 305, 383}"
  shows "token_letter l c \<longleftrightarrow> lower_cp c = l"
  using assms by (auto simp: token_letter_def letter_matches_def lower_cp_def)

lemma token_match_lower:
  assumes "token_chars tok" and "plain_letters q"
  shows "list_all2 token_letter tok q \<longleftrightarrow> lower q = tok"
proof -
  have "list_all (\<lambda>l. 97 \<le> l \<and> l \<le> 122 \<and> l \<noteq> 107 \<or> 48 \<le> l \<and> l \<le> 57 \<or> l = 45) tok"
    using assms(1) by (simp add: token_chars_def)
  then show ?thesis using assms(2)
  proof (induction tok arbitrary: q)
    case (Cons l tok)
    then show ?case
      by (cases q) (auto simp: lower_def plain_letters_def token_letter_lower simp del: insert_iff)
  qed (simp add: lower_def)
qed

lemma plain_letters_append [simp]: "plain_letters (a @ b) \<longleftrightarrow> plain_letters a \<and> plain_letters b"
  by (simp add: plain_letters_def)

lemma plain_letters_take_drop: "plain_letters s \<Longrightarrow> plain_letters (take n s) \<and> plain_letters (drop n s)"
  by (metis append_take_drop_id plain_letters_append)

lemma token_at_lower:
  assumes "tok \<in> set alternatives" and "plain_letters s"
  shows "token_at tok s \<longleftrightarrow> lower (take (length tok) s) = tok"
  using token_match_lower [OF alternatives_chars [OF assms(1)]] plain_letters_take_drop [OF assms(2)]
  by (simp add: token_at_def)

lemma first_token_Some:
  "first_token toks s = Some m \<Longrightarrow>
     \<exists>tok\<in>set toks. token_at tok s \<and> m = take (length tok) s \<and> at_boundary (drop (length tok) s)"
  by (induction toks) (auto split: if_splits)

lemma first_token_None:
  "first_token toks s = None \<Longrightarrow> tok \<in> set toks \<Longrightarrow> token_at tok s \<Longrightarrow> \<not> at_boundary (drop (length tok) s)"
  by (induction toks) (auto split: if_splits)

lemma token_at_length: "token_at tok s \<Longrightarrow> length tok \<le> length s"
  by (auto simp: token_at_def dest: list_all2_lengthD)

text \<open>A match, read off the text: the token, then the rest.\<close>

lemma first_token_match:
  assumes "first_token alternatives s = Some m" and "plain_letters s"
  shows "s = m @ drop (length m) s \<and> lower m \<in> set alternatives \<and> m \<noteq> [] \<and> at_boundary (drop (length m) s)"
proof -
  from first_token_Some [OF assms(1)] obtain tok where t: "tok \<in> set alternatives" "token_at tok s"
    "m = take (length tok) s" "at_boundary (drop (length tok) s)" by blast
  have "length m = length tok" using token_at_length [OF t(2)] t(3) by simp
  moreover have "lower m = tok" using token_at_lower [OF t(1) assms(2)] t(2,3) by simp
  moreover have "tok \<noteq> []" using alternatives_chars [OF t(1)] by (simp add: token_chars_def)
  ultimately show ?thesis using t by (metis append_take_drop_id length_0_conv)
qed

text \<open>The scan is sound: every match is a token standing as a whole word.\<close>

definition word_at :: "bool \<Rightarrow> str \<Rightarrow> str \<Rightarrow> bool" where
  "word_at after_word s q \<longleftrightarrow>
     (\<exists>p r. s = p @ q @ r \<and> (if p = [] then \<not> after_word else \<not> word_char (last p)) \<and> at_boundary r \<and>
        lower q \<in> set alternatives)"

lemma word_at_skip: "word_at (word_char (last m)) s q \<Longrightarrow> m \<noteq> [] \<Longrightarrow> word_at a (m @ s) q"
proof -
  assume w: "word_at (word_char (last m)) s q" and m: "m \<noteq> []"
  then obtain p r where p: "s = p @ q @ r" "if p = [] then \<not> word_char (last m) else \<not> word_char (last p)"
    "at_boundary r" "lower q \<in> set alternatives" by (auto simp: word_at_def)
  then have "m @ s = (m @ p) @ q @ r \<and> \<not> word_char (last (m @ p))" by (auto split: if_splits)
  then show "word_at a (m @ s) q" unfolding word_at_def using p(3,4) m
    by (metis append_is_Nil_conv)
qed

lemma tokens_in_sound: "plain_letters s \<Longrightarrow> m \<in> set (tokens_in a s) \<Longrightarrow> word_at a s m"
proof (induction a s rule: tokens_in.induct)
  case (2 a c cs)
  let ?f = "if a then None else first_token alternatives (c # cs)"
  show ?case
  proof (cases ?f)
    case None
    then have "m \<in> set (tokens_in (word_char c) cs)" using 2(4) by simp
    then have "word_at (word_char c) cs m" using 2(1) [OF None] 2(3) by (simp add: plain_letters_def)
    then show ?thesis using word_at_skip [of "[c]"] by simp
  next
    case (Some x)
    then have a: "\<not> a" and f: "first_token alternatives (c # cs) = Some x" by (auto split: if_splits)
    note mt = first_token_match [OF f 2(3)]
    from mt have ne: "x \<noteq> []" by blast
    from 2(4) Some ne have "m = x \<or> m \<in> set (tokens_in (word_char (last x)) (drop (length x) (c # cs)))" by simp
    then show ?thesis
    proof
      assume "m = x"
      then have "c # cs = [] @ m @ drop (length x) (c # cs) \<and> (if [] = ([] :: str) then \<not> a else \<not> word_char (last [])) \<and>
          at_boundary (drop (length x) (c # cs)) \<and> lower m \<in> set alternatives"
        using mt a by simp
      then show ?thesis unfolding word_at_def by blast
    next
      assume "m \<in> set (tokens_in (word_char (last x)) (drop (length x) (c # cs)))"
      then have "word_at (word_char (last x)) (drop (length x) (c # cs)) m"
        using 2(2) [OF Some ne] plain_letters_take_drop [OF 2(3)] by blast
      then have "word_at a (x @ drop (length x) (c # cs)) m" using ne by (rule word_at_skip)
      then show ?thesis using mt by simp
    qed
  qed
qed simp

text \<open>
  The scan is complete up to the node: a match can only hide a token inside it that names the
  same node (\<open>vps\<close> in \<open>node-exporter-vps\<close>).
\<close>

fun suffixes_agree :: "str \<Rightarrow> bool \<Rightarrow> str \<Rightarrow> bool" where
  "suffixes_agree n after_word [] = True"
| "suffixes_agree n after_word (c # cs) =
     ((after_word \<or> list_all (\<lambda>(tok, n'). n = n' \<or> \<not> (prefix tok (c # cs) \<or> prefix (c # cs) tok)) NODE_TOKENS) \<and>
      suffixes_agree n (word_char c) cs)"

lemma tokens_agree: "list_all (\<lambda>(tok, n). suffixes_agree n False tok) NODE_TOKENS"
  by (simp add: token_tables cps_def word_char_def ascii_letter_def ascii_digit_def)

lemma suffixes_agree_at:
  "suffixes_agree n a tok \<Longrightarrow> k < length tok \<Longrightarrow> (if k = 0 then \<not> a else \<not> word_char (tok ! (k - 1))) \<Longrightarrow>
     (tok', n') \<in> set NODE_TOKENS \<Longrightarrow> prefix tok' (drop k tok) \<or> prefix (drop k tok) tok' \<Longrightarrow> n = n'"
proof (induction n a tok arbitrary: k rule: suffixes_agree.induct)
  case (2 n a c cs)
  show ?case
  proof (cases k)
    case 0
    then show ?thesis using 2(2,4-6) by (fastforce simp: list_all_iff)
  next
    case (Suc j)
    show ?thesis
      by (rule 2(1) [of j]) (use 2(2-6) Suc in \<open>auto simp: nth_Cons' split: if_splits\<close>)
  qed
qed simp

lemma distinct_tokens: "distinct (map fst NODE_TOKENS)"
  by (simp add: token_tables cps_def)

lemma overlap:
  assumes "(tok, n) \<in> set NODE_TOKENS" and "(tok', n') \<in> set NODE_TOKENS" and "k < length tok"
    and "k = 0 \<or> \<not> word_char (tok ! (k - 1))" and "prefix (drop k tok) u" and "prefix tok' u"
  shows "n = n'"
proof (rule suffixes_agree_at [of n False tok k])
  show "suffixes_agree n False tok" using tokens_agree assms(1) by (auto simp: list_all_iff)
  show "prefix tok' (drop k tok) \<or> prefix (drop k tok) tok'" using assms(5,6) by (metis prefix_same_cases)
qed (use assms in auto)

lemma word_char_lower: "word_char (lower_cp c) = word_char c"
  by (auto simp: word_char_def ascii_letter_def ascii_digit_def lower_cp_def)

lemma in_alternatives: "lower q \<in> set alternatives \<longleftrightarrow> (\<exists>n. map_of NODE_TOKENS (lower q) = Some n)"
  by (metis domIff dom_map_of_conv_image_fst not_Some_eq set_alternatives)

lemma same_node:
  assumes "x @ rest = p @ q @ r" and "lower x \<in> set alternatives" and "lower q \<in> set alternatives"
    and "length p < length x" and "p = [] \<or> \<not> word_char (last p)"
  shows "map_of NODE_TOKENS (lower x) = map_of NODE_TOKENS (lower q)"
proof -
  obtain n n' where n: "map_of NODE_TOKENS (lower x) = Some n" "map_of NODE_TOKENS (lower q) = Some n'"
    using assms(2,3) in_alternatives by blast
  have px: "p = take (length p) x" using arg_cong [OF assms(1), of "take (length p)"] assms(4) by simp
  have "drop (length p) x @ rest = q @ r" using arg_cong [OF assms(1), of "drop (length p)"] assms(4) by simp
  then have "lower (drop (length p) x) @ lower rest = lower q @ lower r" by (metis lower_def map_append)
  then have pre: "prefix (drop (length p) (lower x)) (lower q @ lower r)"
    by (metis drop_map lower_def prefixI)
  have k: "length p = 0 \<or> \<not> word_char (lower x ! (length p - 1))"
  proof (cases "p = []")
    case False
    then have "last p = x ! (length p - 1)" using px assms(4)
      by (metis diff_less last_conv_nth length_greater_0_conv nth_take zero_less_one)
    moreover have "length p - 1 < length x" using assms(4) by simp
    ultimately show ?thesis using assms(5) False by (simp add: lower_def word_char_lower)
  qed simp
  have "n = n'"
    by (rule overlap [OF map_of_SomeD [OF n(1)] map_of_SomeD [OF n(2)] _ k pre])
      (use assms(4) in \<open>simp_all add: lower_def\<close>)
  then show ?thesis using n by simp
qed

lemma tokens_in_complete:
  assumes "plain_letters s" and "s = p @ q @ r" and "if p = [] then \<not> a else \<not> word_char (last p)"
    and "at_boundary r" and "lower q \<in> set alternatives"
  shows "\<exists>m\<in>set (tokens_in a s). map_of NODE_TOKENS (lower m) = map_of NODE_TOKENS (lower q)"
  using assms
proof (induction a s arbitrary: p rule: tokens_in.induct)
  case (1 a)
  have "[] \<notin> set alternatives" unfolding token_tables by (simp add: cps_def)
  then show ?case using 1(2,5) by (auto simp: lower_def)
next
  case (2 a c cs)
  let ?f = "if a then None else first_token alternatives (c # cs)"
  have w: "p = [] \<or> \<not> word_char (last p)" using 2(5) by (auto split: if_splits)
  show ?case
  proof (cases ?f)
    case None
    have "p \<noteq> []"
    proof
      assume p: "p = []"
      then have f: "first_token alternatives (c # cs) = None" using None 2(5) by simp
      have "lower (take (length (lower q)) (c # cs)) = lower q" using 2(4) p by (simp add: lower_def)
      then have "token_at (lower q) (c # cs)" using token_at_lower [OF 2(7) 2(3)] by simp
      then have "\<not> at_boundary (drop (length (lower q)) (c # cs))" by (rule first_token_None [OF f 2(7)])
      then show False using 2(4,6) p by (simp add: lower_def)
    qed
    then obtain p' where p': "p = c # p'" using 2(4) by (cases p) auto
    have "\<exists>m\<in>set (tokens_in (word_char c) cs). map_of NODE_TOKENS (lower m) = map_of NODE_TOKENS (lower q)"
      by (rule 2(1) [OF None, of p']) (use 2(3-7) p' in \<open>auto simp: plain_letters_def split: if_splits\<close>)
    then show ?thesis using None by simp
  next
    case (Some x)
    then have f: "first_token alternatives (c # cs) = Some x" by (auto split: if_splits)
    let ?rest = "drop (length x) (c # cs)"
    have s: "c # cs = x @ ?rest" and lx: "lower x \<in> set alternatives" and ne: "x \<noteq> []"
      using first_token_match [OF f 2(3)] by blast+
    have toks: "set (tokens_in a (c # cs)) = insert x (set (tokens_in (word_char (last x)) ?rest))"
      using Some ne by simp
    show ?thesis
    proof (cases "length p < length x")
      case True
      have "map_of NODE_TOKENS (lower x) = map_of NODE_TOKENS (lower q)"
        by (rule same_node [OF _ lx 2(7) True w, of ?rest r]) (use s 2(4) in argo)
      then show ?thesis using toks by blast
    next
      case False
      then have "take (length x) p = x" using arg_cong [OF 2(4), of "take (length x)"] s
        by (metis append_eq_conv_conj diff_is_0_eq' linorder_not_less take_0 append_Nil2 take_append)
      then obtain p' where p': "p = x @ p'" by (metis append_take_drop_id)
      have r: "?rest = p' @ q @ r" using 2(4) s p' by (metis append_assoc same_append_eq)
      have "\<exists>m\<in>set (tokens_in (word_char (last x)) ?rest). map_of NODE_TOKENS (lower m) = map_of NODE_TOKENS (lower q)"
      proof (rule 2(2) [OF Some ne])
        show "plain_letters ?rest" using plain_letters_take_drop [OF 2(3)] by blast
        show "if p' = [] then \<not> word_char (last x) else \<not> word_char (last p')" using w p' ne by auto
      qed (use r 2(6,7) in auto)
      then show ?thesis using toks by blast
    qed
  qed
qed

section \<open>The context of a turn\<close>

lemma names_node_scan:
  assumes "plain_letters s"
  shows "names_node s n \<longleftrightarrow> (\<exists>m\<in>set (tokens_in False s). map_of NODE_TOKENS (lower m) = Some n)"
proof
  assume "names_node s n"
  then obtain p q r where w: "s = p @ q @ r" "p = [] \<or> \<not> word_char (last p)" "at_boundary r"
    "map_of NODE_TOKENS (lower q) = Some n" by (auto simp: names_node_def)
  then have "lower q \<in> set alternatives" using in_alternatives by blast
  from tokens_in_complete [OF assms w(1) _ w(3) this, of False] w(2,4)
  show "\<exists>m\<in>set (tokens_in False s). map_of NODE_TOKENS (lower m) = Some n" by auto
next
  assume "\<exists>m\<in>set (tokens_in False s). map_of NODE_TOKENS (lower m) = Some n"
  then obtain m where m: "m \<in> set (tokens_in False s)" "map_of NODE_TOKENS (lower m) = Some n" by blast
  from tokens_in_sound [OF assms m(1)] show "names_node s n"
    unfolding word_at_def names_node_def using m(2) by metis
qed

lemma lookup_tokens_all:
  "(\<And>m. m \<in> set ms \<Longrightarrow> lower m \<in> set alternatives) \<Longrightarrow>
     \<exists>ns. lookup_tokens ms = Inr ns \<and> (\<forall>n. n \<in> set ns \<longleftrightarrow> (\<exists>m\<in>set ms. map_of NODE_TOKENS (lower m) = Some n))"
proof (induction ms)
  case (Cons m ms)
  then obtain ns where ns: "lookup_tokens ms = Inr ns"
    "\<forall>n. n \<in> set ns \<longleftrightarrow> (\<exists>m\<in>set ms. map_of NODE_TOKENS (lower m) = Some n)" by auto
  obtain n where "map_of NODE_TOKENS (lower m) = Some n" using Cons.prems [of m] in_alternatives by auto
  then show ?case using ns by auto
qed simp

lemma plain_letters_dropWhile: "plain_letters s \<Longrightarrow> plain_letters (dropWhile P s)"
  by (metis plain_letters_append takeWhile_dropWhile_id)

lemma plain_strip_urls: "plain_letters s \<Longrightarrow> plain_letters (strip_urls s)"
proof (induction s rule: strip_urls.induct)
  case (2 c cs)
  show ?case
  proof (cases "after_url (c # cs)")
    case None
    then show ?thesis using 2 by (simp add: plain_letters_def)
  next
    case (Some r)
    then have "r = dropWhile (\<lambda>c. \<not> is_space c) (drop 3 (dropWhile scheme_char cs))"
      by (simp add: after_url_def Let_def split: if_splits)
    moreover have "plain_letters cs" using 2(3) by (simp add: plain_letters_def)
    ultimately have "plain_letters r"
      by (metis plain_letters_dropWhile plain_letters_take_drop)
    then show ?thesis using 2(2) [OF Some] Some by (simp add: plain_letters_def)
  qed
qed simp

lemma derive_nodes_exact:
  assumes "plain_letters title" and "plain_letters message"
  shows "\<exists>ns. derive_nodes title message = Inr ns \<and>
    (\<forall>n. n \<in> set ns \<longleftrightarrow> names_node (strip_urls title) n \<or> names_node (strip_urls message) n)"
proof -
  note pl = plain_strip_urls [OF assms(1)] plain_strip_urls [OF assms(2)]
  let ?ms = "tokens_in False (strip_urls title) @ tokens_in False (strip_urls message)"
  have "lower m \<in> set alternatives" if "m \<in> set ?ms" for m
    using that tokens_in_sound [OF pl(1)] tokens_in_sound [OF pl(2)] by (auto simp: word_at_def)
  from lookup_tokens_all [of ?ms, OF this] show ?thesis
    using names_node_scan [OF pl(1)] names_node_scan [OF pl(2)] by (auto simp: derive_nodes_def)
qed

lemma nodes_of_items_exact:
  assumes "\<And>it. it \<in> set its \<Longrightarrow> plain_letters (ev_title (it_event it)) \<and> plain_letters (ev_message (it_event it))"
  shows "\<exists>ns. nodes_of_items its = Inr ns \<and> (\<forall>n. n \<in> set ns \<longleftrightarrow>
    (\<exists>it\<in>set its. names_node (strip_urls (ev_title (it_event it))) n \<or> names_node (strip_urls (ev_message (it_event it))) n))"
  using assms
proof (induction its)
  case (Cons it its)
  then obtain ns where ns: "nodes_of_items its = Inr ns" "\<forall>n. n \<in> set ns \<longleftrightarrow>
    (\<exists>it\<in>set its. names_node (strip_urls (ev_title (it_event it))) n \<or> names_node (strip_urls (ev_message (it_event it))) n)"
    by auto
  obtain ms where "derive_nodes (ev_title (it_event it)) (ev_message (it_event it)) = Inr ms"
    "\<forall>n. n \<in> set ms \<longleftrightarrow> names_node (strip_urls (ev_title (it_event it))) n \<or> names_node (strip_urls (ev_message (it_event it))) n"
    using derive_nodes_exact Cons.prems [of it] by fastforce
  then show ?case using ns by auto
qed simp

lemma set_unique_keys [simp]: "set (unique_keys xs) = set xs"
  by (induction xs) auto

lemma distinct_unique_keys: "distinct (unique_keys xs)"
  by (induction xs) auto

text \<open>
  The context of a turn is exactly what its incidents name: unless a text holds one of the
  letters whose lower case leaves ASCII, the derivation does not fail; the identity keys are
  those of the items, each once; and a node is listed exactly when an item's title or message,
  its URLs blanked, holds the node's name or one of its job names as a whole word, whatever the
  letters' case and also when the scan consumed a longer token around it.
\<close>

theorem incident_context_is_exact:
  assumes "\<forall>it\<in>set (tn_items t). plain_letters (ev_title (it_event it)) \<and> plain_letters (ev_message (it_event it))"
  shows "\<exists>c. from_turn t = Inr c \<and>
    distinct (ic_identities c) \<and> set (ic_identities c) = (\<lambda>it. id_key (it_identity it)) ` set (tn_items t) \<and>
    distinct (ic_nodes c) \<and> subseq (ic_nodes c) NODES \<and>
    (\<forall>n. n \<in> set (ic_nodes c) \<longleftrightarrow> (\<exists>it\<in>set (tn_items t).
       names_node (strip_urls (ev_title (it_event it))) n \<or> names_node (strip_urls (ev_message (it_event it))) n))"
proof -
  obtain ns where ns: "nodes_of_items (tn_items t) = Inr ns" "\<forall>n. n \<in> set ns \<longleftrightarrow>
    (\<exists>it\<in>set (tn_items t). names_node (strip_urls (ev_title (it_event it))) n \<or> names_node (strip_urls (ev_message (it_event it))) n)"
    using nodes_of_items_exact [of "tn_items t"] assms by auto
  have known: "n \<in> set NODES" if nn: "names_node s n" for s n
  proof -
    obtain q where "map_of NODE_TOKENS (lower q) = Some n" using nn by (auto simp: names_node_def)
    then have "n \<in> snd ` set NODE_TOKENS" using map_of_SomeD by (metis imageI snd_conv)
    then show ?thesis by (auto simp: NODE_TOKENS_def)
  qed
  have "distinct NODES" by (simp add: NODES_def cps_def)
  then show ?thesis using ns known
    by (auto simp: from_turn_def from_items_def distinct_unique_keys)
qed

text \<open>The pattern ignores case further than the table of its tokens goes.\<close>

lemma long_s_is_a_key_error: "derive_nodes (cps ''vp'' @ [383]) msg = Inl (Key_Error (cps ''vp'' @ [383]))"
proof -
  have "strip_urls (cps ''vp'' @ [383]) = cps ''vp'' @ [383]"
    by (simp add: cps_def after_url_def scheme_char_def ascii_letter_def ascii_digit_def)
  moreover have "tokens_in False (cps ''vp'' @ [383]) = [cps ''vp'' @ [383]]"
    by (simp add: token_tables cps_def token_at_def token_letter_def letter_matches_def at_boundary_def)
  ultimately show ?thesis by (simp add: derive_nodes_def token_tables cps_def lower_def lower_cp_def)
qed

text \<open>One identity key can still have two rule keys: an alert name may hold the scope's slash.\<close>

lemma one_key_two_rules:
  "\<exists>a b. id_key a = id_key b \<and> derive_rule_key a \<noteq> derive_rule_key b \<and>
     a = derive_identity \<lparr>ev_id = [], ev_title = cps ''[FIRING:1] d'', ev_message = cps ''alertname = d'' @ [10] @
        cps ''- identity_scope = m'' @ [10] @ cps ''- m = x/y'', arrival_time = 0, published_at = None\<rparr> \<and>
     b = derive_identity \<lparr>ev_id = [], ev_title = cps ''[FIRING:1] d/x'', ev_message = cps ''alertname = d/x'' @ [10] @
        cps ''- identity_scope = m'' @ [10] @ cps ''- m = y'', arrival_time = 0, published_at = None\<rparr>"
  by (simp add: derive_identity_def derive_grafana_def derive_rule_key_def cps_def GATUS_PREFIX_def lower_def lower_cp_def
      alertname_at_def is_space_def scope_value_def grafana_scope_def lines_of_def scope_at_def after_label_def is_blank_def
      Let_def grafana_label_def rstrip_blank_def SCOPE_VALUE_MAX_def)

section \<open>Example\<close>

definition sample_turn_items :: "turn_item list" where
  "sample_turn_items = [\<lparr>it_event = \<lparr>ev_id = [49], ev_title = cps ''VPS down'', ev_message = [], arrival_time = 0, published_at = None\<rparr>,
     it_identity = \<lparr>id_key = [107], id_source = [], id_name = [], id_state = FIRING\<rparr>, it_recurrence = False, it_prior_ref = None\<rparr>]"

theorem incident_context_is_exact_witness:
  "\<exists>c. from_turn \<lparr>tn_items = sample_turn_items, tn_announceable = True, tn_suppressed_count = 0, tn_offset = None, tn_held_release = None\<rparr> = Inr c \<and>
     set (ic_identities c) = {[107]}"
proof -
  let ?t = "\<lparr>tn_items = sample_turn_items, tn_announceable = True, tn_suppressed_count = 0, tn_offset = None, tn_held_release = None\<rparr>"
  have "list_all (\<lambda>it. plain_letters (ev_title (it_event it)) \<and> plain_letters (ev_message (it_event it))) (tn_items ?t)"
    by (simp add: sample_turn_items_def plain_letters_def cps_def)
  then have "\<forall>it\<in>set (tn_items ?t). plain_letters (ev_title (it_event it)) \<and> plain_letters (ev_message (it_event it))"
    by (simp add: list_all_iff)
  from incident_context_is_exact [OF this] show ?thesis by (auto simp: sample_turn_items_def)
qed

end
