(* ===== verification/Digest.thy ===== *)
theory Digest
  imports Handoff_Store Incident_Context Block_Text Time_Parse
begin

text \<open>
  \<open>henk/agent/digest.py\<close>: which retained handoffs an event turn is shown, and their rendering
  inside fixed bounds. The archive is the table of \<open>Handoff_Store\<close>; whether its statements work
  is the argument \<open>readable\<close>.
\<close>

section \<open>Bounds and kinds\<close>

definition DIGEST_MAX_ENTRIES :: nat where "DIGEST_MAX_ENTRIES = 4"
definition DIGEST_ENTRY_MAX_CHARS :: nat where "DIGEST_ENTRY_MAX_CHARS = 1200"
definition DIGEST_RECURRENCE_MAX_CHARS :: nat where "DIGEST_RECURRENCE_MAX_CHARS = 4000"
definition DIGEST_MAX_CHARS :: nat where "DIGEST_MAX_CHARS = 8000"
definition RECENT_WINDOW :: secs where "RECENT_WINDOW = 6 * 3600"
definition RECENT_MAX_ENTRIES :: nat where "RECENT_MAX_ENTRIES = 2"
definition IDENTITIES_MAX_CHARS :: nat where "IDENTITIES_MAX_CHARS = 240"

datatype relation = RECURRENCE | SAME_IDENTITY | SAME_RULE | SAME_NODE | SAME_WINDOW

fun relation_value :: "relation \<Rightarrow> str" where
  "relation_value RECURRENCE = cps ''recurrence reference''"
| "relation_value SAME_IDENTITY = cps ''same identity''"
| "relation_value SAME_RULE = cps ''same rule''"
| "relation_value SAME_NODE = cps ''same node''"
| "relation_value SAME_WINDOW = cps ''same window''"

text \<open>\<open>_RANK\<close>; the two relations it does not have are never ranked.\<close>

fun rank :: "relation \<Rightarrow> nat" where
  "rank SAME_IDENTITY = 0" | "rank SAME_RULE = 1" | "rank SAME_NODE = 2" | "rank _ = 3"

datatype ref_state = REFERENCE | SHOWN | OMITTED | NOT_RETAINED | UNREADABLE

record recurrence_ref =
  rf_message :: str
  rf_state :: ref_state

record digest =
  dg_text :: "str option"
  dg_shown :: "nat list"
  dg_omitted :: nat
  dg_refs :: "recurrence_ref list"
  dg_read_failed :: bool
  dg_same_window :: bool

definition EMPTY_DIGEST :: digest where
  "EMPTY_DIGEST = \<lparr>dg_text = None, dg_shown = [], dg_omitted = 0, dg_refs = [], dg_read_failed = False, dg_same_window = False\<rparr>"

section \<open>Relations\<close>

definition intersects :: "str list \<Rightarrow> str list \<Rightarrow> bool" where
  "intersects xs ys \<longleftrightarrow> list_ex (\<lambda>x. x \<in> set ys) xs"

definition relation_of :: "handoff \<Rightarrow> incident_context \<Rightarrow> relation option" where
  "relation_of h c =
     (if intersects (ho_identities h) (ic_identities c) then Some SAME_IDENTITY
      else if intersects (ho_rules h) (ic_rules c) then Some SAME_RULE
      else if intersects (ho_nodes h) (ic_nodes c) then Some SAME_NODE
      else None)"

fun related_loop :: "incident_context \<Rightarrow> nat set \<Rightarrow> handoff list \<Rightarrow> (handoff \<times> relation) list" where
  "related_loop c seen [] = []"
| "related_loop c seen (h # hs) =
     (if ho_id h \<in> seen then related_loop c seen hs
      else (case relation_of h c of
          None \<Rightarrow> related_loop c seen hs
        | Some r \<Rightarrow> (h, r) # related_loop c (insert (ho_id h) seen) hs))"

definition related_key :: "handoff \<times> relation \<Rightarrow> nat \<times> secs \<times> int" where
  "related_key hr = (rank (snd hr), - ho_published (fst hr), - int (ho_id (fst hr)))"

definition rank_related :: "handoff list \<Rightarrow> incident_context \<Rightarrow> nat set \<Rightarrow> (handoff \<times> relation) list" where
  "rank_related hs c exclude = sort_key related_key (related_loop c exclude hs)"

section \<open>Rendering\<close>

definition age_text :: "secs \<Rightarrow> str" where
  "age_text s =
     (let m = nat (max 0 \<lfloor>s / 60\<rfloor>); days = m div 1440; hours = m mod 1440 div 60; minutes = m mod 60
      in if days \<noteq> 0 then decimal days @ [100] @ decimal hours @ [104]
         else if hours \<noteq> 0 then decimal hours @ [104] @ decimal minutes @ [109]
         else decimal minutes @ [109])"

text \<open>\<open>_stamp\<close> of the renderers: UTC to the second, \<open>None\<close> where \<open>fromtimestamp\<close> raises.\<close>

definition stamp :: "secs \<Rightarrow> str option" where
  "stamp e =
     (let w = instant_of e; n = naive_at w 0
      in if \<not> representable w then None
         else Some (int_text (nv_year n) @ [45] @ pad2 (nv_month n) @ [45] @ pad2 (nv_day n) @ [84] @
           hhmm w @ [58] @ pad2 (nv_second n) @ [90]))"

definition published_text :: "secs \<Rightarrow> str" where
  "published_text e = (case stamp e of None \<Rightarrow> cps ''unknown'' | Some s \<Rightarrow> s)"

definition identities_text :: "str list \<Rightarrow> str" where
  "identities_text keys =
     (let joined = join [44, 32] (map neutralise_markers keys)
      in [91] @ (if IDENTITIES_MAX_CHARS < length joined then take IDENTITIES_MAX_CHARS joined @ [8230] else joined) @ [93])"

definition relation_label :: "relation \<Rightarrow> relation option \<Rightarrow> str" where
  "relation_label r structural =
     (case structural of
        None \<Rightarrow> relation_value r
      | Some s \<Rightarrow> if r = SAME_WINDOW then relation_value r @ [32, 40] @ relation_value s @ [41] else relation_value r)"

record candidate =
  ca_handoff :: handoff
  ca_relation :: relation
  ca_structural :: "relation option"
  ca_bound :: nat

definition entry_header :: "nat \<Rightarrow> candidate \<Rightarrow> secs \<Rightarrow> str" where
  "entry_header number ca now =
     (let h = ca_handoff ca
      in cps ''[prior handoff '' @ decimal number @ cps ''] relation='' @ relation_label (ca_relation ca) (ca_structural ca) @
         cps '' published='' @ published_text (ho_published h) @ cps '' age='' @ age_text (now - ho_published h) @
         cps '' nodes=['' @ join [44, 32] (ho_nodes h) @ cps ''] identities='' @ identities_text (ho_identities h))"

definition entry_lines :: "nat \<Rightarrow> candidate \<Rightarrow> secs \<Rightarrow> str list" where
  "entry_lines number ca now =
     (let t = strip (neutralise_markers (ho_document (ca_handoff ca)))
      in [entry_header number ca now, take (ca_bound ca) t] @
         (if ca_bound ca < length t
          then [cps ''[excerpt shortened: '' @ decimal (ca_bound ca) @ cps '' of '' @ decimal (length t) @ cps '' characters shown]'']
          else []))"

definition entry_text :: "nat \<Rightarrow> candidate \<Rightarrow> secs \<Rightarrow> str" where
  "entry_text number ca now = join_lines (entry_lines number ca now)"

definition digest_omission :: "nat \<Rightarrow> str" where
  "digest_omission n =
     cps (''[related handoffs omitted to stay within the '' @ ''digest'') @ [39] @ cps ''s bounds: '' @ decimal n @ cps '']''"

text \<open>\<open>_fill\<close>: an entry that does not fit is skipped whole; \<open>shown\<close> counts the entries placed.\<close>

fun fill_loop :: "secs \<Rightarrow> nat \<Rightarrow> nat \<Rightarrow> nat \<Rightarrow> candidate list \<Rightarrow> str list \<times> candidate list" where
  "fill_loop now max_chars used shown [] = ([], [])"
| "fill_loop now max_chars used shown (ca # cas) =
     (if DIGEST_MAX_ENTRIES \<le> shown then ([], [])
      else (let e = entry_text (Suc shown) ca now; cost = Suc (length e)
            in if max_chars < used + cost then fill_loop now max_chars used shown cas
               else (let (ps, ss) = fill_loop now max_chars (used + cost) (Suc shown) cas
                     in (e # ps, ca # ss))))"

definition fill :: "candidate list \<Rightarrow> secs \<Rightarrow> nat \<Rightarrow> nat \<Rightarrow> str list \<times> candidate list" where
  "fill cas now max_chars reserve =
     (let (ps, ss) = fill_loop now max_chars (length PRIOR_HANDOFFS_HEADER + reserve) 0 cas
      in (PRIOR_HANDOFFS_HEADER # ps, ss))"

definition candidates_of ::
    "(handoff \<times> relation) list \<Rightarrow> handoff option \<Rightarrow> (handoff \<times> relation option) list \<Rightarrow> candidate list" where
  "candidates_of related recurrence same_window =
     (case recurrence of None \<Rightarrow> []
      | Some h \<Rightarrow> [\<lparr>ca_handoff = h, ca_relation = RECURRENCE, ca_structural = None, ca_bound = DIGEST_RECURRENCE_MAX_CHARS\<rparr>]) @
     map (\<lambda>(h, s). \<lparr>ca_handoff = h, ca_relation = SAME_WINDOW, ca_structural = s, ca_bound = DIGEST_ENTRY_MAX_CHARS\<rparr>) same_window @
     map (\<lambda>(h, r). \<lparr>ca_handoff = h, ca_relation = r, ca_structural = None, ca_bound = DIGEST_ENTRY_MAX_CHARS\<rparr>) related"

definition render_digest ::
    "(handoff \<times> relation) list \<Rightarrow> handoff option \<Rightarrow> (handoff \<times> relation option) list \<Rightarrow> nat \<Rightarrow> secs \<Rightarrow> nat \<Rightarrow> digest" where
  "render_digest related recurrence same_window extra now max_chars =
     (let cas = candidates_of related recurrence same_window;
          first = fill cas now max_chars 0;
          (parts, shown) =
            (if length (snd first) < length cas \<or> extra \<noteq> 0
             then fill cas now max_chars (Suc (length (digest_omission (length cas + extra))))
             else first);
          omitted = length cas - length shown + extra
      in if cas = [] \<or> shown = [] then EMPTY_DIGEST
         else \<lparr>dg_text = Some (join_lines (parts @ (if omitted \<noteq> 0 then [digest_omission omitted] else []))),
               dg_shown = map (\<lambda>c. ho_id (ca_handoff c)) shown, dg_omitted = omitted, dg_refs = [],
               dg_read_failed = False, dg_same_window = list_ex (\<lambda>c. ca_relation c = SAME_WINDOW) shown\<rparr>)"

section \<open>Reading\<close>

text \<open>\<open>_distinct_refs\<close>: by message id, the first ref of each, in item order.\<close>

definition message_of_ref :: "str \<Rightarrow> str" where
  "message_of_ref r = (case parse_handoff_message_id (Some r) of None \<Rightarrow> r | Some m \<Rightarrow> m)"

fun distinct_refs_loop :: "str set \<Rightarrow> turn_item list \<Rightarrow> (str \<times> str) list" where
  "distinct_refs_loop seen [] = []"
| "distinct_refs_loop seen (it # its) =
     (case it_prior_ref it of
        None \<Rightarrow> distinct_refs_loop seen its
      | Some r \<Rightarrow>
          if \<not> it_recurrence it \<or> r = [] \<or> message_of_ref r \<in> seen then distinct_refs_loop seen its
          else (r, message_of_ref r) # distinct_refs_loop (insert (message_of_ref r) seen) its)"

definition distinct_refs :: "event_turn \<Rightarrow> (str \<times> str) list" where
  "distinct_refs t = distinct_refs_loop {} (tn_items t)"

definition unresolved_refs :: "event_turn \<Rightarrow> ref_state \<Rightarrow> recurrence_ref list" where
  "unresolved_refs t s = map (\<lambda>(_, m). \<lparr>rf_message = m, rf_state = s\<rparr>) (distinct_refs t)"

text \<open>\<open>{h.id: h for h in ...}\<close>: the place of the first, the value of the last.\<close>

definition by_id :: "handoff list \<Rightarrow> handoff list" where
  "by_id hs = map (\<lambda>i. last (filter (\<lambda>h. ho_id h = i) hs)) (unique_keys (map ho_id hs))"

definition newest_key :: "handoff \<Rightarrow> secs \<times> int" where
  "newest_key h = (- ho_published h, - int (ho_id h))"

definition same_window :: "handoff list \<Rightarrow> secs \<Rightarrow> nat set \<Rightarrow> handoff list \<times> handoff list" where
  "same_window hs now exclude =
     (let w = sort_key newest_key (filter (\<lambda>h. ho_id h \<notin> exclude \<and> 0 \<le> now - ho_published h \<and> now - ho_published h \<le> RECENT_WINDOW) hs)
      in if length w \<le> RECENT_MAX_ENTRIES then (w, [])
         else (take (RECENT_MAX_ENTRIES - 1) w @ [last w], butlast (drop (RECENT_MAX_ENTRIES - 1) w)))"

definition state_of_ref :: "handoff option \<Rightarrow> nat list \<Rightarrow> handoff option \<Rightarrow> ref_state" where
  "state_of_ref reference shown found =
     (case found of
        None \<Rightarrow> NOT_RETAINED
      | Some h \<Rightarrow>
          if ho_id h \<notin> set shown then OMITTED
          else if map_option ho_id reference = Some (ho_id h) \<and> hd shown = ho_id h then REFERENCE
          else SHOWN)"

definition digest_read :: "archive \<Rightarrow> event_turn \<Rightarrow> secs \<Rightarrow> context_error + digest" where
  "digest_read arch t now =
     (case from_turn t of
        Inl e \<Rightarrow> Inl e
      | Inr c \<Rightarrow>
          (let found = map (\<lambda>(r, m). (m, find_by_message_ref (Some r) now arch)) (distinct_refs t);
               hits = map the (filter (\<lambda>h. h \<noteq> None) (map snd found));
               reference = (case hits of [] \<Rightarrow> None | h # _ \<Rightarrow> Some h);
               exclude = (case reference of None \<Rightarrow> {} | Some h \<Rightarrow> {ho_id h});
               rows' = by_id (filter (\<lambda>h. ho_id h \<notin> exclude) hits @ eligible now arch);
               (placed, unplaced) = same_window rows' now exclude;
               related = rank_related rows' c (exclude \<union> ho_id ` set placed);
               extra = length (filter (\<lambda>h. relation_of h c = None) unplaced);
               d = render_digest related reference (map (\<lambda>h. (h, relation_of h c)) placed) extra now DIGEST_MAX_CHARS
           in Inr (d\<lparr>dg_refs := map (\<lambda>(m, f). \<lparr>rf_message = m, rf_state = state_of_ref reference (dg_shown d) f\<rparr>) found\<rparr>)))"

text \<open>\<open>read_digest\<close>: no archive, an archive that cannot be read, or the digest; it never raises.\<close>

definition read_digest :: "archive option \<Rightarrow> bool \<Rightarrow> event_turn \<Rightarrow> secs \<Rightarrow> digest" where
  "read_digest arch readable t now =
     (case arch of
        None \<Rightarrow> EMPTY_DIGEST\<lparr>dg_refs := unresolved_refs t NOT_RETAINED\<rparr>
      | Some a \<Rightarrow>
          (let failed = EMPTY_DIGEST\<lparr>dg_refs := unresolved_refs t UNREADABLE, dg_read_failed := True\<rparr>
           in if \<not> readable then failed
              else (case digest_read a t now of Inl _ \<Rightarrow> failed | Inr d \<Rightarrow> d)))"

end
