(* ===== verification/Digest_Properties.thy ===== *)
theory Digest_Properties
  imports Digest
begin

text \<open>
  What the digest of \<open>Digest\<close> guarantees: its length and number of entries, the neutralisation
  of everything a stored handoff brings, the place of the recurrence reference and the count of
  what was left out.
\<close>

section \<open>Lengths\<close>

lemma length_decimal_mono: "n \<le> m \<Longrightarrow> length (decimal n) \<le> length (decimal m)"
proof (induction m arbitrary: n rule: decimal.induct)
  case (1 m)
  show ?case
  proof (cases "n < 10")
    case True
    then show ?thesis by (simp add: decimal.simps [of n] decimal.simps [of m])
  next
    case False
    then have "length (decimal (n div 10)) \<le> length (decimal (m div 10))"
      using 1 by (simp add: div_le_mono)
    then show ?thesis using False 1(2) by (simp add: decimal.simps [of n] decimal.simps [of m])
  qed
qed

lemma length_omission_mono: "n \<le> m \<Longrightarrow> length (digest_omission n) \<le> length (digest_omission m)"
  by (simp add: digest_omission_def length_decimal_mono)

definition lines_length :: "str list \<Rightarrow> nat" where
  "lines_length ls = sum_list (map (\<lambda>l. Suc (length l)) ls)"

lemma lines_length_simps [simp]:
  "lines_length [] = 0" "lines_length (l # ls) = Suc (length l) + lines_length ls"
  "lines_length (xs @ ys) = lines_length xs + lines_length ys"
  by (simp_all add: lines_length_def)

lemma length_join_lines: "length (join_lines (l # ls)) = length l + lines_length ls"
proof (induction ls arbitrary: l)
  case (Cons m ls)
  then show ?case by (simp add: join_lines_Cons [of "m # ls" l])
qed simp

section \<open>The fill\<close>

lemma distinct_if_subseq: "subseq xs ys \<Longrightarrow> distinct ys \<Longrightarrow> distinct xs"
  by (auto simp: subseq_conv_nths)

lemma subseq_set: "subseq xs ys \<Longrightarrow> set xs \<subseteq> set ys"
  by (auto dest: list_emb_set)

lemma fill_loop_spec:
  "fill_loop now mx used k cas = (ps, ss) \<Longrightarrow>
     subseq ss cas \<and> ps = map (\<lambda>(i, ca). entry_text (Suc i) ca now) (zip [k..<k + length ss] ss) \<and>
     (ss \<noteq> [] \<longrightarrow> used + lines_length ps \<le> mx \<and> k + length ss \<le> DIGEST_MAX_ENTRIES)"
proof (induction now mx used k cas arbitrary: ps ss rule: fill_loop.induct)
  case (2 now mx used k ca cas)
  let ?e = "entry_text (Suc k) ca now"
  consider "DIGEST_MAX_ENTRIES \<le> k" | "k < DIGEST_MAX_ENTRIES" "mx < used + Suc (length ?e)"
    | "k < DIGEST_MAX_ENTRIES" "used + Suc (length ?e) \<le> mx" by linarith
  then show ?case
  proof cases
    case 1
    then show ?thesis using 2(3) by simp
  next
    case 2
    then have "fill_loop now mx used k cas = (ps, ss)" using \<open>fill_loop now mx used k (ca # cas) = (ps, ss)\<close> by simp
    with "2.IH"(1) 2 show ?thesis by (auto intro: list_emb_Cons)
  next
    case 3
    obtain qs ts where q: "fill_loop now mx (used + Suc (length ?e)) (Suc k) cas = (qs, ts)" by fastforce
    then have eq: "ps = ?e # qs" "ss = ca # ts" using 2(3) 3 by (auto simp: Let_def)
    have "\<not> mx < used + Suc (length ?e)" using 3 by simp
    from "2.IH"(2) [OF _ refl refl this q] 3(1) have IH: "subseq ts cas"
      "qs = map (\<lambda>(i, ca). entry_text (Suc i) ca now) (zip [Suc k..<Suc k + length ts] ts)"
      "ts \<noteq> [] \<longrightarrow> used + Suc (length ?e) + lines_length qs \<le> mx \<and> Suc k + length ts \<le> DIGEST_MAX_ENTRIES" by auto
    show ?thesis
    proof (intro conjI impI)
      show "ps = map (\<lambda>(i, ca). entry_text (Suc i) ca now) (zip [k..<k + length ss] ss)"
      proof -
        have "[k..<k + length ss] = k # [Suc k..<Suc k + length ts]" by (simp add: eq upt_conv_Cons del: upt_Suc)
        then show ?thesis using IH(2) by (simp add: eq del: upt_Suc)
      qed
      show "used + lines_length ps \<le> mx" "k + length ss \<le> DIGEST_MAX_ENTRIES"
        using IH(2,3) 3 by (cases "ts = []"; simp add: eq)+
    qed (use IH(1) eq in simp)
  qed
qed auto

text \<open>A fill that starts with a candidate that fits places it first.\<close>

lemma fill_first:
  assumes "length PRIOR_HANDOFFS_HEADER + reserve + Suc (length (entry_text 1 ca now)) \<le> mx"
  shows "\<exists>ts. snd (fill (ca # cas) now mx reserve) = ca # ts"
  using assms by (auto simp: fill_def Let_def DIGEST_MAX_ENTRIES_def split: prod.splits)

section \<open>The rendered digest\<close>

text \<open>The two outcomes of a render: nothing shown, or the fill that counts.\<close>

lemma render_digest_cases:
  fixes related :: "(handoff \<times> relation) list" and now :: secs and extra mx :: nat
    and recurrence :: "handoff option" and win :: "(handoff \<times> relation option) list"
  defines "d \<equiv> render_digest related recurrence win extra now mx"
    and "cas \<equiv> candidates_of related recurrence win"
  obtains (empty) "d = EMPTY_DIGEST"
    | (shown) reserve ps ss omitted where "fill cas now mx reserve = (PRIOR_HANDOFFS_HEADER # ps, ss)" "ss \<noteq> []"
      "omitted = length cas - length ss + extra" "omitted \<noteq> 0 \<longrightarrow> reserve = Suc (length (digest_omission (length cas + extra)))"
      "reserve = 0 \<or> reserve = Suc (length (digest_omission (length cas + extra)))"
      "d = \<lparr>dg_text = Some (join_lines (PRIOR_HANDOFFS_HEADER # ps @ (if omitted \<noteq> 0 then [digest_omission omitted] else []))),
         dg_shown = map (\<lambda>c. ho_id (ca_handoff c)) ss, dg_omitted = omitted, dg_refs = [], dg_read_failed = False,
         dg_same_window = list_ex (\<lambda>c. ca_relation c = SAME_WINDOW) ss\<rparr>"
proof -
  let ?first = "fill cas now mx 0"
  let ?rs = "Suc (length (digest_omission (length cas + extra)))"
  define reserve where "reserve = (if length (snd ?first) < length cas \<or> extra \<noteq> 0 then ?rs else 0)"
  obtain ps ss where f: "fill cas now mx reserve = (PRIOR_HANDOFFS_HEADER # ps, ss)"
    by (cases "fill_loop now mx (length PRIOR_HANDOFFS_HEADER + reserve) 0 cas") (simp add: fill_def Let_def)
  define omitted where "omitted = length cas - length ss + extra"
  have used: "(if length (snd ?first) < length cas \<or> extra \<noteq> 0 then fill cas now mx ?rs else ?first) =
      (PRIOR_HANDOFFS_HEADER # ps, ss)"
    using f by (auto simp: reserve_def)
  have d: "d = (if cas = [] \<or> ss = [] then EMPTY_DIGEST else \<lparr>dg_text = Some (join_lines (PRIOR_HANDOFFS_HEADER # ps @ (if omitted \<noteq> 0 then [digest_omission omitted] else []))),
         dg_shown = map (\<lambda>c. ho_id (ca_handoff c)) ss, dg_omitted = omitted, dg_refs = [], dg_read_failed = False,
         dg_same_window = list_ex (\<lambda>c. ca_relation c = SAME_WINDOW) ss\<rparr>)"
    unfolding d_def render_digest_def Let_def cas_def [symmetric] used omitted_def by simp
  have rs: "omitted \<noteq> 0 \<longrightarrow> reserve = ?rs"
    using f by (auto simp: omitted_def reserve_def split: if_splits)
  show ?thesis
  proof (cases "cas = [] \<or> ss = []")
    case True
    then show ?thesis using d empty by simp
  next
    case False
    show ?thesis by (rule shown [OF f _ omitted_def rs]) (use d False in \<open>auto simp: reserve_def\<close>)
  qed
qed

text \<open>
  However long the stored documents, identities and counts, the text with its header, entries
  and omission line stays within the limit; what is not shown is counted.
\<close>

lemma rendered_digest_bounds:
  fixes related :: "(handoff \<times> relation) list" and now :: secs and extra mx :: nat
    and recurrence :: "handoff option" and win :: "(handoff \<times> relation option) list"
  defines "d \<equiv> render_digest related recurrence win extra now mx"
    and "cas \<equiv> candidates_of related recurrence win"
  shows "length (dg_shown d) \<le> DIGEST_MAX_ENTRIES \<and>
    subseq (dg_shown d) (map (\<lambda>c. ho_id (ca_handoff c)) cas) \<and>
    (dg_text d = None \<longleftrightarrow> dg_shown d = []) \<and>
    (\<forall>t. dg_text d = Some t \<longrightarrow> length t \<le> mx \<and> length (dg_shown d) + dg_omitted d = length cas + extra \<and>
       (dg_omitted d \<noteq> 0 \<longrightarrow> suffix (digest_omission (dg_omitted d)) t))"
proof (cases rule: render_digest_cases [of related recurrence win extra now mx])
  case empty
  then show ?thesis by (simp add: d_def EMPTY_DIGEST_def)
next
  case (shown reserve ps ss omitted)
  have sp: "subseq ss cas" "ss \<noteq> [] \<longrightarrow> length PRIOR_HANDOFFS_HEADER + reserve + lines_length ps \<le> mx \<and> 0 + length ss \<le> DIGEST_MAX_ENTRIES"
    using shown(1) fill_loop_spec [of now mx "length PRIOR_HANDOFFS_HEADER + reserve" 0 cas ps ss]
    by (auto simp: fill_def Let_def cas_def split: prod.splits)
  have le: "length ss \<le> length cas" using sp(1) by (rule list_emb_length)
  have om: "length (digest_omission omitted) \<le> length (digest_omission (length cas + extra))"
    by (rule length_omission_mono) (simp add: shown(3) cas_def)
  have "length (join_lines (PRIOR_HANDOFFS_HEADER # ps @ (if omitted \<noteq> 0 then [digest_omission omitted] else []))) \<le> mx"
    using sp(2) shown(2,4) om by (auto simp: length_join_lines cas_def)
  moreover have "suffix (digest_omission omitted) (join_lines (PRIOR_HANDOFFS_HEADER # ps @ [digest_omission omitted]))"
    using join_lines_append [of "PRIOR_HANDOFFS_HEADER # ps" "[digest_omission omitted]"] by (simp add: suffix_def)
  moreover have "length ss + omitted = length cas + extra" using le by (simp add: shown(3) cas_def)
  ultimately show ?thesis
    using sp(2) shown(2) subseq_map [OF sp(1)] by (auto simp: d_def shown(6))
qed

section \<open>Nothing stored can close the block\<close>

text \<open>Every phrase has a capital \<open>R\<close>; what the digest writes itself has none.\<close>

lemma clean_no_R: "82 \<notin> set s \<Longrightarrow> clean s"
proof -
  assume s: "82 \<notin> set s"
  have "list_all (\<lambda>p. 82 \<in> set p) phrase_texts" by code_simp
  moreover have "set p \<subseteq> set s" if "contains p s" for p using that by (auto simp: contains_iff)
  ultimately show "clean s" using s by (auto simp: clean_def list_all_iff)
qed

lemma no_R_decimal [simp]: "82 \<notin> set (decimal n)"
  using decimal_digits by fastforce

lemma no_R_numbers [simp]: "82 \<notin> set (int_text i)" "82 \<notin> set (pad2 i)" "82 \<notin> set (hhmm i)"
  by (simp_all add: int_text_def pad2_def hhmm_def)

lemma no_R_published [simp]: "82 \<notin> set (published_text e)"
  by (simp add: published_text_def stamp_def Let_def cps_def)

lemma no_R_age [simp]: "82 \<notin> set (age_text s)"
  by (simp add: age_text_def Let_def)

lemma no_R_label [simp]: "82 \<notin> set (relation_label r s)"
proof -
  have "82 \<notin> set (relation_value x)" for x by (cases x) (simp_all add: cps_def)
  then show ?thesis by (simp add: relation_label_def cps_def split: option.splits)
qed

lemma no_R_join: "82 \<notin> set sep \<Longrightarrow> (\<And>w. w \<in> set ws \<Longrightarrow> 82 \<notin> set w) \<Longrightarrow> 82 \<notin> set (join sep ws)"
  using set_join [of 82 sep ws] by blast

lemma clean_join_comma: "clean (join [44, 32] ws) \<longleftrightarrow> list_all clean ws"
proof (induction "[44, 32 :: nat]" ws rule: join.induct)
  case (3 w v ws)
  have "clean (w @ 44 # 32 # join [44, 32] (v # ws)) \<longleftrightarrow> clean w \<and> clean (join [44, 32] (v # ws))"
    using clean_seam [of 44 w] by (simp add: phrase_char_def clean_Cons_space)
  then show ?case using 3 by simp
qed simp_all

lemma clean_take: "clean s \<Longrightarrow> clean (take n s)"
  by (erule clean_prefix) (rule take_is_prefix)

lemma clean_strip: "clean s \<Longrightarrow> clean (strip s)"
proof -
  assume s: "clean s"
  obtain a where a: "s = a @ dropWhile is_space s" by (metis takeWhile_dropWhile_id)
  obtain b where b: "rev (dropWhile is_space s) = b @ dropWhile is_space (rev (dropWhile is_space s))"
    by (metis takeWhile_dropWhile_id)
  then have "dropWhile is_space s = strip s @ rev b" unfolding strip_def by (metis rev_append rev_rev_ident)
  then show ?thesis using a s clean_part by metis
qed

lemma clean_identities: "clean (identities_text keys)"
proof -
  let ?j = "join [44, 32] (map neutralise_markers keys)"
  have j: "clean ?j" by (simp add: clean_join_comma list_all_iff)
  have np: "\<not> phrase_char 91" "\<not> phrase_char 93" "\<not> phrase_char 8230" by (simp_all add: phrase_char_def)
  have "clean (take IDENTITIES_MAX_CHARS ?j @ [8230])"
    using clean_seam [OF np(3), of "take IDENTITIES_MAX_CHARS ?j" "[]"] clean_take [OF j] by simp
  then have "clean ((if IDENTITIES_MAX_CHARS < length ?j then take IDENTITIES_MAX_CHARS ?j @ [8230] else ?j) @ 93 # [])"
    using j by (subst clean_seam [OF np(2)]) simp
  then have "clean ([] @ 91 # ((if IDENTITIES_MAX_CHARS < length ?j then take IDENTITIES_MAX_CHARS ?j @ [8230] else ?j) @ 93 # []))"
    by (subst clean_seam [OF np(1)]) simp
  then show ?thesis by (simp add: identities_text_def Let_def)
qed

text \<open>The nodes of a retained handoff are those of an incident context.\<close>

definition known_nodes :: "handoff \<Rightarrow> bool" where
  "known_nodes h \<longleftrightarrow> subseq (ho_nodes h) NODES"

lemma clean_header:
  assumes "known_nodes (ca_handoff ca)"
  shows "clean (entry_header n ca now)"
proof -
  let ?h = "ca_handoff ca"
  let ?p = "cps ''[prior handoff '' @ decimal n @ cps ''] relation='' @ relation_label (ca_relation ca) (ca_structural ca) @
    cps '' published='' @ published_text (ho_published ?h) @ cps '' age='' @ age_text (now - ho_published ?h) @
    cps '' nodes=['' @ join [44, 32] (ho_nodes ?h) @ cps ''] identities=''"
  have "list_all (\<lambda>n. 82 \<notin> set n) NODES" by (simp add: NODES_def cps_def)
  then have "82 \<notin> set (join [44, 32] (ho_nodes ?h))"
    using subseq_set [of "ho_nodes ?h" NODES] assms by (intro no_R_join) (auto simp: known_nodes_def list_all_iff)
  then have "clean ?p" by (intro clean_no_R) (simp add: cps_def)
  moreover have "?p \<noteq> []" "\<not> phrase_char (last ?p)" by (simp_all add: cps_def phrase_char_def)
  ultimately have "clean (?p @ identities_text (ho_identities ?h))"
    using clean_identities by (subst clean_seam_last) simp_all
  then show ?thesis by (simp add: entry_header_def Let_def)
qed

lemma clean_entry: "known_nodes (ca_handoff ca) \<Longrightarrow> clean (entry_text n ca now)"
  by (simp add: entry_text_def clean_join_lines entry_lines_def Let_def clean_header clean_take clean_strip clean_no_R cps_def)

lemma clean_digest_omission: "clean (digest_omission n)"
  by (rule clean_no_R) (simp add: digest_omission_def cps_def)

text \<open>Below its first line a rendered digest holds no marker, wherever an excerpt was cut.\<close>

lemma rendered_digest_closed:
  fixes related :: "(handoff \<times> relation) list" and now :: secs and extra mx :: nat
    and recurrence :: "handoff option" and win :: "(handoff \<times> relation option) list"
  assumes "\<forall>c\<in>set (candidates_of related recurrence win). known_nodes (ca_handoff c)"
    and "dg_text (render_digest related recurrence win extra now mx) = Some t"
  shows "\<exists>body. t = PRIOR_HANDOFFS_HEADER @ [10] @ body \<and> clean body"
proof (cases rule: render_digest_cases [of related recurrence win extra now mx])
  case empty
  then show ?thesis using assms(2) by (simp add: EMPTY_DIGEST_def)
next
  case (shown reserve ps ss omitted)
  let ?cas = "candidates_of related recurrence win"
  let ?tail = "ps @ (if omitted \<noteq> 0 then [digest_omission omitted] else [])"
  have sp: "subseq ss ?cas" "ps = map (\<lambda>(i, ca). entry_text (Suc i) ca now) (zip [0..<length ss] ss)"
    using shown(1) fill_loop_spec [of now mx "length PRIOR_HANDOFFS_HEADER + reserve" 0 ?cas ps ss]
    by (auto simp: fill_def Let_def split: prod.splits)
  have "clean e" if e: "e \<in> set ps" for e
  proof -
    obtain i ca where "(i, ca) \<in> set (zip [0..<length ss] ss)" "e = entry_text (Suc i) ca now"
      using e sp(2) by auto
    moreover from this(1) have "ca \<in> set ?cas" using subseq_set [OF sp(1)] set_zip_rightD by (metis subsetD)
    ultimately show ?thesis using assms(1) clean_entry by blast
  qed
  then have "list_all clean ?tail" using clean_digest_omission by (auto simp: list_all_iff)
  then have "clean (join_lines ?tail)" by (simp only: clean_join_lines)
  moreover have "ps \<noteq> []" using sp(2) shown(2) by (simp add: zip_eq_Nil_iff del: upt_Suc)
  then have "t = PRIOR_HANDOFFS_HEADER @ [10] @ join_lines ?tail"
    using assms(2) by (simp add: shown(6) join_lines_Cons)
  ultimately show ?thesis by blast
qed

section \<open>Every related handoff is shown or counted\<close>

lemma set_by_id: "inj_on ho_id (set hs) \<Longrightarrow> set (by_id hs) = set hs"
proof -
  assume inj: "inj_on ho_id (set hs)"
  have l: "last (filter (\<lambda>h. ho_id h = ho_id x) hs) = x" if "x \<in> set hs" for x
  proof -
    have "filter (\<lambda>h. ho_id h = ho_id x) hs \<noteq> []" using that by (auto simp: filter_empty_conv)
    then have "last (filter (\<lambda>h. ho_id h = ho_id x) hs) \<in> set (filter (\<lambda>h. ho_id h = ho_id x) hs)" by (rule last_in_set)
    then show ?thesis using inj that by (auto simp: inj_on_def)
  qed
  then show ?thesis by (auto simp: by_id_def image_iff)
qed

lemma map_id_by_id: "map ho_id (by_id hs) = unique_keys (map ho_id hs)"
proof -
  have "ho_id (last (filter (\<lambda>h. ho_id h = i) hs)) = i" if "i \<in> set (map ho_id hs)" for i
  proof -
    have "filter (\<lambda>h. ho_id h = i) hs \<noteq> []" using that by (auto simp: filter_empty_conv)
    then show ?thesis using last_in_set by fastforce
  qed
  then show ?thesis by (auto simp: by_id_def intro!: map_idI)
qed

lemma distinct_by_id: "distinct (map ho_id (by_id hs))"
  by (simp add: map_id_by_id distinct_unique_keys)

text \<open>The window splits into what is placed and what is not.\<close>

definition in_window :: "secs \<Rightarrow> handoff \<Rightarrow> bool" where
  "in_window now h \<longleftrightarrow> 0 \<le> now - ho_published h \<and> now - ho_published h \<le> RECENT_WINDOW"

lemma same_window_split:
  assumes "same_window hs now ex = (placed, unplaced)" and "distinct (map ho_id hs)"
  shows "set placed \<union> set unplaced = {h \<in> set hs. ho_id h \<notin> ex \<and> in_window now h} \<and>
    set placed \<inter> set unplaced = {} \<and> distinct placed \<and> distinct unplaced"
proof -
  define w where "w = sort_key newest_key (filter (\<lambda>h. ho_id h \<notin> ex \<and> 0 \<le> now - ho_published h \<and> now - ho_published h \<le> RECENT_WINDOW) hs)"
  have ws: "set w = {h \<in> set hs. ho_id h \<notin> ex \<and> in_window now h}" "distinct w"
    using assms(2) by (auto simp: w_def in_window_def distinct_map)
  have eq: "(placed, unplaced) = (if length w \<le> RECENT_MAX_ENTRIES then (w, [])
      else (take (RECENT_MAX_ENTRIES - 1) w @ [last w], butlast (drop (RECENT_MAX_ENTRIES - 1) w)))"
    using assms(1) unfolding same_window_def Let_def w_def [symmetric] by (rule sym)
  show ?thesis
  proof (cases "length w \<le> RECENT_MAX_ENTRIES")
    case True
    then show ?thesis using eq ws by auto
  next
    case False
    then have l: "2 < length w" by (simp add: RECENT_MAX_ENTRIES_def)
    then obtain x ys where xy: "w = x # ys" by (cases w) auto
    with l have xy: "w = x # ys" "ys \<noteq> []" by auto
    then have "w = x # butlast ys @ [last ys]" by simp
    moreover have "placed = [x, last ys]" "unplaced = butlast ys"
      using eq False xy by (auto simp: RECENT_MAX_ENTRIES_def)
    ultimately show ?thesis using ws by auto
  qed
qed

lemma related_loop_list:
  "distinct (map ho_id hs) \<Longrightarrow> related_loop c S hs =
     map (\<lambda>h. (h, the (relation_of h c))) (filter (\<lambda>h. ho_id h \<notin> S \<and> relation_of h c \<noteq> None) hs)"
proof (induction hs arbitrary: S)
  case (Cons h hs)
  have "filter (\<lambda>x. ho_id x \<notin> insert (ho_id h) S \<and> relation_of x c \<noteq> None) hs =
      filter (\<lambda>x. ho_id x \<notin> S \<and> relation_of x c \<noteq> None) hs"
    by (rule filter_cong) (use Cons.prems in \<open>auto simp: image_iff\<close>)
  then show ?case using Cons by (auto split: option.splits)
qed simp

text \<open>The rows one read works with.\<close>

definition resolved_rows :: "archive \<Rightarrow> event_turn \<Rightarrow> secs \<Rightarrow> handoff list" where
  "resolved_rows arch t now =
     map the (filter (\<lambda>h. h \<noteq> None) (map (\<lambda>(r, m). find_by_message_ref (Some r) now arch) (distinct_refs t)))"

definition reference_row :: "archive \<Rightarrow> event_turn \<Rightarrow> secs \<Rightarrow> handoff option" where
  "reference_row arch t now = (case resolved_rows arch t now of [] \<Rightarrow> None | h # _ \<Rightarrow> Some h)"

definition history :: "archive \<Rightarrow> event_turn \<Rightarrow> secs \<Rightarrow> handoff list" where
  "history arch t now =
     (let ex = (case reference_row arch t now of None \<Rightarrow> {} | Some h \<Rightarrow> {ho_id h})
      in by_id (filter (\<lambda>h. ho_id h \<notin> ex) (resolved_rows arch t now) @ eligible now arch))"

lemma digest_read_eq:
  fixes arch :: archive and t :: event_turn and now :: secs
  assumes "from_turn t = Inr c" and "same_window (history arch t now) now ex = (placed, unplaced)"
    and "ex = (case reference_row arch t now of None \<Rightarrow> {} | Some h \<Rightarrow> {ho_id h})"
  defines "d \<equiv> render_digest (rank_related (history arch t now) c (ex \<union> ho_id ` set placed)) (reference_row arch t now)
      (map (\<lambda>h. (h, relation_of h c)) placed) (length (filter (\<lambda>h. relation_of h c = None) unplaced)) now DIGEST_MAX_CHARS"
  shows "digest_read arch t now = Inr (d\<lparr>dg_refs := map (\<lambda>(r, m). \<lparr>rf_message = m,
      rf_state = state_of_ref (reference_row arch t now) (dg_shown d) (find_by_message_ref (Some r) now arch)\<rparr>) (distinct_refs t)\<rparr>)"
proof -
  let ?found = "map (\<lambda>(r, m). (m, find_by_message_ref (Some r) now arch)) (distinct_refs t)"
  have hits: "map the (filter (\<lambda>h. h \<noteq> None) (map snd ?found)) = resolved_rows arch t now"
    by (simp add: resolved_rows_def comp_def case_prod_unfold)
  have ref: "(case resolved_rows arch t now of [] \<Rightarrow> None | h # _ \<Rightarrow> Some h) = reference_row arch t now"
    by (simp add: reference_row_def)
  have hist: "by_id (filter (\<lambda>h. ho_id h \<notin> ex) (resolved_rows arch t now) @ eligible now arch) = history arch t now"
    by (simp add: history_def assms(3))
  show ?thesis
    unfolding digest_read_def assms(1) sum.case Let_def hits ref assms(3) [symmetric] hist assms(2) prod.case d_def [symmetric]
    by (simp add: comp_def case_prod_unfold)
qed


lemma eligible_rows:
  "handoff_count arch \<le> HANDOFF_MAX_COUNT \<Longrightarrow>
     set (eligible now arch) = {h \<in> set (rows arch). now - HANDOFF_MAX_AGE \<le> ho_published h}"
proof -
  assume c: "handoff_count arch \<le> HANDOFF_MAX_COUNT"
  let ?f = "filter (\<lambda>h. now - HANDOFF_MAX_AGE \<le> ho_published h) (rows arch)"
  have "length (newest_first ?f) \<le> HANDOFF_MAX_COUNT"
    using c le_trans [OF length_filter_le] by (simp add: handoff_count_def)
  then show ?thesis by (simp add: eligible_def)
qed

lemma found_row:
  "find_by_message_ref r now arch = Some h \<Longrightarrow> h \<in> set (rows arch) \<and> now - HANDOFF_MAX_AGE \<le> ho_published h"
proof -
  assume f: "find_by_message_ref r now arch = Some h"
  then obtain mid where m: "parse_handoff_message_id r = Some mid"
    by (cases "parse_handoff_message_id r") (simp_all add: find_by_message_ref_def)
  let ?f = "filter (\<lambda>h. ho_message h = Some mid \<and> now - HANDOFF_MAX_AGE \<le> ho_published h) (rows arch)"
  have "h \<in> set (newest_first ?f)"
    using f m unfolding find_by_message_ref_def by (cases "newest_first ?f") simp_all
  then show ?thesis by simp
qed

lemma resolved_in: "set (resolved_rows arch t now) \<subseteq> {h \<in> set (rows arch). now - HANDOFF_MAX_AGE \<le> ho_published h}"
  using found_row by (fastforce simp: resolved_rows_def)

lemma reference_in: "reference_row arch t now = Some h \<Longrightarrow> h \<in> set (rows arch) \<and> now - HANDOFF_MAX_AGE \<le> ho_published h"
  using resolved_in [of arch t now] by (cases "resolved_rows arch t now") (auto simp: reference_row_def)

lemma history_rows:
  assumes "wf_table ho_id arch" and "handoff_count arch \<le> HANDOFF_MAX_COUNT"
  shows "set (history arch t now) = {h \<in> set (rows arch). now - HANDOFF_MAX_AGE \<le> ho_published h}"
proof -
  have inj: "inj_on ho_id (set (rows arch))" using assms(1) by (simp add: wf_table_def distinct_map)
  have s: "set (filter P (resolved_rows arch t now) @ eligible now arch) = {h \<in> set (rows arch). now - HANDOFF_MAX_AGE \<le> ho_published h}"
    for P using resolved_in [of arch t now] eligible_rows [OF assms(2)] by auto
  have "set (by_id (filter P (resolved_rows arch t now) @ eligible now arch)) =
      {h \<in> set (rows arch). now - HANDOFF_MAX_AGE \<le> ho_published h}" for P
  proof -
    have "inj_on ho_id (set (filter P (resolved_rows arch t now) @ eligible now arch))"
      unfolding s by (rule inj_on_subset [OF inj]) blast
    then show ?thesis by (simp only: set_by_id s)
  qed
  then show ?thesis unfolding history_def Let_def by blast
qed

lemma distinct_history: "distinct (map ho_id (history arch t now))"
  by (simp add: history_def Let_def distinct_by_id)

text \<open>What a digest has to account for: the reference, the related and the recent.\<close>

definition relevant :: "archive \<Rightarrow> event_turn \<Rightarrow> secs \<Rightarrow> incident_context \<Rightarrow> handoff \<Rightarrow> bool" where
  "relevant arch t now c h \<longleftrightarrow>
     now - HANDOFF_MAX_AGE \<le> ho_published h \<and>
     (reference_row arch t now = Some h \<or> relation_of h c \<noteq> None \<or> in_window now h)"

lemma candidate_handoffs:
  "map ca_handoff (candidates_of related recurrence win) =
     (case recurrence of None \<Rightarrow> [] | Some h \<Rightarrow> [h]) @ map fst win @ map fst related"
  by (simp add: candidates_of_def comp_def case_prod_unfold split: option.split)

lemma candidates_account:
  fixes arch :: archive and t :: event_turn and now :: secs and c :: incident_context
  assumes wf: "wf_table ho_id arch" and count: "handoff_count arch \<le> HANDOFF_MAX_COUNT"
    and sw: "same_window (history arch t now) now ex = (placed, unplaced)"
    and ex: "ex = (case reference_row arch t now of None \<Rightarrow> {} | Some h \<Rightarrow> {ho_id h})"
  defines "cs \<equiv> map ca_handoff (candidates_of (rank_related (history arch t now) c (ex \<union> ho_id ` set placed))
      (reference_row arch t now) (map (\<lambda>h. (h, relation_of h c)) placed))"
    and "left \<equiv> filter (\<lambda>h. relation_of h c = None) unplaced"
  shows "distinct (cs @ left) \<and> set (cs @ left) = {h \<in> set (rows arch). relevant arch t now c h}"
proof -
  let ?H = "history arch t now"
  let ?ref = "case reference_row arch t now of None \<Rightarrow> [] | Some h \<Rightarrow> [h]"
  let ?rel = "filter (\<lambda>h. ho_id h \<notin> ex \<union> ho_id ` set placed \<and> relation_of h c \<noteq> None) ?H"
  define ranked where "ranked = map fst (rank_related ?H c (ex \<union> ho_id ` set placed))"
  have dH: "distinct ?H" using distinct_history by (simp add: distinct_map)
  have rset: "set ranked = set ?rel"
    unfolding ranked_def rank_related_def related_loop_list [OF distinct_history] set_map set_sort by force
  have rdist: "distinct ranked"
    unfolding ranked_def rank_related_def related_loop_list [OF distinct_history] distinct_map set_sort distinct_sort
    using dH by (auto simp: inj_on_def)
  have cs: "cs = ?ref @ placed @ ranked"
    by (simp add: cs_def candidate_handoffs ranked_def comp_def)
  note H = history_rows [OF wf count, of t now]
  note win = same_window_split [OF sw distinct_history]
  have uniq: "x = y" if "x \<in> set ?H" "y \<in> set ?H" "ho_id x = ho_id y" for x y
    using distinct_history [of arch t now] that by (auto simp: distinct_map inj_on_def)
  have refH: "set ?ref \<subseteq> set ?H" using reference_in H by (auto split: option.splits)
  have exH: "ho_id h \<in> ex \<longleftrightarrow> h \<in> set ?ref" if "h \<in> set ?H" for h
    using that refH uniq by (auto simp: ex split: option.splits)
  have plH: "set placed \<subseteq> set ?H" "set unplaced \<subseteq> set ?H" using win by auto
  have plid: "ho_id h \<in> ho_id ` set placed \<longleftrightarrow> h \<in> set placed" if "h \<in> set ?H" for h
    using that plH uniq by blast
  have rel: "set ranked = {h \<in> set ?H. h \<notin> set ?ref \<and> h \<notin> set placed \<and> relation_of h c \<noteq> None}"
    using rset exH plid by auto
  have pl: "set placed \<union> set unplaced = {h \<in> set ?H. h \<notin> set ?ref \<and> in_window now h}"
    "set placed \<inter> set unplaced = {}" using win exH by blast+
  have lf: "set left = {h \<in> set unplaced. relation_of h c = None}" by (auto simp: left_def)
  have "distinct (cs @ left)"
  proof -
    have "distinct ?ref" by (simp split: option.split)
    moreover have "distinct left" using win by (simp add: left_def)
    moreover have "set ?ref \<inter> (set placed \<union> set ranked \<union> set left) = {}" "set placed \<inter> (set ranked \<union> set left) = {}"
      "set ranked \<inter> set left = {}" using rel pl lf by blast+
    ultimately show ?thesis using rdist win unfolding cs by (simp add: Int_Un_distrib)
  qed
  moreover have "set (cs @ left) = {h \<in> set ?H. h \<in> set ?ref \<or> relation_of h c \<noteq> None \<or> in_window now h}"
    unfolding cs set_append using rel pl lf refH by blast
  moreover have "h \<in> set ?ref \<longleftrightarrow> reference_row arch t now = Some h" for h
    by (auto split: option.splits)
  ultimately show ?thesis using H by (auto simp: relevant_def)
qed


lemma by_id_subset: "set (by_id hs) \<subseteq> set hs"
proof -
  have "last (filter (\<lambda>h. ho_id h = i) hs) \<in> set hs" if "i \<in> ho_id ` set hs" for i
  proof -
    have "filter (\<lambda>h. ho_id h = i) hs \<noteq> []" using that by (auto simp: filter_empty_conv)
    then show ?thesis using last_in_set by fastforce
  qed
  then show ?thesis by (auto simp: by_id_def)
qed

lemma history_subset: "set (history arch t now) \<subseteq> set (rows arch)"
proof -
  have "set (eligible now arch) \<subseteq> set (rows arch)"
    using set_take_subset [of HANDOFF_MAX_COUNT] by (fastforce simp: eligible_def)
  then show ?thesis using by_id_subset resolved_in [of arch t now] unfolding history_def Let_def
    by (fastforce split: option.splits)
qed

lemma candidates_stored:
  assumes "same_window (history arch t now) now ex = (placed, unplaced)"
    and "ca \<in> set (candidates_of (rank_related (history arch t now) c (ex \<union> ho_id ` set placed))
      (reference_row arch t now) (map (\<lambda>h. (h, relation_of h c)) placed))"
  shows "ca_handoff ca \<in> set (rows arch)"
proof -
  have "set placed \<subseteq> set (history arch t now)"
    using same_window_split [OF assms(1) distinct_history] by auto
  moreover have "fst ` set (rank_related (history arch t now) c S) \<subseteq> set (history arch t now)" for S
    by (auto simp: rank_related_def related_loop_list [OF distinct_history])
  moreover have "ca_handoff ca \<in> set (map ca_handoff (candidates_of (rank_related (history arch t now) c (ex \<union> ho_id ` set placed))
      (reference_row arch t now) (map (\<lambda>h. (h, relation_of h c)) placed)))" using assms(2) by simp
  ultimately show ?thesis
    using reference_in [of arch t now] history_subset [of arch t now] unfolding candidate_handoffs
    by (fastforce split: option.splits)
qed

lemma read_digest_clean:
  assumes "\<forall>h\<in>set (rows arch). known_nodes h"
    and "dg_text (read_digest (Some arch) readable t now) = Some txt"
  shows "\<exists>body. txt = PRIOR_HANDOFFS_HEADER @ [10] @ body \<and> clean body"
proof -
  obtain d where d: "digest_read arch t now = Inr d" "dg_text d = Some txt"
    using assms(2) by (auto simp: read_digest_def EMPTY_DIGEST_def Let_def split: if_splits sum.splits)
  then obtain c where c: "from_turn t = Inr c" by (cases "from_turn t") (simp_all add: digest_read_def)
  define ex where "ex = (case reference_row arch t now of None \<Rightarrow> {} | Some h \<Rightarrow> {ho_id h})"
  obtain placed unplaced where sw: "same_window (history arch t now) now ex = (placed, unplaced)" by fastforce
  have rendered: "dg_text (render_digest (rank_related (history arch t now) c (ex \<union> ho_id ` set placed)) (reference_row arch t now)
      (map (\<lambda>h. (h, relation_of h c)) placed) (length (filter (\<lambda>h. relation_of h c = None) unplaced)) now DIGEST_MAX_CHARS) = Some txt"
    using digest_read_eq [OF c sw ex_def] d by auto
  show ?thesis
    by (rule rendered_digest_closed [OF _ rendered]) (use assms(1) candidates_stored [OF sw] in blast)
qed

text \<open>
  A retained handoff cannot forge or close a block: below its own first line, the header that
  says the handoffs are unverified model output, the digest of a turn holds no block marker,
  whatever the stored documents and identity keys contain and wherever an excerpt was cut.
\<close>

theorem digest_cannot_close_the_block:
  assumes "\<forall>h\<in>set (rows arch). known_nodes h"
    and "dg_text (read_digest (Some arch) readable t now) = Some txt"
  shows "\<exists>body. txt = PRIOR_HANDOFFS_HEADER @ [10] @ body \<and> (\<forall>m\<in>set MARKERS. \<not> contains m body)"
  using read_digest_clean [OF assms] clean_no_marker by blast

section \<open>The recurrence reference is shown\<close>

lemma length_int_text: "\<bar>i\<bar> < 10 ^ Suc k \<Longrightarrow> length (int_text i) \<le> k + 2"
proof -
  assume i: "\<bar>i\<bar> < 10 ^ Suc k"
  have "nat \<bar>i\<bar> < 10 ^ Suc k" using i by (simp add: nat_less_iff)
  then have "length (decimal (nat \<bar>i\<bar>)) \<le> Suc k" by (rule length_decimal)
  then show ?thesis by (cases "i < 0") (simp_all add: int_text_def)
qed

lemma length_pad2: "\<bar>i\<bar> < 1000 \<Longrightarrow> length (pad2 i) \<le> 5"
  using length_int_text [of i 2] by (simp add: pad2_def)

lemma length_hhmm: "length (hhmm w) \<le> 11"
proof -
  have "\<bar>w mod 86400 div 3600\<bar> < 1000" "\<bar>w mod 3600 div 60\<bar> < 1000" by (simp_all add: abs_if, linarith+)
  from length_pad2 [OF this(1)] length_pad2 [OF this(2)] show ?thesis by (simp add: hhmm_def)
qed

lemma month_and_day_bounds:
  assumes "0 \<le> n" and "n \<le> 364"
  shows "\<bar>fst (month_and_day leap n)\<bar> < 1000 \<and> \<bar>snd (month_and_day leap n)\<bar> < 1000"
proof -
  have "list_all (\<lambda>leap. list_all (\<lambda>n. \<bar>fst (month_and_day leap n)\<bar> < 1000 \<and> \<bar>snd (month_and_day leap n)\<bar> < 1000) [0..364]) [False, True]"
    by code_simp
  then show ?thesis using assms by (cases leap) (auto simp: list_all_iff)
qed

lemma ord_to_ymd_bounds:
  assumes "1 \<le> ord" and "ord < 3652060"
  shows "case ord_to_ymd ord of (y, m, d) \<Rightarrow> \<bar>y\<bar> < 100000 \<and> \<bar>m\<bar> < 1000 \<and> \<bar>d\<bar> < 1000"
proof -
  define n0 n400 n1 n100 n2 n4 n3 n1y n where
    "n0 = ord - 1" "n400 = n0 div 146097" "n1 = n0 mod 146097" "n100 = n1 div 36524" "n2 = n1 mod 36524"
    "n4 = n2 div 1461" "n3 = n2 mod 1461" "n1y = n3 div 365" "n = n3 mod 365"
  note defs = this
  have "0 \<le> n400 \<and> n400 < 100" using assms by (simp add: defs(1,2)) linarith
  moreover have "0 \<le> n1 \<and> n1 < 146097" by (simp add: defs(3))
  then have "0 \<le> n100 \<and> n100 < 100" by (simp add: defs(4)) linarith
  moreover have "0 \<le> n2 \<and> n2 < 36524" by (simp add: defs(5))
  then have "0 \<le> n4 \<and> n4 < 100" by (simp add: defs(6)) linarith
  moreover have "0 \<le> n3 \<and> n3 < 1461" by (simp add: defs(7))
  then have "0 \<le> n1y \<and> n1y < 100" by (simp add: defs(8)) linarith
  ultimately have y: "\<bar>n400 * 400 + 1 + n100 * 100 + n4 * 4 + n1y\<bar> < 100000" "\<bar>n400 * 400 + 1 + n100 * 100 + n4 * 4 + n1y - 1\<bar> < 100000"
    by linarith+
  have n: "0 \<le> n" "n \<le> 364" by (simp_all add: defs(9), linarith?)
  have "ord_to_ymd ord = (if n1y = 4 \<or> n100 = 4 then (n400 * 400 + 1 + n100 * 100 + n4 * 4 + n1y - 1, 12, 31)
      else (n400 * 400 + 1 + n100 * 100 + n4 * 4 + n1y, month_and_day (n1y = 3 \<and> (n4 \<noteq> 24 \<or> n100 = 3)) n))"
    unfolding ord_to_ymd_def Let_def defs by (rule refl)
  then show ?thesis using y month_and_day_bounds [OF n] by (simp add: case_prod_unfold)
qed

lemma length_published: "length (published_text e) \<le> 60"
proof (cases "representable (instant_of e)")
  case False
  then show ?thesis by (simp add: published_text_def stamp_def Let_def cps_def)
next
  case True
  let ?w = "instant_of e"
  obtain y m d where o: "ord_to_ymd (?w div 86400 + EPOCH_ORD) = (y, m, d)" by (metis prod_cases3)
  have "1 \<le> ?w div 86400 + EPOCH_ORD" "?w div 86400 + EPOCH_ORD < 3652060"
    using True by (simp_all add: representable_def EPOCH_ORD_def, linarith+)
  from ord_to_ymd_bounds [OF this] have b: "\<bar>y\<bar> < 100000" "\<bar>m\<bar> < 1000" "\<bar>d\<bar> < 1000" by (simp_all add: o)
  have n: "nv_year (naive_at ?w 0) = y" "nv_month (naive_at ?w 0) = m" "nv_day (naive_at ?w 0) = d"
    "nv_second (naive_at ?w 0) = ?w mod 86400 mod 60" by (simp_all add: naive_at_def o Let_def)
  have s: "\<bar>?w mod 86400 mod 60\<bar> < 1000" by (simp add: abs_if, linarith)
  have "length (int_text y) \<le> 6" using length_int_text [of y 4] b(1) by simp
  then have "length (int_text y @ [45] @ pad2 m @ [45] @ pad2 d @ [84] @ hhmm ?w @ [58] @ pad2 (?w mod 86400 mod 60) @ [90]) \<le> 60"
    using length_pad2 [OF b(2)] length_pad2 [OF b(3)] length_pad2 [OF s] length_hhmm [of ?w] by simp
  then show ?thesis using True by (simp add: published_text_def stamp_def Let_def n)
qed

lemma length_alternate [simp]: "length (alternate n b) = n"
  by (induction n arbitrary: b) simp_all

lemma length_break_runs: "length (break_runs s) = length s"
proof (induction s rule: break_runs.induct)
  case (2 c cs)
  have "length (takeWhile (\<lambda>c. c = 61) cs) + length (dropWhile (\<lambda>c. c = 61) cs) = length cs"
    by (metis length_append takeWhile_dropWhile_id)
  then show ?case using 2 by (auto simp: Let_def)
qed simp

lemma length_phrase: "phrase_text ps ws p \<Longrightarrow> length (join [45] ws) \<le> length p"
proof (induction ps ws p rule: phrase_text.induct)
  case (3 w v vs xs p)
  then obtain x ys g q where x: "xs = x # ys" "p = x @ g @ q" "g \<noteq> []" "phrase_text (v # vs) ys q" by auto
  then have "length (join [45] ys) \<le> length q" using 3(1) by blast
  moreover have "1 \<le> length g" using x(3) by (cases g) simp_all
  ultimately show ?case using x(1,2) by (cases ys) auto
qed auto

lemma length_hyphenate: "length (hyphenate_phrases s) \<le> length s"
proof (induction s rule: hyphenate_induct)
  case (matched s ws rest ps p)
  then show ?case using length_phrase [OF matched(3)] by simp
next
  case nil
  show ?case
  proof (cases rule: hyphenate_step [of "[]"])
    case (matched ws rest ps p)
    then show ?thesis using phrase_text_nonempty [OF matched(2,4)] by simp
  qed simp_all
qed simp

lemma length_neutralised: "length (neutralise_markers t) \<le> length t"
  using length_hyphenate [of "break_runs t"] by (simp add: neutralise_markers_def length_break_runs)

lemma length_strip: "length (strip s) \<le> length s"
  using length_dropWhile_le [of is_space s] length_dropWhile_le [of is_space "rev (dropWhile is_space s)"]
  by (simp add: strip_def)

lemma length_byte_length: "length s \<le> byte_length s"
proof (induction s)
  case (Cons c s)
  then show ?case using utf8_width_bounds(1) [of c] by simp
qed simp

lemma length_two_digits: "n < 100 \<Longrightarrow> length (decimal n) \<le> 2"
  using length_decimal [of n 1] by simp

lemma length_age: "s \<le> 90 * 86400 \<Longrightarrow> length (age_text s) \<le> 6"
proof -
  assume s: "s \<le> 90 * 86400"
  define m where "m = nat (max 0 \<lfloor>s / 60\<rfloor>)"
  have "m \<le> 129600" using s by (simp add: m_def floor_le_iff nat_le_iff)
  then have b: "m div 1440 < 100" "m mod 1440 div 60 < 100" "m mod 60 < 100" by auto
  define x y z where "x = m div 1440" "y = m mod 1440 div 60" "z = m mod 60"
  note xyz = this
  have "length (decimal x) \<le> 2" "length (decimal y) \<le> 2" "length (decimal z) \<le> 2"
    using b by (simp_all add: xyz length_two_digits)
  then show ?thesis unfolding age_text_def Let_def m_def [symmetric] xyz [symmetric] by simp
qed

lemma length_nodes: "subseq ns NODES \<Longrightarrow> length (join [44, 32] ns) \<le> 15"
proof -
  assume s: "subseq ns NODES"
  have j: "length (join [44, 32] ws) \<le> 5 * length ws" if "list_all (\<lambda>w. length w = 3) ws" for ws
    using that by (induction "[44, 32 :: nat]" ws rule: join.induct) simp_all
  have n: "list_all (\<lambda>w. length w = 3) NODES" "length NODES = 3" by (simp_all add: NODES_def cps_def)
  have "list_all (\<lambda>w. length w = 3) ns" using n(1) subseq_set [OF s] by (auto simp: list_all_iff)
  from j [OF this] show ?thesis using list_emb_length [OF s] n(2) by simp
qed

lemma length_identities: "length (identities_text keys) \<le> 243"
  by (simp add: identities_text_def Let_def IDENTITIES_MAX_CHARS_def)

definition reference_candidate :: "handoff \<Rightarrow> candidate" where
  "reference_candidate h = \<lparr>ca_handoff = h, ca_relation = RECURRENCE, ca_structural = None, ca_bound = DIGEST_RECURRENCE_MAX_CHARS\<rparr>"

lemma length_reference_entry:
  assumes "known_nodes h" and "byte_length (ho_document h) \<le> HANDOFF_DOCUMENT_MAX_BYTES"
    and "now - HANDOFF_MAX_AGE \<le> ho_published h"
  shows "length (entry_text 1 (reference_candidate h) now) \<le> 4600"
proof -
  let ?t = "strip (neutralise_markers (ho_document h))"
  have "length ?t \<le> 32768"
    using length_strip [of "neutralise_markers (ho_document h)"] length_neutralised [of "ho_document h"]
      length_byte_length [of "ho_document h"] assms(2) by (simp add: HANDOFF_DOCUMENT_MAX_BYTES_def)
  then have d: "length (decimal (length ?t)) \<le> 5" using length_decimal [of "length ?t" 4] by simp
  have "length (decimal 4000) \<le> 4" using length_decimal [of 4000 3] by simp
  then have s: "length (cps ''[excerpt shortened: '' @ decimal 4000 @ cps '' of '' @ decimal (length ?t) @ cps '' characters shown]'') \<le> 60"
    using d by (simp add: cps_def)
  have "length (age_text (now - ho_published h)) \<le> 6"
    using assms(3) by (intro length_age) (simp add: HANDOFF_MAX_AGE_def)
  moreover have "length (decimal 1) = 1" by (simp add: decimal.simps [of "Suc 0"])
  ultimately have "length (entry_header 1 (reference_candidate h) now) \<le> 500"
    using length_published [of "ho_published h"] length_identities [of "ho_identities h"]
      length_nodes [of "ho_nodes h"] assms(1)
    by (simp add: entry_header_def reference_candidate_def relation_label_def Let_def cps_def known_nodes_def)
  then show ?thesis using s
    by (simp add: entry_text_def entry_lines_def Let_def length_join_lines reference_candidate_def DIGEST_RECURRENCE_MAX_CHARS_def)
qed

lemma render_first:
  fixes related :: "(handoff \<times> relation) list" and win :: "(handoff \<times> relation option) list"
  assumes "length (entry_text 1 (reference_candidate h) now) \<le> 4600"
    and "length (candidates_of related (Some h) win) + extra \<le> 1000"
  defines "d \<equiv> render_digest related (Some h) win extra now DIGEST_MAX_CHARS"
  shows "dg_text d \<noteq> None \<and> dg_shown d \<noteq> [] \<and> hd (dg_shown d) = ho_id h"
proof -
  let ?cas = "candidates_of related (Some h) win"
  obtain rest where cas: "?cas = reference_candidate h # rest"
    by (simp add: candidates_of_def reference_candidate_def)
  have "length (decimal (length ?cas + extra)) \<le> 4" using length_decimal [of "length ?cas + extra" 3] assms(2) by simp
  then have om: "length (digest_omission (length ?cas + extra)) \<le> 100" by (simp add: digest_omission_def cps_def)
  have "length PRIOR_HANDOFFS_HEADER \<le> 200" by (simp add: PRIOR_HANDOFFS_HEADER_def cps_def)
  then have fit: "length PRIOR_HANDOFFS_HEADER + reserve + Suc (length (entry_text 1 (reference_candidate h) now)) \<le> DIGEST_MAX_CHARS"
    if "reserve = 0 \<or> reserve = Suc (length (digest_omission (length ?cas + extra)))" for reserve
    using that assms(1) om by (auto simp: DIGEST_MAX_CHARS_def)
  obtain ts where z: "snd (fill ?cas now DIGEST_MAX_CHARS 0) = reference_candidate h # ts"
    using fill_first [OF fit [of 0]] unfolding cas by auto
  obtain us where s: "snd (fill ?cas now DIGEST_MAX_CHARS (Suc (length (digest_omission (length ?cas + extra))))) = reference_candidate h # us"
    using fill_first [OF fit [of "Suc (length (digest_omission (length ?cas + extra)))"]] unfolding cas by auto
  have id: "ho_id (ca_handoff (reference_candidate h)) = ho_id h" by (simp add: reference_candidate_def)
  have "?cas \<noteq> []" by (simp add: cas)
  then show ?thesis using z s id unfolding d_def render_digest_def Let_def by (auto split: prod.splits if_splits)
qed

lemma reference_shown:
  assumes "wf_table ho_id arch" and "handoff_count arch \<le> HANDOFF_MAX_COUNT" and "from_turn t = Inr c"
    and "reference_row arch t now = Some h" and "known_nodes h"
    and "byte_length (ho_document h) \<le> HANDOFF_DOCUMENT_MAX_BYTES"
  shows "\<exists>d. digest_read arch t now = Inr d \<and> dg_text d \<noteq> None \<and> hd (dg_shown d) = ho_id h \<and>
    (\<exists>m. \<lparr>rf_message = m, rf_state = REFERENCE\<rparr> \<in> set (dg_refs d))"
proof -
  define ex where "ex = (case reference_row arch t now of None \<Rightarrow> {} | Some h \<Rightarrow> {ho_id h})"
  obtain placed unplaced where sw: "same_window (history arch t now) now ex = (placed, unplaced)" by fastforce
  define related where "related = rank_related (history arch t now) c (ex \<union> ho_id ` set placed)"
  define win where "win = map (\<lambda>h. (h, relation_of h c)) placed"
  define left where "left = filter (\<lambda>h. relation_of h c = None) unplaced"
  define r where "r = render_digest related (Some h) win (length left) now DIGEST_MAX_CHARS"
  have len: "length (entry_text 1 (reference_candidate h) now) \<le> 4600"
    using length_reference_entry [OF assms(5,6)] reference_in [OF assms(4)] by blast
  have acc: "distinct (map ca_handoff (candidates_of related (Some h) win) @ left)"
    "set (map ca_handoff (candidates_of related (Some h) win) @ left) \<subseteq> set (rows arch)"
    using candidates_account [OF assms(1,2) sw ex_def, of c] by (auto simp: assms(4) related_def win_def left_def)
  have "length (candidates_of related (Some h) win) + length left =
      card (set (map ca_handoff (candidates_of related (Some h) win) @ left))"
    using distinct_card [OF acc(1)] by simp
  also have "\<dots> \<le> card (set (rows arch))" by (rule card_mono [OF _ acc(2)]) simp
  also have "\<dots> \<le> handoff_count arch" by (simp add: handoff_count_def card_length)
  finally have n: "length (candidates_of related (Some h) win) + length left \<le> 1000"
    using assms(2) by (simp add: HANDOFF_MAX_COUNT_def)
  have r: "dg_text r \<noteq> None \<and> dg_shown r \<noteq> [] \<and> hd (dg_shown r) = ho_id h"
    unfolding r_def by (rule render_first [OF len n])
  define d where "d = r\<lparr>dg_refs := map (\<lambda>(q, m). \<lparr>rf_message = m,
      rf_state = state_of_ref (Some h) (dg_shown r) (find_by_message_ref (Some q) now arch)\<rparr>) (distinct_refs t)\<rparr>"
  have read: "digest_read arch t now = Inr d"
    using digest_read_eq [OF assms(3) sw ex_def]
    by (simp add: assms(4) d_def r_def related_def win_def left_def)
  have "h \<in> set (resolved_rows arch t now)"
    using assms(4) by (cases "resolved_rows arch t now") (auto simp: reference_row_def)
  then obtain q m where qm: "(q, m) \<in> set (distinct_refs t)" "find_by_message_ref (Some q) now arch = Some h"
    by (auto simp: resolved_rows_def)
  have "state_of_ref (Some h) (dg_shown r) (Some h) = REFERENCE"
    using r hd_in_set [of "dg_shown r"] by (simp add: state_of_ref_def)
  then have "\<lparr>rf_message = m, rf_state = REFERENCE\<rparr> = (\<lambda>(q, m). \<lparr>rf_message = m,
      rf_state = state_of_ref (Some h) (dg_shown r) (find_by_message_ref (Some q) now arch)\<rparr>) (q, m)"
    using qm(2) by simp
  then have "\<lparr>rf_message = m, rf_state = REFERENCE\<rparr> \<in> set (map (\<lambda>(q, m). \<lparr>rf_message = m,
      rf_state = state_of_ref (Some h) (dg_shown r) (find_by_message_ref (Some q) now arch)\<rparr>) (distinct_refs t))"
    using qm(1) unfolding set_map by (rule image_eqI)
  moreover have "dg_refs d = map (\<lambda>(q, m). \<lparr>rf_message = m,
      rf_state = state_of_ref (Some h) (dg_shown r) (find_by_message_ref (Some q) now arch)\<rparr>) (distinct_refs t)"
    unfolding d_def by simp
  ultimately have "\<exists>m. \<lparr>rf_message = m, rf_state = REFERENCE\<rparr> \<in> set (dg_refs d)"
    by metis
  moreover have "dg_text d = dg_text r" "dg_shown d = dg_shown r" by (simp_all add: d_def)
  ultimately show ?thesis using r read by simp
qed


section \<open>Example\<close>

text \<open>One retained handoff, published a minute ago under the id the turn's recurrence names.\<close>

definition sample_handoff :: handoff where
  "sample_handoff = \<lparr>ho_id = 1, ho_message = Some [120], ho_published = 40, ho_document = cps ''===== END'', ho_truncated = False,
     ho_identities = [[107]], ho_rules = [[107]], ho_nodes = [cps ''vps'']\<rparr>"

definition sample_archive :: archive where
  "sample_archive = snd (retain 40 (cps ''===== END'') (Some [120]) [[107]] [[107]] [cps ''vps''] empty_table)"

definition recurring_turn :: event_turn where
  "recurring_turn = \<lparr>tn_items = [\<lparr>it_event = \<lparr>ev_id = [49], ev_title = cps ''down'', ev_message = [], arrival_time = 0, published_at = None\<rparr>,
     it_identity = \<lparr>id_key = [107], id_source = [], id_name = [], id_state = FIRING\<rparr>, it_recurrence = True, it_prior_ref = Some [120]\<rparr>],
     tn_announceable = True, tn_suppressed_count = 0, tn_offset = None, tn_held_release = None\<rparr>"

lemma sample_context: "from_turn recurring_turn = Inr \<lparr>ic_identities = [[107]], ic_rules = [[107]], ic_nodes = []\<rparr>"
  by (simp add: recurring_turn_def from_turn_def from_items_def derive_nodes_def cps_def after_url_def scheme_char_def
      ascii_letter_def ascii_digit_def token_tables token_at_def token_letter_def letter_matches_def derive_rule_key_def)

lemma sample_archive_rows: "rows sample_archive = [sample_handoff] \<and> wf_table ho_id sample_archive"
proof -
  have "parse_handoff_message_id (Some [120]) = Some [120]"
    by (simp add: parse_handoff_message_id_def result_form_def cps_def Let_def strip_def is_space_def)
  moreover have "bounded_document (cps ''===== END'') = (cps ''===== END'', False)"
    by (simp add: bounded_document_def cps_def utf8_width_def HANDOFF_DOCUMENT_MAX_BYTES_def)
  ultimately show ?thesis
    by (simp add: sample_archive_def retain_def atomically_def retain_body_def Let_def new_handoff_def prune_locked_def
        insert_row_def delete_rows_def empty_table_def sample_handoff_def newest_first_def HANDOFF_MAX_AGE_def wf_table_def)
qed

lemma sample_found: "find_by_message_ref (Some [120]) 100 sample_archive = Some sample_handoff"
  by (simp add: find_by_message_ref_def parse_handoff_message_id_def result_form_def cps_def Let_def strip_def is_space_def
      sample_archive_rows newest_first_def HANDOFF_MAX_AGE_def) (simp add: sample_handoff_def)

lemma sample_reference: "reference_row sample_archive recurring_turn 100 = Some sample_handoff"
  by (simp add: reference_row_def resolved_rows_def distinct_refs_def recurring_turn_def sample_found)

lemma sample_known: "known_nodes sample_handoff"
  by (simp add: known_nodes_def sample_handoff_def NODES_def cps_def)


lemma sample_read:
  "\<exists>d. digest_read sample_archive recurring_turn 100 = Inr d \<and> dg_text d \<noteq> None"
  using reference_shown [OF _ _ sample_context sample_reference sample_known]
  by (auto simp: sample_archive_rows handoff_count_def HANDOFF_MAX_COUNT_def HANDOFF_DOCUMENT_MAX_BYTES_def sample_handoff_def cps_def utf8_width_def)


theorem digest_cannot_close_the_block_witness:
  "\<exists>tx body. dg_text (read_digest (Some sample_archive) True recurring_turn 100) = Some tx \<and>
     tx = PRIOR_HANDOFFS_HEADER @ [10] @ body"
proof -
  obtain d where d: "digest_read sample_archive recurring_turn 100 = Inr d" "dg_text d \<noteq> None" using sample_read by blast
  then obtain tx where tx: "dg_text (read_digest (Some sample_archive) True recurring_turn 100) = Some tx"
    by (auto simp: read_digest_def Let_def)
  have "\<forall>h\<in>set (rows sample_archive). known_nodes h" using sample_known by (simp add: sample_archive_rows)
  from digest_cannot_close_the_block [OF this tx] tx show ?thesis by blast
qed

end
