(* ===== verification/Titles.thy ===== *)
theory Titles
  imports Block_Text
begin

text \<open>
  \<open>render_title\<close> of \<open>henk/tools/calendar.py\<close>: a calendar title as one delimited, capped fragment of
  a line. It is used by the calendar tools, the maintenance note and the framing of a release.
\<close>

section \<open>The renderer\<close>

definition OPEN_DELIM :: str where "OPEN_DELIM = cps ''<<<''"
definition CLOSE_DELIM :: str where "CLOSE_DELIM = cps ''>>>''"
definition RENDERED_TITLE_MAX_CHARS :: nat where "RENDERED_TITLE_MAX_CHARS = 120"

text \<open>\<open>str.replace(needle, "")\<close> for a nonempty needle.\<close>

function (sequential) remove_all :: "str \<Rightarrow> str \<Rightarrow> str" where
  "remove_all needle [] = []"
| "remove_all needle (c # cs) =
     (if needle \<noteq> [] \<and> prefix needle (c # cs) then remove_all needle (drop (length needle) (c # cs))
      else c # remove_all needle cs)"
  by pat_completeness auto
termination by (relation "measure (\<lambda>(_, s). length s)") (auto simp: Suc_le_eq)

lemma length_remove_all: "length (remove_all needle s) \<le> length s"
  by (induction needle s rule: remove_all.induct) (auto simp: le_diff_conv)

lemma length_remove_all_less:
  "contains needle s \<Longrightarrow> needle \<noteq> [] \<Longrightarrow> length (remove_all needle s) < length s"
proof (induction needle s rule: remove_all.induct)
  case (2 needle c cs)
  show ?case
  proof (cases "prefix needle (c # cs)")
    case True
    have "length (remove_all needle (drop (length needle) (c # cs))) \<le> length (drop (length needle) (c # cs))"
      by (rule length_remove_all)
    moreover obtain a as where "needle = a # as" using 2(4) by (cases needle) auto
    ultimately show ?thesis using True by simp
  next
    case False
    then show ?thesis using 2 by simp
  qed
qed simp

function strip_delims :: "str \<Rightarrow> str" where
  "strip_delims s =
     (if contains OPEN_DELIM s \<or> contains CLOSE_DELIM s
      then strip_delims (remove_all CLOSE_DELIM (remove_all OPEN_DELIM s)) else s)"
  by auto
termination
proof (relation "measure length")
  fix s
  assume c: "contains OPEN_DELIM s \<or> contains CLOSE_DELIM s"
  have ne: "OPEN_DELIM \<noteq> []" "CLOSE_DELIM \<noteq> []" by (simp_all add: OPEN_DELIM_def CLOSE_DELIM_def cps_def)
  have le: "length (remove_all CLOSE_DELIM (remove_all OPEN_DELIM s)) \<le> length (remove_all OPEN_DELIM s)"
    by (rule length_remove_all)
  have "length (remove_all CLOSE_DELIM (remove_all OPEN_DELIM s)) < length s"
  proof (cases "contains OPEN_DELIM s")
    case True
    then show ?thesis using le length_remove_all_less [OF True ne(1)] by simp
  next
    case False
    have "remove_all OPEN_DELIM s = s" if "\<not> contains OPEN_DELIM s" for s
      using that by (induction OPEN_DELIM s rule: remove_all.induct) auto
    then have "remove_all OPEN_DELIM s = s" using False by simp
    then show ?thesis using c False length_remove_all_less [OF _ ne(2), of s] by simp
  qed
  then show "(remove_all CLOSE_DELIM (remove_all OPEN_DELIM s), s) \<in> measure length" by simp
qed simp

declare strip_delims.simps [simp del]

definition render_title :: "str \<Rightarrow> str" where
  "render_title title =
     (let flat = join [32] (split_ws (strip_delims title))
      in OPEN_DELIM @
         (if RENDERED_TITLE_MAX_CHARS < length flat then take (RENDERED_TITLE_MAX_CHARS - 1) flat @ [8230] else flat) @
         CLOSE_DELIM)"

section \<open>A title cannot close its quoting\<close>

lemma strip_delims_done: "\<not> contains OPEN_DELIM (strip_delims s) \<and> \<not> contains CLOSE_DELIM (strip_delims s)"
proof (induction s rule: strip_delims.induct)
  case (1 s)
  then show ?case by (cases "contains OPEN_DELIM s \<or> contains CLOSE_DELIM s") (auto simp: strip_delims.simps [of s])
qed

lemma word_in_text: "w \<in> set (split_acc acc s) \<Longrightarrow> contains w (rev acc @ s)"
proof (induction acc s arbitrary: w rule: split_acc.induct)
  case (1 acc)
  then show ?case using contains_part [of "rev acc" "[]" "[]"] by (auto split: if_splits)
next
  case (2 acc c cs)
  have later: "contains w (rev acc @ c # cs)" if "contains w cs"
    using that contains_trans contains_part [of cs "rev acc @ [c]" "[]"] by fastforce
  have first: "contains (rev acc) (rev acc @ c # cs)" using contains_part [of "rev acc" "[]" "c # cs"] by simp
  show ?case using 2 later first by (cases "is_space c"; cases "acc = []") auto
qed

lemma contains_in_word:
  "contains p (join [32] ws) \<Longrightarrow> 32 \<notin> set p \<Longrightarrow> p \<noteq> [] \<Longrightarrow> \<exists>w\<in>set ws. contains p w"
proof (induction "[32 :: nat]" ws rule: join.induct)
  case (3 w v ws)
  then show ?case using contains_at_seam [of p w 32 "join [32] (v # ws)"] by auto
qed auto

lemma contains_join_split:
  assumes "contains p (join [32] (split_ws s))" and "32 \<notin> set p" and "p \<noteq> []"
  shows "contains p s"
proof -
  obtain w where "w \<in> set (split_ws s)" "contains p w" using contains_in_word [OF assms] by blast
  then show ?thesis using word_in_text [of w "[]" s] contains_trans by (auto simp: split_ws_def)
qed

lemma contains_cut:
  assumes "contains p (take n s @ [c])" and "c \<notin> set p" and "p \<noteq> []"
  shows "contains p s"
proof -
  have "contains p (take n s)" using contains_at_seam [of p "take n s" c "[]"] assms by auto
  moreover have "contains (take n s) s" using contains_part [of "take n s" "[]" "drop n s"] by simp
  ultimately show ?thesis by (rule contains_trans)
qed

text \<open>
  A rendered title is one capped fragment that cannot close its own quoting: between its two
  delimiters stand at most 120 characters, among them neither delimiter, however the title nests
  them, and no whitespace but single blanks.
\<close>

theorem title_cannot_close_its_quoting:
  "\<exists>inner. render_title title = OPEN_DELIM @ inner @ CLOSE_DELIM \<and> length inner \<le> RENDERED_TITLE_MAX_CHARS \<and>
     \<not> contains OPEN_DELIM inner \<and> \<not> contains CLOSE_DELIM inner \<and> (\<forall>c\<in>set inner. is_space c \<longrightarrow> c = 32)"
proof -
  let ?flat = "join [32] (split_ws (strip_delims title))"
  let ?inner = "if RENDERED_TITLE_MAX_CHARS < length ?flat then take (RENDERED_TITLE_MAX_CHARS - 1) ?flat @ [8230] else ?flat"
  have no: "\<not> contains p ?inner" if p: "p = OPEN_DELIM \<or> p = CLOSE_DELIM" for p
  proof -
    have np: "32 \<notin> set p" "8230 \<notin> set p" "p \<noteq> []" using p by (auto simp: OPEN_DELIM_def CLOSE_DELIM_def cps_def)
    have "\<not> contains p ?flat" using contains_join_split [OF _ np(1,3)] strip_delims_done p by blast
    then have "\<not> contains p (take (RENDERED_TITLE_MAX_CHARS - 1) ?flat @ [8230])" "\<not> contains p ?flat"
      using contains_cut [OF _ np(2,3)] by blast+
    then show ?thesis by presburger
  qed
  have sp: "c = 32" if "c \<in> set ?flat" "is_space c" for c
    using set_join [OF that(1)] split_ws_no_space that(2) by auto
  have "\<not> is_space 8230" by (simp add: is_space_def)
  then have sp: "c = 32" if "c \<in> set ?inner" "is_space c" for c
  proof (cases "RENDERED_TITLE_MAX_CHARS < length ?flat")
    case True
    then have "c \<in> set (take (RENDERED_TITLE_MAX_CHARS - 1) ?flat) \<or> c = 8230" using that(1) by auto
    then show ?thesis using that(2) sp \<open>\<not> is_space 8230\<close> in_set_takeD by metis
  next
    case False
    then show ?thesis using that sp by simp
  qed
  have "length ?inner \<le> RENDERED_TITLE_MAX_CHARS" by (auto simp: RENDERED_TITLE_MAX_CHARS_def)
  then show ?thesis using no sp by (intro exI [of _ ?inner]) (simp add: render_title_def Let_def)
qed

text \<open>
  A marker can be put together by the stripping: a caller that neutralises the title first and
  renders it afterwards gets the marker back.
\<close>

definition split_marker :: str where
  "split_marker = cps ''Homelab ===<<<== END REMEMBERED <<<FACTS''"

text \<open>\<open>_hold_note\<close> and \<open>_window_part\<close> neutralise first.\<close>

lemma split_marker_steps:
  "neutralise_markers split_marker = split_marker"
  "strip_delims split_marker = cps ''Homelab '' @ RECALL_END_PREFIX"
  subgoal
    by (simp add: split_marker_def neutralise_markers_def cps_def PHRASES_def letter_matches_def is_space_def
        hyphenate_phrases.simps [of "c # cs" for c cs] hyphenate_phrases.simps [of "[]"])
  subgoal by (simp add: split_marker_def RECALL_END_PREFIX_def OPEN_DELIM_def CLOSE_DELIM_def cps_def strip_delims.simps [of "72 # xs" for xs])
  done

lemma rendering_restores_a_marker: "contains RECALL_END_PREFIX (render_title (neutralise_markers split_marker))"
proof -
  let ?m = "cps ''Homelab '' @ RECALL_END_PREFIX"
  have "join [32] (split_ws ?m) = ?m" "\<not> RENDERED_TITLE_MAX_CHARS < length ?m"
    by (simp_all add: RECALL_END_PREFIX_def cps_def split_ws_def is_space_def RENDERED_TITLE_MAX_CHARS_def)
  then have "render_title (neutralise_markers split_marker) = (OPEN_DELIM @ cps ''Homelab '') @ RECALL_END_PREFIX @ CLOSE_DELIM"
    unfolding render_title_def split_marker_steps Let_def by simp
  then show ?thesis using contains_part by metis
qed

end
