(* ===== verification/Json.thy ===== *)
theory Json
  imports Prelude
begin

text \<open>
  JSON values as Python's \<open>json\<close> module gives them, with the tests the adapters make on them. An
  object is the list of its pairs; of a repeated key the last one counts, as in a \<open>dict\<close>.
\<close>

datatype json =
    J_Null
  | J_Bool bool
  | J_Int int
  | J_Float real
  | J_Nonfinite          \<comment> \<open>\<open>NaN\<close> or an infinity, which \<open>json.loads\<close> accepts\<close>
  | J_Str str
  | J_List "json list"
  | J_Obj "(str \<times> json) list"

type_synonym json_obj = "(str \<times> json) list"

text \<open>\<open>d.get(key)\<close>: \<open>J_Null\<close> where Python gives \<open>None\<close>, present or not.\<close>

definition jget :: "json_obj \<Rightarrow> str \<Rightarrow> json" where
  "jget d k = (case map_of (rev d) k of None \<Rightarrow> J_Null | Some v \<Rightarrow> v)"

definition jhas :: "json_obj \<Rightarrow> str \<Rightarrow> bool" where
  "jhas d k \<longleftrightarrow> k \<in> fst ` set d"

fun as_str :: "json \<Rightarrow> str option" where
  "as_str (J_Str s) = Some s" | "as_str _ = None"

fun as_obj :: "json \<Rightarrow> json_obj option" where
  "as_obj (J_Obj d) = Some d" | "as_obj _ = None"

fun as_list :: "json \<Rightarrow> json list option" where
  "as_list (J_List l) = Some l" | "as_list _ = None"

text \<open>Python's truth value.\<close>

fun truthy :: "json \<Rightarrow> bool" where
  "truthy J_Null = False"
| "truthy (J_Bool b) = b"
| "truthy (J_Int n) = (n \<noteq> 0)"
| "truthy (J_Float x) = (x \<noteq> 0)"
| "truthy J_Nonfinite = True"
| "truthy (J_Str s) = (s \<noteq> [])"
| "truthy (J_List l) = (l \<noteq> [])"
| "truthy (J_Obj d) = (d \<noteq> [])"

definition jor :: "json \<Rightarrow> json \<Rightarrow> json" where
  "jor a b = (if truthy a then a else b)"

section \<open>Floats\<close>

text \<open>
  \<open>float(n)\<close> of an integer raises \<open>OverflowError\<close> when it rounds past the largest float, and so
  does a float times such an integer. Within that range a product is the real one here: the
  callers cap it right away.
\<close>

definition FLOAT_INT_LIMIT :: int where "FLOAT_INT_LIMIT = 2 ^ 1024 - 2 ^ 970"

definition float_of_int :: "int \<Rightarrow> real option" where
  "float_of_int n = (if FLOAT_INT_LIMIT \<le> \<bar>n\<bar> then None else Some (of_int n))"

definition float_times_int :: "real \<Rightarrow> int \<Rightarrow> real option" where
  "float_times_int x n = map_option (\<lambda>y. x * y) (float_of_int n)"

text \<open>
  \<open>float(v)\<close>: \<open>Inl ()\<close> where it raises, \<open>Inr None\<close> for a value that is not finite. The parameter
  \<open>float_of\<close> is \<open>float\<close> on a string.
\<close>

fun json_float :: "(str \<Rightarrow> unit + real option) \<Rightarrow> json \<Rightarrow> unit + real option" where
  "json_float float_of (J_Int n) = (case float_of_int n of None \<Rightarrow> Inl () | x \<Rightarrow> Inr x)"
| "json_float float_of (J_Float x) = Inr (Some x)"
| "json_float float_of J_Nonfinite = Inr None"
| "json_float float_of (J_Bool b) = Inr (Some (if b then 1 else 0))"
| "json_float float_of (J_Str s) = float_of s"
| "json_float float_of _ = Inl ()"

text \<open>Whether a text encodes as UTF-8: it holds no lone surrogate.\<close>

definition encodable :: "str \<Rightarrow> bool" where
  "encodable s \<longleftrightarrow> list_all (\<lambda>c. \<not> (55296 \<le> c \<and> c \<le> 57343)) s"

lemma doubling_overflows: "float_times_int x (2 ^ n) = (if 1024 \<le> n then None else Some (x * 2 ^ n))"
proof -
  have "FLOAT_INT_LIMIT \<le> 2 ^ n" if "1024 \<le> n"
  proof -
    have "(2 :: int) ^ 1024 \<le> 2 ^ n" using that by (intro power_increasing) simp_all
    moreover have "FLOAT_INT_LIMIT \<le> 2 ^ 1024" by (simp add: FLOAT_INT_LIMIT_def)
    ultimately show ?thesis by (rule order_trans [rotated])
  qed
  moreover have "2 ^ n < FLOAT_INT_LIMIT" if "n < 1024"
  proof -
    have "(2 :: int) ^ n \<le> 2 ^ 1023" using that by (intro power_increasing) simp_all
    moreover have "(2 :: int) ^ 1023 < FLOAT_INT_LIMIT" by (simp add: FLOAT_INT_LIMIT_def)
    ultimately show ?thesis by (rule le_less_trans)
  qed
  ultimately show ?thesis by (auto simp: float_times_int_def float_of_int_def not_le)
qed

lemma jget_later: "k \<noteq> k' \<Longrightarrow> jget ((k', v) # d) k = jget d k"
  by (simp add: jget_def map_add_def split: option.split)

lemma jget_Cons [simp]: "k \<notin> fst ` set d \<Longrightarrow> jget ((k, v) # d) k = v"
  by (simp add: jget_def map_add_def map_of_eq_None_iff [THEN iffD2] split: option.split)

end
