(* ===== verification/Signal.thy ===== *)
theory Signal
  imports Titles Channel Json
begin

text \<open>
  \<open>henk/channel/signal.py\<close>: references to messages, the conversion of an envelope, the rendering of
  an approval prompt in both text modes, the send sequence with its retries, and the delays of
  the receive loop. The bridge is the argument \<open>answer\<close>: what the \<open>k\<close>-th request gives, \<open>None\<close> for
  a \<open>SignalBridgeError\<close>, else the response's sent timestamp. The send mutex is not a step of its
  own: a whole sequence is one operation here, which is what the lock gives. Not modelled: the
  HTTP and websocket client (\<open>SignalCliRestBridge\<close> but for \<open>_response_timestamp\<close>), the log lines,
  and the interpreter's limit of 4300 digits when it reads an integer.
\<close>

section \<open>References\<close>

definition mint_channel_ref :: "json \<Rightarrow> str option" where
  "mint_channel_ref v = (case v of J_Int n \<Rightarrow> if n \<le> 0 then None else Some (decimal (nat n)) | _ \<Rightarrow> None)"

definition digits_value :: "str \<Rightarrow> nat" where
  "digits_value s = foldl (\<lambda>a c. a * 10 + (c - 48)) 0 s"

definition parse_channel_ref :: "str option \<Rightarrow> nat option" where
  "parse_channel_ref ref =
     (case ref of
        None \<Rightarrow> None
      | Some s \<Rightarrow>
          (if s = [] \<or> \<not> list_all (\<lambda>c. 48 \<le> c \<and> c \<le> 57) s then None
           else (let v = digits_value s in if v = 0 \<or> decimal v \<noteq> s then None else Some v)))"

definition sent_timestamp :: "json \<Rightarrow> nat option" where
  "sent_timestamp raw =
     (case raw of
        J_Int n \<Rightarrow> if 0 < n then Some (nat n) else None
      | J_Str s \<Rightarrow> parse_channel_ref (Some s)
      | _ \<Rightarrow> None)"

definition mint_sent_ref :: "json \<Rightarrow> str option" where
  "mint_sent_ref raw = map_option decimal (sent_timestamp raw)"

text \<open>\<open>_response_timestamp\<close>: \<open>None\<close> for a body that is not JSON.\<close>

definition response_timestamp :: "json option \<Rightarrow> nat option" where
  "response_timestamp body =
     (let one = (case body of
          None \<Rightarrow> None
        | Some (J_List l) \<Rightarrow> (case l of [b] \<Rightarrow> Some b | _ \<Rightarrow> None)
        | Some b \<Rightarrow> Some b)
      in case Option.bind one as_obj of None \<Rightarrow> None | Some d \<Rightarrow> sent_timestamp (jget d (cps ''timestamp'')))"

section \<open>Envelopes\<close>

text \<open>
  The sender and the body of a message are strings in the bridge's schema. A sender of another
  type, which the code passes on and which equals no owner id, is the empty string here; a body
  of another type is no message.
\<close>

definition sender_of :: "json_obj \<Rightarrow> str" where
  "sender_of env =
     (case jor (jor (jget env (cps ''sourceUuid'')) (jget env (cps ''source''))) (J_Str []) of
        J_Str s \<Rightarrow> s | _ \<Rightarrow> [])"

definition is_group_of :: "json_obj \<Rightarrow> bool" where
  "is_group_of data \<longleftrightarrow> jget data (cps ''groupInfo'') \<noteq> J_Null"

definition convert_reaction :: "str \<Rightarrow> json_obj \<Rightarrow> json_obj \<Rightarrow> json_obj \<Rightarrow> inbound_reaction" where
  "convert_reaction account env data reaction =
     \<lparr>rx_sender = sender_of env,
      rx_emoji = (case jget reaction (cps ''emoji'') of J_Str s \<Rightarrow> s | _ \<Rightarrow> []),
      rx_target = (if jget reaction (cps ''targetAuthorNumber'') = J_Str account
                   then mint_sent_ref (jget reaction (cps ''targetSentTimestamp'')) else None),
      rx_removed = (jget reaction (cps ''isRemove'') = J_Bool True),
      rx_is_group = is_group_of data\<rparr>"

text \<open>
  \<open>_convert\<close>; \<open>Inl ()\<close> where it raises: an \<open>envelope\<close> that is no object, and a timestamp \<open>float\<close>
  refuses.
\<close>

definition convert_message :: "(str \<Rightarrow> unit + real option) \<Rightarrow> json_obj \<Rightarrow> json_obj \<Rightarrow> str \<Rightarrow> unit + inbound" where
  "convert_message float_of env data body =
     (let raw = jor (jor (jget data (cps ''timestamp'')) (jget env (cps ''timestamp''))) (J_Int 0)
      in case (if truthy raw then json_float float_of raw else Inr (Some 0)) of
           Inl _ \<Rightarrow> Inl ()
         | Inr ts \<Rightarrow> Inr (Message \<lparr>msg_sender = sender_of env, msg_text = body,
             msg_time = map_option (\<lambda>x. x / 1000) ts, msg_is_group = is_group_of data,
             msg_ref = mint_channel_ref raw\<rparr>))"

definition convert :: "(str \<Rightarrow> unit + real option) \<Rightarrow> str \<Rightarrow> json_obj \<Rightarrow> unit + inbound option" where
  "convert float_of account envelope =
     (let outer = (if jhas envelope (cps ''envelope'') then jget envelope (cps ''envelope'') else J_Obj envelope)
      in case as_obj outer of
           None \<Rightarrow> Inl ()
         | Some env \<Rightarrow>
             (case as_obj (jget env (cps ''dataMessage'')) of
                None \<Rightarrow> Inr None
              | Some data \<Rightarrow>
                  (case as_obj (jget data (cps ''reaction'')) of
                     Some reaction \<Rightarrow> Inr (Some (Reaction (convert_reaction account env data reaction)))
                   | None \<Rightarrow>
                       (case as_str (jget data (cps ''message'')) of
                          None \<Rightarrow> Inr None
                        | Some body \<Rightarrow>
                            if body = [] then Inr None
                            else (case convert_message float_of env data body of
                                Inl _ \<Rightarrow> Inl () | Inr m \<Rightarrow> Inr (Some m))))))"

section \<open>Prompts\<close>

definition STYLE_CHARACTERS :: str where "STYLE_CHARACTERS = [42, 96, 124, 126]"
definition STYLE_ESCAPE :: nat where "STYLE_ESCAPE = 92"
definition BACKSLASH_STAND_IN :: nat where "BACKSLASH_STAND_IN = 10741"
definition PROMPT_HEADER :: str where "PROMPT_HEADER = cps ''Approval needed''"
definition NO_ARGUMENTS_LINE :: str where "NO_ARGUMENTS_LINE = cps ''(no arguments)''"

definition PROMPT_FOOTER :: str where
  "PROMPT_FOOTER = cps ''React '' @ [128077] @ cps '' to approve or '' @ [128078] @
     cps ('' to deny, or reply yes / no. '' @ ''Any other message cancels it.'')"

text \<open>\<open>str.replace\<close> of one character.\<close>

definition replace_char :: "nat \<Rightarrow> str \<Rightarrow> str \<Rightarrow> str" where
  "replace_char c r s = concat (map (\<lambda>x. if x = c then r else [x]) s)"

definition escape_styled :: "str \<Rightarrow> str" where
  "escape_styled t =
     fold (\<lambda>c s. replace_char c [STYLE_ESCAPE, c] s) STYLE_CHARACTERS (replace_char 92 [BACKSLASH_STAND_IN] t)"

definition value_text :: "bool \<Rightarrow> str \<Rightarrow> str" where
  "value_text styled v =
     (let s = strip_delims v
      in if styled then [96] @ escape_styled s @ [96] else OPEN_DELIM @ s @ CLOSE_DELIM)"

definition content_text :: "bool \<Rightarrow> str \<Rightarrow> str" where
  "content_text styled c = (if styled then escape_styled c else c)"

definition bold :: "bool \<Rightarrow> str \<Rightarrow> str" where
  "bold styled s = (if styled then [42, 42] @ s @ [42, 42] else s)"

definition prompt_lines :: "approval_prompt \<Rightarrow> bool \<Rightarrow> str list" where
  "prompt_lines p styled =
     [bold styled PROMPT_HEADER,
      content_text styled (prompt_label p) @ [32, 40] @ content_text styled (prompt_tool p) @ [41]] @
     map (\<lambda>(k, v). content_text styled k @ [58, 32] @ value_text styled v) (prompt_fields p) @
     (if prompt_fields p = [] then [NO_ARGUMENTS_LINE] else []) @ [PROMPT_FOOTER]"

definition render_prompt :: "approval_prompt \<Rightarrow> bool \<Rightarrow> str" where
  "render_prompt p styled = join_lines (prompt_lines p styled)"

definition render_outcome :: "str \<Rightarrow> approval_prompt \<Rightarrow> bool \<Rightarrow> str" where
  "render_outcome verb p styled =
     bold styled (content_text styled verb) @ [58, 32] @
     join [44, 32] (content_text styled (prompt_label p) # map (\<lambda>(k, v). value_text styled v) (prompt_fields p))"

section \<open>Sending\<close>

record signal_cfg =
  safe_length :: nat
  backoff_base :: secs
  max_backoff :: secs
  max_attempts :: nat
  styled_prompts :: bool

text \<open>
  \<open>min(self._backoff_base * (2**n), self._max_backoff)\<close>; \<open>None\<close> when the product raises
  \<open>OverflowError\<close>.
\<close>

definition backoff_delay :: "secs \<Rightarrow> secs \<Rightarrow> nat \<Rightarrow> secs option" where
  "backoff_delay base mx n = map_option (\<lambda>d. min d mx) (float_times_int base (2 ^ n))"

datatype retry = Delivered "nat option" | Gave_Up | Raised_Overflow

text \<open>One request to the bridge's send operation; all go to the owner.\<close>

record request =
  rq_text :: str
  rq_styled :: bool
  rq_edit :: "nat option"

text \<open>The requests made, in order, with whether the bridge accepted each.\<close>

type_synonym wire = "(request \<times> bool) list"
type_synonym bridge = "nat \<Rightarrow> nat option option"

text \<open>The loop of \<open>_send_with_retry\<close>, after \<open>attempt\<close> failures.\<close>

function retry_loop :: "bridge \<Rightarrow> signal_cfg \<Rightarrow> nat \<Rightarrow> request \<Rightarrow> nat \<Rightarrow> nat \<Rightarrow> retry \<times> nat \<times> wire" where
  "retry_loop answer cfg budget rq attempt k =
     (case answer k of
        Some returned \<Rightarrow> (Delivered returned, Suc k, [(rq, True)])
      | None \<Rightarrow>
          if budget \<le> Suc attempt then (Gave_Up, Suc k, [(rq, False)])
          else (case backoff_delay (backoff_base cfg) (max_backoff cfg) attempt of
              None \<Rightarrow> (Raised_Overflow, Suc k, [(rq, False)])
            | Some d \<Rightarrow> (let (r, k', w) = retry_loop answer cfg budget rq (Suc attempt) (Suc k)
                in (r, k', (rq, False) # w))))"
  by auto
termination
  by (relation "measure (\<lambda>(answer, cfg, budget, rq, attempt, k). budget - attempt)") auto

declare retry_loop.simps [simp del]

definition send_with_retry :: "bridge \<Rightarrow> signal_cfg \<Rightarrow> str \<Rightarrow> nat option \<Rightarrow> bool \<Rightarrow> nat \<Rightarrow> retry \<times> nat \<times> wire" where
  "send_with_retry answer cfg tx attempts styled k =
     retry_loop answer cfg (case attempts of None \<Rightarrow> max_attempts cfg | Some n \<Rightarrow> n)
       \<lparr>rq_text = tx, rq_styled = styled, rq_edit = None\<rparr> 0 k"

definition send_chunk :: "bridge \<Rightarrow> signal_cfg \<Rightarrow> nat option \<Rightarrow> str \<Rightarrow> nat \<Rightarrow> retry \<times> nat \<times> wire" where
  "send_chunk answer cfg attempts tx k = send_with_retry answer cfg tx attempts False k"

record sent =
  st_outcome :: "send_outcome option"    \<comment> \<open>\<open>None\<close>: an exception left the sequence\<close>
  st_next :: nat
  st_wire :: wire
  st_notice :: wire

text \<open>The loop of \<open>_send_message\<close>; \<open>index\<close> counts the chunks already delivered.\<close>

fun chunk_loop :: "bridge \<Rightarrow> signal_cfg \<Rightarrow> str option \<Rightarrow> nat \<Rightarrow> str list \<Rightarrow> nat \<Rightarrow> sent" where
  "chunk_loop answer cfg notice index [] k = \<lparr>st_outcome = Some Sent, st_next = k, st_wire = [], st_notice = []\<rparr>"
| "chunk_loop answer cfg notice index (c # cs) k =
     (case send_chunk answer cfg None c k of
        (Delivered _, k1, w) \<Rightarrow>
          (let r = chunk_loop answer cfg notice (Suc index) cs k1 in r\<lparr>st_wire := w @ st_wire r\<rparr>)
      | (Raised_Overflow, k1, w) \<Rightarrow> \<lparr>st_outcome = None, st_next = k1, st_wire = w, st_notice = []\<rparr>
      | (Gave_Up, k1, w) \<Rightarrow>
          (let (k2, nw) = (case notice of None \<Rightarrow> (k1, []) | Some n \<Rightarrow> snd (send_chunk answer cfg (Some 1) n k1))
           in \<lparr>st_outcome = Some (if index = 0 then Failed else Partial), st_next = k2, st_wire = w, st_notice = nw\<rparr>))"

definition send_message :: "bridge \<Rightarrow> signal_cfg \<Rightarrow> str option \<Rightarrow> str \<Rightarrow> nat \<Rightarrow> sent" where
  "send_message answer cfg notice tx k =
     (case split_message tx (safe_length cfg) of
        None \<Rightarrow> \<lparr>st_outcome = None, st_next = k, st_wire = [], st_notice = []\<rparr>
      | Some chunks \<Rightarrow>
          if chunks = [] then \<lparr>st_outcome = Some Failed, st_next = k, st_wire = [], st_notice = []\<rparr>
          else chunk_loop answer cfg notice 0 chunks k)"

definition REPLY_FAILURE_NOTICE :: str where
  "REPLY_FAILURE_NOTICE = [91, 9888] @ cps '' part of this reply could not be delivered]''"

definition send :: "bridge \<Rightarrow> signal_cfg \<Rightarrow> str \<Rightarrow> nat \<Rightarrow> sent" where
  "send answer cfg tx k = send_message answer cfg (Some REPLY_FAILURE_NOTICE) tx k"

definition send_proactive :: "bridge \<Rightarrow> signal_cfg \<Rightarrow> str option \<Rightarrow> str \<Rightarrow> nat \<Rightarrow> sent" where
  "send_proactive answer cfg notice tx k = send_message answer cfg notice tx k"

text \<open>\<open>send_prompt\<close>: never split; \<open>Inl ()\<close> for an exception.\<close>

definition send_prompt :: "bridge \<Rightarrow> signal_cfg \<Rightarrow> approval_prompt \<Rightarrow> nat \<Rightarrow> (unit + prompt_sent) \<times> nat \<times> wire" where
  "send_prompt answer cfg p k =
     (let tx = render_prompt p (styled_prompts cfg)
      in if safe_length cfg < byte_length tx
         then (Inr \<lparr>sent_outcome = Failed, sent_ref = None, too_large = True\<rparr>, k, [])
         else (case send_with_retry answer cfg tx None (styled_prompts cfg) k of
             (Delivered returned, k', w) \<Rightarrow>
               (Inr \<lparr>sent_outcome = Sent,
                 sent_ref = (case returned of None \<Rightarrow> None | Some n \<Rightarrow> mint_sent_ref (J_Int (int n))), too_large = False\<rparr>, k', w)
           | (Gave_Up, k', w) \<Rightarrow> (Inr \<lparr>sent_outcome = Failed, sent_ref = None, too_large = False\<rparr>, k', w)
           | (Raised_Overflow, k', w) \<Rightarrow> (Inl (), k', w)))"

text \<open>\<open>edit_prompt\<close>: one attempt, and no request for a reference this module did not mint.\<close>

definition edit_prompt :: "bridge \<Rightarrow> signal_cfg \<Rightarrow> str option \<Rightarrow> str \<Rightarrow> approval_prompt \<Rightarrow> nat \<Rightarrow> bool \<times> nat \<times> wire" where
  "edit_prompt answer cfg ref verb p k =
     (case parse_channel_ref ref of
        None \<Rightarrow> (False, k, [])
      | Some ts \<Rightarrow> (answer k \<noteq> None, Suc k, 
          [(\<lparr>rq_text = render_outcome verb p (styled_prompts cfg), rq_styled = styled_prompts cfg,
             rq_edit = Some ts\<rparr>, answer k \<noteq> None)]))"

section \<open>Presence\<close>

text \<open>
  \<open>acknowledge\<close>, \<open>start_working\<close> and \<open>stop_working\<close>: one request each to the owner; the flag is
  whether the bridge accepts it. \<open>None\<close> in the second place: no request is made.
\<close>

datatype presence = Read_Receipt nat | Typing_Start | Typing_Stop

definition to_owner :: "bool \<Rightarrow> presence \<Rightarrow> bool \<times> presence option" where
  "to_owner accepted operation = (accepted, Some operation)"

definition acknowledge :: "bool \<Rightarrow> str option \<Rightarrow> bool \<times> presence option" where
  "acknowledge accepted ref =
     (case parse_channel_ref ref of None \<Rightarrow> (False, None) | Some ts \<Rightarrow> to_owner accepted (Read_Receipt ts))"

definition start_working :: "bool \<Rightarrow> bool \<times> presence option" where
  "start_working accepted = to_owner accepted Typing_Start"

definition stop_working :: "bool \<Rightarrow> bool \<times> presence option" where
  "stop_working accepted = to_owner accepted Typing_Stop"

section \<open>Receiving\<close>

text \<open>
  What one run of the bridge's receive stream ends with: an error or a clean end. \<open>messages\<close>
  yields the converted envelopes of each run and then waits; \<open>None\<close> is the overflow, which ends
  the generator.
\<close>

datatype receive_end = Stream_Failed | Stream_Ended

fun receive_delays :: "signal_cfg \<Rightarrow> nat \<Rightarrow> receive_end list \<Rightarrow> secs list option" where
  "receive_delays cfg attempt [] = Some []"
| "receive_delays cfg attempt (Stream_Failed # es) =
     (case backoff_delay (backoff_base cfg) (max_backoff cfg) attempt of
        None \<Rightarrow> None
      | Some d \<Rightarrow> map_option (\<lambda>ds. d # ds) (receive_delays cfg (Suc attempt) es))"
| "receive_delays cfg attempt (Stream_Ended # es) =
     map_option (\<lambda>ds. backoff_base cfg # ds) (receive_delays cfg 0 es)"

end
