(* ===== verification/Signal_Properties.thy ===== *)
theory Signal_Properties
  imports Signal
begin

text \<open>
  The properties of \<open>henk/channel/signal.py\<close>: references round trip, content cannot change a
  prompt's styling, a send reports what arrived, and the receive loop ends only by overflow.
\<close>

lemma backoff_delay_eq: "backoff_delay base mx n = (if 1024 \<le> n then None else Some (min (base * 2 ^ n) mx))"
  by (simp add: backoff_delay_def doubling_overflows)

section \<open>References\<close>

lemma digits_value_snoc: "digits_value (s @ [c]) = digits_value s * 10 + (c - 48)"
  by (simp add: digits_value_def)

lemma digits_value_decimal [simp]: "digits_value (decimal n) = n"
proof (induction n rule: decimal.induct)
  case (1 n)
  show ?case
  proof (cases "n < 10")
    case True
    then show ?thesis by (simp add: decimal.simps [of n] digits_value_def)
  next
    case False
    then show ?thesis using 1 by (simp add: decimal.simps [of n] digits_value_snoc)
  qed
qed

lemma decimal_nonempty [simp]: "decimal n \<noteq> []"
  by (simp add: decimal.simps [of n])

lemma parse_channel_ref_iff: "parse_channel_ref (Some s) = Some n \<longleftrightarrow> 0 < n \<and> s = decimal n"
proof -
  have "list_all (\<lambda>c. 48 \<le> c \<and> c \<le> 57) (decimal n)" using decimal_digits by (simp add: list_all_iff)
  moreover have "s \<noteq> []" if "s = decimal n" using that by simp
  ultimately show ?thesis by (auto simp: parse_channel_ref_def Let_def simp del: decimal_nonempty split: if_splits)
qed

text \<open>
  References to messages: the parser reads back exactly what the minting writes and nothing else,
  a prompt's reference minted from the response's decimal string equals the one minted from a
  reaction's integer exactly when they name the same timestamp, and the two minting functions
  agree on integers.
\<close>
theorem sent_reference_round_trip:
  "(parse_channel_ref (Some s) = Some n \<longleftrightarrow> mint_sent_ref (J_Int (int n)) = Some s) \<and>
   (mint_sent_ref (J_Int (int n)) = Some s \<longleftrightarrow> mint_channel_ref (J_Int (int n)) = Some s) \<and>
   (mint_sent_ref (J_Str s) = Some s \<longleftrightarrow> parse_channel_ref (Some s) \<noteq> None) \<and>
   (mint_sent_ref (J_Str s) = mint_sent_ref (J_Int (int n)) \<longleftrightarrow>
      parse_channel_ref (Some s) = (if n = 0 then None else Some n))"
proof -
  have inj: "decimal a = decimal b \<longleftrightarrow> a = b" for a b
    using digits_value_decimal [of a] digits_value_decimal [of b] by metis
  have parsed: "decimal m = s" if "parse_channel_ref (Some s) = Some m" for m
    using that parse_channel_ref_iff [of s m] by simp
  have "mint_sent_ref (J_Int (int n)) = (if n = 0 then None else Some (decimal n))"
    "mint_channel_ref (J_Int (int n)) = (if n = 0 then None else Some (decimal n))"
    "mint_sent_ref (J_Str s) = map_option decimal (parse_channel_ref (Some s))"
    by (simp_all add: mint_sent_ref_def mint_channel_ref_def sent_timestamp_def)
  then show ?thesis
    using parse_channel_ref_iff [of s n] parsed
    by (cases "parse_channel_ref (Some s)") (auto simp: inj)
qed

section \<open>Styling\<close>

text \<open>
  The rules the module records of the bridge's styled mode: a backslash right before a styling
  character is swallowed and makes it literal, every other styling character is live.
\<close>

fun live_markers :: "str \<Rightarrow> str" where
  "live_markers [] = []"
| "live_markers [c] = (if c \<in> set STYLE_CHARACTERS then [c] else [])"
| "live_markers (c # d # s) =
     (if c = STYLE_ESCAPE \<and> d \<in> set STYLE_CHARACTERS then live_markers s
      else (if c \<in> set STYLE_CHARACTERS then [c] else []) @ live_markers (d # s))"

lemma live_cons_plain:
  "c \<noteq> STYLE_ESCAPE \<Longrightarrow> live_markers (c # s) = (if c \<in> set STYLE_CHARACTERS then [c] else []) @ live_markers s"
  by (cases s) auto

definition escape_one :: "nat \<Rightarrow> str" where
  "escape_one c = (if c = 92 then [BACKSLASH_STAND_IN]
     else if c \<in> set STYLE_CHARACTERS then [STYLE_ESCAPE, c] else [c])"

lemma escape_styled_map: "escape_styled t = concat (map escape_one t)"
proof (induction t)
  case Nil
  then show ?case by (simp add: escape_styled_def replace_char_def STYLE_CHARACTERS_def)
next
  case (Cons a t)
  have append: "replace_char c r (x @ y) = replace_char c r x @ replace_char c r y" for c r x y
    by (simp add: replace_char_def)
  have "escape_styled (a # t) = escape_styled [a] @ escape_styled t"
    unfolding escape_styled_def STYLE_CHARACTERS_def
    by (subst (1) append [of _ _ "[a]" t, simplified]) (simp add: append)
  moreover have "escape_styled [a] = escape_one a"
    by (auto simp: escape_styled_def escape_one_def replace_char_def STYLE_CHARACTERS_def STYLE_ESCAPE_def
        BACKSLASH_STAND_IN_def)
  ultimately show ?case using Cons.IH by simp
qed

lemma live_escaped [simp]: "live_markers (escape_styled t @ r) = live_markers r"
proof (induction t)
  case Nil
  then show ?case by (simp add: escape_styled_map)
next
  case (Cons a t)
  have "live_markers (escape_one a @ q) = live_markers q" for q
  proof (cases "a \<in> set STYLE_CHARACTERS")
    case True
    then show ?thesis by (auto simp: escape_one_def STYLE_CHARACTERS_def STYLE_ESCAPE_def)
  next
    case False
    have "92 \<notin> set STYLE_CHARACTERS" by (simp add: STYLE_CHARACTERS_def)
    moreover have "BACKSLASH_STAND_IN \<notin> set STYLE_CHARACTERS" "BACKSLASH_STAND_IN \<noteq> STYLE_ESCAPE"
      by (simp_all add: STYLE_CHARACTERS_def BACKSLASH_STAND_IN_def STYLE_ESCAPE_def)
    ultimately show ?thesis using False by (auto simp: escape_one_def live_cons_plain STYLE_ESCAPE_def)
  qed
  then show ?case using Cons.IH by (simp add: escape_styled_map)
qed

declare live_markers.simps(2,3) [simp del]

definition plain_text :: "str \<Rightarrow> bool" where
  "plain_text s \<longleftrightarrow> list_all (\<lambda>c. c \<noteq> STYLE_ESCAPE \<and> c \<notin> set STYLE_CHARACTERS) s"

lemma live_plain: "plain_text s \<Longrightarrow> live_markers (s @ r) = live_markers r"
  by (induction s) (auto simp: plain_text_def live_cons_plain)

lemma live_marker [simp]:
  "live_markers (42 # r) = 42 # live_markers r" "live_markers (96 # r) = 96 # live_markers r"
  by (subst live_cons_plain; simp add: STYLE_CHARACTERS_def STYLE_ESCAPE_def)+

lemma live_value [simp]: "live_markers (value_text True v @ r) = [96, 96] @ live_markers r"
  by (simp add: value_text_def)

lemma live_content [simp]: "live_markers (content_text True c @ r) = live_markers r"
  by (simp add: content_text_def)

lemma live_bold_content [simp]: "live_markers (bold True (content_text True c) @ r) = [42, 42, 42, 42] @ live_markers r"
  by (simp add: bold_def)

lemma plain_constants [simp]:
  "plain_text PROMPT_HEADER" "plain_text NO_ARGUMENTS_LINE" "plain_text PROMPT_FOOTER"
  "plain_text [58, 32]" "plain_text [44, 32]" "plain_text [32, 40]" "plain_text [41]" "plain_text [10]" "plain_text []"
  by (simp_all add: PROMPT_HEADER_def NO_ARGUMENTS_LINE_def PROMPT_FOOTER_def plain_text_def cps_def
      STYLE_ESCAPE_def STYLE_CHARACTERS_def)

lemma live_punctuation [simp]:
  "live_markers (58 # 32 # r) = live_markers r" "live_markers (44 # 32 # r) = live_markers r"
  "live_markers (32 # 40 # r) = live_markers r" "live_markers (41 # r) = live_markers r"
  "live_markers (10 # r) = live_markers r"
  using live_plain [of "[58, 32]"] live_plain [of "[44, 32]"] live_plain [of "[32, 40]"] live_plain [of "[41]"]
    live_plain [of "[10]"] by simp_all

lemma live_header [simp]: "live_markers (bold True PROMPT_HEADER @ r) = [42, 42, 42, 42] @ live_markers r"
  using live_plain [of PROMPT_HEADER "[42, 42] @ r"] by (simp add: bold_def)

lemma live_footer: "live_markers PROMPT_FOOTER = []" "live_markers (NO_ARGUMENTS_LINE @ r) = live_markers r"
  using live_plain [of PROMPT_FOOTER "[]"] live_plain [of NO_ARGUMENTS_LINE r] by simp_all

lemma live_fields:
  "live_markers (join_lines (map (\<lambda>(k, v). content_text True k @ [58, 32] @ value_text True v) fs @ [PROMPT_FOOTER])) =
     replicate (2 * length fs) 96"
proof (induction fs)
  case Nil
  then show ?case by (simp add: join_lines_def live_footer)
next
  case (Cons f fs)
  obtain k v where "f = (k, v)" by (cases f)
  then show ?case using Cons by (cases fs) (simp_all add: join_lines_def live_footer numeral_2_eq_2)
qed

lemma live_values:
  "live_markers (join [44, 32] (content_text True l # map (\<lambda>(k, v). value_text True v) fs)) =
     replicate (2 * length fs) 96"
proof (induction fs arbitrary: l)
  case Nil
  then show ?case using live_content [of l "[]"] by simp
next
  case (Cons f fs)
  obtain k v where f: "f = (k, v)" by (cases f)
  have "live_markers (join [44, 32] (value_text True v # map (\<lambda>(k, v). value_text True v) fs)) =
      [96, 96] @ live_markers (join [44, 32] (content_text True [] # map (\<lambda>(k, v). value_text True v) fs))"
    using live_value [of v "[]"] live_content [of "[]" "[]"] by (cases fs) (simp_all add: content_text_def escape_styled_map)
  then show ?case using Cons.IH [of "[]"] by (simp add: f)
qed

text \<open>
  C12. Nothing in an approval prompt's content can change its styling: the markers of the styled text
  that are live for the parser are the two around the header and one pair of backticks per
  argument, whatever the label, tool name, keys and values say. In the unstyled form a value sits
  between delimiters it does not contain.
\<close>
theorem prompt_styling_is_fixed:
  "live_markers (render_prompt p True) = [42, 42, 42, 42] @ replicate (2 * length (prompt_fields p)) 96 \<and>
   live_markers (render_outcome verb p True) = [42, 42, 42, 42] @ replicate (2 * length (prompt_fields p)) 96 \<and>
   value_text True v = [96] @ escape_styled (strip_delims v) @ [96] \<and>
   live_markers (escape_styled (strip_delims v)) = [] \<and>
   value_text False v = OPEN_DELIM @ strip_delims v @ CLOSE_DELIM \<and>
   \<not> contains OPEN_DELIM (strip_delims v) \<and> \<not> contains CLOSE_DELIM (strip_delims v)"
proof (intro conjI)
  show "live_markers (render_prompt p True) = [42, 42, 42, 42] @ replicate (2 * length (prompt_fields p)) 96"
  proof (cases "prompt_fields p")
    case Nil
    then show ?thesis
      by (simp add: render_prompt_def prompt_lines_def join_lines_def live_footer)
  next
    case (Cons f fs)
    then show ?thesis using live_fields [of "f # fs"]
      by (simp add: render_prompt_def prompt_lines_def join_lines_def)
  qed
  show "live_markers (render_outcome verb p True) = [42, 42, 42, 42] @ replicate (2 * length (prompt_fields p)) 96"
    using live_values [of "prompt_label p" "prompt_fields p"] by (simp add: render_outcome_def)
  show "live_markers (escape_styled (strip_delims v)) = []"
    using live_escaped [of "strip_delims v" "[]"] by simp
qed (simp_all add: value_text_def Let_def strip_delims_done)


section \<open>The send sequence\<close>

definition accepted_texts :: "wire \<Rightarrow> str list" where
  "accepted_texts w = map (\<lambda>(rq, ok). rq_text rq) (filter snd w)"

lemma accepted_append [simp]: "accepted_texts (v @ w) = accepted_texts v @ accepted_texts w"
  by (simp add: accepted_texts_def)

lemma retry_shape:
  assumes "retry_loop answer cfg budget rq attempt k = (r, k', w)"
  shows "k' = k + length w \<and> (r = Raised_Overflow \<longrightarrow> 1025 < budget) \<and>
    length w \<le> max 1 (budget - attempt) \<and>
    accepted_texts w = (case r of Delivered _ \<Rightarrow> [rq_text rq] | _ \<Rightarrow> []) \<and> fst ` set w = {rq}"
  using assms
proof (induction answer cfg budget rq attempt k arbitrary: r k' w rule: retry_loop.induct)
  case (1 answer cfg budget rq attempt k)
  show ?case
  proof (cases "answer k")
    case (Some x)
    then show ?thesis using 1(2) by (auto simp: retry_loop.simps [of answer cfg budget rq attempt k] accepted_texts_def)
  next
    case None
    show ?thesis
    proof (cases "budget \<le> Suc attempt")
      case True
      then show ?thesis using 1(2) None
        by (auto simp: retry_loop.simps [of answer cfg budget rq attempt k] accepted_texts_def)
    next
      case False
      show ?thesis
      proof (cases "backoff_delay (backoff_base cfg) (max_backoff cfg) attempt")
        case n: None
        then have "1024 \<le> attempt" by (simp add: backoff_delay_eq split: if_splits)
        then show ?thesis using 1(2) None n False
          by (auto simp: retry_loop.simps [of answer cfg budget rq attempt k] accepted_texts_def)
      next
        case (Some d)
        obtain w' where rest: "retry_loop answer cfg budget rq (Suc attempt) (Suc k) = (r, k', w')"
          and w: "w = (rq, False) # w'"
          using 1(2) None False Some
          by (auto simp: retry_loop.simps [of answer cfg budget rq attempt k] split: prod.splits)
        have "length w' \<le> max 1 (budget - Suc attempt)" "fst ` set w' = {rq}" "k' = Suc k + length w'"
          "r = Raised_Overflow \<longrightarrow> 1025 < budget" "accepted_texts w' = (case r of Delivered _ \<Rightarrow> [rq_text rq] | _ \<Rightarrow> [])"
          using 1(1) [OF None False Some rest] by blast+
        then show ?thesis using False by (simp add: w accepted_texts_def)
      qed
    qed
  qed
qed

lemma chunk_shape:
  assumes "send_chunk answer cfg attempts c k = (r, k', w)"
  defines "budget \<equiv> (case attempts of None \<Rightarrow> max_attempts cfg | Some n \<Rightarrow> n)"
  shows "r = Raised_Overflow \<Longrightarrow> 1025 < budget" "length w \<le> max 1 budget"
    "accepted_texts w = (case r of Delivered _ \<Rightarrow> [c] | _ \<Rightarrow> [])"
    "fst ` set w = {\<lparr>rq_text = c, rq_styled = False, rq_edit = None\<rparr>}"
proof -
  note shape = retry_shape [OF assms(1) [unfolded send_chunk_def send_with_retry_def], folded budget_def]
  show "r = Raised_Overflow \<Longrightarrow> 1025 < budget" using shape by blast
  show "length w \<le> max 1 budget" using shape by simp
  show "accepted_texts w = (case r of Delivered _ \<Rightarrow> [c] | _ \<Rightarrow> [])"
    using shape by (simp split: retry.split)
  show "fst ` set w = {\<lparr>rq_text = c, rq_styled = False, rq_edit = None\<rparr>}" using shape by blast
qed

lemma chunk_loop_spec:
  assumes "max_attempts cfg \<le> 1025"
  shows "\<exists>n \<le> length cs. accepted_texts (st_wire (chunk_loop answer cfg notice index cs k)) = take n cs \<and>
    st_outcome (chunk_loop answer cfg notice index cs k) =
      Some (if n = length cs then Sent else if index + n = 0 then Failed else Partial) \<and>
    map (\<lambda>(rq, ok). rq_text rq) (st_notice (chunk_loop answer cfg notice index cs k)) =
      (if n = length cs then [] else case notice of None \<Rightarrow> [] | Some m \<Rightarrow> [m]) \<and>
    length (st_wire (chunk_loop answer cfg notice index cs k)) \<le> length cs * max 1 (max_attempts cfg)"
proof (induction cs arbitrary: index k)
  case Nil
  then show ?case by (simp add: accepted_texts_def)
next
  case (Cons c cs)
  obtain r k1 w where sent: "send_chunk answer cfg None c k = (r, k1, w)"
    by (cases "send_chunk answer cfg None c k") auto
  note shape = chunk_shape [OF sent, simplified]
  show ?case
  proof (cases r)
    case (Delivered x)
    from Cons.IH [of "Suc index" k1] obtain n where n: "n \<le> length cs"
      "accepted_texts (st_wire (chunk_loop answer cfg notice (Suc index) cs k1)) = take n cs"
      "st_outcome (chunk_loop answer cfg notice (Suc index) cs k1) =
        Some (if n = length cs then Sent else if Suc index + n = 0 then Failed else Partial)"
      "map (\<lambda>(rq, ok). rq_text rq) (st_notice (chunk_loop answer cfg notice (Suc index) cs k1)) =
        (if n = length cs then [] else case notice of None \<Rightarrow> [] | Some m \<Rightarrow> [m])"
      "length (st_wire (chunk_loop answer cfg notice (Suc index) cs k1)) \<le> length cs * max 1 (max_attempts cfg)"
      by blast
    show ?thesis using n shape(2,3) by (intro exI [of _ "Suc n"]) (simp add: sent Delivered Let_def)
  next
    case Gave_Up
    show ?thesis
    proof (cases notice)
      case None
      then show ?thesis using shape(2,3) by (intro exI [of _ 0]) (simp add: sent Gave_Up trans_le_add1)
    next
      case (Some m)
      obtain r2 k2 w2 where s2: "send_chunk answer cfg (Some 1) m k1 = (r2, k2, w2)"
        by (cases "send_chunk answer cfg (Some 1) m k1") auto
      have "length w2 \<le> 1" "fst ` set w2 = {\<lparr>rq_text = m, rq_styled = False, rq_edit = None\<rparr>}"
        using chunk_shape(2,4) [OF s2] by simp_all
      then have "map (\<lambda>(rq, ok). rq_text rq) w2 = [m]" by (cases w2; cases "tl w2") auto
      then show ?thesis using shape(2,3)
        by (intro exI [of _ 0]) (simp add: sent Gave_Up Some s2 [simplified] trans_le_add1)
    qed
  next
    case Raised_Overflow
    then show ?thesis using shape(1) assms by simp
  qed
qed


section \<open>The receive loop\<close>

lemma receive_delays_None:
  "attempt \<le> 1024 \<Longrightarrow> receive_delays cfg attempt es = None \<longleftrightarrow>
     prefix (replicate (1025 - attempt) Stream_Failed) es \<or> sublist (replicate 1025 Stream_Failed) es"
proof (induction cfg attempt es rule: receive_delays.induct)
  case (1 cfg attempt)
  then show ?case by (simp add: Suc_diff_le)
next
  case (2 cfg attempt es)
  have one: "sublist (replicate 1025 Stream_Failed) (Stream_Failed # es) \<longleftrightarrow>
      prefix (replicate 1024 Stream_Failed) es \<or> sublist (replicate 1025 Stream_Failed) es"
    using sublist_Cons_right [of "replicate 1025 Stream_Failed" Stream_Failed es]
      replicate_Suc [of 1024 Stream_Failed] by simp
  have two: "prefix (replicate (1025 - attempt) Stream_Failed) (Stream_Failed # es) \<longleftrightarrow>
      prefix (replicate (1024 - attempt) Stream_Failed) es"
    using 2(2) replicate_Suc [of "1024 - attempt" Stream_Failed] Suc_diff_le [of attempt 1024] by simp
  have three: "prefix (replicate (1024 - attempt) Stream_Failed) es" if "prefix (replicate 1024 Stream_Failed) es"
  proof -
    have "replicate 1024 Stream_Failed = replicate (1024 - attempt) Stream_Failed @ replicate attempt Stream_Failed"
      using 2(2) by (simp flip: replicate_add)
    then have "prefix (replicate (1024 - attempt) Stream_Failed) (replicate 1024 Stream_Failed)" by (metis prefixI)
    then show ?thesis using that by (rule prefix_order.trans)
  qed
  show ?case
  proof (cases "attempt = 1024")
    case True
    then show ?thesis using two by (simp add: backoff_delay_eq)
  next
    case False
    then have "backoff_delay (backoff_base cfg) (max_backoff cfg) attempt =
        Some (min (backoff_base cfg * 2 ^ attempt) (max_backoff cfg))" "Suc attempt \<le> 1024"
      using 2(2) by (simp_all add: backoff_delay_eq)
    then show ?thesis using 2(1) one two three by (auto simp: Suc_diff_Suc)
  qed
next
  case (3 cfg attempt es)
  then have "receive_delays cfg 0 es = None \<longleftrightarrow>
      prefix (replicate 1025 Stream_Failed) es \<or> sublist (replicate 1025 Stream_Failed) es" by simp
  moreover have "\<not> prefix (replicate (1025 - attempt) Stream_Failed) (Stream_Ended # es)"
    using 3(2) replicate_Suc [of "1024 - attempt" Stream_Failed] Suc_diff_le [of attempt 1024] by simp
  moreover have "sublist (replicate 1025 Stream_Failed) (Stream_Ended # es) \<longleftrightarrow> sublist (replicate 1025 Stream_Failed) es"
    using sublist_Cons_right [of "replicate 1025 Stream_Failed" Stream_Ended es]
      replicate_Suc [of 1024 Stream_Failed] by simp
  moreover have "sublist (replicate 1025 Stream_Failed) es" if "prefix (replicate 1025 Stream_Failed) es"
    using that by (rule prefix_imp_sublist)
  ultimately show ?case by auto
qed

lemma receive_delays_bounded:
  "receive_delays cfg attempt es = Some ds \<Longrightarrow> length ds = length es \<and> (\<forall>d \<in> set ds. d \<le> max (backoff_base cfg) (max_backoff cfg))"
  by (induction cfg attempt es arbitrary: ds rule: receive_delays.induct)
    (fastforce simp: backoff_delay_eq split: option.splits if_splits)+

text \<open>
  The receive loop waits at most the configured maximum after every end of the stream and goes
  on, unless the bridge fails 1025 times with no clean end between: then the doubling of the
  delay overflows and the exception leaves the generator.
\<close>
theorem receiving_ends_only_by_overflow:
  "(receive_delays cfg 0 es = None \<longleftrightarrow> sublist (replicate 1025 Stream_Failed) es) \<and>
   (case receive_delays cfg 0 es of None \<Rightarrow> True
    | Some ds \<Rightarrow> length ds = length es \<and> list_all (\<lambda>d. d \<le> max (backoff_base cfg) (max_backoff cfg)) ds)"
  using receive_delays_None [of 0 cfg es] receive_delays_bounded [of cfg 0 es]
    prefix_imp_sublist [of "replicate 1025 Stream_Failed" es]
  by (auto simp: list_all_iff split: option.split)

section \<open>Witnesses\<close>

definition sample_signal :: signal_cfg where
  "sample_signal = \<lparr>safe_length = 4, backoff_base = 1, max_backoff = 30, max_attempts = 2, styled_prompts = True\<rparr>"

definition sample_bridge :: bridge where
  "sample_bridge k = (if k = 1 then Some (Some 7) else None)"


end
