(* ===== verification/Intake.thy ===== *)
theory Intake
  imports Coordinator Json
begin

text \<open>
  \<open>henk/events/intake.py\<close> and \<open>henk/events/checkpoint.py\<close>: the subscription to the events topic,
  one connection after the other, with its resume point, its liveness deadline and its backoff;
  and the file that keeps the resume point over a restart. The transport is an argument: for
  each retrieval, what it gives and what the clocks read around it. Log lines are left out, and
  so is the \<open>raw\<close> frame an event carries along. A consumer that closes the generator is not
  modelled: the run simply has no further input.
\<close>

section \<open>Frames\<close>

text \<open>
  \<open>str(v)\<close> of a JSON value: a string is itself, the parameter \<open>str_of\<close> is the rest. A frame's
  missing key gives the default \<open>""\<close>, a key with \<open>null\<close> the string \<open>"None"\<close>.
\<close>

definition str_field :: "(json \<Rightarrow> str) \<Rightarrow> json_obj \<Rightarrow> str \<Rightarrow> str" where
  "str_field str_of raw key =
     (if jhas raw key then (case jget raw key of J_Str s \<Rightarrow> s | v \<Rightarrow> str_of v) else [])"

text \<open>\<open>_frame_time\<close>; \<open>Inl ()\<close> for an integer that is too large for a float, where \<open>float\<close> raises.\<close>

definition frame_time :: "json \<Rightarrow> unit + secs option" where
  "frame_time v =
     (case v of
        J_Int n \<Rightarrow> (case float_of_int n of None \<Rightarrow> Inl () | Some x \<Rightarrow> Inr (if x \<le> 0 then None else Some x))
      | J_Float x \<Rightarrow> Inr (if x \<le> 0 then None else Some x)
      | _ \<Rightarrow> Inr None)"

definition convert_frame :: "(json \<Rightarrow> str) \<Rightarrow> json_obj \<Rightarrow> secs \<Rightarrow> unit + event option" where
  "convert_frame str_of raw now =
     (if jget raw (cps ''event'') \<noteq> J_Str (cps ''message'') then Inr None
      else (case frame_time (jget raw (cps ''time'')) of
          Inl _ \<Rightarrow> Inl ()
        | Inr t \<Rightarrow> Inr (Some \<lparr>ev_id = str_field str_of raw (cps ''id''),
            ev_title = str_field str_of raw (cps ''title''),
            ev_message = str_field str_of raw (cps ''message''), arrival_time = now, published_at = t\<rparr>)))"

section \<open>State\<close>

definition RETENTION_REPLAY_SINCE :: str where "RETENTION_REPLAY_SINCE = cps ''all''"

record intake_cfg =
  ic_backoff_base :: secs
  ic_max_backoff :: secs
  liveness_deadline :: secs
  report_interval :: secs
  has_since_notice :: bool          \<comment> \<open>\<open>on_since_rejected\<close> was given\<close>

record intake_state =
  last_id :: "str option"
  proof_mono :: secs
  proof_at :: secs
  reconnect_at :: "secs option"
  penalty :: nat
  first_proof_seen :: bool
  last_report_mono :: secs
  frames_since_report :: nat
  recoveries :: nat

definition new_intake :: "str option \<Rightarrow> secs \<Rightarrow> secs \<Rightarrow> intake_state" where
  "new_intake offset mono_now wall_now =
     \<lparr>last_id = offset, proof_mono = mono_now, proof_at = wall_now, reconnect_at = None, penalty = 0,
      first_proof_seen = False, last_report_mono = mono_now, frames_since_report = 0, recoveries = 0\<rparr>"

text \<open>\<open>_note_proof_of_life\<close>.\<close>

definition note_proof_of_life :: "intake_cfg \<Rightarrow> secs \<Rightarrow> secs \<Rightarrow> intake_state \<Rightarrow> intake_state" where
  "note_proof_of_life cfg mono_now wall_now s =
     (let s1 = s\<lparr>proof_mono := mono_now, proof_at := wall_now, penalty := 0,
            frames_since_report := frames_since_report s + 1\<rparr>
      in if \<not> first_proof_seen s
         then s1\<lparr>first_proof_seen := True, last_report_mono := mono_now, frames_since_report := 0\<rparr>
         else if report_interval cfg \<le> mono_now - last_report_mono s
         then s1\<lparr>last_report_mono := mono_now, frames_since_report := 0\<rparr>
         else s1)"

definition liveness_state :: "intake_state \<Rightarrow> secs \<times> secs option \<times> nat" where
  "liveness_state s = (proof_at s, reconnect_at s, penalty s)"

section \<open>One connection\<close>

text \<open>
  What a retrieval from the stream gives, and the readings of the clocks: when the deadline is
  computed, when the frame is noted (both clocks), when it is converted, and when the consumer
  has taken the event.
\<close>

datatype pull = Frame json_obj | Stream_End | Timed_Out | Stream_Error "int option"

record reading =
  at_wait :: secs
  at_frame :: secs
  wall_frame :: secs
  wall_arrival :: secs
  at_resume :: secs

text \<open>What intake does, in order, as its surroundings see it.\<close>

datatype intake_action =
    Subscribed "str option"         \<comment> \<open>\<open>on_subscribe\<close>, then \<open>subscribe(since=...)\<close>\<close>
  | Waited secs                     \<comment> \<open>a retrieval under this deadline\<close>
  | Told_Keepalive
  | Yielded event
  | Told_Unsubscribe
  | Fell_Back                       \<comment> \<open>the resume point was rejected\<close>
  | Owner_Notice
  | Slept secs

datatype conn_end = Still_Open | Ended | Failed_With "int option" | Crashed

definition remaining :: "intake_cfg \<Rightarrow> reading \<Rightarrow> intake_state \<Rightarrow> secs" where
  "remaining cfg r s = liveness_deadline cfg - (at_wait r - proof_mono s)"

definition see_frame :: "intake_cfg \<Rightarrow> json_obj \<Rightarrow> reading \<Rightarrow> intake_state \<Rightarrow> intake_state \<times> intake_action list" where
  "see_frame cfg raw r s =
     (if jget raw (cps ''event'') \<noteq> J_Str (cps ''open'') then note_proof_of_life cfg (at_frame r) (wall_frame r) s else s,
      Waited (remaining cfg r s) #
        (if jget raw (cps ''event'') = J_Str (cps ''keepalive'') then [Told_Keepalive] else []))"

definition take_event :: "event \<Rightarrow> reading \<Rightarrow> intake_state \<Rightarrow> intake_state" where
  "take_event ev r s =
     s\<lparr>last_id := (if ev_id ev \<noteq> [] then Some (ev_id ev) else last_id s), proof_mono := at_resume r\<rparr>"

fun pull_loop :: "(json \<Rightarrow> str) \<Rightarrow> intake_cfg \<Rightarrow> (pull \<times> reading) list \<Rightarrow> intake_state \<Rightarrow>
    intake_state \<times> intake_action list \<times> conn_end" where
  "pull_loop str_of cfg [] s = (s, [], Still_Open)"
| "pull_loop str_of cfg ((Stream_End, r) # ps) s = (s, [Waited (remaining cfg r s)], Ended)"
| "pull_loop str_of cfg ((Timed_Out, r) # ps) s = (s, [Waited (remaining cfg r s)], Failed_With None)"
| "pull_loop str_of cfg ((Stream_Error st, r) # ps) s = (s, [Waited (remaining cfg r s)], Failed_With st)"
| "pull_loop str_of cfg ((Frame raw, r) # ps) s =
     (let (s1, acts) = see_frame cfg raw r s
      in case convert_frame str_of raw (wall_arrival r) of
           Inl _ \<Rightarrow> (s1, acts, Crashed)
         | Inr None \<Rightarrow> (let (s2, more, e) = pull_loop str_of cfg ps s1 in (s2, acts @ more, e))
         | Inr (Some ev) \<Rightarrow>
             (let (s2, more, e) = pull_loop str_of cfg ps (take_event ev r s1)
              in (s2, acts @ Yielded ev # more, e)))"

section \<open>Connection after connection\<close>

text \<open>\<open>_is_since_rejection\<close> and \<open>_backoff\<close>; \<open>None\<close> where the delay's product raises.\<close>

definition is_since_rejection :: "int option \<Rightarrow> intake_state \<Rightarrow> bool" where
  "is_since_rejection status s \<longleftrightarrow>
     status = Some 400 \<and> last_id s \<noteq> None \<and> last_id s \<noteq> Some RETENTION_REPLAY_SINCE"

definition backoff :: "intake_cfg \<Rightarrow> intake_state \<Rightarrow> (secs \<times> intake_state) option" where
  "backoff cfg s =
     map_option (\<lambda>d. (min d (ic_max_backoff cfg), s\<lparr>penalty := penalty s + 1\<rparr>))
       (float_times_int (ic_backoff_base cfg) (2 ^ penalty s))"

record connection =
  cn_wall :: secs
  cn_mono :: secs
  cn_pulls :: "(pull \<times> reading) list"

datatype life = Next | Open | Raised

definition pace :: "intake_cfg \<Rightarrow> intake_state \<Rightarrow> intake_state \<times> intake_action list \<times> life" where
  "pace cfg s = (case backoff cfg s of None \<Rightarrow> (s, [], Raised) | Some (d, s') \<Rightarrow> (s', [Slept d], Next))"

definition fail_connection :: "intake_cfg \<Rightarrow> int option \<Rightarrow> intake_state \<Rightarrow> intake_state \<times> intake_action list \<times> life" where
  "fail_connection cfg status s =
     (if is_since_rejection status s
      then let s1 = s\<lparr>recoveries := recoveries s + 1, last_id := Some RETENTION_REPLAY_SINCE\<rparr>
        in if recoveries s1 = 1
           then (s1, Fell_Back # (if has_since_notice cfg then [Owner_Notice] else []), Next)
           else (let (s2, acts, l) = pace cfg s1 in (s2, Fell_Back # acts, l))
      else pace cfg s)"

definition connect :: "(json \<Rightarrow> str) \<Rightarrow> intake_cfg \<Rightarrow> bool \<Rightarrow> connection \<Rightarrow> intake_state \<Rightarrow>
    intake_state \<times> intake_action list \<times> life" where
  "connect str_of cfg again cn s =
     (let s1 = s\<lparr>reconnect_at := (if again then Some (cn_wall cn) else reconnect_at s), proof_mono := cn_mono cn\<rparr>;
          (s2, acts, e) = pull_loop str_of cfg (cn_pulls cn) s1;
          acts = Subscribed (last_id s1) # acts
      in case e of
           Still_Open \<Rightarrow> (s2, acts, Open)
         | Crashed \<Rightarrow> (s2, acts @ [Told_Unsubscribe], Raised)
         | Ended \<Rightarrow> (let (s3, more, l) = pace cfg s2 in (s3, acts @ Told_Unsubscribe # more, l))
         | Failed_With st \<Rightarrow>
             (let (s3, more, l) = fail_connection cfg st s2 in (s3, acts @ Told_Unsubscribe # more, l)))"

fun run :: "(json \<Rightarrow> str) \<Rightarrow> intake_cfg \<Rightarrow> bool \<Rightarrow> connection list \<Rightarrow> intake_state \<Rightarrow>
    intake_state \<times> intake_action list \<times> life" where
  "run str_of cfg again [] s = (s, [], Next)"
| "run str_of cfg again (cn # cns) s =
     (let (s1, acts, l) = connect str_of cfg again cn s
      in if l = Next then (let (s2, more, l') = run str_of cfg True cns s1 in (s2, acts @ more, l'))
         else (s1, acts, l))"

definition events :: "(json \<Rightarrow> str) \<Rightarrow> intake_cfg \<Rightarrow> connection list \<Rightarrow> intake_state \<Rightarrow>
    intake_state \<times> intake_action list \<times> life" where
  "events str_of cfg cns s = run str_of cfg False cns s"

section \<open>The checkpoint file\<close>

text \<open>
  The content of the cursor file (\<open>None\<close>: absent or unreadable, \<open>Some None\<close>: bytes that are no
  UTF-8) and which step of a write the system refuses.
\<close>

datatype write_fault = No_Fault | Mkdir_Fault | Temp_Fault | Replace_Fault

datatype 'a io = Done 'a | Unicode_Error

text \<open>The text mode of a file turns every end of line into \<open>\n\<close>.\<close>

fun universal_newlines :: "str \<Rightarrow> str" where
  "universal_newlines [] = []"
| "universal_newlines [c] = (if c = 13 then [10] else [c])"
| "universal_newlines (c # d # cs) =
     (if c = 13 \<and> d = 10 then 10 # universal_newlines cs
      else (if c = 13 then 10 else c) # universal_newlines (d # cs))"

definition read_offset :: "str option option \<Rightarrow> str option io" where
  "read_offset file =
     (case file of
        None \<Rightarrow> Done None
      | Some None \<Rightarrow> Unicode_Error
      | Some (Some t) \<Rightarrow> (let v = strip (universal_newlines t) in Done (if v = [] then None else Some v)))"

definition write_offset :: "write_fault \<Rightarrow> str \<Rightarrow> str option option \<Rightarrow> bool io \<times> str option option" where
  "write_offset fault offset file =
     (if fault = Mkdir_Fault \<or> fault = Temp_Fault then (Done False, file)
      else if \<not> encodable offset then (Unicode_Error, file)
      else if fault = Replace_Fault then (Done False, file)
      else (Done True, Some (Some offset)))"

end
