(* ===== verification/Intake_Properties.thy ===== *)
theory Intake_Properties
  imports Intake
begin

text \<open>
  The properties of intake and its cursor: which resume point each subscription uses, how the
  reconnects are paced, what an \<open>open\<close> frame can do, when an outage ends intake, what the caught
  up coordinator has seen, and what the cursor file gives back.
\<close>

section \<open>The resume point\<close>

text \<open>The resume point the actions so far leave, and whether every subscription uses it.\<close>

definition resume_after :: "str option \<Rightarrow> intake_action \<Rightarrow> str option" where
  "resume_after l a =
     (case a of
        Yielded ev \<Rightarrow> if ev_id ev \<noteq> [] then Some (ev_id ev) else l
      | Fell_Back \<Rightarrow> Some RETENTION_REPLAY_SINCE
      | _ \<Rightarrow> l)"

fun resumes_ok :: "str option \<Rightarrow> intake_action list \<Rightarrow> bool" where
  "resumes_ok l [] = True"
| "resumes_ok l (Subscribed since # as) = (since = l \<and> resumes_ok l as)"
| "resumes_ok l (Fell_Back # as) =
     (l \<noteq> None \<and> l \<noteq> Some RETENTION_REPLAY_SINCE \<and> resumes_ok (Some RETENTION_REPLAY_SINCE) as)"
| "resumes_ok l (a # as) = resumes_ok (resume_after l a) as"

lemma resumes_append: "resumes_ok l (as @ bs) \<longleftrightarrow> resumes_ok l as \<and> resumes_ok (foldl resume_after l as) bs"
  by (induction l as rule: resumes_ok.induct) (auto simp: resume_after_def)

lemma note_proof_keeps [simp]:
  "last_id (note_proof_of_life cfg m w s) = last_id s" "recoveries (note_proof_of_life cfg m w s) = recoveries s"
  "penalty (note_proof_of_life cfg m w s) = 0"
  by (simp_all add: note_proof_of_life_def Let_def)

lemma see_frame_keeps:
  assumes "see_frame cfg raw r s = (s', acts)"
  shows "last_id s' = last_id s" "recoveries s' = recoveries s"
    "acts = Waited (remaining cfg r s) # (if jget raw (cps ''event'') = J_Str (cps ''keepalive'') then [Told_Keepalive] else [])"
  using assms by (auto simp: see_frame_def split: if_splits)

definition quiet :: "intake_action \<Rightarrow> bool" where
  "quiet a \<longleftrightarrow> (case a of Waited _ \<Rightarrow> True | Told_Keepalive \<Rightarrow> True | Yielded _ \<Rightarrow> True | _ \<Rightarrow> False)"

lemma quiet_simps [simp]:
  "quiet (Waited d)" "quiet Told_Keepalive" "quiet (Yielded ev)" "\<not> quiet (Subscribed x)" "\<not> quiet Told_Unsubscribe"
  "\<not> quiet Fell_Back" "\<not> quiet Owner_Notice" "\<not> quiet (Slept d)"
  by (simp_all add: quiet_def)

lemma resume_after_simps [simp]:
  "resume_after l (Yielded ev) = (if ev_id ev \<noteq> [] then Some (ev_id ev) else l)"
  "resume_after l Fell_Back = Some RETENTION_REPLAY_SINCE" "resume_after l (Waited d) = l" "resume_after l Told_Keepalive = l"
  "resume_after l (Subscribed x) = l" "resume_after l Told_Unsubscribe = l" "resume_after l Owner_Notice = l"
  "resume_after l (Slept d) = l"
  by (simp_all add: resume_after_def)

text \<open>What stays true along a connection's retrievals.\<close>

lemma pull_loop_spec:
  "pull_loop str_of cfg ps s = (s', acts, e) \<Longrightarrow>
     list_all quiet acts \<and> last_id s' = foldl resume_after (last_id s) acts \<and> recoveries s' = recoveries s"
proof (induction str_of cfg ps s arbitrary: s' acts e rule: pull_loop.induct)
  case (5 str_of cfg raw r ps s)
  obtain s1 acts1 where one: "see_frame cfg raw r s = (s1, acts1)" by fastforce
  note k = see_frame_keeps [OF one]
  have q: "list_all quiet acts1" "foldl resume_after l acts1 = l" for l
    by (auto simp: k(3))
  show ?case
  proof (cases "convert_frame str_of raw (wall_arrival r)")
    case (Inl a)
    then show ?thesis using 5(3) one k q by auto
  next
    case (Inr x)
    show ?thesis
    proof (cases x)
      case None
      obtain s2 more e2 where rest: "pull_loop str_of cfg ps s1 = (s2, more, e2)" by (metis prod_cases3)
      have eq: "s' = s2" "acts = acts1 @ more" using 5(3) one Inr None rest by auto
      have "list_all quiet more \<and> last_id s2 = foldl resume_after (last_id s1) more \<and> recoveries s2 = recoveries s1"
        using 5(1) [OF one [symmetric] refl Inr None rest] .
      then show ?thesis using eq k q by simp
    next
      case (Some ev)
      obtain s2 more e2 where rest: "pull_loop str_of cfg ps (take_event ev r s1) = (s2, more, e2)" by (metis prod_cases3)
      have eq: "s' = s2" "acts = acts1 @ Yielded ev # more" using 5(3) one Inr Some rest by auto
      have "list_all quiet more \<and> last_id s2 = foldl resume_after (last_id (take_event ev r s1)) more \<and>
          recoveries s2 = recoveries (take_event ev r s1)"
        using 5(2) [OF one [symmetric] refl Inr Some rest] .
      then show ?thesis using eq k q by (simp add: take_event_def)
    qed
  qed
qed auto

lemma pace_spec:
  "pace cfg s = (s', acts, l) \<Longrightarrow> last_id s' = last_id s \<and> recoveries s' = recoveries s \<and>
     (if l = Next then \<exists>d. acts = [Slept d] \<and> d \<le> ic_max_backoff cfg else acts = [] \<and> l = Raised)"
  by (auto simp: pace_def backoff_def split: option.splits prod.splits)

lemma fail_spec:
  assumes "fail_connection cfg st s = (s', acts, l)"
  shows "\<exists>sleeps. (sleeps = [] \<or> (\<exists>d. sleeps = [Slept d] \<and> d \<le> ic_max_backoff cfg)) \<and> (l = Raised \<longrightarrow> sleeps = []) \<and> l \<noteq> Open \<and>
    (if is_since_rejection st s
     then recoveries s' = recoveries s + 1 \<and> last_id s' = Some RETENTION_REPLAY_SINCE \<and>
       acts = Fell_Back # (if recoveries s = 0 \<and> has_since_notice cfg then [Owner_Notice] else []) @ sleeps \<and>
       (l = Next \<and> sleeps = [] \<longleftrightarrow> recoveries s = 0)
     else recoveries s' = recoveries s \<and> last_id s' = last_id s \<and> acts = sleeps \<and> (l = Next \<longleftrightarrow> sleeps \<noteq> []))"
proof (cases "is_since_rejection st s")
  case True
  let ?s1 = "s\<lparr>recoveries := recoveries s + 1, last_id := Some RETENTION_REPLAY_SINCE\<rparr>"
  obtain s2 a2 l2 where p: "pace cfg ?s1 = (s2, a2, l2)" by (metis prod_cases3)
  show ?thesis
  proof (cases "recoveries s = 0")
    case True
    then show ?thesis using assms \<open>is_since_rejection st s\<close> by (auto simp: fail_connection_def Let_def)
  next
    case False
    then have "s' = s2" "acts = Fell_Back # a2" "l = l2"
      using assms \<open>is_since_rejection st s\<close> p by (auto simp: fail_connection_def Let_def)
    then show ?thesis using pace_spec [OF p] False \<open>is_since_rejection st s\<close>
      by (intro exI [of _ a2]) (auto split: if_splits)
  qed
next
  case False
  then have p: "pace cfg s = (s', acts, l)" using assms by (simp add: fail_connection_def)
  show ?thesis using pace_spec [OF p] False by (intro exI [of _ acts]) (auto split: if_splits)
qed

lemma quiet_resumes: "list_all quiet as \<Longrightarrow> resumes_ok l as"
  by (induction l as rule: resumes_ok.induct) auto

text \<open>A connection: one subscription, quiet retrievals, and then its end, if it ends.\<close>

definition ends_as :: "intake_cfg \<Rightarrow> intake_state \<Rightarrow> intake_state \<Rightarrow> intake_action list \<Rightarrow> intake_action list \<Rightarrow> life \<Rightarrow> bool" where
  "ends_as cfg s s' mid post l \<longleftrightarrow>
     l = Open \<and> post = [] \<and> recoveries s' = recoveries s \<or>
     l = Raised \<and> post = [Told_Unsubscribe] \<and> recoveries s' = recoveries s \<or>
     (\<exists>d. d \<le> ic_max_backoff cfg \<and> l = Next \<and> post = [Told_Unsubscribe, Slept d] \<and> recoveries s' = recoveries s) \<or>
     foldl resume_after (last_id s) mid \<notin> {None, Some RETENTION_REPLAY_SINCE} \<and>
       recoveries s' = recoveries s + 1 \<and>
       (if recoveries s = 0
        then l = Next \<and> post = [Told_Unsubscribe, Fell_Back] @ (if has_since_notice cfg then [Owner_Notice] else [])
        else l = Raised \<and> post = [Told_Unsubscribe, Fell_Back] \<or>
          (\<exists>d. d \<le> ic_max_backoff cfg \<and> l = Next \<and> post = [Told_Unsubscribe, Fell_Back, Slept d]))"

lemma connect_shape:
  assumes "connect str_of cfg again cn s = (s', acts, l)"
  obtains mid post where "acts = Subscribed (last_id s) # mid @ post" "list_all quiet mid"
    "last_id s' = foldl resume_after (last_id s) acts" "recoveries s \<le> recoveries s'"
    "ends_as cfg s s' mid post l"
proof -
  let ?s1 = "s\<lparr>reconnect_at := (if again then Some (cn_wall cn) else reconnect_at s), proof_mono := cn_mono cn\<rparr>"
  obtain s2 mid e where loop: "pull_loop str_of cfg (cn_pulls cn) ?s1 = (s2, mid, e)" by (metis prod_cases3)
  have m: "list_all quiet mid" "last_id s2 = foldl resume_after (last_id s) mid" "recoveries s2 = recoveries s"
    using pull_loop_spec [OF loop] by auto
  show ?thesis
  proof (cases e)
    case Still_Open
    then show ?thesis using assms loop m by (intro that [of mid "[]"]) (auto simp: connect_def ends_as_def)
  next
    case Crashed
    then show ?thesis using assms loop m by (intro that [of mid "[Told_Unsubscribe]"]) (auto simp: connect_def ends_as_def)
  next
    case Ended
    obtain s3 more l3 where p: "pace cfg s2 = (s3, more, l3)" by (metis prod_cases3)
    have "s' = s3" "acts = Subscribed (last_id s) # mid @ Told_Unsubscribe # more" "l = l3"
      using assms loop Ended p by (auto simp: connect_def)
    then show ?thesis using pace_spec [OF p] m
      by (intro that [of mid "Told_Unsubscribe # more"]) (auto simp: ends_as_def split: if_splits)
  next
    case (Failed_With st)
    obtain s3 more l3 where p: "fail_connection cfg st s2 = (s3, more, l3)" by (metis prod_cases3)
    have eqs: "s' = s3" "acts = Subscribed (last_id s) # mid @ Told_Unsubscribe # more" "l = l3"
      using assms loop Failed_With p by (auto simp: connect_def)
    obtain sleeps where sl: "sleeps = [] \<or> (\<exists>d. sleeps = [Slept d] \<and> d \<le> ic_max_backoff cfg)"
      "l = Raised \<longrightarrow> sleeps = []" "l \<noteq> Open"
      "if is_since_rejection st s2
       then recoveries s' = recoveries s2 + 1 \<and> last_id s' = Some RETENTION_REPLAY_SINCE \<and>
         more = Fell_Back # (if recoveries s2 = 0 \<and> has_since_notice cfg then [Owner_Notice] else []) @ sleeps \<and>
         (l = Next \<and> sleeps = [] \<longleftrightarrow> recoveries s2 = 0)
       else recoveries s' = recoveries s2 \<and> last_id s' = last_id s2 \<and> more = sleeps \<and> (l = Next \<longleftrightarrow> sleeps \<noteq> [])"
      using fail_spec [OF p] eqs by blast
    show ?thesis
    proof (rule that [of mid "Told_Unsubscribe # more"])
      show "acts = Subscribed (last_id s) # mid @ Told_Unsubscribe # more" by (rule eqs)
      show "list_all quiet mid" by (rule m)
      show "last_id s' = foldl resume_after (last_id s) acts" using sl m eqs by (auto split: if_splits)
      show "recoveries s \<le> recoveries s'" using sl m by (auto split: if_splits)
    next
      show "ends_as cfg s s' mid (Told_Unsubscribe # more) l" unfolding ends_as_def
        using sl m by (cases l; cases "is_since_rejection st s2"; cases "recoveries s = 0")
          (auto simp: is_since_rejection_def)
    qed
  qed
qed

definition count_of :: "(intake_action \<Rightarrow> bool) \<Rightarrow> intake_action list \<Rightarrow> nat" where
  "count_of P as = length (filter P as)"

lemma count_of_simps [simp]:
  "count_of P [] = 0" "count_of P (a # as) = (if P a then 1 else 0) + count_of P as"
  "count_of P (as @ bs) = count_of P as + count_of P bs"
  by (simp_all add: count_of_def)

fun is_subscribe :: "intake_action \<Rightarrow> bool" where
  "is_subscribe (Subscribed _) = True" | "is_subscribe _ = False"

fun is_sleep :: "intake_action \<Rightarrow> bool" where
  "is_sleep (Slept _) = True" | "is_sleep _ = False"

lemma quiet_counts:
  "list_all quiet as \<Longrightarrow> count_of is_subscribe as = 0 \<and> count_of is_sleep as = 0 \<and> count_of (\<lambda>a. a = Owner_Notice) as = 0"
  by (induction as) (auto simp: quiet_def split: intake_action.splits)

lemma run_spec:
  assumes "run str_of cfg again cns s = (s', acts, l)"
  shows "resumes_ok (last_id s) acts \<and> last_id s' = foldl resume_after (last_id s) acts \<and>
    recoveries s \<le> recoveries s' \<and>
    count_of (\<lambda>a. a = Owner_Notice) acts \<le> (if recoveries s = 0 \<and> 0 < recoveries s' then 1 else 0) \<and>
    count_of is_subscribe acts \<le> count_of is_sleep acts + (if recoveries s = 0 \<and> 0 < recoveries s' then 1 else 0) +
      (if l = Next then 0 else 1)"
  using assms
proof (induction cns arbitrary: again s s' acts l)
  case Nil
  then show ?case by auto
next
  case (Cons cn cns)
  obtain s1 a1 l1 where c: "connect str_of cfg again cn s = (s1, a1, l1)" by (metis prod_cases3)
  obtain mid post where sh: "a1 = Subscribed (last_id s) # mid @ post" "list_all quiet mid"
    "last_id s1 = foldl resume_after (last_id s) a1" "recoveries s \<le> recoveries s1"
    "ends_as cfg s s1 mid post l1"
    using connect_shape [OF c] .
  note q = quiet_counts [OF sh(2)]
  have one: "resumes_ok (last_id s) a1"
    "count_of (\<lambda>a. a = Owner_Notice) a1 \<le> (if recoveries s = 0 \<and> 0 < recoveries s1 then 1 else 0)"
    "count_of is_subscribe a1 \<le> count_of is_sleep a1 + (if recoveries s = 0 \<and> 0 < recoveries s1 then 1 else 0) +
      (if l1 = Next then 0 else 1)"
    using sh(5) [unfolded ends_as_def] quiet_resumes [OF sh(2)] q by (auto simp: sh(1) resumes_append split: if_splits)
  show ?case
  proof (cases "l1 = Next")
    case True
    obtain s2 a2 l2 where r: "run str_of cfg True cns s1 = (s2, a2, l2)" by (metis prod_cases3)
    have eqs: "s' = s2" "acts = a1 @ a2" "l = l2" using Cons.prems c True r by auto
    have ih: "resumes_ok (last_id s1) a2" "last_id s2 = foldl resume_after (last_id s1) a2" "recoveries s1 \<le> recoveries s2"
      "count_of (\<lambda>a. a = Owner_Notice) a2 \<le> (if recoveries s1 = 0 \<and> 0 < recoveries s2 then 1 else 0)"
      "count_of is_subscribe a2 \<le> count_of is_sleep a2 + (if recoveries s1 = 0 \<and> 0 < recoveries s2 then 1 else 0) +
        (if l2 = Next then 0 else 1)"
      using Cons.IH [OF r] by blast+
    show ?thesis using one ih sh(3,4) True
      by (auto simp: eqs resumes_append split: if_splits)
  next
    case False
    then have "s' = s1" "acts = a1" "l = l1" using Cons.prems c by auto
    then show ?thesis using one sh(3,4) by blast
  qed
qed

text \<open>
  C27. The cursor follows only delivered events with an id and the fallback after a rejected resume
  point, which happens only where there was one to reject: every subscription asks for exactly
  that point. The owner is told of a rejection at most once, and there are never more than two
  subscriptions more than there were pauses, whatever the transport does.
\<close>

theorem subscriptions_resume_at_the_cursor:
  "case events str_of cfg cns (new_intake offset m w) of (s, acts, l) \<Rightarrow>
     resumes_ok offset acts \<and> last_id s = foldl resume_after offset acts \<and>
     count_of (\<lambda>a. a = Owner_Notice) acts \<le> 1 \<and>
     count_of is_subscribe acts \<le> count_of is_sleep acts + 2"
proof -
  obtain s acts l where r: "run str_of cfg False cns (new_intake offset m w) = (s, acts, l)" by (metis prod_cases3)
  have "last_id (new_intake offset m w) = offset" by (simp add: new_intake_def)
  then show ?thesis using run_spec [OF r] by (simp add: events_def r split: if_splits)
qed

section \<open>The liveness deadline\<close>

definition open_pull :: "pull \<times> reading \<Rightarrow> bool" where
  "open_pull p \<longleftrightarrow> (case fst p of Frame raw \<Rightarrow> jget raw (cps ''event'') = J_Str (cps ''open'') | _ \<Rightarrow> False)"

text \<open>
  An \<open>open\<close> frame is no proof of life: any number of them in a row changes nothing in intake's
  state, and each retrieval's deadline still counts from the last proof before them, so a stream
  of nothing else runs into it. Nor does it reset the backoff.
\<close>

theorem open_frames_do_not_extend_the_deadline:
  assumes "list_all open_pull ops"
  shows "pull_loop str_of cfg (ops @ ps) s =
    (let (s', acts, e) = pull_loop str_of cfg ps s
     in (s', map (\<lambda>(p, r). Waited (liveness_deadline cfg - (at_wait r - proof_mono s))) ops @ acts, e))"
  using assms
proof (induction ops)
  case Nil
  then show ?case by (auto split: prod.splits)
next
  case (Cons op ops)
  obtain raw r where op: "op = (Frame raw, r)" "jget raw (cps ''event'') = J_Str (cps ''open'')"
    using Cons.prems by (cases op) (auto simp: open_pull_def split: pull.splits)
  have ne: "cps ''open'' \<noteq> cps ''keepalive''" "cps ''open'' \<noteq> cps ''message''" by (simp_all add: cps_def)
  have "see_frame cfg raw r s = (s, [Waited (remaining cfg r s)])" "convert_frame str_of raw (wall_arrival r) = Inr None"
    using op(2) ne by (simp_all add: see_frame_def convert_frame_def)
  then show ?case using Cons by (simp add: op(1) remaining_def split: prod.splits)
qed

section \<open>A long outage\<close>

text \<open>
  A transport that fails every subscription: the pauses double up to the configured maximum, and
  the exception of the 1025th delay, \<open>2 ** 1024\<close> being no float, leaves the generator.
\<close>

definition dead_connection :: "reading \<Rightarrow> connection" where
  "dead_connection r = \<lparr>cn_wall = wall_frame r, cn_mono = at_wait r, cn_pulls = [(Stream_Error None, r)]\<rparr>"

definition pause :: "intake_cfg \<Rightarrow> nat \<Rightarrow> secs" where
  "pause cfg n = min (ic_backoff_base cfg * 2 ^ n) (ic_max_backoff cfg)"

lemma pace_eq:
  "pace cfg s = (if 1024 \<le> penalty s then (s, [], Raised) else (s\<lparr>penalty := penalty s + 1\<rparr>, [Slept (pause cfg (penalty s))], Next))"
  by (simp add: pace_def backoff_def doubling_overflows pause_def)

lemma dead_connect:
  assumes "connect str_of cfg again (dead_connection r) s = (s', acts, l)"
  shows "penalty s' = (if 1024 \<le> penalty s then penalty s else penalty s + 1)"
    "l = (if 1024 \<le> penalty s then Raised else Next)"
    "filter is_sleep acts = (if 1024 \<le> penalty s then [] else [Slept (pause cfg (penalty s))])"
  using assms by (auto simp: connect_def dead_connection_def fail_connection_def is_since_rejection_def pace_eq Let_def
      split: if_splits)

lemma dead_run:
  "penalty s \<le> 1024 \<Longrightarrow> run str_of cfg again (map dead_connection rs) s = (s', acts, l) \<Longrightarrow>
     filter is_sleep acts = map (\<lambda>n. Slept (pause cfg n)) [penalty s ..< min 1024 (penalty s + length rs)] \<and>
     l = (if penalty s + length rs \<le> 1024 then Next else Raised)"
proof (induction rs arbitrary: again s s' acts l)
  case Nil
  then show ?case by (simp add: min_absorb2)
next
  case (Cons r rs)
  obtain s1 a1 l1 where c: "connect str_of cfg again (dead_connection r) s = (s1, a1, l1)" by (metis prod_cases3)
  note d = dead_connect [OF c]
  show ?case
  proof (cases "penalty s = 1024")
    case True
    then show ?thesis using Cons.prems d by (simp add: c)
  next
    case False
    then have small: "\<not> 1024 \<le> penalty s" "penalty s1 \<le> 1024" using Cons.prems(1) d by simp_all
    obtain s2 a2 l2 where r2: "run str_of cfg True (map dead_connection rs) s1 = (s2, a2, l2)" by (metis prod_cases3)
    have eqs: "acts = a1 @ a2" "l = l2" using Cons.prems(2) d(2) small(1) by (auto simp: c r2)
    have "[penalty s ..< min 1024 (penalty s + length (r # rs))] =
        penalty s # [penalty s1 ..< min 1024 (penalty s1 + length rs)]"
    proof -
      have "min 1024 (penalty s + length (r # rs)) = min 1024 (penalty s1 + length rs)"
        "penalty s1 = Suc (penalty s)" "penalty s < min 1024 (penalty s1 + length rs)"
        using small d(1) by simp_all
      then show ?thesis by (metis upt_conv_Cons)
    qed
    then show ?thesis using Cons.IH [OF small(2) r2] d small(1) by (auto simp: eqs)
  qed
qed

text \<open>
  C30. An outage ends intake after 1025 dead connections in a row: the pauses between them double from
  the base up to the configured maximum, and the next power of two no longer fits a float, so
  \<open>_backoff\<close> raises instead of waiting and the generator ends. A shorter outage never ends it.
\<close>

theorem outage_ends_intake:
  "case events str_of cfg (map dead_connection rs) (new_intake offset m w) of (s, acts, l) \<Rightarrow>
     filter is_sleep acts = map (\<lambda>n. Slept (pause cfg n)) [0 ..< min 1024 (length rs)] \<and>
     (l = Raised \<longleftrightarrow> 1025 \<le> length rs)"
proof -
  obtain s acts l where r: "run str_of cfg False (map dead_connection rs) (new_intake offset m w) = (s, acts, l)"
    by (metis prod_cases3)
  have "penalty (new_intake offset m w) = 0" by (simp add: new_intake_def)
  then show ?thesis using dead_run [OF _ r] by (auto simp: events_def r split: if_splits)
qed

section \<open>The pump and the coordinator\<close>

text \<open>What the callbacks and the queue carry from intake to the coordinator.\<close>

datatype pump = P_Subscribe | P_Keepalive | P_Unsubscribe | P_Event event

fun told :: "intake_action \<Rightarrow> pump option" where
  "told (Subscribed _) = Some P_Subscribe"
| "told Told_Keepalive = Some P_Keepalive"
| "told Told_Unsubscribe = Some P_Unsubscribe"
| "told (Yielded ev) = Some (P_Event ev)"
| "told _ = None"

fun heard :: "intake_step \<Rightarrow> pump option" where
  "heard (Subscribe _) = Some P_Subscribe"
| "heard Keepalive = Some P_Keepalive"
| "heard Unsubscribe = Some P_Unsubscribe"
| "heard (Received ev) = Some (P_Event ev)"
| "heard _ = None"

definition pumped :: "('a \<Rightarrow> pump option) \<Rightarrow> 'a list \<Rightarrow> pump list" where
  "pumped f xs = List.map_filter f xs"

lemma pumped_simps [simp]:
  "pumped f [] = []" "pumped f (x # xs) = (case f x of None \<Rightarrow> pumped f xs | Some y \<Rightarrow> y # pumped f xs)"
  "pumped f (xs @ ys) = pumped f xs @ pumped f ys"
  by (simp_all add: pumped_def List.map_filter_def split: option.split)

fun fresh_keepalive :: "bool \<Rightarrow> pump \<Rightarrow> bool" where
  "fresh_keepalive b P_Subscribe = False"
| "fresh_keepalive b P_Keepalive = True"
| "fresh_keepalive b P_Unsubscribe = False"
| "fresh_keepalive b (P_Event _) = b"

fun pump_event :: "pump \<Rightarrow> event list" where
  "pump_event (P_Event ev) = [ev]" | "pump_event _ = []"

fun yielded :: "intake_action \<Rightarrow> event list" where
  "yielded (Yielded ev) = [ev]" | "yielded _ = []"

lemma feed_into_keepalive [simp]:
  "keepalive_since_subscribe (feed_into ev c w) = keepalive_since_subscribe c"
  by (simp add: feed_into_def split: option.split prod.split)

lemma heard_state:
  "keepalive_since_subscribe (tr_state (foldl (trace_step w) t steps)) =
     foldl fresh_keepalive (keepalive_since_subscribe (tr_state t)) (pumped heard steps) \<and>
   tr_received (foldl (trace_step w) t steps) = tr_received t @ concat (map pump_event (pumped heard steps))"
proof (induction steps arbitrary: t)
  case (Cons s steps)
  have "keepalive_since_subscribe (tr_state (trace_step w t s)) =
      (case heard s of None \<Rightarrow> keepalive_since_subscribe (tr_state t) | Some p \<Rightarrow> fresh_keepalive (keepalive_since_subscribe (tr_state t)) p)"
    "tr_received (trace_step w t s) = tr_received t @ (case heard s of None \<Rightarrow> [] | Some p \<Rightarrow> pump_event p)"
    by (cases s; simp add: trace_step_def split: list.split)+
  then show ?case using Cons.IH [of "trace_step w t s"] by (cases "heard s") simp_all
qed simp

lemma told_events: "concat (map pump_event (pumped told acts)) = concat (map yielded acts)"
proof (induction acts)
  case (Cons a acts)
  then show ?case by (cases a) simp_all
qed simp

lemma run_last_connection:
  assumes "run str_of cfg again cns s = (s', acts, l)" and "cns \<noteq> []"
  shows "\<exists>pre since mid post. acts = pre @ Subscribed since # mid @ post \<and> list_all quiet mid \<and>
    (post = [] \<and> l = Open \<or> foldl fresh_keepalive b (pumped told acts) = False)"
  using assms
proof (induction cns arbitrary: again s s' acts l b)
  case (Cons cn cns)
  obtain s1 a1 l1 where c: "connect str_of cfg again cn s = (s1, a1, l1)" by (metis prod_cases3)
  obtain mid post where sh: "a1 = Subscribed (last_id s) # mid @ post" "list_all quiet mid"
    "ends_as cfg s s1 mid post l1" using connect_shape [OF c] by metis
  show ?case
  proof (cases "l1 = Next \<and> cns \<noteq> []")
    case True
    obtain s2 a2 l2 where r: "run str_of cfg True cns s1 = (s2, a2, l2)" by (metis prod_cases3)
    have eqs: "acts = a1 @ a2" "l = l2" using Cons.prems c True r by auto
    obtain pre since mid' post' where ih: "a2 = pre @ Subscribed since # mid' @ post'" "list_all quiet mid'"
      "post' = [] \<and> l2 = Open \<or> foldl fresh_keepalive (foldl fresh_keepalive b (pumped told a1)) (pumped told a2) = False"
      using Cons.IH [OF r] True by blast
    then show ?thesis by (intro exI [of _ "a1 @ pre"] exI [of _ since] exI [of _ mid'] exI [of _ post']) (auto simp: eqs)
  next
    case False
    then have eqs: "acts = a1" "l = l1" using Cons.prems c by (auto split: if_splits)
    have "post = [] \<and> l = Open \<or> foldl fresh_keepalive b (pumped told acts) = False"
      using sh(3) [unfolded ends_as_def] by (auto simp: eqs sh(1) split: if_splits)
    then show ?thesis using sh by (intro exI [of _ "[]"]) (auto simp: eqs)
  qed
qed simp

lemma no_keepalive_quiet:
  "list_all quiet mid \<Longrightarrow> Told_Keepalive \<notin> set mid \<Longrightarrow> foldl fresh_keepalive False (pumped told mid) = False"
proof (induction mid)
  case (Cons a mid)
  then show ?case by (cases a) auto
qed simp

text \<open>
  C15. Caught up means caught up with the topic: let intake run and let every callback and every
  event it gives reach the coordinator, in their order, with the coordinator's own steps anywhere
  between. When the coordinator then reports that it is caught up, intake's last subscription is
  still open, a keepalive came on it after the whole \<open>since\<close> backlog, and every event intake ever
  yielded is in a dispatched batch.
\<close>

theorem caught_up_covers_the_backlog:
  assumes "0 \<le> window" and "events str_of cfg cns (new_intake offset m w) = (s, acts, l)"
    and "pumped heard steps = pumped told acts"
    and "caught_up (tr_state (foldl (trace_step window) new_trace steps))"
  shows "concat (tr_dispatched (foldl (trace_step window) new_trace steps)) = concat (map yielded acts) \<and> l = Open \<and>
    (\<exists>pre since mid. acts = pre @ Subscribed since # mid \<and> list_all quiet mid \<and> Told_Keepalive \<in> set mid)"
proof -
  let ?t = "foldl (trace_step window) new_trace steps"
  have all: "concat (tr_dispatched ?t) = tr_received ?t" and fresh: "keepalive_since_subscribe (tr_state ?t)"
    using trace_accounts [OF assms(1) refl, of steps] assms(4) by blast+
  have new: "tr_received new_trace = []" "keepalive_since_subscribe (tr_state new_trace) = False"
    by (simp_all add: new_trace_def new_catch_up_def)
  have events: "tr_received ?t = concat (map yielded acts)"
    using heard_state [of window new_trace steps] told_events [of acts] by (simp add: new assms(3))
  have keep: "foldl fresh_keepalive False (pumped told acts)"
    using heard_state [of window new_trace steps] fresh by (simp add: new assms(3))
  have ne: "cns \<noteq> []" using assms(2) keep by (auto simp: events_def)
  obtain pre since mid where sh: "acts = pre @ Subscribed since # mid" "list_all quiet mid" "l = Open"
    using run_last_connection [OF assms(2) [unfolded events_def] ne, of False] keep by fastforce
  have "foldl fresh_keepalive False (pumped told mid)" using keep by (simp add: sh(1))
  then have "Told_Keepalive \<in> set mid" using no_keepalive_quiet [OF sh(2)] by blast
  then show ?thesis using all events sh by auto
qed

section \<open>The cursor file\<close>

lemma universal_newlines_id: "13 \<notin> set s \<Longrightarrow> universal_newlines s = s"
  by (induction s rule: universal_newlines.induct) auto

text \<open>
  The cursor survives a restart or is left as it was: a write that reports success makes the
  offset the file's content, any other leaves the old content in place, and what was written is
  read back as it was if it holds no whitespace, as the topic's ids do not.
\<close>

theorem cursor_file_round_trip:
  "case write_offset fault offset file of (r, file') \<Rightarrow>
     (if r = Done True then file' = Some (Some offset) else file' = file) \<and>
     (r = Done True \<and> offset \<noteq> [] \<and> list_all (\<lambda>c. \<not> is_space c) offset \<longrightarrow>
        read_offset file' = Done (Some offset))"
proof -
  have reread: "read_offset (Some (Some offset)) = Done (Some offset)"
    if "offset \<noteq> []" "list_all (\<lambda>c. \<not> is_space c) offset"
  proof -
    have "is_space 13" by (simp add: is_space_def)
    then have "13 \<notin> set offset" using that(2) unfolding list_all_iff by blast
    then show ?thesis using that by (simp add: read_offset_def universal_newlines_id strip_no_space)
  qed
  consider "write_offset fault offset file = (Done True, Some (Some offset))"
    | "write_offset fault offset file = (Done False, file)" | "write_offset fault offset file = (Unicode_Error, file)"
    unfolding write_offset_def by argo
  then show ?thesis by cases (use reread in simp_all)
qed

text \<open>
  Neither operation is as total as its description: a lone surrogate in an id, which JSON can
  carry, makes the write raise, and a file that is no UTF-8 makes the read raise.
\<close>

lemma cursor_file_can_raise:
  "write_offset No_Fault [55296] file = (Unicode_Error, file)" "read_offset (Some None) = Unicode_Error"
  by (simp_all add: write_offset_def read_offset_def encodable_def)

section \<open>Witnesses\<close>

definition sample_reading :: reading where
  "sample_reading = \<lparr>at_wait = 10, at_frame = 11, wall_frame = 12, wall_arrival = 13, at_resume = 14\<rparr>"

definition sample_intake :: intake_cfg where
  "sample_intake = \<lparr>ic_backoff_base = 1, ic_max_backoff = 30, liveness_deadline = 135, report_interval = 3600,
     has_since_notice = True\<rparr>"

definition open_frame :: json where "open_frame = J_Str (cps ''open'')"

theorem open_frames_do_not_extend_the_deadline_witness:
  "pull_loop (\<lambda>_. []) sample_intake ([(Frame [(cps ''event'', open_frame)], sample_reading)] @ [(Timed_Out, sample_reading)])
     (new_intake None 0 0) =
   (new_intake None 0 0, [Waited 125, Waited 125], Failed_With None)"
proof -
  have "list_all open_pull [(Frame [(cps ''event'', open_frame)], sample_reading)]"
    by (simp add: open_pull_def open_frame_def)
  from open_frames_do_not_extend_the_deadline [OF this, of "\<lambda>_. []" sample_intake "[(Timed_Out, sample_reading)]" "new_intake None 0 0"]
  show ?thesis by (simp add: remaining_def sample_intake_def sample_reading_def new_intake_def)
qed

definition sample_connection :: connection where
  "sample_connection = \<lparr>cn_wall = 0, cn_mono = 0, cn_pulls = [(Frame [(cps ''event'', J_Str (cps ''keepalive''))], sample_reading)]\<rparr>"

lemma sample_events:
  "snd (events (\<lambda>_. []) sample_intake [sample_connection] (new_intake None 0 0)) =
     ([Subscribed None, Waited 125, Told_Keepalive], Open)"
proof -
  have ne: "cps ''keepalive'' \<noteq> cps ''open''" "cps ''keepalive'' \<noteq> cps ''message''" by (simp_all add: cps_def)
  show ?thesis
    by (simp add: events_def connect_def sample_connection_def see_frame_def convert_frame_def ne new_intake_def
        remaining_def sample_intake_def sample_reading_def)
qed

theorem caught_up_covers_the_backlog_witness:
  "concat (tr_dispatched (foldl (trace_step 1) new_trace [Subscribe 0, Keepalive])) =
     concat (map yielded [Subscribed None, Waited 125, Told_Keepalive])"
proof -
  obtain s where e: "events (\<lambda>_. []) sample_intake [sample_connection] (new_intake None 0 0) =
      (s, [Subscribed None, Waited 125, Told_Keepalive], Open)"
    using sample_events by (metis prod.collapse)
  have "pumped heard [Subscribe 0, Keepalive] = pumped told [Subscribed None, Waited 125, Told_Keepalive]" by simp
  moreover have "caught_up (tr_state (foldl (trace_step 1) new_trace [Subscribe 0, Keepalive]))"
    by (simp add: caught_up_def trace_step_def new_trace_def new_catch_up_def)
  ultimately show ?thesis using caught_up_covers_the_backlog [OF _ e, of 1] by (metis zero_le_one)
qed

theorem cursor_file_round_trip_witness:
  "snd (write_offset No_Fault [97, 49] None) = Some (Some [97, 49]) \<and> read_offset (Some (Some [97, 49])) = Done (Some [97, 49])"
proof -
  have w: "write_offset No_Fault [97, 49] None = (Done True, Some (Some [97, 49]))"
    by (simp add: write_offset_def encodable_def)
  have "list_all (\<lambda>c. \<not> is_space c) [97, 49]" by (simp add: is_space_def)
  then show ?thesis using cursor_file_round_trip [of "[97, 49]" None No_Fault] by (simp add: w)
qed

end
