(* ===== verification/Calendar.thy ===== *)
theory Calendar
  imports Time_Parse Json
begin

text \<open>
  \<open>henk/calendar/client.py\<close> and the token source of \<open>henk/calendar/token.py\<close>: what Henk admits from
  the calendar, which events hold alerts, and the two calls with their sign-in, paging and single
  retry. The HTTP client is an argument: what each exchange gives. Parameters stand for
  \<open>str.casefold\<close>, for \<open>float\<close> on a string, for \<open>str\<close> on other values than strings, and for
  \<open>datetime.fromisoformat\<close> (\<open>iso_of\<close>: \<open>None\<close> where it raises or the reading has no offset). Not
  modelled: the query parameters but the page token, the log filter that hides the calendar id,
  and the signing of the assertion.
\<close>

section \<open>Configuration\<close>

record calendar_cfg =
  cal_enabled :: bool
  hold_alerts :: bool
  lookahead_days :: nat
  refresh_seconds :: secs
  grace_minutes :: nat
  max_window_hours :: nat
  stale_after_seconds :: secs

section \<open>Admission\<close>

definition TITLE_PREFIX :: str where "TITLE_PREFIX = cps ''Homelab''"

record calendar_event =
  ce_id :: str
  ce_title :: str
  ce_start :: "secs option"
  ce_end :: "secs option"
  ce_start_date :: "str option"
  ce_end_date :: "str option"

definition all_day :: "calendar_event \<Rightarrow> bool" where
  "all_day e \<longleftrightarrow> ce_start e = None"

definition iso_instant :: "(str \<Rightarrow> secs option) \<Rightarrow> json \<Rightarrow> secs option" where
  "iso_instant iso_of v = Option.bind (as_str v) iso_of"

definition with_times :: "(str \<Rightarrow> secs option) \<Rightarrow> str \<Rightarrow> str \<Rightarrow> json \<Rightarrow> json \<Rightarrow> calendar_event option" where
  "with_times iso_of event_id title start_v end_v =
     (case (as_obj start_v, as_obj end_v) of
        (Some s, Some e) \<Rightarrow>
          (case (as_str (jget s (cps ''date'')), as_str (jget e (cps ''date''))) of
             (Some d1, Some d2) \<Rightarrow>
               Some \<lparr>ce_id = event_id, ce_title = title, ce_start = None, ce_end = None,
                 ce_start_date = Some d1, ce_end_date = Some d2\<rparr>
           | _ \<Rightarrow>
               (case (iso_instant iso_of (jget s (cps ''dateTime'')), iso_instant iso_of (jget e (cps ''dateTime''))) of
                  (Some a, Some b) \<Rightarrow>
                    Some \<lparr>ce_id = event_id, ce_title = title, ce_start = Some a, ce_end = Some b,
                      ce_start_date = None, ce_end_date = None\<rparr>
                | _ \<Rightarrow> None))
      | _ \<Rightarrow> None)"

record admission =
  adm_iso :: "str \<Rightarrow> secs option"
  adm_casefold :: "str \<Rightarrow> str"
  creator_allowlist :: "str list"
  own_email :: str

definition creator_email :: "json_obj \<Rightarrow> str option" where
  "creator_email item =
     (case as_obj (jget item (cps ''creator'')) of None \<Rightarrow> None | Some c \<Rightarrow> as_str (jget c (cps ''email'')))"

definition admit :: "admission \<Rightarrow> json \<Rightarrow> calendar_event option" where
  "admit a raw =
     (case as_obj raw of
        None \<Rightarrow> None
      | Some item \<Rightarrow>
          if jget item (cps ''status'') = J_Str (cps ''cancelled'') then None
          else (case as_str (jget item (cps ''summary'')) of
              None \<Rightarrow> None
            | Some title \<Rightarrow>
                if \<not> prefix TITLE_PREFIX title then None
                else (case creator_email item of
                    None \<Rightarrow> None
                  | Some email \<Rightarrow>
                      if adm_casefold a email \<notin>
                          set (adm_casefold a (own_email a) # map (adm_casefold a) (creator_allowlist a)) then None
                      else (case as_str (jget item (cps ''id'')) of
                          None \<Rightarrow> None
                        | Some event_id \<Rightarrow>
                            if event_id = [] then None
                            else with_times (adm_iso a) event_id title (jget item (cps ''start''))
                              (jget item (cps ''end''))))))"

text \<open>\<open>holds\<close>: the one predicate for a hold window.\<close>

definition holds_alerts :: "calendar_cfg \<Rightarrow> bool \<Rightarrow> calendar_event \<Rightarrow> bool" where
  "holds_alerts cfg events_enabled e =
     (if \<not> (cal_enabled cfg \<and> hold_alerts cfg \<and> events_enabled) then False
      else (case (ce_start e, ce_end e) of
          (Some s, Some t) \<Rightarrow> 0 \<le> t - s \<and> t - s \<le> of_nat (max_window_hours cfg) * 3600
        | _ \<Rightarrow> False))"

section \<open>The token\<close>

definition TOKEN_EXPIRY_MARGIN_SECONDS :: secs where "TOKEN_EXPIRY_MARGIN_SECONDS = 60"

datatype answer = Http_Timeout | Http_Failed str | Http_Answer int "json option"    \<comment> \<open>\<open>None\<close>: a body that is no JSON\<close>

datatype token_error = Token_Timeout | Token_Failed str | Token_Refused int | Token_Unreadable | Token_Overflow

record token_source =
  tk_token :: "str option"
  tk_expires :: "secs option"      \<comment> \<open>\<open>None\<close>: an infinity or \<open>nan\<close>\<close>
  tk_endless :: bool               \<comment> \<open>the former\<close>

definition new_tokens :: token_source where
  "new_tokens = \<lparr>tk_token = None, tk_expires = Some 0, tk_endless = False\<rparr>"

definition invalidate :: "token_source \<Rightarrow> token_source" where
  "invalidate t = t\<lparr>tk_token := None, tk_expires := Some 0, tk_endless := False\<rparr>"

text \<open>
  \<open>_request\<close>: the token and its lifetime. An \<open>expires_in\<close> that is no finite number is taken as
  \<open>None\<close>; of those \<open>nan\<close> makes every cached token stale and an infinity none, which the parameter
  \<open>is_inf\<close> tells.
\<close>

definition token_request :: "(str \<Rightarrow> unit + real option) \<Rightarrow> answer \<Rightarrow> token_error + str \<times> secs option" where
  "token_request float_of a =
     (case a of
        Http_Timeout \<Rightarrow> Inl Token_Timeout
      | Http_Failed name \<Rightarrow> Inl (Token_Failed name)
      | Http_Answer st body \<Rightarrow>
          if st \<noteq> 200 then Inl (Token_Refused st)
          else (case Option.bind body as_obj of
              None \<Rightarrow> Inl Token_Unreadable
            | Some d \<Rightarrow>
                if \<not> jhas d (cps ''access_token'') \<or> \<not> jhas d (cps ''expires_in'') then Inl Token_Unreadable
                else (case json_float float_of (jget d (cps ''expires_in'')) of
                    Inl _ \<Rightarrow> Inl (case jget d (cps ''expires_in'') of J_Int _ \<Rightarrow> Token_Overflow | _ \<Rightarrow> Token_Unreadable)
                  | Inr life \<Rightarrow>
                      (case as_str (jget d (cps ''access_token'')) of
                         None \<Rightarrow> Inl Token_Unreadable
                       | Some tok \<Rightarrow>
                           if tok = [] \<or> (case life of None \<Rightarrow> False | Some l \<Rightarrow> l \<le> 0) then Inl Token_Unreadable
                           else Inr (tok, life)))))"

definition still_valid :: "token_source \<Rightarrow> secs \<Rightarrow> bool" where
  "still_valid t now \<longleftrightarrow>
     tk_token t \<noteq> None \<and>
     (case tk_expires t of None \<Rightarrow> tk_endless t | Some e \<Rightarrow> now < e - TOKEN_EXPIRY_MARGIN_SECONDS)"

definition get_token :: "(str \<Rightarrow> unit + real option) \<Rightarrow> bool \<Rightarrow> secs \<Rightarrow> answer \<Rightarrow> token_source \<Rightarrow>
    (token_error + str) \<times> token_source" where
  "get_token float_of is_inf now a t =
     (if still_valid t now then (case tk_token t of Some tok \<Rightarrow> (Inr tok, t) | None \<Rightarrow> (Inl Token_Unreadable, t))
      else (case token_request float_of a of
          Inl e \<Rightarrow> (Inl e, invalidate t)
        | Inr (tok, life) \<Rightarrow>
            (Inr tok, \<lparr>tk_token = Some tok, tk_expires = map_option (\<lambda>l. now + l) life,
               tk_endless = (life = None \<and> is_inf)\<rparr>)))"

section \<open>The two calls\<close>

definition MAX_PAGES :: nat where "MAX_PAGES = 4"

datatype calendar_error =
    Sign_In token_error
  | Timed_Out_Request
  | Transport_Failed str
  | Answered int
  | Unreadable_Answer
  | Too_Many_Pages
  | Not_Confirmed

text \<open>
  The messages of the errors; a transport failure carries the name of its exception. A lifetime
  that is too large for a float escapes as an \<open>OverflowError\<close>, which is no \<open>CalendarError\<close>.
\<close>

fun token_text :: "token_error \<Rightarrow> str" where
  "token_text Token_Timeout = cps ''the token request timed out''"
| "token_text (Token_Failed name) = cps ''the token request failed ('' @ name @ [41]"
| "token_text (Token_Refused n) = cps ''the token endpoint answered '' @ int_text n"
| "token_text Token_Unreadable = cps (''the token endpoint'' @ [CHR 0x27] @ ''s answer was not readable'')"
| "token_text Token_Overflow = []"

fun error_text :: "calendar_error \<Rightarrow> str" where
  "error_text (Sign_In e) = cps ''Henk could not sign in to Google: '' @ token_text e"
| "error_text Timed_Out_Request = cps ''the calendar request timed out''"
| "error_text (Transport_Failed name) = cps ''the calendar request failed ('' @ name @ [41]"
| "error_text (Answered n) = cps ''the calendar answered '' @ int_text n"
| "error_text Unreadable_Answer = cps (''the calendar'' @ [CHR 0x27] @ ''s answer was not readable'')"
| "error_text Too_Many_Pages = cps (''the calendar holds more than 4 pages (1000 events) in the window; '' @ ''nothing was used'')"
| "error_text Not_Confirmed = cps ''the calendar did not confirm the insert''"

fun error_status :: "calendar_error \<Rightarrow> int option" where
  "error_status (Answered n) = Some n" | "error_status _ = None"

definition forbidden :: "calendar_error \<Rightarrow> bool" where
  "forbidden e \<longleftrightarrow> error_status e = Some 403"

text \<open>A request as the calendar sees it, with the bearer token it carries.\<close>

datatype calendar_request =
    List_Events "str option" str              \<comment> \<open>the page token, if any\<close>
  | Insert_Event str str str str              \<comment> \<open>\<open>summary\<close>, \<open>start\<close>, \<open>end\<close>\<close>

record exchange =
  ex_now :: secs
  ex_token :: answer
  ex_http :: answer

record client =
  cl_tokens :: token_source
  cl_next :: nat
  cl_requests :: "calendar_request list"

record services =
  sv_world :: "nat \<Rightarrow> exchange"
  sv_float :: "str \<Rightarrow> unit + real option"
  sv_inf :: bool
  sv_str :: "json \<Rightarrow> str"
  sv_admission :: admission

definition send_once :: "services \<Rightarrow> (str \<Rightarrow> calendar_request) \<Rightarrow> client \<Rightarrow>
    (calendar_error + int \<times> json option) \<times> client" where
  "send_once sv mk c =
     (let x = sv_world sv (cl_next c);
          (r, t) = get_token (sv_float sv) (sv_inf sv) (ex_now x) (ex_token x) (cl_tokens c);
          c1 = c\<lparr>cl_tokens := t, cl_next := cl_next c + 1\<rparr>
      in case r of
           Inl e \<Rightarrow> (Inl (Sign_In e), c1)
         | Inr tok \<Rightarrow>
             (let c2 = c1\<lparr>cl_requests := cl_requests c @ [mk tok]\<rparr>
              in case ex_http x of
                   Http_Timeout \<Rightarrow> (Inl Timed_Out_Request, c2)
                 | Http_Failed name \<Rightarrow> (Inl (Transport_Failed name), c2)
                 | Http_Answer st body \<Rightarrow> (Inr (st, body), c2)))"

definition readable :: "calendar_error + int \<times> json option \<Rightarrow> calendar_error + json_obj" where
  "readable r =
     (case r of
        Inl e \<Rightarrow> Inl e
      | Inr (st, body) \<Rightarrow>
          if 400 \<le> st then Inl (Answered st)
          else (case Option.bind body as_obj of None \<Rightarrow> Inl Unreadable_Answer | Some b \<Rightarrow> Inr b))"

definition call :: "services \<Rightarrow> (str \<Rightarrow> calendar_request) \<Rightarrow> client \<Rightarrow> (calendar_error + json_obj) \<times> client" where
  "call sv mk c =
     (let (r, c1) = send_once sv mk c
      in case r of
           Inl e \<Rightarrow> (Inl e, c1)
         | Inr (st, body) \<Rightarrow>
             if st = 401
             then (let (r2, c2) = send_once sv mk (c1\<lparr>cl_tokens := invalidate (cl_tokens c1)\<rparr>) in (readable r2, c2))
             else (readable r, c1))"

text \<open>The loop of \<open>list_window\<close> with the pages left; its \<open>else\<close> is the page too many.\<close>

fun page_loop :: "services \<Rightarrow> nat \<Rightarrow> str option \<Rightarrow> json list \<Rightarrow> client \<Rightarrow> (calendar_error + json list) \<times> client" where
  "page_loop sv 0 tok items c = (Inl Too_Many_Pages, c)"
| "page_loop sv (Suc n) tok items c =
     (let (r, c1) = call sv (List_Events tok) c
      in case r of
           Inl e \<Rightarrow> (Inl e, c1)
         | Inr body \<Rightarrow>
             (case as_list (if jhas body (cps ''items'') then jget body (cps ''items'') else J_List []) of
                None \<Rightarrow> (Inl Unreadable_Answer, c1)
              | Some page \<Rightarrow>
                  (let next = jget body (cps ''nextPageToken'')
                   in if \<not> truthy next then (Inr (items @ page), c1)
                      else page_loop sv n (Some (case next of J_Str s \<Rightarrow> s | v \<Rightarrow> sv_str sv v)) (items @ page) c1)))"

definition list_window :: "services \<Rightarrow> client \<Rightarrow> (calendar_error + calendar_event list) \<times> client" where
  "list_window sv c =
     (let (r, c1) = page_loop sv MAX_PAGES None [] c
      in (case r of Inl e \<Rightarrow> Inl e | Inr items \<Rightarrow> Inr (List.map_filter (admit (sv_admission sv)) items), c1))"

text \<open>\<open>rfc3339_local\<close>; \<open>None\<close> for a reading in the gap.\<close>

definition pad4 :: "int \<Rightarrow> str" where
  "pad4 n = (if n < 1000 then 48 # (if n < 100 then 48 # pad2 n else int_text n) else int_text n)"

definition offset_text :: "int \<Rightarrow> str" where
  "offset_text o' =
     (if o' < 0 then 45 else 43) # pad2 (\<bar>o'\<bar> div 3600) @ [58] @ pad2 (\<bar>o'\<bar> mod 3600 div 60) @
     (if \<bar>o'\<bar> mod 60 = 0 then [] else 58 # pad2 (\<bar>o'\<bar> mod 60))"

definition rfc3339_local :: "zone \<Rightarrow> int \<Rightarrow> str option" where
  "rfc3339_local z w =
     (if classify_local z w = IMAGINARY then None
      else (let n = naive_at w 0
        in Some (pad4 (nv_year n) @ [45] @ pad2 (nv_month n) @ [45] @ pad2 (nv_day n) @ [84] @ hhmm w @ [58] @
             pad2 (nv_second n) @ offset_text (utcoffset z w False))))"

datatype insert_refusal = Bad_Prefix | Nonexistent int | Calendar_Failed calendar_error

record inserted_event =
  in_id :: str
  in_start :: str
  in_end :: str

text \<open>\<open>insert\<close> with naive readings, as whole seconds of the local clock.\<close>

definition insert_event :: "services \<Rightarrow> zone \<Rightarrow> str \<Rightarrow> int \<Rightarrow> int \<Rightarrow> client \<Rightarrow>
    (insert_refusal + inserted_event) \<times> client" where
  "insert_event sv z title start_w end_w c =
     (if \<not> prefix TITLE_PREFIX title then (Inl Bad_Prefix, c)
      else (case rfc3339_local z start_w of
          None \<Rightarrow> (Inl (Nonexistent start_w), c)
        | Some s \<Rightarrow>
            (case rfc3339_local z end_w of
               None \<Rightarrow> (Inl (Nonexistent end_w), c)
             | Some e \<Rightarrow>
                 (let (r, c1) = call sv (Insert_Event title s e) c
                  in case r of
                       Inl err \<Rightarrow> (Inl (Calendar_Failed err), c1)
                     | Inr body \<Rightarrow>
                         (case as_str (jget body (cps ''id'')) of
                            Some (ch # cs) \<Rightarrow> (Inr \<lparr>in_id = ch # cs, in_start = s, in_end = e\<rparr>, c1)
                          | _ \<Rightarrow> (Inl (Calendar_Failed Not_Confirmed), c1))))))"

end
