(* ===== verification/Calendar_Windows.thy ===== *)
theory Calendar_Windows
  imports Calendar Coordinator
begin

text \<open>
  \<open>henk/calendar/windows.py\<close>: the snapshot of the maintenance windows, refreshed from the calendar,
  persisted in a file and read back at the start, and the queries the event pipeline and the
  owner-turn note make. The file is the JSON value it holds; log lines are left out, but for the
  latch of the stale warning.
\<close>

section \<open>State\<close>

record window =
  mw_id :: str
  mw_title :: str
  mw_start :: secs
  mw_end :: secs

record snapshot =
  fetched_at :: secs
  windows :: "window list"

text \<open>The file: absent, unreadable, holding no JSON, or a JSON value.\<close>

datatype snapshot_file = File_Missing | File_Unreadable | File_Garbled | File_Holds json

record provider =
  snap :: "snapshot option"
  stale_warned :: bool
  refresh_failures :: nat
  disk :: snapshot_file

definition new_provider :: "snapshot_file \<Rightarrow> provider" where
  "new_provider f = \<lparr>snap = None, stale_warned = False, refresh_failures = 0, disk = f\<rparr>"

section \<open>Queries\<close>

definition grace_seconds :: "calendar_cfg \<Rightarrow> secs" where
  "grace_seconds cfg = of_nat (grace_minutes cfg) * 60"

definition usable :: "calendar_cfg \<Rightarrow> secs \<Rightarrow> provider \<Rightarrow> window list \<times> provider" where
  "usable cfg now p =
     (case snap p of
        None \<Rightarrow> ([], p\<lparr>stale_warned := True\<rparr>)
      | Some s \<Rightarrow>
          if stale_after_seconds cfg < now - fetched_at s then ([], p\<lparr>stale_warned := True\<rparr>)
          else (windows s, p))"

definition active :: "calendar_cfg \<Rightarrow> secs \<Rightarrow> secs \<Rightarrow> provider \<Rightarrow> window list \<times> provider" where
  "active cfg now t p =
     (let (ws, p') = usable cfg now p
      in (filter (\<lambda>w. mw_start w \<le> t \<and> t < mw_end w + grace_seconds cfg) ws, p'))"

definition active_window :: "calendar_cfg \<Rightarrow> secs \<Rightarrow> str \<Rightarrow> secs \<Rightarrow> provider \<Rightarrow> window option \<times> provider" where
  "active_window cfg now wid t p =
     (let (ws, p') = active cfg now t p in (find (\<lambda>w. mw_id w = wid) ws, p'))"

definition ended_within :: "calendar_cfg \<Rightarrow> secs \<Rightarrow> secs \<Rightarrow> secs \<Rightarrow> provider \<Rightarrow> window list \<times> provider" where
  "ended_within cfg now t seconds p =
     (let (ws, p') = usable cfg now p
      in (filter (\<lambda>w. t - seconds < mw_end w + grace_seconds cfg \<and> mw_end w + grace_seconds cfg \<le> t) ws, p'))"

section \<open>The file\<close>

definition encode_window :: "window \<Rightarrow> json" where
  "encode_window w =
     J_Obj [(cps ''id'', J_Str (mw_id w)), (cps ''title'', J_Str (mw_title w)),
            (cps ''start'', J_Float (mw_start w)), (cps ''end'', J_Float (mw_end w))]"

definition encode_snapshot :: "snapshot \<Rightarrow> json" where
  "encode_snapshot s =
     J_Obj [(cps ''fetched_at'', J_Float (fetched_at s)), (cps ''windows'', J_List (map encode_window (windows s)))]"

definition encodes :: "snapshot \<Rightarrow> bool" where
  "encodes s \<longleftrightarrow> list_all (\<lambda>w. encodable (mw_id w) \<and> encodable (mw_title w)) (windows s)"

text \<open>\<open>_number\<close>.\<close>

definition finite_number :: "json \<Rightarrow> secs option" where
  "finite_number v = (case v of J_Int n \<Rightarrow> float_of_int n | J_Float x \<Rightarrow> Some x | _ \<Rightarrow> None)"

definition decode_window :: "json \<Rightarrow> window option" where
  "decode_window v =
     (case as_obj v of
        None \<Rightarrow> None
      | Some d \<Rightarrow>
          (case (as_str (jget d (cps ''id'')), as_str (jget d (cps ''title'')), finite_number (jget d (cps ''start'')),
              finite_number (jget d (cps ''end''))) of
             (Some wid, Some title, Some s, Some e) \<Rightarrow>
               if wid = [] \<or> \<not> prefix TITLE_PREFIX title then None
               else Some \<lparr>mw_id = wid, mw_title = title, mw_start = s, mw_end = e\<rparr>
           | _ \<Rightarrow> None))"

text \<open>All or nothing: one entry that is no window makes the list none.\<close>

fun decode_windows :: "json list \<Rightarrow> window list option" where
  "decode_windows [] = Some []"
| "decode_windows (v # vs) =
     (case decode_window v of
        None \<Rightarrow> None
      | Some w \<Rightarrow> map_option (\<lambda>ws. w # ws) (decode_windows vs))"

definition decode_snapshot :: "json \<Rightarrow> snapshot option" where
  "decode_snapshot v =
     (case as_obj v of
        None \<Rightarrow> None
      | Some d \<Rightarrow>
          (case (finite_number (jget d (cps ''fetched_at'')), as_list (jget d (cps ''windows''))) of
             (Some f, Some vs) \<Rightarrow> map_option (\<lambda>ws. \<lparr>fetched_at = f, windows = ws\<rparr>) (decode_windows vs)
           | _ \<Rightarrow> None))"

section \<open>Start and refresh\<close>

definition event_of_window :: "window \<Rightarrow> calendar_event" where
  "event_of_window w =
     \<lparr>ce_id = mw_id w, ce_title = mw_title w, ce_start = Some (mw_start w), ce_end = Some (mw_end w),
      ce_start_date = None, ce_end_date = None\<rparr>"

definition holding :: "calendar_cfg \<Rightarrow> bool \<Rightarrow> window list \<Rightarrow> window list" where
  "holding cfg events_enabled ws = filter (\<lambda>w. holds_alerts cfg events_enabled (event_of_window w)) ws"

definition load :: "calendar_cfg \<Rightarrow> bool \<Rightarrow> provider \<Rightarrow> bool \<times> provider" where
  "load cfg events_enabled p =
     (case disk p of
        File_Holds v \<Rightarrow>
          (case decode_snapshot v of
             None \<Rightarrow> (False, p)
           | Some s \<Rightarrow> (True, p\<lparr>snap := Some (s\<lparr>windows := holding cfg events_enabled (windows s)\<rparr>)\<rparr>))
      | _ \<Rightarrow> (False, p))"

definition window_of_event :: "calendar_event \<Rightarrow> window option" where
  "window_of_event e =
     (case (ce_start e, ce_end e) of
        (Some s, Some t) \<Rightarrow> Some \<lparr>mw_id = ce_id e, mw_title = ce_title e, mw_start = s, mw_end = t\<rparr>
      | _ \<Rightarrow> None)"

definition windows_of_events :: "calendar_cfg \<Rightarrow> bool \<Rightarrow> calendar_event list \<Rightarrow> window list" where
  "windows_of_events cfg events_enabled es =
     List.map_filter (\<lambda>e. if holds_alerts cfg events_enabled e then window_of_event e else None) es"

definition refresh_failed :: "calendar_cfg \<Rightarrow> secs \<Rightarrow> provider \<Rightarrow> provider" where
  "refresh_failed cfg now p = snd (usable cfg now (p\<lparr>refresh_failures := refresh_failures p + 1\<rparr>))"

text \<open>
  \<open>refresh\<close>: the answer of \<open>list_window\<close> (\<open>Inl\<close> for any exception), the clock when it starts and
  when a failure is noted, and whether the file can be written.
\<close>

definition refresh :: "calendar_cfg \<Rightarrow> bool \<Rightarrow> secs \<Rightarrow> secs \<Rightarrow> calendar_error + calendar_event list \<Rightarrow> bool \<Rightarrow>
    provider \<Rightarrow> bool \<times> provider" where
  "refresh cfg events_enabled now later answer writable p =
     (case answer of
        Inl e \<Rightarrow> (False, refresh_failed cfg later p)
      | Inr events \<Rightarrow>
          (let s = \<lparr>fetched_at = now, windows = windows_of_events cfg events_enabled events\<rparr>
           in (True, p\<lparr>snap := Some s, stale_warned := False, refresh_failures := 0,
                 disk := (if writable \<and> encodes s then File_Holds (encode_snapshot s) else disk p)\<rparr>)))"

text \<open>
  What the event pipeline makes of a window, whose end it stores and whose release it does not
  know yet.
\<close>

definition as_hold_window :: "window \<Rightarrow> hold_window" where
  "as_hold_window w =
     \<lparr>win_id = mw_id w, win_title = mw_title w, win_start = mw_start w, win_end = mw_end w, released_at = None\<rparr>"

end
