(* ===== verification/Calendar_Properties.thy ===== *)
theory Calendar_Properties
  imports Calendar_Windows
begin

text \<open>
  The properties of the maintenance calendar: a read is whole or fails, the snapshot holds planned
  windows only and survives a restart, staleness holds nothing, and an alert is held only inside a
  planned window of bounded length.
\<close>

section \<open>Reads\<close>

definition admitted :: "calendar_event \<Rightarrow> bool" where
  "admitted e \<longleftrightarrow> prefix TITLE_PREFIX (ce_title e) \<and> ce_id e \<noteq> []"

lemma admit_fields:
  assumes "admit a raw = Some e"
  shows "admitted e" "\<exists>item email. raw = J_Obj item \<and> jget item (cps ''status'') \<noteq> J_Str (cps ''cancelled'') \<and>
    jget item (cps ''summary'') = J_Str (ce_title e) \<and> creator_email item = Some email \<and>
    (adm_casefold a email = adm_casefold a (own_email a) \<or> (\<exists>x \<in> set (creator_allowlist a). adm_casefold a email = adm_casefold a x))"
proof -
  obtain item where raw: "raw = J_Obj item" using assms by (cases raw) (auto simp: admit_def)
  have st: "jget item (cps ''status'') \<noteq> J_Str (cps ''cancelled'')" using assms raw by (auto simp: admit_def split: if_splits)
  obtain title where title: "jget item (cps ''summary'') = J_Str title"
    using assms raw st by (cases "jget item (cps ''summary'')") (auto simp: admit_def)
  have pre: "prefix TITLE_PREFIX title" using assms raw st title by (auto simp: admit_def split: if_splits)
  obtain email where email: "creator_email item = Some email"
    using assms raw st title pre by (cases "creator_email item") (auto simp: admit_def)
  have allow: "adm_casefold a email \<in> set (adm_casefold a (own_email a) # map (adm_casefold a) (creator_allowlist a))"
    using assms raw st title pre email by (auto simp: admit_def split: if_splits)
  obtain wid where wid: "jget item (cps ''id'') = J_Str wid" "wid \<noteq> []"
    using assms raw st title pre email allow
    by (cases "jget item (cps ''id'')") (auto simp: admit_def split: if_splits)
  have "with_times (adm_iso a) wid title (jget item (cps ''start'')) (jget item (cps ''end'')) = Some e"
    using assms raw st title pre email allow wid by (auto simp: admit_def split: if_splits)
  then have f: "ce_id e = wid" "ce_title e = title"
    by (auto simp: with_times_def split: option.splits prod.splits)
  show "admitted e" using f wid pre by (simp add: admitted_def)
  show "\<exists>item email. raw = J_Obj item \<and> jget item (cps ''status'') \<noteq> J_Str (cps ''cancelled'') \<and>
    jget item (cps ''summary'') = J_Str (ce_title e) \<and> creator_email item = Some email \<and>
    (adm_casefold a email = adm_casefold a (own_email a) \<or> (\<exists>x \<in> set (creator_allowlist a). adm_casefold a email = adm_casefold a x))"
    using raw st title email allow f by auto
qed

text \<open>The pages a run of \<open>list_window\<close> read, as the answers gave them.\<close>

definition page_of :: "json_obj \<Rightarrow> json list option" where
  "page_of body = as_list (if jhas body (cps ''items'') then jget body (cps ''items'') else J_List [])"

definition last_page :: "json_obj \<Rightarrow> bool" where
  "last_page body \<longleftrightarrow> \<not> truthy (jget body (cps ''nextPageToken''))"

lemma page_loop_spec:
  "page_loop sv n tok items c = (Inr all, c') \<Longrightarrow>
     \<exists>bodies pages. 0 < length bodies \<and> length bodies \<le> n \<and> map page_of bodies = map Some pages \<and>
       all = items @ concat pages \<and> last_page (last bodies) \<and> list_all (\<lambda>b. \<not> last_page b) (butlast bodies)"
proof (induction n arbitrary: tok items c)
  case (Suc n)
  obtain r c1 where r: "call sv (List_Events tok) c = (r, c1)" by fastforce
  obtain body where body: "r = Inr body" using Suc.prems r by (cases r) auto
  obtain page where page: "page_of body = Some page"
    using Suc.prems r body by (cases "page_of body") (auto simp: page_of_def)
  show ?case
  proof (cases "last_page body")
    case True
    then have "all = items @ page" using Suc.prems r body page by (auto simp: last_page_def page_of_def)
    then show ?thesis using page True by (intro exI [of _ "[body]"] exI [of _ "[page]"]) simp
  next
    case False
    define t where "t = (case jget body (cps ''nextPageToken'') of J_Str s \<Rightarrow> s | v \<Rightarrow> sv_str sv v)"
    have "page_loop sv n (Some t) (items @ page) c1 = (Inr all, c')"
      using Suc.prems r body page False by (auto simp: last_page_def page_of_def t_def)
    from Suc.IH [OF this] obtain bodies pages where
      ih: "0 < length bodies" "length bodies \<le> n" "map page_of bodies = map Some pages"
        "all = (items @ page) @ concat pages" "last_page (last bodies)" "list_all (\<lambda>b. \<not> last_page b) (butlast bodies)"
      by blast
    then show ?thesis using page False by (intro exI [of _ "body # bodies"] exI [of _ "page # pages"]) auto
  qed
qed simp

lemma call_requests:
  "call sv mk c = (r, c') \<Longrightarrow> \<exists>toks. length toks \<le> 2 \<and> cl_requests c' = cl_requests c @ map mk toks"
proof -
  have one: "\<exists>toks. length toks \<le> 1 \<and> cl_requests d' = cl_requests d @ map mk toks" if "send_once sv mk d = (q, d')" for d q d'
  proof -
    obtain x t where g: "get_token (sv_float sv) (sv_inf sv) (ex_now (sv_world sv (cl_next d)))
        (ex_token (sv_world sv (cl_next d))) (cl_tokens d) = (x, t)" by fastforce
    show ?thesis
    proof (cases x)
      case (Inl e)
      then show ?thesis using that g by (intro exI [of _ "[]"]) (auto simp: send_once_def)
    next
      case (Inr tok)
      then show ?thesis using that g
        by (intro exI [of _ "[tok]"]) (auto simp: send_once_def Let_def split: answer.splits)
    qed
  qed
  assume c: "call sv mk c = (r, c')"
  obtain q c1 where s1: "send_once sv mk c = (q, c1)" by fastforce
  obtain q2 c2 where s2: "send_once sv mk (c1\<lparr>cl_tokens := invalidate (cl_tokens c1)\<rparr>) = (q2, c2)" by fastforce
  have "c' = c1 \<or> c' = c2" using c s1 s2 by (auto simp: call_def split: sum.splits if_splits)
  obtain t1 where t1: "length t1 \<le> 1" "cl_requests c1 = cl_requests c @ map mk t1" using one [OF s1] by blast
  obtain t2 where t2: "length t2 \<le> 1" "cl_requests c2 = cl_requests c1 @ map mk t2" using one [OF s2] by auto
  from \<open>c' = c1 \<or> c' = c2\<close> show ?thesis
  proof
    assume "c' = c1"
    then show ?thesis using t1 by (intro exI [of _ t1]) simp
  next
    assume "c' = c2"
    then show ?thesis using t1 t2 by (intro exI [of _ "t1 @ t2"]) simp
  qed
qed

lemma page_loop_requests:
  "page_loop sv n tok items c = (r, c') \<Longrightarrow> length (cl_requests c') \<le> length (cl_requests c) + 2 * n"
proof (induction n arbitrary: tok items c r)
  case (Suc n)
  obtain q c1 where q: "call sv (List_Events tok) c = (q, c1)" by fastforce
  obtain toks where "length toks \<le> 2" "cl_requests c1 = cl_requests c @ map (List_Events tok) toks"
    using call_requests [OF q] by blast
  then have l: "length (cl_requests c1) \<le> length (cl_requests c) + 2" by simp
  have "c' = c1 \<or> (\<exists>t i r'. page_loop sv n t i c1 = (r', c'))"
    using Suc.prems q by (auto simp: Let_def split: sum.splits option.splits if_splits)
  then show ?case using Suc.IH l by fastforce
qed simp


section \<open>The snapshot\<close>

definition planned :: "calendar_cfg \<Rightarrow> bool \<Rightarrow> window \<Rightarrow> bool" where
  "planned cfg events_enabled w \<longleftrightarrow>
     cal_enabled cfg \<and> hold_alerts cfg \<and> events_enabled \<and> prefix TITLE_PREFIX (mw_title w) \<and> mw_id w \<noteq> [] \<and>
     mw_start w \<le> mw_end w \<and> mw_end w - mw_start w \<le> of_nat (max_window_hours cfg) * 3600"

lemma holds_planned:
  "holds_alerts cfg ev (event_of_window w) \<Longrightarrow> prefix TITLE_PREFIX (mw_title w) \<Longrightarrow> mw_id w \<noteq> [] \<Longrightarrow> planned cfg ev w"
  by (auto simp: holds_alerts_def event_of_window_def planned_def split: if_splits)

text \<open>What the provider does in its life; a refresh reads the calendar through the client.\<close>

datatype provider_step =
    Load
  | Refresh secs secs services client bool
  | Refresh_Broken secs                        \<comment> \<open>an exception that is no \<open>CalendarError\<close>\<close>
  | Query secs secs

fun provider_next :: "calendar_cfg \<Rightarrow> bool \<Rightarrow> provider \<Rightarrow> provider_step \<Rightarrow> provider" where
  "provider_next cfg ev p Load = snd (load cfg ev p)"
| "provider_next cfg ev p (Refresh now later sv c writable) =
     snd (refresh cfg ev now later (fst (list_window sv c)) writable p)"
| "provider_next cfg ev p (Refresh_Broken later) = refresh_failed cfg later p"
| "provider_next cfg ev p (Query now t) = snd (active cfg now t p)"

definition provider_ok :: "calendar_cfg \<Rightarrow> bool \<Rightarrow> provider \<Rightarrow> bool" where
  "provider_ok cfg ev p \<longleftrightarrow> (case snap p of None \<Rightarrow> True | Some s \<Rightarrow> list_all (planned cfg ev) (windows s))"

lemma usable_snap [simp]: "snap (snd (usable cfg now p)) = snap p"
  by (simp add: usable_def split: option.split)

lemma active_snap [simp]: "snap (snd (active cfg now t p)) = snap p"
  by (simp add: active_def case_prod_unfold Let_def)

lemma decode_windows_fields:
  "decode_windows vs = Some ws \<Longrightarrow> list_all (\<lambda>w. prefix TITLE_PREFIX (mw_title w) \<and> mw_id w \<noteq> []) ws"
proof (induction vs arbitrary: ws)
  case (Cons v vs)
  obtain w ws' where w: "decode_window v = Some w" "decode_windows vs = Some ws'" "ws = w # ws'"
    using Cons.prems by (auto split: option.splits)
  have "prefix TITLE_PREFIX (mw_title w) \<and> mw_id w \<noteq> []"
    using w(1) by (auto simp: decode_window_def split: option.splits if_splits prod.splits)
  then show ?case using Cons.IH [OF w(2)] w(3) by simp
qed simp

lemma load_ok: "provider_ok cfg ev p \<Longrightarrow> provider_ok cfg ev (snd (load cfg ev p))"
proof -
  assume ok: "provider_ok cfg ev p"
  have "list_all (planned cfg ev) (holding cfg ev (windows s))" if d: "decode_snapshot v = Some s" for v s
  proof -
    obtain vs where "decode_windows vs = Some (windows s)"
      using d by (auto simp: decode_snapshot_def split: option.splits prod.splits)
    from decode_windows_fields [OF this] show ?thesis
      by (auto simp: holding_def list_all_iff intro: holds_planned)
  qed
  then show ?thesis using ok
    by (auto simp: load_def provider_ok_def split: snapshot_file.splits option.splits)
qed

lemma windows_of_events_planned:
  assumes "list_all admitted es"
  shows "list_all (planned cfg ev) (windows_of_events cfg ev es)"
proof -
  have "planned cfg ev w" if e: "e \<in> set es" "holds_alerts cfg ev e" and w: "window_of_event e = Some w" for e and w :: window
  proof -
    obtain s t where se: "ce_start e = Some s" "ce_end e = Some t" "w = \<lparr>mw_id = ce_id e, mw_title = ce_title e, mw_start = s, mw_end = t\<rparr>"
      using w by (auto simp: window_of_event_def split: option.splits)
    have "admitted e" using assms e(1) by (simp add: list_all_iff)
    then show ?thesis using e(2) se by (auto simp: planned_def admitted_def holds_alerts_def split: if_splits)
  qed
  then show ?thesis by (fastforce simp: list_all_iff windows_of_events_def List.map_filter_def split: if_splits)
qed

lemma list_window_admitted: "fst (list_window sv c) = Inr evs \<Longrightarrow> list_all admitted evs"
  using admit_fields(1) by (fastforce simp: list_window_def list_all_iff List.map_filter_def split: sum.splits prod.splits)

lemma provider_next_ok: "provider_ok cfg ev p \<Longrightarrow> provider_ok cfg ev (provider_next cfg ev p x)"
proof (cases x)
  case (Refresh now later sv c writable)
  assume ok: "provider_ok cfg ev p"
  show ?thesis
  proof (cases "fst (list_window sv c)")
    case (Inl e)
    then show ?thesis using ok by (simp add: Refresh refresh_def refresh_failed_def provider_ok_def)
  next
    case (Inr evs)
    then show ?thesis using windows_of_events_planned [OF list_window_admitted [OF Inr]]
      by (simp add: Refresh refresh_def provider_ok_def Let_def)
  qed
next
  case Load
  assume "provider_ok cfg ev p"
  then show ?thesis by (simp add: Load load_ok)
qed (auto simp: refresh_failed_def provider_ok_def)

interpretation calendar_provider: step_system "provider_next cfg ev" "provider_ok cfg ev" "\<lambda>_. True"
  for cfg ev
  by unfold_locales (rule provider_next_ok)

lemma active_bounded:
  assumes "p = foldl (provider_next cfg ev) (new_provider f) steps" and "w \<in> set (fst (active cfg now t p))"
  shows "cal_enabled cfg \<and> hold_alerts cfg \<and> ev \<and> prefix TITLE_PREFIX (mw_title w) \<and>
    mw_start w \<le> t \<and> t < mw_start w + of_nat (max_window_hours cfg) * 3600 + grace_seconds cfg \<and>
    (\<exists>s. snap p = Some s \<and> w \<in> set (windows s) \<and> now - fetched_at s \<le> stale_after_seconds cfg)"
proof -
  have "provider_ok cfg ev (new_provider f)" by (simp add: provider_ok_def new_provider_def)
  then have "provider_ok cfg ev (foldl (provider_next cfg ev) (new_provider f) steps)"
    by (rule calendar_provider.run_inv) (simp add: list_all_iff)
  then have ok: "provider_ok cfg ev p" by (simp add: assms(1))
  obtain s where s: "snap p = Some s" "now - fetched_at s \<le> stale_after_seconds cfg" "w \<in> set (windows s)"
    "mw_start w \<le> t" "t < mw_end w + grace_seconds cfg"
    using assms(2) by (auto simp: active_def usable_def case_prod_unfold Let_def split: option.splits if_splits)
  have "planned cfg ev w" using ok s(1,3) by (simp add: provider_ok_def list_all_iff)
  then show ?thesis using s by (auto simp: planned_def)
qed

text \<open>
  Nothing is held but planned maintenance, and never for long: whatever the provider did, a window
  it reports active at \<open>t\<close> has a title with the prefix, holding is switched on, the snapshot is no
  older than the limit, and \<open>t\<close> lies between the window's start and its longest allowed length
  plus the grace.
\<close>

theorem active_windows_are_planned_and_bounded:
  assumes "p = foldl (provider_next cfg ev) (new_provider f) steps" and "w \<in> set (fst (active cfg now t p))"
  shows "cal_enabled cfg \<and> hold_alerts cfg \<and> ev \<and> prefix TITLE_PREFIX (mw_title w) \<and>
    mw_start w \<le> t \<and> t < mw_start w + of_nat (max_window_hours cfg) * 3600 + grace_seconds cfg \<and>
    (\<exists>s. snap p = Some s \<and> w \<in> set (windows s) \<and> now - fetched_at s \<le> stale_after_seconds cfg)"
  by (rule active_bounded [OF assms])

section \<open>The file\<close>

lemma keys_differ [simp]:
  "cps ''id'' \<noteq> cps ''title''" "cps ''id'' \<noteq> cps ''start''" "cps ''id'' \<noteq> cps ''end''" "cps ''title'' \<noteq> cps ''start''"
  "cps ''title'' \<noteq> cps ''end''" "cps ''start'' \<noteq> cps ''end''" "cps ''fetched_at'' \<noteq> cps ''windows''"
  by (simp_all add: cps_def)

lemmas keys_differ_sym [simp] = keys_differ [symmetric]

lemma decode_encode_window:
  "mw_id w \<noteq> [] \<Longrightarrow> prefix TITLE_PREFIX (mw_title w) \<Longrightarrow> decode_window (encode_window w) = Some w"
  by (simp add: decode_window_def encode_window_def jget_later finite_number_def)

lemma decode_encode:
  "list_all (\<lambda>w. mw_id w \<noteq> [] \<and> prefix TITLE_PREFIX (mw_title w)) (windows s) \<Longrightarrow> decode_snapshot (encode_snapshot s) = Some s"
proof -
  assume a: "list_all (\<lambda>w. mw_id w \<noteq> [] \<and> prefix TITLE_PREFIX (mw_title w)) (windows s)"
  have "decode_windows (map encode_window ws) = Some ws" if "list_all (\<lambda>w. mw_id w \<noteq> [] \<and> prefix TITLE_PREFIX (mw_title w)) ws" for ws
    using that by (induction ws) (simp_all add: decode_encode_window)
  then show ?thesis using a by (simp add: decode_snapshot_def encode_snapshot_def finite_number_def jget_later)
qed

lemma holding_planned: "list_all (planned cfg ev) ws \<Longrightarrow> holding cfg ev ws = ws"
  by (induction ws) (auto simp: holding_def planned_def holds_alerts_def event_of_window_def)

text \<open>
  C29. A restart during a patch round still knows the round: after a refresh whose file could be
  written, a fresh process that loads the file has the very snapshot the old one used, its age
  included, so every query gives what it gave before.
\<close>

theorem snapshot_survives_a_restart:
  assumes "list_all admitted evs" and "refresh cfg ev now later (Inr evs) True p = (True, p')"
    and "snap p' = Some s" and "encodes s"
  shows "load cfg ev (new_provider (disk p')) = (True, (new_provider (disk p'))\<lparr>snap := snap p'\<rparr>) \<and>
    fst (active cfg wall t (snd (load cfg ev (new_provider (disk p'))))) = fst (active cfg wall t p') \<and>
    fst (ended_within cfg wall t back_to (snd (load cfg ev (new_provider (disk p'))))) = fst (ended_within cfg wall t back_to p')"
proof -
  have s: "s = \<lparr>fetched_at = now, windows = windows_of_events cfg ev evs\<rparr>" and f: "disk p' = File_Holds (encode_snapshot s)"
    using assms(2-4) by (auto simp: refresh_def Let_def)
  have pl: "list_all (planned cfg ev) (windows s)" using windows_of_events_planned [OF assms(1)] by (simp add: s)
  then have "list_all (\<lambda>w. mw_id w \<noteq> [] \<and> prefix TITLE_PREFIX (mw_title w)) (windows s)"
    by (simp add: list_all_iff planned_def)
  then have "decode_snapshot (encode_snapshot s) = Some s" by (rule decode_encode)
  then have l: "load cfg ev (new_provider (disk p')) = (True, (new_provider (disk p'))\<lparr>snap := snap p'\<rparr>)"
    using holding_planned [OF pl] assms(3) by (simp add: load_def new_provider_def f)
  show ?thesis unfolding l
    by (simp add: active_def ended_within_def usable_def case_prod_unfold Let_def assms(3))
qed

section \<open>What the pipeline may hold\<close>

lemma latest_window_in: "latest_window ws = Some w \<Longrightarrow> w \<in> set ws"
  by (induction ws arbitrary: w) (auto split: option.splits if_splits)

lemma ledger_hold_row:
  assumes "ledger_hold okay now ev published ws L = (r, L')" and "e \<in> set (held_events (holds L'))"
  shows "e \<in> set (held_events (holds L)) \<or>
    he_id e = ev_id ev \<and> he_published e = published \<and> (\<exists>w \<in> set ws. he_window e = win_id w)"
proof (cases "ev_id ev = [] \<or> ws = [] \<or> \<not> okay \<or> latest_window (filter (is_open L) ws) = None")
  case True
  then show ?thesis using assms by (auto simp: ledger_hold_def split: if_splits)
next
  case False
  then obtain w where w: "latest_window (filter (is_open L) ws) = Some w" by auto
  then have "w \<in> set ws" using latest_window_in by fastforce
  moreover obtain q s where h: "store_hold w (held_row ev (win_id w) published now) (holds L) = (q, s)" by fastforce
  moreover have "holds L' = s" using assms False w h by (cases q) (auto simp: ledger_hold_def)
  ultimately show ?thesis using assms(2) store_hold_rows(1) [OF h]
    by (cases q) (auto simp: held_row_def)
qed

lemma partition_loop_rows:
  "partition_loop env now known evs L = (survivors, L') \<Longrightarrow> e \<in> set (held_events (holds L')) \<Longrightarrow>
     e \<in> set (held_events (holds L)) \<or>
     (\<exists>ev \<in> set evs. he_id e = ev_id ev \<and> he_published e = publish_time ev \<and>
        (\<exists>source ws. active_at env = Some source \<and> source (publish_time ev) = Some ws \<and>
          (\<exists>w \<in> set ws. he_window e = win_id w)))"
proof (induction evs arbitrary: L survivors)
  case (Cons ev evs)
  show ?case
  proof (cases "ev_id ev \<noteq> [] \<and> ev_id ev \<in> set known \<or> active_at env = None")
    case True
    then obtain q where "partition_loop env now known evs L = (q, L')"
      using Cons.prems(1) by (auto split: if_splits prod.splits)
    from Cons.IH [OF this Cons.prems(2)] show ?thesis by auto
  next
    case False
    then obtain source where src: "active_at env = Some source" by auto
    define ws where "ws = (case source (publish_time ev) of None \<Rightarrow> [] | Some ws \<Rightarrow> ws)"
    obtain r L1 where h: "ledger_hold (hold_ok env ev) now ev (publish_time ev) ws L = (r, L1)" by fastforce
    obtain q where rest: "partition_loop env now known evs L1 = (q, L')"
      using Cons.prems(1) False src h by (auto simp: ws_def Let_def split: if_splits prod.splits)
    from Cons.IH [OF rest Cons.prems(2)] show ?thesis
    proof
      assume "e \<in> set (held_events (holds L1))"
      from ledger_hold_row [OF h this] show ?thesis
        by (cases "source (publish_time ev)") (auto simp: src ws_def)
    qed auto
  qed
qed simp


section \<open>Witnesses\<close>

definition sample_item :: json where
  "sample_item = J_Obj [(cps ''status'', J_Str (cps ''confirmed'')), (cps ''summary'', J_Str (cps ''Homelab patch'')),
     (cps ''creator'', J_Obj [(cps ''email'', J_Str [97])]), (cps ''id'', J_Str [120]),
     (cps ''start'', J_Obj [(cps ''dateTime'', J_Str [115])]), (cps ''end'', J_Obj [(cps ''dateTime'', J_Str [101])])]"

definition sample_admission :: admission where
  "sample_admission = \<lparr>adm_iso = (\<lambda>s. Some (if s = [115] then 100 else 3700)), adm_casefold = (\<lambda>s. s),
     creator_allowlist = [[97]], own_email = [98]\<rparr>"

definition sample_event :: calendar_event where
  "sample_event = \<lparr>ce_id = [120], ce_title = cps ''Homelab patch'', ce_start = Some 100, ce_end = Some 3700,
     ce_start_date = None, ce_end_date = None\<rparr>"

definition sample_services :: services where
  "sample_services = \<lparr>sv_world = (\<lambda>_. \<lparr>ex_now = 0, ex_token = Http_Timeout,
       ex_http = Http_Answer 200 (Some (J_Obj [(cps ''items'', J_List [sample_item])]))\<rparr>),
     sv_float = (\<lambda>_. Inl ()), sv_inf = False, sv_str = (\<lambda>_. []), sv_admission = sample_admission\<rparr>"

definition sample_client :: client where
  "sample_client = \<lparr>cl_tokens = \<lparr>tk_token = Some [116], tk_expires = Some 3600, tk_endless = False\<rparr>, cl_next = 0,
     cl_requests = []\<rparr>"

definition sample_calendar :: calendar_cfg where
  "sample_calendar = \<lparr>cal_enabled = True, hold_alerts = True, lookahead_days = 14, refresh_seconds = 300,
     grace_minutes = 30, max_window_hours = 8, stale_after_seconds = 21600\<rparr>"

lemma sample_admitted: "admit sample_admission sample_item = Some sample_event"
  by (simp add: admit_def sample_admission_def sample_item_def sample_event_def jget_def cps_def creator_email_def
      with_times_def iso_instant_def TITLE_PREFIX_def)

lemma sample_listing:
  "list_window sample_services sample_client =
     (Inr [sample_event], sample_client\<lparr>cl_next := 1, cl_requests := [List_Events None [116]]\<rparr>)"
  by (simp add: list_window_def MAX_PAGES_def numeral_eq_Suc call_def send_once_def get_token_def still_valid_def
      sample_services_def sample_client_def TOKEN_EXPIRY_MARGIN_SECONDS_def readable_def jhas_def jget_later jget_def
      cps_def List.map_filter_def sample_admitted)


definition sample_window :: window where
  "sample_window = \<lparr>mw_id = [120], mw_title = cps ''Homelab patch'', mw_start = 100, mw_end = 3700\<rparr>"

lemma sample_windows: "windows_of_events sample_calendar True [sample_event] = [sample_window]"
  by (simp add: windows_of_events_def List.map_filter_def sample_event_def window_of_event_def holds_alerts_def
      sample_calendar_def sample_window_def)

lemma sample_provider:
  "snap (foldl (provider_next sample_calendar True) (new_provider File_Missing) [Refresh 0 0 sample_services sample_client True]) =
     Some \<lparr>fetched_at = 0, windows = [sample_window]\<rparr>"
  by (simp add: sample_listing refresh_def Let_def sample_windows)

lemma sample_active:
  "fst (active sample_calendar 10 t
     (foldl (provider_next sample_calendar True) (new_provider File_Missing) [Refresh 0 0 sample_services sample_client True])) =
   (if 100 \<le> t \<and> t < 5500 then [sample_window] else [])"
  using sample_provider
  by (simp add: active_def usable_def case_prod_unfold Let_def sample_calendar_def sample_window_def grace_seconds_def)

theorem active_windows_are_planned_and_bounded_witness:
  "mw_start sample_window \<le> 5000 \<and>
   5000 < mw_start sample_window + of_nat (max_window_hours sample_calendar) * 3600 + grace_seconds sample_calendar"
  using active_windows_are_planned_and_bounded [OF refl, of sample_window sample_calendar 10 5000 True
      "File_Missing" "[Refresh 0 0 sample_services sample_client True]"]
  by (simp only: sample_active) simp

theorem snapshot_survives_a_restart_witness:
  "load sample_calendar True (new_provider (File_Holds (encode_snapshot \<lparr>fetched_at = 0, windows = [sample_window]\<rparr>))) =
     (True, (new_provider (File_Holds (encode_snapshot \<lparr>fetched_at = 0, windows = [sample_window]\<rparr>)))
       \<lparr>snap := Some \<lparr>fetched_at = 0, windows = [sample_window]\<rparr>\<rparr>)"
proof -
  let ?s = "\<lparr>fetched_at = 0, windows = [sample_window]\<rparr>"
  let ?p = "(new_provider File_Missing)\<lparr>snap := Some ?s, disk := File_Holds (encode_snapshot ?s)\<rparr>"
  have enc: "encodes ?s" by (simp add: encodes_def sample_window_def encodable_def cps_def)
  then have r: "refresh sample_calendar True 0 0 (Inr [sample_event]) True (new_provider File_Missing) = (True, ?p)"
    by (simp add: refresh_def sample_windows new_provider_def Let_def)
  have "list_all admitted [sample_event]" by (simp add: admitted_def sample_event_def TITLE_PREFIX_def cps_def)
  from snapshot_survives_a_restart [OF this r _ enc] show ?thesis by simp
qed

definition patched_host :: event where
  "patched_host = \<lparr>ev_id = [49], ev_title = cps ''host down'', ev_message = [], arrival_time = 205, published_at = Some 200\<rparr>"

definition patch_env :: dispatch_env where
  "patch_env = \<lparr>has_ledger = True, known_ok = True, hold_ok = (\<lambda>_. True),
     active_at = Some (\<lambda>t. Some (map as_hold_window (fst (active sample_calendar 10 t
       (foldl (provider_next sample_calendar True) (new_provider File_Missing) [Refresh 0 0 sample_services sample_client True]))))),
     audit_ok = None\<rparr>"

lemma patch_active: "active_at patch_env = Some (\<lambda>t. Some (if 100 \<le> t \<and> t < 5500 then [as_hold_window sample_window] else []))"
  unfolding patch_env_def sample_active by (simp cong: if_cong add: if_distrib [of "map as_hold_window"])


end
