(* ===== verification/Calendar_Tool.thy ===== *)
theory Calendar_Tool
  imports Calendar Titles Gate "HOL-Library.List_Lexorder"
begin

text \<open>
  \<open>henk/tools/calendar.py\<close>: the rules for the arguments of \<open>calendar_create_event\<close>, its run with the
  approval reference it consumes and its receipt, and the listing of \<open>calendar_upcoming\<close>. Parameters
  stand for the Unicode category test (\<open>refused_char\<close>), \<open>date.fromisoformat\<close> (\<open>date_of\<close>, a proleptic
  ordinal) and, through the client, \<open>datetime.fromisoformat\<close>.
\<close>

section \<open>Results\<close>

datatype tool_outcome = Succeeded str | Refused str | Tool_Raised

definition NOTHING_CREATED :: str where "NOTHING_CREATED = cps ''nothing was created''"

definition refuse_with :: "str \<Rightarrow> tool_outcome" where
  "refuse_with problem = Refused (NOTHING_CREATED @ [58, 32] @ problem)"

definition plural :: "nat \<Rightarrow> str \<Rightarrow> str" where
  "plural n noun = (if n = 1 then decimal n @ [32] @ noun else decimal n @ [32] @ noun @ [115])"

section \<open>Argument rules\<close>

definition TITLE_MAX_CHARS :: nat where "TITLE_MAX_CHARS = 100"

definition SHORT_WEEKDAYS :: "str list" where
  "SHORT_WEEKDAYS = map (take 3) WEEKDAYS"

definition WHITESPACE_AND_DELIMITER_RULE :: str where
  "WHITESPACE_AND_DELIMITER_RULE =
     cps (''the title may contain single spaces only (no leading, trailing, repeated or '' @
       ''other whitespace) and no < or > at all (the approval prompt quotes it inside '' @
       ''<<< >>>), so the prompt shows it exactly as it will be written'')"

definition title_problem :: "(nat \<Rightarrow> bool) \<Rightarrow> json \<Rightarrow> str option" where
  "title_problem refused_char v =
     (case as_str v of
        None \<Rightarrow> Some (cps ''the title must be text'')
      | Some title \<Rightarrow>
          if \<not> prefix TITLE_PREFIX title
          then Some (cps (''the title must start with `Homelab` (the prefix rule: Henk '' @
            ''only writes and reads Homelab events)''))
          else if TITLE_MAX_CHARS < length title
          then Some (cps ''the title is '' @ decimal (length title) @ cps '' characters long; the limit is '' @
            decimal TITLE_MAX_CHARS)
          else if list_ex refused_char title
          then Some (cps ''the title contains a control or invisible formatting character'')
          else if title \<noteq> strip title \<or> contains [32, 32] title \<or> list_ex (\<lambda>c. is_space c \<and> c \<noteq> 32) title \<or>
            list_ex (\<lambda>c. c \<in> {60, 62}) title
          then Some WHITESPACE_AND_DELIMITER_RULE
          else None)"

definition is_digit :: "nat \<Rightarrow> bool" where
  "is_digit c \<longleftrightarrow> 48 \<le> c \<and> c \<le> 57"

text \<open>\<open>_WALL_TIME.fullmatch\<close>: the shape \<open>Ddd YYYY-MM-DD HH:MM\<close>, all 20 characters of it.\<close>

definition wall_shape :: "str \<Rightarrow> bool" where
  "wall_shape s \<longleftrightarrow>
     length s = 20 \<and> take 3 s \<in> set SHORT_WEEKDAYS \<and> s ! 3 = 32 \<and>
     list_all (\<lambda>i. is_digit (s ! i)) [4, 5, 6, 7, 9, 10, 12, 13, 15, 16, 18, 19] \<and>
     s ! 8 = 45 \<and> s ! 11 = 45 \<and> s ! 14 = 32 \<and> s ! 17 = 58"

definition number_at :: "str \<Rightarrow> nat list \<Rightarrow> int" where
  "number_at s is = foldl (\<lambda>a i. a * 10 + (int (s ! i) - 48)) 0 is"

definition wall_fields :: "str \<Rightarrow> naive" where
  "wall_fields s =
     \<lparr>nv_year = number_at s [4, 5, 6, 7], nv_month = number_at s [9, 10], nv_day = number_at s [12, 13],
      nv_hour = number_at s [15, 16], nv_minute = number_at s [18, 19], nv_second = 0, nv_micro = 0\<rparr>"

definition wall_time :: "str \<Rightarrow> json \<Rightarrow> str + int" where
  "wall_time name v =
     (let shape = Inl (name @ cps ('' must be Ddd YYYY-MM-DD HH:MM in the owner'' @ [CHR 0x27] @ ''s local time, for '' @
            ''example Sat 2026-11-07 20:00''))
      in case as_str v of
           None \<Rightarrow> shape
         | Some s \<Rightarrow>
             if \<not> wall_shape s then shape
             else (let n = wall_fields s; w = wall_of n
               in if \<not> valid_naive n then Inl (name @ [32] @ s @ cps '' names no real date and time'')
                  else if SHORT_WEEKDAYS ! nat (weekday w) \<noteq> take 3 s
                  then Inl (name @ cps '' says '' @ take 3 s @ cps '', but '' @ take 10 (drop 4 s) @ cps '' is a '' @
                    WEEKDAYS ! nat (weekday w))
                  else Inr w))"

definition duration_text :: "int \<Rightarrow> str" where
  "duration_text seconds =
     (let q = seconds div 60; r = seconds mod 60;
          minutes = (if r < 30 then q else if 30 < r then q + 1 else if even q then q else q + 1);
          hours = nat (minutes div 60); m = nat (minutes mod 60)
      in if m = 0 then plural hours (cps ''hour'') else plural hours (cps ''hour'') @ [32] @ plural m (cps ''minute''))"

definition PAST_TOLERANCE_SECONDS :: secs where "PAST_TOLERANCE_SECONDS = 15 * 60"
definition MAX_DAYS_AHEAD :: nat where "MAX_DAYS_AHEAD = 90"

definition wall_text :: "int \<Rightarrow> str" where
  "wall_text w =
     (let n = naive_at w 0
      in SHORT_WEEKDAYS ! nat (weekday w) @ [32] @ pad4 (nv_year n) @ [45] @ pad2 (nv_month n) @ [45] @
         pad2 (nv_day n) @ [32] @ hhmm w)"

definition timing_problem :: "calendar_cfg \<Rightarrow> zone \<Rightarrow> secs \<Rightarrow> int \<Rightarrow> int \<Rightarrow> str option" where
  "timing_problem cfg z now s e =
     (let gap = (\<lambda>name w. Some (name @ [32] @ wall_text w @ cps '' does not exist in '' @ zone_key z @
            cps '': the clocks skip that time''));
          begins = timestamp z s False; ends = timestamp z e False
      in if classify_local z s = IMAGINARY then gap (cps ''start'') s
         else if classify_local z e = IMAGINARY then gap (cps ''end'') e
         else if ends \<le> begins then Some (cps ''the end must be after the start'')
         else if int (max_window_hours cfg) * 3600 < ends - begins
         then Some (cps ''the event would last '' @ duration_text (ends - begins) @ cps '', over the '' @
           decimal (max_window_hours cfg) @ cps ''-hour limit (calendar.max_window_hours)'')
         else if of_int begins < now - PAST_TOLERANCE_SECONDS
         then Some (cps ''the start is more than 15 minutes in the past'')
         else if now + of_nat MAX_DAYS_AHEAD * 86400 < of_int begins
         then Some (cps ''the start is more than '' @ decimal MAX_DAYS_AHEAD @ cps '' days ahead'')
         else None)"

section \<open>The approval's reference\<close>

definition CREATE_TOOL_NAME :: str where "CREATE_TOOL_NAME = cps ''calendar_create_event''"
definition APPROVED_OUTCOME :: str where "APPROVED_OUTCOME = cps ''approved''"

text \<open>\<open>ApprovalReferences\<close>: a slot the gate's decisions fill and the tool empties.\<close>

definition note_decision :: "str \<Rightarrow> str \<Rightarrow> json \<Rightarrow> str option \<Rightarrow> str option" where
  "note_decision tool outcome ref_value latest =
     (if tool = CREATE_TOOL_NAME \<and> outcome = APPROVED_OUTCOME
      then (case as_str ref_value of Some (c # cs) \<Rightarrow> Some (c # cs) | _ \<Rightarrow> None) else latest)"

definition take_reference :: "str option \<Rightarrow> str option \<times> str option" where
  "take_reference latest = (latest, None)"

section \<open>Creating an event\<close>

definition argument_problem :: "(nat \<Rightarrow> bool) \<Rightarrow> json_obj \<Rightarrow> str option" where
  "argument_problem refused_char args =
     (let expected = [cps ''title'', cps ''start'', cps ''end''];
          unexpected = filter (\<lambda>k. k \<notin> set expected) (map fst args);
          missing = filter (\<lambda>k. \<not> jhas args k) expected
      in if unexpected \<noteq> []
         then Some (cps ''unexpected argument '' @ join [44, 32] (sort unexpected) @
           cps ''; calendar_create_event takes exactly title, start and end'')
         else if missing \<noteq> [] then Some (cps ''missing argument '' @ join [44, 32] missing)
         else title_problem refused_char (jget args (cps ''title'')))"

definition insert_failure :: "calendar_error \<Rightarrow> str" where
  "insert_failure e =
     (if forbidden e
      then NOTHING_CREATED @ cps ('': Henk'' @ [CHR 0x27] @ ''s account cannot write to the calendar (Google answered 403). '' @
        ''The calendar'' @ [CHR 0x27] @ ''s sharing must give it permission to make changes to events.'')
      else (case error_status e of
          Some n \<Rightarrow>
            if 400 \<le> n \<and> n < 500
            then cps ''the event was not created: Google refused the insert (answered '' @ int_text n @ [41]
            else cps ''Henk could not confirm the insert ('' @ error_text e @
              cps (''). The event may have been created anyway: check the calendar '' @ ''before asking again.'')
        | None \<Rightarrow> cps ''Henk could not confirm the insert ('' @ error_text e @
            cps (''). The event may have been created anyway: check the calendar '' @ ''before asking again.'')))"

definition created_text :: "(str \<Rightarrow> secs option) \<Rightarrow> calendar_cfg \<Rightarrow> bool \<Rightarrow> zone \<Rightarrow> str \<Rightarrow> inserted_event \<Rightarrow> str option" where
  "created_text iso_of cfg events_enabled z title ins =
     (case (iso_of (in_start ins), iso_of (in_end ins)) of
        (Some b, Some e) \<Rightarrow>
          Some (cps ''Created '' @ [34] @ title @ [34, 44, 32] @ render_instant z b @ cps '' until '' @ render_instant z e @ [46] @
            (if holds_alerts cfg events_enabled \<lparr>ce_id = in_id ins, ce_title = title, ce_start = Some b, ce_end = Some e,
                  ce_start_date = None, ce_end_date = None\<rparr>
             then cps '' Alerts to Henk are held until '' @ render_instant z (e + of_nat (grace_minutes cfg) * 60) @ [46]
             else []))
      | _ \<Rightarrow> None)"

definition nonexistent_text :: "zone \<Rightarrow> int \<Rightarrow> str" where
  "nonexistent_text z w =
     (let n = naive_at w 0
      in int_text (nv_year n) @ [45] @ pad2 (nv_month n) @ [45] @ pad2 (nv_day n) @ [32] @ hhmm w @
         cps '' does not exist in '' @ zone_key z)"

record create_env =
  cr_cfg :: calendar_cfg
  cr_zone :: zone
  cr_events_enabled :: bool
  cr_services :: services
  cr_refused_char :: "nat \<Rightarrow> bool"
  cr_receipts :: "bool option"          \<comment> \<open>whether the receipt can be written; \<open>None\<close> without receipts\<close>

record calendar_receipt =
  rc_event :: str
  rc_start :: str
  rc_end :: str
  rc_reference :: str

text \<open>The tail of \<open>_run\<close>: the insert, its failures as results, and the receipt.\<close>

definition insert_outcome :: "create_env \<Rightarrow> str \<Rightarrow> insert_refusal + inserted_event \<Rightarrow> tool_outcome" where
  "insert_outcome env title r =
     (case r of
        Inl Bad_Prefix \<Rightarrow> Tool_Raised
      | Inl (Nonexistent w) \<Rightarrow> refuse_with (nonexistent_text (cr_zone env) w)
      | Inl (Calendar_Failed err) \<Rightarrow>
          if err = Sign_In Token_Overflow then Tool_Raised else Refused (insert_failure err)
      | Inr ins \<Rightarrow>
          (case created_text (adm_iso (sv_admission (cr_services env))) (cr_cfg env) (cr_events_enabled env) (cr_zone env) title ins of
             None \<Rightarrow> Tool_Raised | Some t \<Rightarrow> Succeeded t))"

definition receipts_of :: "create_env \<Rightarrow> str option \<Rightarrow> insert_refusal + inserted_event \<Rightarrow> calendar_receipt list" where
  "receipts_of env ref_taken r =
     (case r of
        Inl _ \<Rightarrow> []
      | Inr ins \<Rightarrow>
          if cr_receipts env = Some True
          then [\<lparr>rc_event = in_id ins, rc_start = in_start ins, rc_end = in_end ins,
                 rc_reference = (case ref_taken of None \<Rightarrow> [] | Some ref \<Rightarrow> ref)\<rparr>]
          else [])"

definition perform_insert :: "create_env \<Rightarrow> str \<Rightarrow> int \<Rightarrow> int \<Rightarrow> str option \<Rightarrow> client \<Rightarrow>
    tool_outcome \<times> client \<times> calendar_receipt list" where
  "perform_insert env title s e ref_taken c =
     (let (r, c1) = insert_event (cr_services env) (cr_zone env) title s e c
      in (insert_outcome env title r, c1, receipts_of env ref_taken r))"

text \<open>
  \<open>_run\<close> of the create tool: the outcome, the emptied reference slot, the client, and the receipt
  it wrote.
\<close>

definition create_event :: "create_env \<Rightarrow> secs \<Rightarrow> json_obj \<Rightarrow> str option \<Rightarrow> client \<Rightarrow>
    tool_outcome \<times> str option \<times> client \<times> calendar_receipt list" where
  "create_event env now args latest c =
     (let (ref_taken, emptied) = take_reference latest;
          stop = (\<lambda>problem. (refuse_with problem, emptied, c, []))
      in case argument_problem (cr_refused_char env) args of
           Some problem \<Rightarrow> stop problem
         | None \<Rightarrow>
             (case wall_time (cps ''start'') (jget args (cps ''start'')) of
                Inl problem \<Rightarrow> stop problem
              | Inr s \<Rightarrow>
                  (case wall_time (cps ''end'') (jget args (cps ''end'')) of
                     Inl problem \<Rightarrow> stop problem
                   | Inr e \<Rightarrow>
                       (case timing_problem (cr_cfg env) (cr_zone env) now s e of
                          Some problem \<Rightarrow> stop problem
                        | None \<Rightarrow>
                            if cr_receipts env \<noteq> None \<and> ref_taken = None
                            then stop (cps (''Henk found no approval reference to receipt this write against, so it was '' @
                              ''not made. This is a fault in Henk, not something the owner did.''))
                            else (case as_str (jget args (cps ''title'')) of
                                None \<Rightarrow> (Tool_Raised, emptied, c, [])
                              | Some title \<Rightarrow>
                                  (let (out, c1, rcs) = perform_insert env title s e ref_taken c
                                   in (out, emptied, c1, rcs)))))))"

section \<open>Listing\<close>

definition UPCOMING_MAX_EVENTS :: nat where "UPCOMING_MAX_EVENTS = 50"

definition render_date :: "int \<Rightarrow> str" where
  "render_date ord =
     (let w = (ord - EPOCH_ORD) * 86400; n = naive_at w 0
      in WEEKDAYS ! nat (weekday w) @ [32] @ int_text (nv_day n) @ [32] @ MONTHS ! nat (nv_month n - 1))"

text \<open>
  \<open>_all_day_span\<close>; \<open>None\<close> where the subtraction of a day raises, which is no \<open>ValueError\<close>: an
  exclusive end on the first day of the calendar.
\<close>

definition all_day_span :: "(str \<Rightarrow> int option) \<Rightarrow> calendar_event \<Rightarrow> str option" where
  "all_day_span date_of e =
     (let day = (\<lambda>d. date_of (case d of None \<Rightarrow> [] | Some s \<Rightarrow> s))
      in case (day (ce_start_date e), day (ce_end_date e)) of
           (Some first, Some after) \<Rightarrow>
             if after \<le> 1 then None
             else Some (if after - 1 \<le> first then render_date first @ cps '' (all day)''
               else render_date first @ [32, 8211, 32] @ render_date (after - 1) @ cps '' (all day)'')
         | _ \<Rightarrow> Some (cps ''an unreadable date (all day)''))"

text \<open>The key of the sort: an event whose date is unreadable comes last.\<close>

definition upcoming_key :: "(str \<Rightarrow> int option) \<Rightarrow> zone \<Rightarrow> calendar_event \<Rightarrow> bool \<times> secs" where
  "upcoming_key date_of z e =
     (case ce_start e of
        Some s \<Rightarrow> (False, s)
      | None \<Rightarrow>
          (case date_of (case ce_start_date e of None \<Rightarrow> [] | Some s \<Rightarrow> s) of
             None \<Rightarrow> (True, 0)
           | Some ord \<Rightarrow> (False, of_int (timestamp z ((ord - EPOCH_ORD) * 86400) False))))"

definition upcoming_line :: "(str \<Rightarrow> int option) \<Rightarrow> calendar_cfg \<Rightarrow> bool \<Rightarrow> zone \<Rightarrow> calendar_event \<Rightarrow> str option" where
  "upcoming_line date_of cfg events_enabled z e =
     (case (case (ce_start e, ce_end e) of
        (Some s, Some t) \<Rightarrow> Some (render_instant z s @ [32, 8211, 32] @ render_instant z t)
      | _ \<Rightarrow> all_day_span date_of e) of
        None \<Rightarrow> None
      | Some when \<Rightarrow>
          Some (when @ [32] @ render_title (ce_title e) @
            (if holds_alerts cfg events_enabled e then cps '' (holds alerts)'' else [])))"

definition upcoming :: "(str \<Rightarrow> int option) \<Rightarrow> calendar_cfg \<Rightarrow> bool \<Rightarrow> zone \<Rightarrow> services \<Rightarrow> str list \<Rightarrow> client \<Rightarrow>
    tool_outcome \<times> client" where
  "upcoming date_of cfg events_enabled z sv args c =
     (if args \<noteq> []
      then (Refused (cps ''calendar_upcoming takes no arguments (got '' @ join [44, 32] (sort args) @
        cps ''); its period is configured''), c)
      else (let (r, c1) = list_window sv c; period = cps ''the next '' @ plural (lookahead_days cfg) (cps ''day'')
        in case r of
             Inl (Sign_In Token_Overflow) \<Rightarrow> (Tool_Raised, c1)
           | Inl err \<Rightarrow> (Refused (cps ''the calendar could not be read ('' @ error_text err @
               cps ''); this is a failure, not an empty calendar''), c1)
           | Inr events \<Rightarrow>
               if events = [] then (Succeeded (cps ''No Homelab events are planned in '' @ period @ [46]), c1)
               else (let ordered = sort_key (upcoming_key date_of z) events;
                         lines = map (upcoming_line date_of cfg events_enabled z) (take UPCOMING_MAX_EVENTS ordered)
                 in if list_ex (\<lambda>l. l = None) lines then (Tool_Raised, c1)
                    else (Succeeded (join [10]
                      ((cps ''Homelab events planned in '' @ period @ cps '', soonest first:'') #
                       map (\<lambda>l. [45, 32] @ the l) lines @
                       (if UPCOMING_MAX_EVENTS < length events
                        then [cps ''...and '' @ plural (length events - UPCOMING_MAX_EVENTS) (cps ''later event'') @ cps '' not shown.'']
                        else []))), c1))))"

end
