(* ===== verification/Calendar_Tool_Properties.thy ===== *)
theory Calendar_Tool_Properties
  imports Calendar_Tool Calendar_Properties Signal_Properties
begin

text \<open>
  The properties of the calendar's create tool: what the owner approves is what is written, an
  approval serves one run, and a receipt names the approval and the event.
\<close>

section \<open>Accepted text passes the prompt unchanged\<close>

lemma join_split_acc:
  "list_all (\<lambda>c. is_space c \<longrightarrow> c = 32) s \<Longrightarrow> \<not> contains [32, 32] s \<Longrightarrow> (s \<noteq> [] \<Longrightarrow> last s \<noteq> 32) \<Longrightarrow>
     (w = [] \<Longrightarrow> s \<noteq> [] \<Longrightarrow> hd s \<noteq> 32) \<Longrightarrow> join [32] (split_acc w s) = rev w @ s"
proof (induction s arbitrary: w)
  case (Cons c cs)
  show ?case
  proof (cases "is_space c")
    case True
    then have c: "c = 32" and w: "w \<noteq> []" using Cons.prems by auto
    have cs: "cs \<noteq> []" using Cons.prems(3) c by auto
    then obtain d ds where d: "cs = d # ds" by (cases cs) auto
    have "d \<noteq> 32" using Cons.prems(2) by (auto simp: c d)
    then have "join [32] (split_acc [] cs) = cs"
      using Cons.IH [of "[]"] Cons.prems cs by (simp add: d)
    moreover have "split_acc [] cs \<noteq> []" using calculation cs by (metis join.simps(1))
    then have "join [32] (rev w # split_acc [] cs) = rev w @ [32] @ join [32] (split_acc [] cs)"
      by (cases "split_acc [] cs") simp_all
    ultimately show ?thesis using True w by (simp add: c)
  next
    case False
    then show ?thesis using Cons.IH [of "c # w"] Cons.prems by (cases cs) simp_all
  qed
qed simp

lemma bound_identity:
  assumes "list_all (\<lambda>c. is_space c \<longrightarrow> c = 32) s" and "\<not> contains [32, 32] s" and "s \<noteq> []" and "hd s \<noteq> 32"
    and "last s \<noteq> 32" and "length s \<le> 200"
  shows "bound_argument (Text_Value s) = s"
  using join_split_acc [of s "[]"] assms by (simp add: bound_argument_def split_ws_def Let_def ARGUMENT_MAX_CHARS_def)

lemma strip_identity: "60 \<notin> set s \<Longrightarrow> 62 \<notin> set s \<Longrightarrow> strip_delims s = s"
proof -
  assume a: "60 \<notin> set s" "62 \<notin> set s"
  have "\<not> contains OPEN_DELIM s" "\<not> contains CLOSE_DELIM s"
    using a by (auto simp: contains_iff OPEN_DELIM_def CLOSE_DELIM_def cps_def)
  then show ?thesis by (simp add: strip_delims.simps [of s])
qed

definition shown_as_is :: "str \<Rightarrow> bool" where
  "shown_as_is s \<longleftrightarrow> bound_argument (Text_Value s) = s \<and> value_text False s = OPEN_DELIM @ s @ CLOSE_DELIM"

lemma accepted_title_shown:
  assumes "title_problem rc (J_Str t) = None"
  shows "shown_as_is t" "prefix TITLE_PREFIX t" "length t \<le> 100"
proof -
  have p: "prefix TITLE_PREFIX t" "length t \<le> 100" "t = strip t" "\<not> contains [32, 32] t"
    "list_all (\<lambda>c. is_space c \<longrightarrow> c = 32) t" "60 \<notin> set t" "62 \<notin> set t"
    using assms by (auto simp: title_problem_def TITLE_MAX_CHARS_def list_ex_iff list_all_iff split: if_splits)
  have ne: "t \<noteq> []" using p(1) by (auto simp: TITLE_PREFIX_def cps_def)
  have "\<not> is_space (hd t)" "\<not> is_space (last t)" using strip_ends [of t] p(3) ne by metis+
  moreover have "is_space 32" by (simp add: is_space_def)
  ultimately have "hd t \<noteq> 32" "last t \<noteq> 32" by auto
  then have "bound_argument (Text_Value t) = t" using bound_identity p ne by simp
  moreover have "strip_delims t = t" by (rule strip_identity [OF p(6,7)])
  ultimately show "shown_as_is t" by (simp add: shown_as_is_def value_text_def)
  show "prefix TITLE_PREFIX t" "length t \<le> 100" by (rule p)+
qed

lemma short_weekdays: "SHORT_WEEKDAYS = [[77, 111, 110], [84, 117, 101], [87, 101, 100], [84, 104, 117], [70, 114, 105],
    [83, 97, 116], [83, 117, 110]]"
  by (simp add: SHORT_WEEKDAYS_def WEEKDAYS_def cps_def)

lemma below_20: "{0 ..< 20 :: nat} = {0, 1, 2} \<union> {3, 14} \<union> {8, 11, 17} \<union> {4, 5, 6, 7, 9, 10, 12, 13, 15, 16, 18, 19}"
  by (simp add: atLeastLessThan_nat_numeral) blast

lemma wall_char:
  assumes "wall_shape s" and "i < 20"
  shows "(s ! i = 32 \<and> i \<in> {3, 14}) \<or> (\<not> is_space (s ! i) \<and> s ! i \<noteq> 60 \<and> s ! i \<noteq> 62 \<and> i \<notin> {3, 14})"
proof -
  have sh: "length s = 20" "take 3 s \<in> set SHORT_WEEKDAYS" "s ! 3 = 32" "s ! 14 = 32" "s ! 8 = 45" "s ! 11 = 45" "s ! 17 = 58"
    "\<And>j. j \<in> {4, 5, 6, 7, 9, 10, 12, 13, 15, 16, 18, 19} \<Longrightarrow> is_digit (s ! j)"
    using assms(1) by (auto simp: wall_shape_def)
  have letters: "\<not> is_space (s ! i) \<and> s ! i \<noteq> 60 \<and> s ! i \<noteq> 62" if "i \<in> {0, 1, 2}"
  proof -
    have "take 3 s ! i = s ! i" using that by auto
    moreover have "c \<notin> {60, 62} \<and> \<not> is_space c" if "w \<in> set SHORT_WEEKDAYS" "c \<in> set w" for w c
    proof -
      have "60 < c \<and> c < 128 \<and> c \<noteq> 62" using that by (auto simp: short_weekdays)
      then show ?thesis by (auto simp: is_space_def)
    qed
    moreover have "take 3 s ! i \<in> set (take 3 s)" using that sh(1) by (intro nth_mem) auto
    ultimately show ?thesis using sh(2) by fastforce
  qed
  have digits: "\<not> is_space c \<and> c \<noteq> 60 \<and> c \<noteq> 62" if "is_digit c" for c
    using that by (auto simp: is_digit_def is_space_def)
  have seps: "\<not> is_space 45" "\<not> is_space 58" by (simp_all add: is_space_def)
  have "i \<in> {0 ..< 20}" using assms(2) by simp
  then show ?thesis unfolding below_20
  proof (elim UnE)
    assume "i \<in> {0, 1, 2}"
    then have "i \<notin> {3, 14}" by auto
    then show ?thesis using letters [OF \<open>i \<in> {0, 1, 2}\<close>] by blast
  next
    assume "i \<in> {3, 14}"
    then show ?thesis using sh(3,4) by blast
  next
    assume i: "i \<in> {8, 11, 17}"
    then have "s ! i = 45 \<or> s ! i = 58" using sh(5-7) by blast
    moreover have "i \<notin> {3, 14}" using i by auto
    ultimately show ?thesis using seps by fastforce
  next
    assume d: "i \<in> {4, 5, 6, 7, 9, 10, 12, 13, 15, 16, 18, 19}"
    then have "i \<notin> {3, 14}" by auto
    then show ?thesis using digits [OF sh(8) [OF d]] by blast
  qed
qed

lemma wall_shown:
  assumes "wall_shape s"
  shows "shown_as_is s"
proof -
  have len: "length s = 20" using assms by (simp add: wall_shape_def)
  have all: "P (s ! i)" if "i < 20" "\<And>c. c = 32 \<or> (\<not> is_space c \<and> c \<noteq> 60 \<and> c \<noteq> 62) \<Longrightarrow> P c" for P i
    using wall_char [OF assms that(1)] that(2) by blast
  have sp: "list_all (\<lambda>c. is_space c \<longrightarrow> c = 32) s" using all [of _ "\<lambda>c. is_space c \<longrightarrow> c = 32"] len by (auto simp: list_all_length)
  have "\<not> contains [32, 32] s"
  proof
    assume "contains [32, 32] s"
    then obtain xs ys where s: "s = xs @ [32, 32] @ ys" by (auto simp: contains_iff)
    then have i: "Suc (length xs) < 20" "s ! length xs = 32" "s ! Suc (length xs) = 32"
      using len by (auto simp: nth_append)
    have "is_space 32" by (simp add: is_space_def)
    then have "length xs \<in> {3, 14}" "Suc (length xs) \<in> {3, 14}"
      using wall_char [OF assms, of "length xs"] wall_char [OF assms, of "Suc (length xs)"] i by auto
    then show False by auto
  qed
  moreover have "is_space 32" by (simp add: is_space_def)
  then have "s ! 0 \<noteq> 32" "s ! 19 \<noteq> 32"
    using wall_char [OF assms, of 0] wall_char [OF assms, of 19] by auto
  moreover have ne: "s \<noteq> []" using len by auto
  ultimately have "hd s \<noteq> 32" "last s \<noteq> 32" "\<not> contains [32, 32] s"
    by (simp_all add: hd_conv_nth [OF ne] last_conv_nth [OF ne] len)
  moreover have "60 \<notin> set s" "62 \<notin> set s"
    using all [of _ "\<lambda>c. c \<noteq> 60"] all [of _ "\<lambda>c. c \<noteq> 62"] len by (auto simp: in_set_conv_nth) force+
  ultimately show ?thesis using bound_identity [OF sp] strip_identity [of s] ne len
    by (auto simp: shown_as_is_def value_text_def)
qed

section \<open>What a run writes\<close>

lemma wall_time_accepted:
  assumes "wall_time name v = Inr w"
  obtains s where "v = J_Str s" "wall_shape s" "shown_as_is s" "w = wall_of (wall_fields s)" "valid_naive (wall_fields s)"
    "SHORT_WEEKDAYS ! nat (weekday w) = take 3 s"
proof -
  obtain s where s: "v = J_Str s" using assms by (cases v) (auto simp: wall_time_def Let_def)
  have "wall_shape s" using assms s by (auto simp: wall_time_def Let_def split: if_splits)
  then show ?thesis using assms s wall_shown by (intro that [OF s]) (auto simp: wall_time_def Let_def split: if_splits)
qed

definition in_time :: "calendar_cfg \<Rightarrow> zone \<Rightarrow> secs \<Rightarrow> int \<Rightarrow> int \<Rightarrow> bool" where
  "in_time cfg z now s e \<longleftrightarrow>
     classify_local z s \<noteq> IMAGINARY \<and> classify_local z e \<noteq> IMAGINARY \<and>
     timestamp z s False < timestamp z e False \<and>
     timestamp z e False - timestamp z s False \<le> int (max_window_hours cfg) * 3600 \<and>
     now - PAST_TOLERANCE_SECONDS \<le> of_int (timestamp z s False) \<and>
     of_int (timestamp z s False) \<le> now + of_nat MAX_DAYS_AHEAD * 86400"

lemma timing_in_time: "timing_problem cfg z now s e = None \<longleftrightarrow> in_time cfg z now s e"
  by (auto simp: timing_problem_def in_time_def Let_def split: if_splits)

lemma insert_requests:
  assumes "insert_event sv z title s e c = (r, c')" and "prefix TITLE_PREFIX title"
  shows "cl_requests c' = cl_requests c \<or> (\<exists>S E toks. rfc3339_local z s = Some S \<and> rfc3339_local z e = Some E \<and>
    length toks \<le> 2 \<and> cl_requests c' = cl_requests c @ map (Insert_Event title S E) toks)"
    and "r = Inr ins \<Longrightarrow> rfc3339_local z s = Some (in_start ins) \<and> rfc3339_local z e = Some (in_end ins)"
proof -
  have "(cl_requests c' = cl_requests c \<or> (\<exists>S E toks. rfc3339_local z s = Some S \<and> rfc3339_local z e = Some E \<and>
      length toks \<le> 2 \<and> cl_requests c' = cl_requests c @ map (Insert_Event title S E) toks)) \<and>
    (r = Inr ins \<longrightarrow> rfc3339_local z s = Some (in_start ins) \<and> rfc3339_local z e = Some (in_end ins))"
  proof (cases "rfc3339_local z s = None \<or> rfc3339_local z e = None")
    case True
    then show ?thesis using assms by (auto simp: insert_event_def split: option.splits)
  next
    case False
    then obtain S E where se: "rfc3339_local z s = Some S" "rfc3339_local z e = Some E" by auto
    obtain q c1 where q: "call sv (Insert_Event title S E) c = (q, c1)" by fastforce
    have c': "c' = c1" using assms se q by (auto simp: insert_event_def split: sum.splits option.splits list.splits)
    obtain toks where "length toks \<le> 2" "cl_requests c1 = cl_requests c @ map (Insert_Event title S E) toks"
      using call_requests [OF q] by blast
    moreover have "r = Inr ins \<Longrightarrow> in_start ins = S \<and> in_end ins = E"
      using assms se q by (auto simp: insert_event_def split: sum.splits option.splits list.splits)
    ultimately show ?thesis using se c' by blast
  qed
  then show "cl_requests c' = cl_requests c \<or> (\<exists>S E toks. rfc3339_local z s = Some S \<and> rfc3339_local z e = Some E \<and>
      length toks \<le> 2 \<and> cl_requests c' = cl_requests c @ map (Insert_Event title S E) toks)"
    "r = Inr ins \<Longrightarrow> rfc3339_local z s = Some (in_start ins) \<and> rfc3339_local z e = Some (in_end ins)" by blast+
qed

text \<open>A run that makes a request got past every check.\<close>

definition passes :: "create_env \<Rightarrow> secs \<Rightarrow> json_obj \<Rightarrow> str option \<Rightarrow> str \<Rightarrow> int \<Rightarrow> int \<Rightarrow> bool" where
  "passes env now args latest title s e \<longleftrightarrow>
     argument_problem (cr_refused_char env) args = None \<and> jget args (cps ''title'') = J_Str title \<and>
     wall_time (cps ''start'') (jget args (cps ''start'')) = Inr s \<and> wall_time (cps ''end'') (jget args (cps ''end'')) = Inr e \<and>
     in_time (cr_cfg env) (cr_zone env) now s e \<and> (cr_receipts env \<noteq> None \<longrightarrow> latest \<noteq> None)"

lemma create_event_cases:
  assumes "create_event env now args latest c = (out, left, c', receipts)"
  shows "left = None \<and> (c' = c \<and> receipts = [] \<or>
    (\<exists>title s e r. passes env now args latest title s e \<and>
      insert_event (cr_services env) (cr_zone env) title s e c = (r, c') \<and> receipts = receipts_of env latest r))"
proof (cases "\<exists>title s e. passes env now args latest title s e")
  case True
  then obtain title s e where p: "passes env now args latest title s e" by blast
  obtain r c1 where i: "insert_event (cr_services env) (cr_zone env) title s e c = (r, c1)" by fastforce
  have "argument_problem (cr_refused_char env) args = None" "jget args (cps ''title'') = J_Str title"
    "wall_time (cps ''start'') (jget args (cps ''start'')) = Inr s" "wall_time (cps ''end'') (jget args (cps ''end'')) = Inr e"
    "timing_problem (cr_cfg env) (cr_zone env) now s e = None" "\<not> (cr_receipts env \<noteq> None \<and> latest = None)"
    using p by (auto simp: passes_def timing_in_time)
  then have "left = None \<and> c' = c1 \<and> receipts = receipts_of env latest r"
    using assms [unfolded create_event_def take_reference_def] i by (auto simp: Let_def perform_insert_def)
  then show ?thesis using p i by blast
next
  case False
  note run = assms [unfolded create_event_def take_reference_def]
  show ?thesis
  proof (cases "argument_problem (cr_refused_char env) args")
    case None
    then have "\<exists>title. jget args (cps ''title'') = J_Str title"
      by (cases "jget args (cps ''title'')") (auto simp: argument_problem_def title_problem_def Let_def split: if_splits)
    then show ?thesis using run None False
      by (auto simp: Let_def passes_def timing_in_time [symmetric] split: sum.splits option.splits if_splits)
  qed (use run in \<open>auto simp: Let_def\<close>)
qed


section \<open>One approval, one run\<close>

datatype reference_op = Decided str str json | Taken

text \<open>The approvals recorded and the references taken, over any sequence of decisions and runs.\<close>

fun reference_run :: "str option \<Rightarrow> reference_op list \<Rightarrow> str list \<times> str list" where
  "reference_run latest [] = ([], [])"
| "reference_run latest (Decided tool oc v # ops) =
     (let (approved, taken) = reference_run (note_decision tool oc v latest) ops
      in ((if tool = CREATE_TOOL_NAME \<and> oc = APPROVED_OUTCOME
           then (case as_str v of Some (c # cs) \<Rightarrow> [c # cs] | _ \<Rightarrow> []) else []) @ approved, taken))"
| "reference_run latest (Taken # ops) =
     (let (got, rest) = take_reference latest; (approved, taken) = reference_run rest ops
      in (approved, (case got of None \<Rightarrow> [] | Some r \<Rightarrow> [r]) @ taken))"

lemma reference_run_subseq:
  "subseq (snd (reference_run latest ops)) ((case latest of None \<Rightarrow> [] | Some r \<Rightarrow> [r]) @ fst (reference_run latest ops))"
proof (induction latest ops rule: reference_run.induct)
  case (2 latest tool oc v ops)
  let ?n = "note_decision tool oc v latest"
  let ?a = "if tool = CREATE_TOOL_NAME \<and> oc = APPROVED_OUTCOME
    then (case as_str v of Some (c # cs) \<Rightarrow> [c # cs] | _ \<Rightarrow> []) else []"
  obtain ap tk where r: "reference_run ?n ops = (ap, tk)" by fastforce
  have ih: "subseq tk ((case ?n of None \<Rightarrow> [] | Some x \<Rightarrow> [x]) @ ap)" using 2 r by simp
  have "subseq (case ?n of None \<Rightarrow> [] | Some x \<Rightarrow> [x]) ((case latest of None \<Rightarrow> [] | Some x \<Rightarrow> [x]) @ ?a)"
    by (auto simp: note_decision_def split: option.split list.split)
  then have "subseq ((case ?n of None \<Rightarrow> [] | Some x \<Rightarrow> [x]) @ ap) (((case latest of None \<Rightarrow> [] | Some x \<Rightarrow> [x]) @ ?a) @ ap)"
    by (rule list_emb_append_mono) simp
  then show ?case using ih r subseq_order.trans by fastforce
next
  case (3 latest ops)
  then show ?case by (cases latest) (auto simp: take_reference_def split: prod.split)
qed simp

text \<open>
  An approval serves one run: over any order of the gate's decisions and the tool's runs, the
  references the runs take are a subsequence of those of the approvals of this tool, so none is
  taken twice or for another tool's approval.
\<close>

theorem approval_serves_one_run:
  "subseq (snd (reference_run None ops)) (fst (reference_run None ops))"
  using reference_run_subseq [of None ops] by simp

section \<open>The styled prompt\<close>

text \<open>
  In the styled form the prompt cannot show a backslash, which a title may hold: the owner then
  approves another character than the one written.
\<close>

lemma backslash_is_not_shown:
  "title_problem (\<lambda>_. False) (J_Str (cps ''Homelab'' @ [92])) = None"
  "value_text True (cps ''Homelab'' @ [92]) = [96] @ cps ''Homelab'' @ [10741, 96]"
  subgoal
    by (simp add: title_problem_def TITLE_PREFIX_def TITLE_MAX_CHARS_def cps_def strip_def is_space_def)
  subgoal proof -
    have "strip_delims (cps ''Homelab'' @ [92]) = cps ''Homelab'' @ [92]" by (rule strip_identity) (simp_all add: cps_def)
    then show ?thesis
      by (simp add: value_text_def escape_styled_map escape_one_def cps_def STYLE_CHARACTERS_def BACKSLASH_STAND_IN_def)
  qed
  done

text \<open>The hold sentence of a created event and the window provider agree.\<close>

lemma hold_claim_agrees:
  "holds_alerts cfg ev \<lparr>ce_id = i, ce_title = t, ce_start = Some b, ce_end = Some e, ce_start_date = None, ce_end_date = None\<rparr> \<longleftrightarrow>
     windows_of_events cfg ev [\<lparr>ce_id = i, ce_title = t, ce_start = Some b, ce_end = Some e, ce_start_date = None, ce_end_date = None\<rparr>] \<noteq> []"
  by (simp add: windows_of_events_def List.map_filter_def window_of_event_def)

section \<open>Witness\<close>

definition plain_zone :: zone where
  "plain_zone = \<lparr>zone_key = cps ''UTC'', zone_first = \<lparr>off = 0, abbr = Some (cps ''UTC'')\<rparr>, zone_trans = []\<rparr>"

definition create_sample :: create_env where
  "create_sample = \<lparr>cr_cfg = sample_calendar, cr_zone = plain_zone, cr_events_enabled = True,
     cr_services = sample_services\<lparr>sv_world := (\<lambda>_. \<lparr>ex_now = 0, ex_token = Http_Timeout,
       ex_http = Http_Answer 200 (Some (J_Obj [(cps ''id'', J_Str [101])]))\<rparr>)\<rparr>,
     cr_refused_char = (\<lambda>_. False), cr_receipts = Some True\<rparr>"

definition create_args :: json_obj where
  "create_args = [(cps ''title'', J_Str (cps ''Homelab'')), (cps ''start'', J_Str (cps ''Thu 1970-01-01 00:10'')),
     (cps ''end'', J_Str (cps ''Thu 1970-01-01 00:20''))]"

lemma create_args_read:
  "jget create_args (cps ''title'') = J_Str (cps ''Homelab'')"
  "jget create_args (cps ''start'') = J_Str (cps ''Thu 1970-01-01 00:10'')"
  "jget create_args (cps ''end'') = J_Str (cps ''Thu 1970-01-01 00:20'')"
  by (simp_all add: create_args_def jget_later)

lemma create_walls:
  "wall_time name (J_Str (cps ''Thu 1970-01-01 00:10'')) = Inr 600"
  "wall_time name (J_Str (cps ''Thu 1970-01-01 00:20'')) = Inr 1200"
proof -
  let ?s = "\<lambda>d. [84, 104, 117, 32, 49, 57, 55, 48, 45, 48, 49, 45, 48, 49, 32, 48, 48, 58, d, 48 :: nat]"
  have s: "cps ''Thu 1970-01-01 00:10'' = ?s 49" "cps ''Thu 1970-01-01 00:20'' = ?s 50" by (simp_all add: cps_def)
  have shape: "wall_shape (?s 49)" "wall_shape (?s 50)" by (simp_all add: wall_shape_def short_weekdays is_digit_def)
  have f: "wall_fields (?s 49) = \<lparr>nv_year = 1970, nv_month = 1, nv_day = 1, nv_hour = 0, nv_minute = 10, nv_second = 0, nv_micro = 0\<rparr>"
    "wall_fields (?s 50) = \<lparr>nv_year = 1970, nv_month = 1, nv_day = 1, nv_hour = 0, nv_minute = 20, nv_second = 0, nv_micro = 0\<rparr>"
    by (simp_all add: wall_fields_def number_at_def)
  have o: "ymd_to_ord 1970 1 1 = 719163"
    by (simp add: ymd_to_ord_def days_before_year_def days_before_month_def)
  show "wall_time name (J_Str (cps ''Thu 1970-01-01 00:10'')) = Inr 600"
    "wall_time name (J_Str (cps ''Thu 1970-01-01 00:20'')) = Inr 1200"
    using shape by (simp_all add: wall_time_def s f wall_of_def o EPOCH_ORD_def valid_naive_def valid_date_def
      days_in_month_def weekday_def short_weekdays Let_def)
qed


end
