(* ===== verification/Commands.thy ===== *)
theory Commands
  imports Memory_Store Inbox_Store Reminder_Store Time_Parse Recall
begin

text \<open>
  \<open>henk/agent/commands.py\<close>: the owner's commands, which run without an agent turn. A command is
  recognised by its first word, makes at most one call of a repository that can change it, answers
  with one text and leaves a receipt for what it changed. What a repository call does apart from
  its function (raise \<open>StoreError\<close>, or anything else, such as the \<open>OverflowError\<close> for an id that
  does not fit SQLite's integers) is an argument, and so are \<open>str.isdigit\<close>, \<open>repr\<close> and whether the
  two receipt logs take a record. Log lines are left out.
\<close>

section \<open>State and surroundings\<close>

datatype store_call = Works | Store_Failed str | Call_Raised

record command_env =
  has_memories :: bool
  has_inbox :: bool
  has_reminders :: bool               \<comment> \<open>the repository and the resolver\<close>
  memory_settings :: memory_cfg
  reminder_settings :: reminder_cfg
  inbox_page_size :: nat
  echo_limit :: nat
  resolver_of :: resolver
  resolver_now :: secs
  store_now :: secs
  first_call :: store_call            \<comment> \<open>the command's first repository call, and its second\<close>
  second_call :: store_call
  is_digit_char :: "nat \<Rightarrow> bool"
  repr_of :: "str \<Rightarrow> str"
  keeps_receipts :: bool
  keeps_lifecycle :: bool

datatype lifecycle = Scheduled | Cancelled_Reminder | Reinstated_Reminder

record command_state =
  cs_memories :: memories
  cs_inbox :: inbox
  cs_reminders :: reminders
  cs_receipts :: "(str \<times> str) list"                     \<comment> \<open>command and detail\<close>
  cs_lifecycle :: "(nat \<times> secs \<times> lifecycle) list"         \<comment> \<open>reminder, its due time, the transition\<close>

text \<open>A reply, or the exception the core answers with its error text; \<open>None\<close>: not a command.\<close>

type_synonym reply = "unit + str"

definition receipt :: "command_env \<Rightarrow> str \<Rightarrow> str \<Rightarrow> command_state \<Rightarrow> command_state" where
  "receipt env command detail S = (if keeps_receipts env then S\<lparr>cs_receipts := cs_receipts S @ [(command, detail)]\<rparr> else S)"

definition reminder_receipt :: "command_env \<Rightarrow> reminder \<Rightarrow> lifecycle \<Rightarrow> command_state \<Rightarrow> command_state" where
  "reminder_receipt env r transition S =
     (if keeps_lifecycle env then S\<lparr>cs_lifecycle := cs_lifecycle S @ [(rem_id r, due_at r, transition)]\<rparr> else S)"

section \<open>Texts\<close>

definition UNAVAILABLE :: str where
  "UNAVAILABLE = (cps ''That command needs the durable store, which isn'' @ [39] @
    cps ''t configured in this deployment. Nothing was changed.'')"

definition REMINDERS_UNAVAILABLE :: str where
  "REMINDERS_UNAVAILABLE = (cps ''Reminders aren'' @ [39] @
    cps (''t configured in this deployment, so nothing is scheduled and'' @
      '' nothing was changed. Any reminders already stored are untou'' @ ''ched.''))"

definition ACCEPTED_WHEN :: str where
  "ACCEPTED_WHEN = (cps (''Accepted times are +90m / +2h / +3d, a clock time like 07:30'' @
      '' (the next time it comes round), or a dated time like 2026-0'' @ ''8-25 07:30.''))"

definition memories_noun :: "nat \<Rightarrow> str" where
  "memories_noun n = (if n = 1 then cps ''memory'' else cps ''memories'')"

definition too_long :: "nat \<Rightarrow> nat \<Rightarrow> str" where
  "too_long limit len = (cps ''the text is longer than the '' @ decimal limit @ cps ''-character limit (got '' @
    decimal len @ cps ''); nothing was stored '' @ [8212] @ cps '' shorten it and try again'')"

definition cap_reached :: "nat \<Rightarrow> str" where
  "cap_reached cap = (cps ''you already have '' @ decimal cap @
    cps '' reminders pending, which is the configured limit of '' @ decimal cap @
    cps ''; nothing was scheduled '' @ [8212] @ cps '' cancel one first'')"

text \<open>\<open>format_created_at\<close>: UTC to the minute.\<close>

definition format_created_at :: "secs \<Rightarrow> str" where
  "format_created_at e =
     (let w = instant_of e; n = naive_at w 0
      in if \<not> representable w then cps ''unknown time''
         else int_text (nv_year n) @ [45] @ pad2 (nv_month n) @ [45] @ pad2 (nv_day n) @ [32] @ hhmm w @ cps '' UTC'')"

section \<open>Memories\<close>

definition remember :: "command_env \<Rightarrow> str \<Rightarrow> command_state \<Rightarrow> reply \<times> command_state" where
  "remember env rest S =
     (if \<not> has_memories env then (Inr UNAVAILABLE, S)
      else (case mem_add (memory_settings env) (store_now env) rest PINNED (cs_memories S) of
          (Inl Empty_Content, _) \<Rightarrow> (Inr (cps ''That was empty '' @ [8212] @ cps '' /remember needs the fact to remember after it.''), S)
        | (Inl (Content_Too_Long limit len), _) \<Rightarrow> (Inr (cps ''Nothing stored: '' @ too_long limit len), S)
        | (Inl (Unknown_Type _), _) \<Rightarrow> (Inl (), S)
        | (Inr w, t) \<Rightarrow>
            (case first_call env of
               Call_Raised \<Rightarrow> (Inl (), S)
             | Store_Failed msg \<Rightarrow> (Inr (cps ''Couldn'' @ [39] @ cps ''t store that fact '' @ [8212] @
              cps '' the store could not be written ('' @ msg @ cps '').''), S)
             | Works \<Rightarrow>
                 (Inr (cps ''Got it, I'' @ [39] @ cps ''ll remember: '' @ content (stored w) @
                    (if evicted w = [] then []
                     else ([10] @ cps (''That filled the pinned-memory cap, so the oldest fact was dr'' @ ''opped: '') @
              join [59, 32] (map content (evicted w))))),
                  receipt env (cps ''/remember'') (cps ''stored a pinned memory (id '' @ decimal (mem_id (stored w)) @ [41])
                    (S\<lparr>cs_memories := t\<rparr>)))))"

definition forget_text :: "command_env \<Rightarrow> memory list \<Rightarrow> str" where
  "forget_text env removed =
     join [10] ([cps ''Forgot '' @ decimal (length removed) @ [32] @ memories_noun (length removed) @ [58]] @
       map (\<lambda>m. [45, 32] @ content m) (take (echo_limit env) removed) @
       (if echo_limit env < length removed
        then [(cps ''...and '' @ decimal (length removed - echo_limit env) @
          cps '' more removed (not listed).'')] else []) @
       [(cps ''Re-add anything that shouldn'' @ [39] @ cps ''t have gone with /remember.'')])"

definition forget :: "command_env \<Rightarrow> str \<Rightarrow> command_state \<Rightarrow> reply \<times> command_state" where
  "forget env rest S =
     (if \<not> has_memories env then (Inr UNAVAILABLE, S)
      else if rest = []
      then (Inr (cps ''That was empty '' @ [8212] @ cps '' /forget needs some text to match, and I won'' @
        [39] @ cps ''t match everything. Nothing was removed.''), S)
      else (case first_call env of
          Call_Raised \<Rightarrow> (Inl (), S)
        | Store_Failed msg \<Rightarrow> (Inr (cps ''Couldn'' @ [39] @ cps ''t remove anything '' @ [8212] @
          cps '' the store could not be written ('' @ msg @ cps '').''), S)
        | Works \<Rightarrow>
            (case delete_containing rest (cs_memories S) of (removed, t) \<Rightarrow>
               if removed = [] then (Inr (cps ''Nothing matched '' @ [34] @ rest @ [34] @ cps '', so nothing was removed.''), S)
               else (Inr (forget_text env removed),
                 receipt env (cps ''/forget'') (cps ''removed '' @ decimal (length removed) @ cps '' memories matching '' @
                   repr_of env rest) (S\<lparr>cs_memories := t\<rparr>)))))"

definition command_type_label :: "str \<Rightarrow> str" where
  "command_type_label ty =
     (if ty = PINNED then cps ''Facts you told me (pinned)''
      else if ty = AGENT then cps ''Facts I noted myself (agent)'' else ty)"

definition list_memories :: "command_env \<Rightarrow> command_state \<Rightarrow> reply" where
  "list_memories env S =
     (if \<not> has_memories env then Inr UNAVAILABLE
      else (case first_call env of
          Call_Raised \<Rightarrow> Inl ()
        | Store_Failed msg \<Rightarrow> Inr (cps ''Couldn'' @ [39] @ cps ''t read the store ('' @ msg @
          cps ''). Your memories are probably fine '' @ [8212] @ cps '' I just can'' @ [39] @
          cps ''t list them right now.'')
        | Works \<Rightarrow>
            (let ms = list_all_memories (cs_memories S)
             in if ms = [] then Inr (cps ''No memories stored yet. Add one with /remember <fact>.'')
                else Inr (join [10] ((decimal (length ms) @ [32] @ memories_noun (length ms) @ cps '' stored:'') #
                  concat (map (\<lambda>ty. [[], command_type_label ty] @
                      map (\<lambda>m. cps ''- ['' @ decimal (mem_id m) @ cps ''] '' @ content m)
                        (filter (\<lambda>m. memory_type m = ty) ms)) (ordered_types (map memory_type ms))) @
                  [[], cps ''Remove one with /forget <text it contains>.''])))))"

section \<open>The capture inbox\<close>

definition capture :: "command_env \<Rightarrow> str \<Rightarrow> command_state \<Rightarrow> reply \<times> command_state" where
  "capture env rest S =
     (if \<not> has_inbox env then (Inr UNAVAILABLE, S)
      else (case inbox_append (store_now env) rest (cps ''owner-command'') (cs_inbox S) of
          (Inl Inbox_Empty_Content, _) \<Rightarrow> (Inr (cps ''That was empty '' @ [8212] @ cps '' /capture needs the thought to capture after it.''), S)
        | (Inr item, t) \<Rightarrow>
            (case first_call env of
               Call_Raised \<Rightarrow> (Inl (), S)
             | Store_Failed msg \<Rightarrow> (Inr (cps ''Couldn'' @ [39] @ cps ''t capture that '' @ [8212] @
              cps '' the store could not be written ('' @ msg @ cps '').''), S)
             | Works \<Rightarrow> (Inr (cps ''Captured as #'' @ decimal (inb_id item) @ [58, 32] @ inb_text item),
                 receipt env (cps ''/capture'') (cps ''captured inbox item '' @ decimal (inb_id item)) (S\<lparr>cs_inbox := t\<rparr>)))))"

definition inbox_list :: "command_env \<Rightarrow> nat option \<Rightarrow> command_state \<Rightarrow> reply" where
  "inbox_list env limit S =
     (case first_call env of
        Call_Raised \<Rightarrow> Inl ()
      | Store_Failed msg \<Rightarrow> Inr (cps ''Couldn'' @ [39] @ cps ''t read the inbox ('' @ msg @ cps ''). Nothing is lost '' @
        [8212] @ cps '' I just can'' @ [39] @ cps ''t list it right now.'')
      | Works \<Rightarrow>
          (let p = list_open limit (cs_inbox S)
           in if items p = [] then Inr (cps ''The inbox is empty. Capture something with /capture <thought>.'')
              else Inr (join [10] ([decimal (length (items p)) @ cps '' open item'' @
                    (if length (items p) = 1 then [] else [115]) @ cps '' (oldest first):''] @
                  map (\<lambda>i. cps ''- ['' @ decimal (inb_id i) @ cps ''] '' @ inb_text i @ cps '' ('' @
                    format_created_at (inb_created i) @ [41]) (items p) @
                  (if newer_remainder p \<noteq> 0
                   then [(cps ''...and '' @ decimal (newer_remainder p) @ cps '' newer. See everything with /inbox all.'')] else []) @
                  [cps ''Mark one done with /inbox done <id>.'']))))"

text \<open>
  \<open>int\<close> on a text of digit characters: \<open>None\<close> where it raises, for a digit that is not decimal
  (a superscript) and beyond the interpreter's limit of 4300 digits.
\<close>

definition parse_id :: "command_env \<Rightarrow> str \<Rightarrow> nat option" where
  "parse_id env raw =
     (let ds = map (dgt (resolver_of env)) raw
      in if 4300 < length raw \<or> None \<in> set ds then None
         else Some (nat (foldl (\<lambda>a d. a * 10 + the d) 0 ds)))"

definition isdigit :: "command_env \<Rightarrow> str \<Rightarrow> bool" where
  "isdigit env raw \<longleftrightarrow> raw \<noteq> [] \<and> list_all (is_digit_char env) raw"

definition inbox_done :: "command_env \<Rightarrow> str \<Rightarrow> command_state \<Rightarrow> reply \<times> command_state" where
  "inbox_done env raw S =
     (if \<not> isdigit env raw then (Inr (cps ''/inbox done needs an item id, e.g. /inbox done 12.''), S)
      else (case parse_id env raw of
          None \<Rightarrow> (Inl (), S)
        | Some i \<Rightarrow>
            (case first_call env of
               Call_Raised \<Rightarrow> (Inl (), S)
             | Store_Failed msg \<Rightarrow> (Inr (cps ''Couldn'' @ [39] @ cps ''t update the inbox '' @ [8212] @
              cps '' the store could not be written ('' @ msg @ cps '').''), S)
             | Works \<Rightarrow>
                 (case mark_done i (cs_inbox S) of
                    (None, _) \<Rightarrow> (Inr (cps ''No open inbox item has id '' @ decimal i @ cps '', so nothing changed.''), S)
                  | (Some item, t) \<Rightarrow>
                      (Inr (cps ''Done: #'' @ decimal (inb_id item) @ [32] @ inb_text item),
                       receipt env (cps ''/inbox done'') (cps ''marked inbox item '' @ decimal i @ cps '' done'')
                         (S\<lparr>cs_inbox := t\<rparr>))))))"

text \<open>\<open>str.partition(" ")\<close> without the separator.\<close>

definition partition_space :: "str \<Rightarrow> str \<times> str" where
  "partition_space s = (takeWhile (\<lambda>c. c \<noteq> 32) s, tl (dropWhile (\<lambda>c. c \<noteq> 32) s))"

definition inbox_command :: "command_env \<Rightarrow> str \<Rightarrow> command_state \<Rightarrow> reply \<times> command_state" where
  "inbox_command env rest S =
     (let argument = strip rest; (verb, tl') = partition_space argument
      in if \<not> has_inbox env then (Inr UNAVAILABLE, S)
         else if argument = [] then (inbox_list env (Some (inbox_page_size env)) S, S)
         else if lower verb = cps ''all'' then (inbox_list env None S, S)
         else if lower verb = cps ''done'' then inbox_done env (strip tl') S
         else (Inr (cps ''I don'' @ [39] @ cps ''t know '' @ [34] @ cps ''/inbox '' @ argument @ [34] @
           cps ''. Use /inbox, /inbox all, or /inbox done <id>.''), S))"

section \<open>Reminders\<close>

text \<open>\<open>_DATE_TOKEN\<close> and \<open>_TIME_TOKEN\<close> on a token without whitespace; \<open>\d\<close> is what \<open>dgt\<close> knows.\<close>

definition digits_at :: "(nat \<Rightarrow> int option) \<Rightarrow> str \<Rightarrow> nat list \<Rightarrow> bool" where
  "digits_at d s is \<longleftrightarrow> list_all (\<lambda>i. d (s ! i) \<noteq> None) is"

definition date_token :: "(nat \<Rightarrow> int option) \<Rightarrow> str \<Rightarrow> bool" where
  "date_token d s \<longleftrightarrow> length s = 10 \<and> digits_at d s [0, 1, 2, 3, 5, 6, 8, 9] \<and> s ! 4 = 45 \<and> s ! 7 = 45"

definition time_token :: "(nat \<Rightarrow> int option) \<Rightarrow> str \<Rightarrow> bool" where
  "time_token d s \<longleftrightarrow>
     5 \<le> length s \<and> digits_at d s [0, 1, 3, 4] \<and> s ! 2 = 58 \<and>
     (length s = 5 \<or>
      8 \<le> length s \<and> s ! 5 = 58 \<and> digits_at d s [6, 7] \<and>
      (length s = 8 \<or> 10 \<le> length s \<and> length s \<le> 15 \<and> s ! 8 = 46 \<and> digits_at d s [9..<length s]))"

definition split_remind :: "(nat \<Rightarrow> int option) \<Rightarrow> str \<Rightarrow> (str \<times> str) option" where
  "split_remind d rest =
     (case split_ws rest of
        [] \<Rightarrow> None
      | [w] \<Rightarrow> Some (w, [])
      | w # v # ws \<Rightarrow> if date_token d w \<and> time_token d v then Some (w @ [32] @ v, join [32] ws)
          else Some (w, join [32] (v # ws)))"

definition due_text :: "command_env \<Rightarrow> reminder \<Rightarrow> str" where
  "due_text env r = render_instant (rs_zone (resolver_of env)) (due_at r)"

definition reminder_refusal :: "reminder_error \<Rightarrow> str" where
  "reminder_refusal e =
     (case e of Reminder_Empty \<Rightarrow> cps ''the reminder text is empty; nothing was stored''
      | Reminder_Too_Long limit len \<Rightarrow> too_long limit len
      | Cap_Reached cap \<Rightarrow> cap_reached cap)"

text \<open>A call of \<open>schedule\<close>: the two content checks come before the transaction, the cap check in it.\<close>

datatype 'a called = Returned 'a | Call_Failed str | Call_Threw

definition schedule_call :: "command_env \<Rightarrow> str \<Rightarrow> secs \<Rightarrow> str \<Rightarrow> str \<Rightarrow> reminders \<Rightarrow>
    (reminder_error + reminder) called \<times> reminders" where
  "schedule_call env tx due spec src t =
     (case schedule (reminder_settings env) (store_now env) tx due (zone_key (rs_zone (resolver_of env))) spec src t of
        (Inl Reminder_Empty, _) \<Rightarrow> (Returned (Inl Reminder_Empty), t)
      | (Inl (Reminder_Too_Long limit len), _) \<Rightarrow> (Returned (Inl (Reminder_Too_Long limit len)), t)
      | (r, t') \<Rightarrow>
          (case first_call env of Works \<Rightarrow> (Returned r, t') | Store_Failed msg \<Rightarrow> (Call_Failed msg, t) | Call_Raised \<Rightarrow> (Call_Threw, t)))"

definition remind :: "command_env \<Rightarrow> str \<Rightarrow> command_state \<Rightarrow> reply \<times> command_state" where
  "remind env rest S =
     (if \<not> has_reminders env then (Inr REMINDERS_UNAVAILABLE, S)
      else (case split_remind (dgt (resolver_of env)) rest of
          None \<Rightarrow> (Inr (cps ''I couldn'' @ [39] @ cps ''t read a time in that. '' @ ACCEPTED_WHEN), S)
        | Some (when, tx) \<Rightarrow>
            (case resolve_time (resolver_of env) when COMMAND (resolver_now env) of
               Inl e \<Rightarrow> (Inr (cps ''Nothing scheduled: '' @ rj_message e), S)
             | Inr res \<Rightarrow>
                 if strip tx = []
                 then (Inr (cps ''That time reads fine, but the reminder text is required '' @ [8212] @
              cps '' try /remind '' @ when @ cps '' <what to remind you about>.''), S)
                 else (case schedule_call env tx (rn_due_at res) when (cps ''command'') (cs_reminders S) of
                     (Returned (Inl Reminder_Empty), _) \<Rightarrow>
                       (Inr (cps ''That was empty '' @ [8212] @ cps '' /remind needs the reminder text after the time.''), S)
                   | (Returned (Inl e), _) \<Rightarrow> (Inr (cps ''Nothing scheduled: '' @ reminder_refusal e), S)
                   | (Call_Failed msg, _) \<Rightarrow>
                       (Inr (cps ''Couldn'' @ [39] @ cps ''t schedule that '' @ [8212] @
              cps '' the store could not be written ('' @ msg @ cps ''). Nothing was scheduled.''), S)
                   | (Call_Threw, _) \<Rightarrow> (Inl (), S)
                   | (Returned (Inr r), t) \<Rightarrow>
                       (Inr (cps ''Reminder #'' @ decimal (rem_id r) @ cps '' set for '' @ due_text env r @ [58, 32] @ rem_text r @
                          (if rn_disclosure res = [] then [] else ([10] @ cps ''Note: '' @ rn_disclosure res @ cps ''.''))),
                        reminder_receipt env r Scheduled
                          (receipt env (cps ''/remind'') (cps ''scheduled reminder '' @ decimal (rem_id r))
                            (S\<lparr>cs_reminders := t\<rparr>)))))))"

definition reminders_list :: "command_env \<Rightarrow> command_state \<Rightarrow> reply" where
  "reminders_list env S =
     (case first_call env of
        Call_Raised \<Rightarrow> Inl ()
      | Store_Failed msg \<Rightarrow> Inr (cps ''Couldn'' @ [39] @ cps ''t read your reminders ('' @ msg @ cps ''). They aren'' @ [39] @
        cps ''t lost '' @ [8212] @ cps '' I just can'' @ [39] @
        cps ''t list them right now, so don'' @ [39] @ cps ''t take this as an empty schedule.'')
      | Works \<Rightarrow>
          (let p = list_pending (reminder_settings env) None (cs_reminders S); n = length (page_items p)
           in if page_items p = [] then Inr (cps ''Nothing scheduled. Add one with /remind <when> <what>.'')
              else Inr (join [10] ([decimal n @ cps '' pending reminder'' @ (if n = 1 then [] else [115]) @ cps '' (soonest first):''] @
                  map (\<lambda>r. cps ''- ['' @ decimal (rem_id r) @ cps ''] '' @ due_text env r @ [58, 32] @ rem_text r) (page_items p) @
                  (if remainder p \<noteq> 0
                   then [(cps ''...and '' @ decimal (remainder p) @ cps '' further out, not shown.'')] else []) @
                  [cps ''Cancel one with /reminders cancel <id>.'']))))"

definition reminders_cancel :: "command_env \<Rightarrow> nat \<Rightarrow> command_state \<Rightarrow> reply \<times> command_state" where
  "reminders_cancel env i S =
     (case first_call env of
        Call_Raised \<Rightarrow> (Inl (), S)
      | Store_Failed msg \<Rightarrow> (Inr (cps ''Couldn'' @ [39] @ cps ''t cancel that '' @ [8212] @
        cps '' the store could not be written ('' @ msg @ cps ''). Nothing changed.''), S)
      | Works \<Rightarrow>
          (case cancel (reminder_settings env) i (cs_reminders S) of
             (Inl _, _) \<Rightarrow> (Inl (), S)
           | (Inr None, _) \<Rightarrow> (Inr (cps ''No pending reminder has id '' @ decimal i @ cps '', so nothing changed.''), S)
           | (Inr (Some r), t) \<Rightarrow>
               (Inr (cps ''Cancelled #'' @ decimal (rem_id r) @ cps '', which was set for '' @ due_text env r @
              cps '': '' @ rem_text r @ [10] @ cps ''Put it back with /reminders reinstate '' @
              decimal (rem_id r) @ cps ''.''),
                reminder_receipt env r Cancelled_Reminder
                  (receipt env (cps ''/reminders cancel'') (cps ''cancelled reminder '' @ decimal i)
                    (S\<lparr>cs_reminders := t\<rparr>)))))"

definition reinstate_write :: "command_env \<Rightarrow> nat \<Rightarrow> command_state \<Rightarrow> reply \<times> command_state" where
  "reinstate_write env i S =
     (case second_call env of
        Call_Raised \<Rightarrow> (Inl (), S)
      | Store_Failed msg \<Rightarrow> (Inr (cps ''Couldn'' @ [39] @ cps ''t reinstate that '' @ [8212] @
        cps '' the store could not be written ('' @ msg @ cps ''). Nothing changed.''), S)
      | Works \<Rightarrow>
          (case reinstate (reminder_settings env) i (cs_reminders S) of
             (Inl e, _) \<Rightarrow> (Inr (cps ''Nothing changed: '' @ reminder_refusal e), S)
           | (Inr None, _) \<Rightarrow> (Inr (cps ''No cancelled reminder has id '' @ decimal i @ cps '', so nothing changed.''), S)
           | (Inr (Some r), t) \<Rightarrow>
               (let S' = reminder_receipt env r Reinstated_Reminder
                  (receipt env (cps ''/reminders reinstate'') (cps ''reinstated reminder '' @ decimal i)
                    (S\<lparr>cs_reminders := t\<rparr>))
                in if status r = PENDING
                   then (Inr (cps ''Reinstated #'' @ decimal (rem_id r) @ cps '' for '' @ due_text env r @ cps '': '' @
              rem_text r), S')
                   else (Inl (), S'))))"

definition reminders_reinstate :: "command_env \<Rightarrow> nat \<Rightarrow> command_state \<Rightarrow> reply \<times> command_state" where
  "reminders_reinstate env i S =
     (case first_call env of
        Call_Raised \<Rightarrow> (Inl (), S)
      | Store_Failed msg \<Rightarrow> (Inr (cps ''Couldn'' @ [39] @ cps ''t read that reminder ('' @ msg @ cps ''). Nothing changed.''), S)
      | Works \<Rightarrow>
          (case reminder_get i (cs_reminders S) of
             None \<Rightarrow> (Inr (cps ''No cancelled reminder has id '' @ decimal i @
              cps '', so nothing changed. See /reminders for what is pending.''), S)
           | Some r \<Rightarrow>
               if status r \<noteq> CANCELLED
               then (Inr (cps ''No cancelled reminder has id '' @ decimal i @
              cps '', so nothing changed. See /reminders for what is pending.''), S)
               else if due_at r \<le> resolver_now env
               then (Inr (cps ''#'' @ decimal (rem_id r) @ cps '' was due at '' @ due_text env r @
              cps ('', which has already passed, so nothing changed. Set a new ti'' @ ''me with /remind <when> '') @
              rem_text r), S)
               else reinstate_write env i S))"

definition reminders_command :: "command_env \<Rightarrow> str \<Rightarrow> command_state \<Rightarrow> reply \<times> command_state" where
  "reminders_command env rest S =
     (let argument = strip rest; (verb, tl') = partition_space argument; raw = strip tl'
      in if \<not> has_reminders env then (Inr REMINDERS_UNAVAILABLE, S)
         else if argument = [] then (reminders_list env S, S)
         else if lower verb \<in> {cps ''cancel'', cps ''reinstate''} \<and> isdigit env raw
         then (case parse_id env raw of
             None \<Rightarrow> (Inl (), S)
           | Some i \<Rightarrow> if lower verb = cps ''cancel'' then reminders_cancel env i S else reminders_reinstate env i S)
         else (Inr (cps ''I don'' @ [39] @ cps ''t know '' @ [34] @ cps ''/reminders '' @ argument @ [34] @
           cps (''. Use /reminders, /reminders cancel <id>, or /reminders rein'' @ ''state <id>.'')), S))"

section \<open>Dispatch\<close>

definition handle :: "command_env \<Rightarrow> str \<Rightarrow> command_state \<Rightarrow> reply option \<times> command_state" where
  "handle env tx S =
     (let raw = strip tx; (verb, tl') = partition_space raw; rest = strip tl'; v = lower verb;
          some = (\<lambda>(r, S'). (Some r, S'))
      in if \<not> prefix [47] raw then (None, S)
         else if v = cps ''/remember'' then some (remember env rest S)
         else if v = cps ''/forget'' then some (forget env rest S)
         else if v = cps ''/memories'' then some (list_memories env S, S)
         else if v = cps ''/capture'' then some (capture env rest S)
         else if v = cps ''/inbox'' then some (inbox_command env rest S)
         else if v = cps ''/remind'' then some (remind env rest S)
         else if v = cps ''/reminders'' then some (reminders_command env rest S)
         else (None, S))"

text \<open>\<open>_handle_command\<close> of the core: an exception becomes the core's error reply.\<close>

definition handle_command :: "command_env \<Rightarrow> str \<Rightarrow> str \<Rightarrow> command_state \<Rightarrow> str option \<times> command_state" where
  "handle_command env error_reply tx S =
     (case handle env tx S of
        (None, S') \<Rightarrow> (None, S')
      | (Some (Inr r), S') \<Rightarrow> (Some r, S')
      | (Some (Inl ()), S') \<Rightarrow> (Some error_reply, S'))"

end
