(* ===== verification/Commands_Properties.thy ===== *)
theory Commands_Properties
  imports Commands
begin

text \<open>
  The properties of the owner's commands: what is recorded of a change, that a reply about a
  reminder shows the stored row, and that a cancelled reminder can be put back.
\<close>

section \<open>What one command changes\<close>

definition same_store :: "command_state \<Rightarrow> command_state \<Rightarrow> bool" where
  "same_store S S' \<longleftrightarrow> cs_memories S' = cs_memories S \<and> cs_inbox S' = cs_inbox S \<and> cs_reminders S' = cs_reminders S"

text \<open>What a command may do to the state: nothing, or one change with its records.\<close>

definition accounted :: "command_env \<Rightarrow> command_state \<Rightarrow> command_state \<Rightarrow> bool" where
  "accounted env S S' \<longleftrightarrow>
     (\<exists>new life. cs_receipts S' = cs_receipts S @ new \<and> cs_lifecycle S' = cs_lifecycle S @ life \<and>
        length new = (if keeps_receipts env \<and> \<not> same_store S S' then 1 else 0) \<and>
        length life = (if keeps_lifecycle env \<and> cs_reminders S' \<noteq> cs_reminders S then 1 else 0))"

lemma accounted_refl [simp]: "accounted env S S"
  by (simp add: accounted_def same_store_def)

lemma accounted_memories: "t \<noteq> cs_memories S \<Longrightarrow> accounted env S (receipt env c d (S\<lparr>cs_memories := t\<rparr>))"
  by (simp add: accounted_def same_store_def receipt_def)

lemma accounted_inbox: "t \<noteq> cs_inbox S \<Longrightarrow> accounted env S (receipt env c d (S\<lparr>cs_inbox := t\<rparr>))"
  by (simp add: accounted_def same_store_def receipt_def)

lemma accounted_reminders:
  "t \<noteq> cs_reminders S \<Longrightarrow> accounted env S (reminder_receipt env r k (receipt env c d (S\<lparr>cs_reminders := t\<rparr>)))"
  by (simp add: accounted_def same_store_def receipt_def reminder_receipt_def)

lemma changed_by_update:
  assumes "x \<in> set (rows t)" "p x" "f x \<noteq> x"
  shows "update_rows p f t \<noteq> t"
proof
  assume "update_rows p f t = t"
  then have "map (\<lambda>r. if p r then f r else r) (rows t) = map id (rows t)" by (metis list.map_id row_op_simps(3))
  then have "(if p x then f x else x) = id x" using assms(1) unfolding map_eq_conv by blast
  then show False using assms(2,3) by simp
qed

lemma trim_next_id: "trim_locked cfg ty protect t = (ev, t') \<Longrightarrow> next_id t' = next_id t"
  by (auto simp: trim_locked_def Let_def split: option.splits if_splits)

lemma mem_add_changes: "mem_add cfg now raw ty t = (Inr w, t') \<Longrightarrow> t' \<noteq> t"
  using trim_next_id [OF add_body_success(2)] unfolding mem_add_success by fastforce

lemma delete_changes: "delete_containing needle t = (ms, t') \<Longrightarrow> ms \<noteq> [] \<Longrightarrow> t' \<noteq> t"
proof
  assume d: "delete_containing needle t = (ms, t')" and ne: "ms \<noteq> []" and same: "t' = t"
  have "set ms \<subseteq> set (rows t)" "t' = delete_rows (\<lambda>m. mem_id m \<in> mem_id ` set ms) t"
    using d ne by (auto simp: delete_containing_def Let_def split: if_splits)
  then have "set ms \<subseteq> set (filter (\<lambda>m. mem_id m \<notin> mem_id ` set ms) (rows t))" using same by (metis row_op_simps(5))
  then show False using ne by (cases ms) auto
qed

lemma append_changes: "inbox_append now raw src t = (Inr x, t') \<Longrightarrow> t' \<noteq> t"
  by (auto simp: inbox_append_def atomically_def inbox_append_body_def Let_def split: if_splits dest: arg_cong [of _ _ next_id])

lemma mark_done_changes: "mark_done i t = (Some x, t') \<Longrightarrow> t' \<noteq> t"
proof -
  assume m: "mark_done i t = (Some x, t')"
  then obtain y where y: "y \<in> set (rows t)" "inb_id y = i \<and> inb_status y = OPEN"
    by (auto simp: mark_done_def split: if_splits)
  have "t' = update_rows (\<lambda>x. inb_id x = i \<and> inb_status x = OPEN) (\<lambda>x. x\<lparr>inb_status := DONE\<rparr>) t"
    using m by (auto simp: mark_done_def Let_def split: if_splits)
  moreover have "y\<lparr>inb_status := DONE\<rparr> \<noteq> y" using y(2) by (metis inbox_item.select_convs(5) inbox_item.surjective inbox_item.update_convs(5) inbox_status.distinct(1))
  ultimately show ?thesis using changed_by_update [OF y(1)] y(2) by simp
qed

text \<open>The row an operation wrote, and that no other changed.\<close>

definition one_row_written :: "reminders \<Rightarrow> reminders \<Rightarrow> reminder \<Rightarrow> bool" where
  "one_row_written t t' r \<longleftrightarrow> row_of rem_id t' (rem_id r) = Some r \<and>
     (\<forall>j. j \<noteq> rem_id r \<longrightarrow> row_of rem_id t' j = row_of rem_id t j)"

lemma schedule_changes: "schedule cfg now raw due tz spec src t = (Inr r, t') \<Longrightarrow> t' \<noteq> t"
  by (auto simp: schedule_def atomically_def schedule_body_def Let_def split: if_splits dest: arg_cong [of _ _ next_id])

lemma schedule_writes:
  assumes "wf_table rem_id t" and "schedule cfg now raw due tz spec src t = (Inr r, t')"
  shows "one_row_written t t' r" and "due_at r = due" and "rem_text r = strip raw" and "status r = PENDING"
proof -
  let ?mk = "new_reminder (strip raw) due tz (take (input_spec_limit cfg) spec) now src"
  have t': "t' = insert_row ?mk t" and r: "r = ?mk (next_id t)"
    using assms(2) by (auto simp: schedule_def atomically_def schedule_body_def Let_def split: if_splits)
  show "one_row_written t t' r" by (simp add: one_row_written_def t' r row_of_insert_row assms(1))
  show "due_at r = due" "rem_text r = strip raw" "status r = PENDING" by (simp_all add: r)
qed

lemma transition_writes:
  assumes "atomically (transition_body cfg i from_s to_s cap) t = (Inr (Some r), t')" and "from_s \<noteq> to_s"
  shows "t' \<noteq> t" and "one_row_written t t' r" and "rem_id r = i"
proof -
  let ?p = "\<lambda>r. rem_id r = i \<and> status r = from_s"
  let ?f = "\<lambda>r. if to_s = PENDING then r\<lparr>status := to_s, next_attempt_at := due_at r\<rparr> else r\<lparr>status := to_s\<rparr>"
  obtain x where x: "x \<in> set (rows t)" "?p x" and t': "t' = update_rows ?p ?f t" and r: "row_of rem_id t' i = Some r"
    using assms(1) by (auto simp: atomically_def transition_body_def Let_def split: if_splits)
  have "status (?f x) \<noteq> status x" using x(2) assms(2) by (auto split: if_splits)
  then have "?f x \<noteq> x" by metis
  then show "t' \<noteq> t" unfolding t' using changed_by_update [OF x(1), of ?p ?f] x(2) by simp
  show id: "rem_id r = i" using row_of_Some [OF r] by simp
  have "row_of rem_id t' j = row_of rem_id t j" if "j \<noteq> i" for j
    unfolding t' by (rule row_of_update_other) (use that in auto)
  then show "one_row_written t t' r" using r by (simp add: one_row_written_def id)
qed

section \<open>Each command\<close>

text \<open>
  What holds of every command: its changes are accounted for, and with a failing repository call
  or an exception there are none.
\<close>

definition honest :: "command_env \<Rightarrow> command_state \<Rightarrow> reply \<times> command_state \<Rightarrow> bool" where
  "honest env S r \<longleftrightarrow> accounted env S (snd r) \<and> (first_call env \<noteq> Works \<or> fst r = Inl () \<longrightarrow> snd r = S)"

lemma honest_same [simp]: "honest env S (r, S)"
  by (simp add: honest_def)

lemma honest_memories:
  "t \<noteq> cs_memories S \<Longrightarrow> first_call env = Works \<Longrightarrow> honest env S (Inr x, receipt env c d (S\<lparr>cs_memories := t\<rparr>))"
  by (simp add: honest_def accounted_memories)

lemma honest_inbox:
  "t \<noteq> cs_inbox S \<Longrightarrow> first_call env = Works \<Longrightarrow> honest env S (Inr x, receipt env c d (S\<lparr>cs_inbox := t\<rparr>))"
  by (simp add: honest_def accounted_inbox)

lemma honest_reminders:
  "t \<noteq> cs_reminders S \<Longrightarrow> first_call env = Works \<Longrightarrow>
   honest env S (Inr x, reminder_receipt env r k (receipt env c d (S\<lparr>cs_reminders := t\<rparr>)))"
  by (simp add: honest_def accounted_reminders)

lemma honest_remember: "honest env S (remember env rest S)"
  unfolding remember_def
  by (auto split: prod.split sum.split memory_error.split store_call.split intro!: honest_memories dest: mem_add_changes)

lemma honest_forget: "honest env S (forget env rest S)"
  unfolding forget_def
  by (auto split: prod.split store_call.split intro!: honest_memories dest: delete_changes)

lemma honest_capture: "honest env S (capture env rest S)"
  unfolding capture_def
  by (auto split: prod.split sum.split inbox_error.split store_call.split intro!: honest_inbox dest: append_changes)

lemma honest_inbox_done: "honest env S (inbox_done env raw S)"
  unfolding inbox_done_def
  by (auto split: prod.split option.split store_call.split intro!: honest_inbox dest: mark_done_changes)

lemma honest_inbox_command: "honest env S (inbox_command env rest S)"
  by (simp add: inbox_command_def Let_def honest_inbox_done split: prod.split)

lemma schedule_call_Returned:
  "schedule_call env tx due spec src t = (Returned (Inr r), t') \<Longrightarrow>
   first_call env = Works \<and>
   schedule (reminder_settings env) (store_now env) tx due (zone_key (rs_zone (resolver_of env))) spec src t = (Inr r, t')"
  by (auto simp: schedule_call_def split: prod.splits sum.splits reminder_error.splits store_call.splits)

lemma honest_remind: "honest env S (remind env rest S)"
  unfolding remind_def
  by (auto split: prod.split sum.split reminder_error.split called.split option.split intro!: honest_reminders
      dest: schedule_call_Returned schedule_changes)

lemma honest_cancel: "honest env S (reminders_cancel env i S)"
  unfolding reminders_cancel_def cancel_def
  by (auto split: prod.split sum.split option.split store_call.split intro!: honest_reminders dest: transition_writes(1))

text \<open>The row that is put back is pending: the \<open>assert\<close> behind the write never fails.\<close>

lemma reinstated_is_pending:
  assumes "reminder_get i t = Some q" and "status q = CANCELLED" and "reinstate cfg i t = (Inr (Some r), t')"
  shows "status r = PENDING"
proof -
  let ?p = "\<lambda>r. rem_id r = i \<and> status r = CANCELLED"
  let ?f = "\<lambda>r. r\<lparr>status := PENDING, next_attempt_at := due_at r\<rparr>"
  have t': "t' = update_rows ?p ?f t" and r: "row_of rem_id t' i = Some r"
    using assms(3) by (auto simp: reinstate_def atomically_def transition_body_def Let_def split: if_splits)
  have "rem_id q = i" using row_of_Some [OF assms(1) [unfolded reminder_get_def]] by simp
  then show ?thesis using r assms(1,2) by (auto simp: t' row_of_update_rows reminder_get_def)
qed

lemma honest_reinstate_write:
  assumes "first_call env = Works" and "reminder_get i (cs_reminders S) = Some q" and "status q = CANCELLED"
  shows "honest env S (reinstate_write env i S)"
  using assms(1) reinstated_is_pending [OF assms(2,3)] unfolding reinstate_write_def Let_def
  by (auto split: prod.split sum.split option.split store_call.split intro!: honest_reminders
      dest: transition_writes(1) simp: reinstate_def)

lemma honest_reinstate: "honest env S (reminders_reinstate env i S)"
  unfolding reminders_reinstate_def
  by (auto split: option.split store_call.split intro!: honest_reinstate_write)

lemma honest_reminders_command: "honest env S (reminders_command env rest S)"
  by (simp add: reminders_command_def Let_def honest_cancel honest_reinstate split: prod.split option.split)

lemmas honest_commands = honest_remember honest_forget honest_capture honest_inbox_command honest_remind honest_reminders_command

lemma handle_honest: "handle env tx S = (Some r, S') \<Longrightarrow> honest env S (r, S')" "handle env tx S = (None, S') \<Longrightarrow> S' = S"
  using honest_commands [of env S]
  by (auto simp: handle_def Let_def split: prod.splits if_splits) metis+

section \<open>Receipts\<close>


section \<open>The echo of a reminder\<close>

text \<open>What a reply that changed a reminder says.\<close>

definition echoes :: "command_env \<Rightarrow> reminder \<Rightarrow> str \<Rightarrow> bool" where
  "echoes env r msg \<longleftrightarrow> contains (35 # decimal (rem_id r)) msg \<and> contains (due_text env r @ [58, 32] @ rem_text r) msg"

lemma echoesI: "msg = a @ [35] @ decimal (rem_id r) @ b @ due_text env r @ [58, 32] @ rem_text r @ c \<Longrightarrow> echoes env r msg"
  using contains_part [of "35 # decimal (rem_id r)" a "b @ due_text env r @ [58, 32] @ rem_text r @ c"]
    contains_part [of "due_text env r @ [58, 32] @ rem_text r" "a @ [35] @ decimal (rem_id r) @ b" c]
  by (simp add: echoes_def)

definition echoed :: "command_env \<Rightarrow> command_state \<Rightarrow> reply \<times> command_state \<Rightarrow> bool" where
  "echoed env S rS \<longleftrightarrow> cs_reminders (snd rS) = cs_reminders S \<or>
     (\<exists>r msg k. fst rS = Inr msg \<and> one_row_written (cs_reminders S) (cs_reminders (snd rS)) r \<and> echoes env r msg \<and>
        cs_lifecycle (snd rS) = cs_lifecycle S @ (if keeps_lifecycle env then [(rem_id r, due_at r, k)] else []))"

lemma echoed_same [simp]: "cs_reminders S' = cs_reminders S \<Longrightarrow> echoed env S (x, S')"
  by (simp add: echoed_def)

lemma echoedI:
  "one_row_written (cs_reminders S) t r \<Longrightarrow> echoes env r msg \<Longrightarrow>
   echoed env S (Inr msg, reminder_receipt env r k (receipt env c d (S\<lparr>cs_reminders := t\<rparr>)))"
  by (fastforce simp: echoed_def reminder_receipt_def receipt_def)

lemma echoes_text:
  assumes "lead \<noteq> []" and "last lead = 35"
  shows "echoes env r (lead @ decimal (rem_id r) @ mid @ due_text env r @ 58 # 32 # rem_text r @ c)"
    and "echoes env r (lead @ decimal (rem_id r) @ mid @ due_text env r @ 58 # 32 # rem_text r)"
proof -
  obtain l where l: "lead = l @ [35]" using assms by (metis append_butlast_last_id)
  show "echoes env r (lead @ decimal (rem_id r) @ mid @ due_text env r @ 58 # 32 # rem_text r @ c)"
    by (rule echoesI [of _ l r mid env c]) (simp add: l)
  show "echoes env r (lead @ decimal (rem_id r) @ mid @ due_text env r @ 58 # 32 # rem_text r)"
    by (rule echoesI [of _ l r mid env "[]"]) (simp add: l)
qed

lemma colon_text [simp]: "cps '': '' = [58, 32]"
  by (simp add: cps_def)

lemma leads: "last (cps ''Reminder #'') = 35" "last (cps ''Cancelled #'') = 35" "last (cps ''Reinstated #'') = 35"
  "cps ''Reminder #'' \<noteq> []" "cps ''Cancelled #'' \<noteq> []" "cps ''Reinstated #'' \<noteq> []"
  by (simp_all add: cps_def)

lemma echoed_remind: "wf_table rem_id (cs_reminders S) \<Longrightarrow> echoed env S (remind env rest S)"
  unfolding remind_def
  by (auto split: prod.split sum.split reminder_error.split called.split option.split intro!: echoedI echoes_text leads
      dest!: schedule_call_Returned dest: schedule_writes(1))

lemma echoed_cancel: "echoed env S (reminders_cancel env i S)"
  unfolding reminders_cancel_def cancel_def
  by (auto split: prod.split sum.split option.split store_call.split intro!: echoedI echoes_text leads dest: transition_writes(2))

lemma echoed_reinstate: "echoed env S (reminders_reinstate env i S)"
  unfolding reminders_reinstate_def reinstate_write_def Let_def
  by (auto split: prod.split sum.split option.split store_call.split intro!: echoedI echoes_text leads
      dest: reinstated_is_pending dest: transition_writes(2) simp: reinstate_def)

lemma no_reminder_change:
  "cs_reminders (snd (remember env rest S)) = cs_reminders S" "cs_reminders (snd (forget env rest S)) = cs_reminders S"
  "cs_reminders (snd (capture env rest S)) = cs_reminders S" "cs_reminders (snd (inbox_command env rest S)) = cs_reminders S"
  by (auto simp: remember_def forget_def capture_def inbox_command_def inbox_done_def receipt_def Let_def
      split: prod.split sum.split memory_error.split inbox_error.split store_call.split option.split)

text \<open>
  A reply that follows a change of a reminder shows the stored row: one row of the table was
  written, no other changed, and the reply holds its number, its due time as the owner's clock
  reads it and its text; the lifecycle log, where it is kept, gets one record with that number and
  due time.
\<close>

theorem reminder_replies_echo_the_row:
  assumes "wf_table rem_id (cs_reminders S)" and "handle env tx S = (reply, S')"
    and "cs_reminders S' \<noteq> cs_reminders S"
  shows "\<exists>r msg k. reply = Some (Inr msg) \<and> row_of rem_id (cs_reminders S') (rem_id r) = Some r \<and>
    (\<forall>j. j = rem_id r \<or> row_of rem_id (cs_reminders S') j = row_of rem_id (cs_reminders S) j) \<and>
    contains (35 # decimal (rem_id r)) msg \<and>
    contains (render_instant (rs_zone (resolver_of env)) (due_at r) @ [58, 32] @ rem_text r) msg \<and>
    cs_lifecycle S' = cs_lifecycle S @ (if keeps_lifecycle env then [(rem_id r, due_at r, k)] else [])"
proof -
  have "echoed env S (reminders_command env rest S)" for rest
    by (simp add: reminders_command_def Let_def echoed_cancel echoed_reinstate split: prod.split option.split)
  moreover have "reply \<noteq> None" using handle_honest(2) [of env tx S S'] assms(2,3) by auto
  ultimately obtain q where "reply = Some q" "echoed env S (q, S')"
    using assms(2,3) no_reminder_change [of env _ S] echoed_remind [OF assms(1), of env]
    by (auto simp: handle_def Let_def split: prod.splits if_splits) (metis prod.sel(2))+
  then show ?thesis using assms(3) by (fastforce simp: echoed_def one_row_written_def echoes_def due_text_def)
qed

section \<open>Cancelling and putting back\<close>

text \<open>The text of a command with a number is read as it was written.\<close>

definition ascii_digits :: "command_env \<Rightarrow> bool" where
  "ascii_digits env \<longleftrightarrow> (\<forall>c. 48 \<le> c \<longrightarrow> c \<le> 57 \<longrightarrow> is_digit_char env c \<and> dgt (resolver_of env) c = Some (int c - 48))"

lemma decimal_ne [simp]: "decimal n \<noteq> []"
  by (simp add: decimal.simps [of n])

lemma isdigit_decimal: "ascii_digits env \<Longrightarrow> isdigit env (decimal n)"
  by (auto simp: isdigit_def ascii_digits_def list_all_iff dest: decimal_digits)

lemma foldl_decimal:
  assumes "ascii_digits env"
  shows "foldl (\<lambda>a d. a * 10 + the d) 0 (map (dgt (resolver_of env)) (decimal n)) = int n"
proof (induction n rule: decimal.induct)
  case (1 n)
  have d: "dgt (resolver_of env) (48 + n mod 10) = Some (int (n mod 10))" for n :: nat
    using assms by (simp add: ascii_digits_def)
  show ?case
  proof (cases "n < 10")
    case True
    then show ?thesis using d [of n] by (simp add: decimal.simps [of n])
  next
    case False
    have "int (n div 10) * 10 + int (n mod 10) = int n" by presburger
    then show ?thesis using 1 d [of n] False by (simp add: decimal.simps [of n])
  qed
qed

lemma parse_id_decimal: "ascii_digits env \<Longrightarrow> length (decimal n) \<le> 4300 \<Longrightarrow> parse_id env (decimal n) = Some n"
  by (fastforce simp: parse_id_def foldl_decimal ascii_digits_def dest: decimal_digits)

lemma no_space_decimal: "c \<in> set (decimal n) \<Longrightarrow> \<not> is_space c"
  using decimal_digits [of c n] by (auto simp: is_space_def)

lemma strip_trimmed: "\<not> is_space c \<Longrightarrow> strip (c # s @ decimal n) = c # s @ decimal n"
  using no_space_decimal [of "last (decimal n)" n]
  by (cases "decimal n" rule: rev_cases) (simp_all add: strip_def)

lemma strip_decimal: "strip (decimal n) = decimal n"
  by (rule strip_no_space) (use no_space_decimal in \<open>simp add: list_all_iff\<close>)

lemma reminder_verbs:
  assumes "ascii_digits env" and "length (decimal n) \<le> 4300" and "has_reminders env"
  shows "handle env (cps ''/reminders cancel '' @ decimal n) S = (case reminders_cancel env n S of (r, S') \<Rightarrow> (Some r, S'))"
    and "handle env (cps ''/reminders reinstate '' @ decimal n) S = (case reminders_reinstate env n S of (r, S') \<Rightarrow> (Some r, S'))"
proof -
  have c: "cps ''/reminders cancel '' = 47 # cps ''reminders cancel ''" "cps ''/reminders reinstate '' = 47 # cps ''reminders reinstate ''"
    "cps ''cancel '' = 99 # cps ''ancel ''" "cps ''reinstate '' = 114 # cps ''einstate ''"
    by (simp_all add: cps_def)
  have s: "strip (cps ''/reminders cancel '' @ decimal n) = cps ''/reminders cancel '' @ decimal n"
    "strip (cps ''/reminders reinstate '' @ decimal n) = cps ''/reminders reinstate '' @ decimal n"
    "strip (cps ''cancel '' @ decimal n) = cps ''cancel '' @ decimal n"
    "strip (cps ''reinstate '' @ decimal n) = cps ''reinstate '' @ decimal n"
    unfolding c append_Cons by (rule strip_trimmed, simp add: is_space_def)+
  have p: "partition_space (cps ''/reminders cancel '' @ decimal n) = (cps ''/reminders'', cps ''cancel '' @ decimal n)"
    "partition_space (cps ''/reminders reinstate '' @ decimal n) = (cps ''/reminders'', cps ''reinstate '' @ decimal n)"
    "partition_space (cps ''cancel '' @ decimal n) = (cps ''cancel'', decimal n)"
    "partition_space (cps ''reinstate '' @ decimal n) = (cps ''reinstate'', decimal n)"
    by (simp_all add: partition_space_def cps_def)
  have l: "lower (cps ''/reminders'') = cps ''/reminders''" "lower (cps ''cancel'') = cps ''cancel''"
    "lower (cps ''reinstate'') = cps ''reinstate''" by (simp_all add: lower_def lower_cp_def cps_def)
  have ne: "cps ''/reminders'' \<noteq> cps ''/remember''" "cps ''/reminders'' \<noteq> cps ''/forget''" "cps ''/reminders'' \<noteq> cps ''/memories''"
    "cps ''/reminders'' \<noteq> cps ''/capture''" "cps ''/reminders'' \<noteq> cps ''/inbox''" "cps ''/reminders'' \<noteq> cps ''/remind''"
    "cps ''reinstate'' \<noteq> cps ''cancel''" "cps ''cancel '' \<noteq> []" "cps ''reinstate '' \<noteq> []" by (simp_all add: cps_def)
  have slash: "prefix [47] (cps ''/reminders cancel '' @ decimal n)" "prefix [47] (cps ''/reminders reinstate '' @ decimal n)"
    by (simp_all add: cps_def)
  note known = isdigit_decimal [OF assms(1)] parse_id_decimal [OF assms(1,2)] strip_decimal
  show "handle env (cps ''/reminders cancel '' @ decimal n) S = (case reminders_cancel env n S of (r, S') \<Rightarrow> (Some r, S'))"
    by (simp add: handle_def reminders_command_def s p l ne slash known assms(3) split: prod.split)
  show "handle env (cps ''/reminders reinstate '' @ decimal n) S = (case reminders_reinstate env n S of (r, S') \<Rightarrow> (Some r, S'))"
    by (simp add: handle_def reminders_command_def s p l ne slash known assms(3) split: prod.split)
qed

lemma count_drops:
  "x \<in> set xs \<Longrightarrow> P x \<Longrightarrow> \<not> P (f x) \<Longrightarrow> (\<And>y. P (f y) \<Longrightarrow> P y) \<Longrightarrow>
   length (filter P (map f xs)) < length (filter P xs)"
proof (induction xs)
  case (Cons y ys)
  have le: "length (filter P (map f ys)) \<le> length (filter P ys)"
    using Cons.prems(4) by (induction ys) (auto simp: le_SucI)
  show ?case
  proof (cases "x \<in> set ys")
    case True
    then show ?thesis using Cons.IH Cons.prems by (auto simp: less_SucI)
  next
    case False
    then show ?thesis using Cons.prems le by auto
  qed
qed simp

lemma cancel_result:
  assumes "wf_table rem_id t" and "row_of rem_id t n = Some r" and "status r = PENDING"
  shows "cancel cfg n t = (Inr (Some (r\<lparr>status := CANCELLED\<rparr>)), update_rows (\<lambda>x. rem_id x = n) (\<lambda>x. x\<lparr>status := CANCELLED\<rparr>) t)"
    and "count_pending (update_rows (\<lambda>x. rem_id x = n) (\<lambda>x. x\<lparr>status := CANCELLED\<rparr>) t) < count_pending t"
proof -
  let ?f = "\<lambda>x. x\<lparr>status := CANCELLED\<rparr>"
  have r: "r \<in> set (rows t)" "rem_id r = n" using row_of_Some [OF assms(2)] by simp_all
  have only: "rem_id x = n \<and> status x = PENDING \<longleftrightarrow> rem_id x = n" if "x \<in> set (rows t)" for x
    using wf_table_unique [OF assms(1) that r(1)] r(2) assms(3) by auto
  have up: "update_rows (\<lambda>x. rem_id x = n \<and> status x = PENDING) ?f t = update_rows (\<lambda>x. rem_id x = n) ?f t"
    by (rule table_eqI) (use only in auto)
  have "\<exists>x\<in>set (rows t). rem_id x = n \<and> status x = PENDING" using r assms(3) by blast
  then show "cancel cfg n t = (Inr (Some (?f r)), update_rows (\<lambda>x. rem_id x = n) ?f t)"
    using r by (simp add: cancel_def atomically_def transition_body_def up row_of_update_rows assms(2))
  show "count_pending (update_rows (\<lambda>x. rem_id x = n) ?f t) < count_pending t"
    unfolding count_pending_def count_rows_def row_op_simps
    by (rule count_drops [OF r(1)]) (use r assms(3) in \<open>auto split: if_splits\<close>)
qed

lemma reinstate_result:
  assumes "wf_table rem_id t" and "row_of rem_id t n = Some r" and "status r = CANCELLED"
    and "count_pending t < max_pending cfg"
  shows "reinstate cfg n t = (Inr (Some (r\<lparr>status := PENDING, next_attempt_at := due_at r\<rparr>)),
    update_rows (\<lambda>x. rem_id x = n) (\<lambda>x. x\<lparr>status := PENDING, next_attempt_at := due_at x\<rparr>) t)"
proof -
  let ?f = "\<lambda>x. x\<lparr>status := PENDING, next_attempt_at := due_at x\<rparr>"
  have r: "r \<in> set (rows t)" "rem_id r = n" using row_of_Some [OF assms(2)] by simp_all
  have only: "rem_id x = n \<and> status x = CANCELLED \<longleftrightarrow> rem_id x = n" if "x \<in> set (rows t)" for x
    using wf_table_unique [OF assms(1) that r(1)] r(2) assms(3) by auto
  have up: "update_rows (\<lambda>x. rem_id x = n \<and> status x = CANCELLED) ?f t = update_rows (\<lambda>x. rem_id x = n) ?f t"
    by (rule table_eqI) (use only in auto)
  have "\<exists>x\<in>set (rows t). rem_id x = n \<and> status x = CANCELLED" using r assms(3) by blast
  then show ?thesis
    using r assms(4) by (simp add: reinstate_def atomically_def transition_body_def up row_of_update_rows assms(2))
qed

text \<open>
  C18. A cancelled reminder can be put back: \<open>/reminders cancel\<close> with the number of a pending
  reminder and then \<open>/reminders reinstate\<close> with the same number, before it is due, leave the table
  as it was but for the reminder's next attempt, which is at its due time again; in between the
  row is there, cancelled, with its text and due time.
\<close>


theorem cancelled_reminder_comes_back:
  assumes "reminder_inv (reminder_settings env) (cs_reminders S)"
    and "row_of rem_id (cs_reminders S) n = Some r" and "status r = PENDING" and "resolver_now env < due_at r"
    and "has_reminders env" and "first_call env = Works" and "second_call env = Works"
    and "ascii_digits env" and "length (decimal n) \<le> 4300"
    and "S1 = snd (handle env (cps ''/reminders cancel '' @ decimal n) S)"
    and "S2 = snd (handle env (cps ''/reminders reinstate '' @ decimal n) S1)"
  shows "cs_reminders S1 = update_rows (\<lambda>x. rem_id x = n) (\<lambda>x. x\<lparr>status := CANCELLED\<rparr>) (cs_reminders S) \<and>
    cs_reminders S2 = update_rows (\<lambda>x. rem_id x = n) (\<lambda>x. x\<lparr>next_attempt_at := due_at x\<rparr>) (cs_reminders S)"
proof -
  let ?t = "cs_reminders S" let ?t1 = "update_rows (\<lambda>x. rem_id x = n) (\<lambda>x. x\<lparr>status := CANCELLED\<rparr>) ?t"
  have wf: "wf_table rem_id ?t" and cap: "count_pending ?t \<le> max_pending (reminder_settings env)"
    using assms(1) by (simp_all add: reminder_inv_def)
  note c = cancel_result [OF wf assms(2,3)] and verbs = reminder_verbs [OF assms(8,9,5)]
  have t1: "cs_reminders S1 = ?t1"
    by (simp add: assms(10) verbs reminders_cancel_def assms(6) c(1) reminder_receipt_def receipt_def)
  have r: "rem_id r = n" "r \<in> set (rows ?t)" using row_of_Some [OF assms(2)] by simp_all
  have row: "row_of rem_id ?t1 n = Some (r\<lparr>status := CANCELLED\<rparr>)" using r by (simp add: row_of_update_rows assms(2))
  have "wf_table rem_id ?t1" by (rule wf_update_rows [OF wf]) simp
  from reinstate_result [OF this row, of "reminder_settings env"] c(2) cap
  have "cs_reminders S2 = update_rows (\<lambda>x. rem_id x = n) (\<lambda>x. x\<lparr>status := PENDING, next_attempt_at := due_at x\<rparr>) ?t1"
    by (simp add: assms(11,6,7) verbs reminders_reinstate_def reinstate_write_def reminder_get_def t1 row
      assms(4) [THEN not_le [THEN iffD2]] Let_def reminder_receipt_def receipt_def)
  moreover have "x = r" if "x \<in> set (rows ?t)" "rem_id x = n" for x using wf_table_unique [OF wf that(1) r(2)] r(1) that(2) by simp
  ultimately have "cs_reminders S2 = update_rows (\<lambda>x. rem_id x = n) (\<lambda>x. x\<lparr>next_attempt_at := due_at x\<rparr>) ?t"
    using assms(3) by (auto intro!: table_eqI)
  then show ?thesis using t1 by simp
qed

section \<open>Witnesses\<close>

definition sample_env :: command_env where
  "sample_env = \<lparr>has_memories = True, has_inbox = True, has_reminders = True, memory_settings = default_memory_cfg,
     reminder_settings = \<lparr>max_pending = 5, text_length_limit = 50, page_size = 5, input_spec_limit = 20\<rparr>,
     inbox_page_size = 5, echo_limit = 10, resolver_of = dutch, resolver_now = 1774700000, store_now = 1774700000,
     first_call = Works, second_call = Works, is_digit_char = (\<lambda>c. 48 \<le> c \<and> c \<le> 57), repr_of = id,
     keeps_receipts = True, keeps_lifecycle = True\<rparr>"

lemma sample_env_parts [simp]:
  "has_memories sample_env" "has_inbox sample_env" "has_reminders sample_env" "first_call sample_env = Works"
  "second_call sample_env = Works" "resolver_of sample_env = dutch" "resolver_now sample_env = 1774700000"
  "store_now sample_env = 1774700000" "keeps_receipts sample_env" "keeps_lifecycle sample_env"
  "reminder_settings sample_env = \<lparr>max_pending = 5, text_length_limit = 50, page_size = 5, input_spec_limit = 20\<rparr>"
  by (simp_all add: sample_env_def)

definition empty_state :: command_state where
  "empty_state = \<lparr>cs_memories = empty_table, cs_inbox = empty_table, cs_reminders = empty_table, cs_receipts = [], cs_lifecycle = []\<rparr>"

definition sample_row :: reminder where
  "sample_row = new_reminder [120] 1774900000 [] [] 1774600000 (cps ''tool'') 2"

definition sample_state :: command_state where
  "sample_state = empty_state\<lparr>cs_reminders := \<lparr>rows = [sample_row], next_id = 3\<rparr>\<rparr>"

lemma sample_digits: "ascii_digits sample_env" "length (decimal 2) \<le> 4300" "has_reminders sample_env"
  by (simp_all add: ascii_digits_def sample_env_def dutch_def ascii_digit_def decimal.simps [of 2])

lemma sample_inv: "reminder_inv (reminder_settings sample_env) (cs_reminders sample_state)"
  by (simp add: reminder_inv_def sample_state_def sample_row_def wf_table_def count_pending_def count_rows_def empty_state_def)

lemma sample_row_found: "row_of rem_id (cs_reminders sample_state) 2 = Some sample_row"
  by (simp add: sample_state_def row_of_def sample_row_def)


theorem reminder_replies_echo_the_row_witness:
  "\<exists>msg. fst (handle sample_env (cps ''/reminders cancel '' @ decimal 2) sample_state) = Some (Inr msg) \<and>
     length (cs_lifecycle (snd (handle sample_env (cps ''/reminders cancel '' @ decimal 2) sample_state))) = 1"
proof -
  let ?h = "handle sample_env (cps ''/reminders cancel '' @ decimal 2) sample_state"
  have wf: "wf_table rem_id (cs_reminders sample_state)" using sample_inv by (simp add: reminder_inv_def)
  have "cs_reminders (snd ?h) = update_rows (\<lambda>x. rem_id x = 2) (\<lambda>x. x\<lparr>status := CANCELLED\<rparr>) (cs_reminders sample_state)"
    using cancel_result(1) [OF wf sample_row_found]
    by (simp add: reminder_verbs [OF sample_digits] reminders_cancel_def reminder_receipt_def receipt_def sample_row_def)
  then have "status ` set (rows (cs_reminders (snd ?h))) \<noteq> status ` set (rows (cs_reminders sample_state))"
    by (simp add: sample_state_def sample_row_def)
  then have "cs_reminders (snd ?h) \<noteq> cs_reminders sample_state" by metis
  then show ?thesis
    using reminder_replies_echo_the_row [OF wf, of sample_env "cps ''/reminders cancel '' @ decimal 2" "fst ?h" "snd ?h"]
    by (auto simp: sample_state_def empty_state_def)
qed

theorem cancelled_reminder_comes_back_witness:
  "rows (cs_reminders (snd (handle sample_env (cps ''/reminders reinstate '' @ decimal 2)
     (snd (handle sample_env (cps ''/reminders cancel '' @ decimal 2) sample_state))))) = [sample_row]"
  using cancelled_reminder_comes_back [OF sample_inv sample_row_found _ _ sample_digits(3) _ _ sample_digits(1,2) refl refl]
  by (simp add: sample_row_def sample_state_def new_reminder_def)

end
