(* ===== verification/Owner_Tools.thy ===== *)
theory Owner_Tools
  imports Commands_Properties Calendar_Tool
begin

text \<open>
  \<open>henk/tools/memory.py\<close>, \<open>capture.py\<close> and \<open>reminders.py\<close>: the model's own ways into the owner's
  stores, over the state and surroundings of the commands. Arguments are of the type their schema
  declares; \<open>int_of\<close> is \<open>int\<close> on the others (\<open>None\<close> where it raises). A lifecycle record of a tool
  differs from a command's only in who initiated it, which is left out.
\<close>

section \<open>Memory and capture\<close>

definition store_memory :: "command_env \<Rightarrow> str \<Rightarrow> command_state \<Rightarrow> tool_outcome \<times> command_state" where
  "store_memory env tx S =
     (case mem_add (memory_settings env) (store_now env) tx AGENT (cs_memories S) of
        (Inl Empty_Content, _) \<Rightarrow>
          (Refused (cps (''nothing was stored: the fact was empty. Call this with the t'' @ ''ext of the fact to remember.'')), S)
      | (Inl (Content_Too_Long limit len), _) \<Rightarrow> (Refused (cps ''nothing was stored: '' @ too_long limit len), S)
      | (Inl (Unknown_Type _), _) \<Rightarrow> (Tool_Raised, S)
      | (Inr w, t) \<Rightarrow>
          (case first_call env of
             Call_Raised \<Rightarrow> (Tool_Raised, S)
           | Store_Failed msg \<Rightarrow> (Refused (cps ''nothing was stored: the memory store could not be written ('' @ msg @ cps '').''), S)
           | Works \<Rightarrow>
               (Succeeded (cps ''Stored as a remembered fact: '' @ content (stored w) @
                  (if evicted w = [] then []
                   else ([10] @
              cps (''The agent-memory cap was reached, so the oldest fact was dro'' @ ''pped to make room: '') @
              join [59, 32] (map content (evicted w))))),
                S\<lparr>cs_memories := t\<rparr>)))"

definition capture_tool :: "command_env \<Rightarrow> str \<Rightarrow> str \<Rightarrow> command_state \<Rightarrow> tool_outcome \<times> command_state" where
  "capture_tool env src tx S =
     (case inbox_append (store_now env) tx src (cs_inbox S) of
        (Inl Inbox_Empty_Content, _) \<Rightarrow>
          (Refused (cps (''nothing was captured: the text was empty. Call this with the'' @ '' thought to capture.'')), S)
      | (Inr item, t) \<Rightarrow>
          (case first_call env of
             Call_Raised \<Rightarrow> (Tool_Raised, S)
           | Store_Failed msg \<Rightarrow> (Refused (cps ''nothing was captured: the inbox could not be written ('' @ msg @ cps '').''), S)
           | Works \<Rightarrow> (Succeeded (cps ''Captured in the inbox as #'' @ decimal (inb_id item) @ [58, 32] @ inb_text item),
               S\<lparr>cs_inbox := t\<rparr>)))"

definition MAX_READ_LIMIT :: int where "MAX_READ_LIMIT = 200"

definition read_limit :: "(json \<Rightarrow> int option) \<Rightarrow> command_env \<Rightarrow> json \<Rightarrow> nat" where
  "read_limit int_of env limit =
     (let n = (if limit = J_Null then Some (int (inbox_page_size env)) else int_of limit)
      in case n of None \<Rightarrow> inbox_page_size env | Some n \<Rightarrow> nat (max 1 (min n MAX_READ_LIMIT)))"

definition inbox_read :: "(json \<Rightarrow> int option) \<Rightarrow> command_env \<Rightarrow> json \<Rightarrow> command_state \<Rightarrow> tool_outcome" where
  "inbox_read int_of env limit S =
     (case first_call env of
        Call_Raised \<Rightarrow> Tool_Raised
      | Store_Failed msg \<Rightarrow> Refused (cps ''the inbox could not be read ('' @ msg @ cps ''); this is a failure, not an empty inbox.'')
      | Works \<Rightarrow>
          (let p = list_open (Some (read_limit int_of env limit)) (cs_inbox S)
           in if items p = [] then Succeeded (cps ''The inbox has no open items.'')
              else Succeeded (join [10] ([decimal (length (items p)) @ cps '' open inbox item(s), oldest first:''] @
                map (\<lambda>i. cps ''- #'' @ decimal (inb_id i) @ cps '' (captured '' @ format_created_at (inb_created i) @
                  cps ''): '' @ inb_text i) (items p) @
                (if newer_remainder p \<noteq> 0
                 then [(cps ''...and '' @ decimal (newer_remainder p) @ cps '' newer item(s) not shown.'')] else [])))))"

section \<open>Reminders\<close>

definition remind_tool :: "command_env \<Rightarrow> str \<Rightarrow> str \<Rightarrow> command_state \<Rightarrow> tool_outcome \<times> command_state" where
  "remind_tool env tx when S =
     (case resolve_time (resolver_of env) when TOOL (resolver_now env) of
        Inl e \<Rightarrow> (Refused (cps ''nothing was scheduled: '' @ rj_message e), S)
      | Inr res \<Rightarrow>
          (case schedule_call env tx (rn_due_at res) when (cps ''tool'') (cs_reminders S) of
             (Returned (Inl Reminder_Empty), _) \<Rightarrow>
               (Refused (cps (''nothing was scheduled: the reminder text was empty. Call thi'' @
                ''s with what the owner should be reminded about.'')), S)
           | (Returned (Inl e), _) \<Rightarrow> (Refused (cps ''nothing was scheduled: '' @ reminder_refusal e), S)
           | (Call_Failed msg, _) \<Rightarrow> (Refused (cps ''nothing was scheduled: the reminder could not be stored ('' @ msg @ cps '').''), S)
           | (Call_Threw, _) \<Rightarrow> (Tool_Raised, S)
           | (Returned (Inr r), t) \<Rightarrow>
               (Succeeded (cps ''Reminder #'' @ decimal (rem_id r) @ cps '' set for '' @ due_text env r @ [58, 32] @ rem_text r @
                  (if rn_disclosure res = [] then [] else (cps '' '' @ [8212] @ cps '' note that '' @ rn_disclosure res @ cps ''.''))),
                reminder_receipt env r Scheduled (S\<lparr>cs_reminders := t\<rparr>))))"

definition cancel_reminder :: "(json \<Rightarrow> int option) \<Rightarrow> command_env \<Rightarrow> json \<Rightarrow> command_state \<Rightarrow> tool_outcome \<times> command_state" where
  "cancel_reminder int_of env v S =
     (case int_of v of
        None \<Rightarrow> (Refused (cps ''nothing was cancelled: cancel_reminder needs the reminder'' @ [39] @
          cps ''s numeric id. Use reminders_read to find it.''), S)
      | Some i \<Rightarrow>
          (case first_call env of
             Call_Raised \<Rightarrow> (Tool_Raised, S)
           | Store_Failed msg \<Rightarrow> (Refused (cps ''nothing was cancelled: the store could not be written ('' @ msg @ cps '').''), S)
           | Works \<Rightarrow>
               (case (if i < 0 then (Inr None, cs_reminders S) else cancel (reminder_settings env) (nat i) (cs_reminders S)) of
                  (Inl _, _) \<Rightarrow> (Tool_Raised, S)
                | (Inr None, _) \<Rightarrow> (Refused (cps ''nothing was cancelled: no pending reminder has id '' @ int_text i @ cps ''.''), S)
                | (Inr (Some r), t) \<Rightarrow>
                    (Succeeded (cps ''Cancelled reminder #'' @ decimal (rem_id r) @ cps '', which was set for '' @
              due_text env r @ cps '': '' @ rem_text r @
              cps ''. The owner can put it back with /reminders reinstate '' @ decimal (rem_id r) @ cps ''.''),
                     reminder_receipt env r Cancelled_Reminder (S\<lparr>cs_reminders := t\<rparr>)))))"

definition reminders_read :: "command_env \<Rightarrow> command_state \<Rightarrow> tool_outcome" where
  "reminders_read env S =
     (case first_call env of
        Call_Raised \<Rightarrow> Tool_Raised
      | Store_Failed msg \<Rightarrow> Refused (cps ''the reminders could not be read ('' @ msg @
        cps ''); this is a failure, not an empty schedule.'')
      | Works \<Rightarrow>
          (let p = list_pending (reminder_settings env) None (cs_reminders S)
           in if page_items p = [] then Succeeded (cps ''There are no pending reminders.'')
              else Succeeded (join [10] ([decimal (length (page_items p)) @ cps '' pending reminder(s), soonest first:''] @
                map (\<lambda>r. cps ''- #'' @ decimal (rem_id r) @ cps '' at '' @ due_text env r @ [58, 32] @ rem_text r) (page_items p) @
                (if remainder p \<noteq> 0
                 then [(cps ''...and '' @ decimal (remainder p) @ cps '' later reminder(s) not shown.'')] else [])))))"

section \<open>The tool and the command\<close>

lemma reject_Inr [simp]: "reject a b \<noteq> Inr x" "imaginary_error r p w m \<noteq> Inr x" "reject_shape r p raw \<noteq> Inr x"
  by (auto simp: reject_def imaginary_error_def reject_shape_def Let_def split: prod.split)

lemma evaluate_any_path: "evaluate_reading r p w m c = Inr x \<Longrightarrow> evaluate_reading r q w m c = Inr x"
  by (auto simp: evaluate_reading_def Let_def split: if_splits)

lemma tool_time_is_command_time:
  assumes "resolve_time r when TOOL now = Inr res"
  shows "resolve_time r when COMMAND now = Inr res"
proof (cases "match_duration (dgt r) (strip when)")
  case None
  then obtain n where n: "match_dated (dgt r) (strip when) = Some n"
    using assms by (auto simp: resolve_time_def Let_def split: option.splits)
  then have "resolve_dated r TOOL n now = Inr res" using assms None by (simp add: resolve_time_def)
  then have "resolve_dated r COMMAND n now = Inr res"
    by (auto simp: resolve_dated_def split: if_splits sum.splits dest!: evaluate_any_path [of r TOOL _ _ _ _ COMMAND])
  then show ?thesis using None n by (simp add: resolve_time_def)
next
  case (Some m)
  then show ?thesis using assms by (auto simp: resolve_time_def resolve_duration_def split: prod.splits if_splits)
qed

lemma scheduled_row:
  assumes "schedule_call env tx due spec src t = (Returned (Inr r), t')"
  shows "t' = insert_row (new_reminder (strip tx) due (zone_key (rs_zone (resolver_of env)))
      (take (input_spec_limit (reminder_settings env)) spec) (store_now env) src) t" and "strip tx \<noteq> []"
    and "r = new_reminder (strip tx) due (zone_key (rs_zone (resolver_of env)))
      (take (input_spec_limit (reminder_settings env)) spec) (store_now env) src (next_id t)"
    and "\<exists>r' t''. schedule_call env tx due spec src' t = (Returned (Inr r'), t'')"
  using assms
  by (auto simp: schedule_call_def schedule_def atomically_def schedule_body_def Let_def
      split: prod.splits sum.splits reminder_error.splits store_call.splits if_splits)

text \<open>
  C17. The model's tool and the owner's command set the same reminder: for a time and a text the tool
  accepted, the command with the same two parts stores the very same row, but for the column that
  says where it came from, and both answers show the row's number, due time and text.
\<close>

theorem tool_and_command_agree:
  assumes "has_reminders env" and "split_remind (dgt (resolver_of env)) rest = Some (when, tx)"
    and "remind_tool env tx when S = (Succeeded told, S1)"
    and "remind env rest S = (reply, S2)"
  shows "\<exists>r said. reply = Inr said \<and>
    (\<exists>res. resolve_time (resolver_of env) when COMMAND (resolver_now env) = Inr res \<and> due_at r = rn_due_at res) \<and>
    rows (cs_reminders S1) = rows (cs_reminders S) @ [r\<lparr>source := cps ''tool''\<rparr>] \<and>
    rows (cs_reminders S2) = rows (cs_reminders S) @ [r\<lparr>source := cps ''command''\<rparr>] \<and>
    next_id (cs_reminders S1) = next_id (cs_reminders S2) \<and> status r = PENDING \<and> rem_text r = strip tx \<and>
    contains (35 # decimal (rem_id r)) told \<and> contains (35 # decimal (rem_id r)) said \<and>
    contains (due_text env r @ [58, 32] @ rem_text r) told \<and> contains (due_text env r @ [58, 32] @ rem_text r) said"
proof -
  obtain res r t where res: "resolve_time (resolver_of env) when TOOL (resolver_now env) = Inr res"
    and call: "schedule_call env tx (rn_due_at res) when (cps ''tool'') (cs_reminders S) = (Returned (Inr r), t)"
    using assms(3) by (auto simp: remind_tool_def split: sum.splits prod.splits called.splits reminder_error.splits)
  note tool = scheduled_row [OF call]
  obtain r' t' where call': "schedule_call env tx (rn_due_at res) when (cps ''command'') (cs_reminders S) = (Returned (Inr r'), t')"
    using tool(4) by blast
  note command = scheduled_row [OF call'] and time = tool_time_is_command_time [OF res]
  have told: "S1 = reminder_receipt env r Scheduled (S\<lparr>cs_reminders := t\<rparr>)" "echoes env r told"
    using assms(3) by (auto simp: remind_tool_def res call intro!: echoes_text leads)
  have said: "cs_reminders S2 = t'" "\<exists>said. reply = Inr said \<and> echoes env r' said"
    using assms(4) by (auto simp: remind_def assms(1,2) time call' tool(2) reminder_receipt_def receipt_def intro!: echoes_text leads)
  have same: "r = r'\<lparr>source := cps ''tool''\<rparr>" "r' = r'\<lparr>source := cps ''command''\<rparr>"
    "status r' = PENDING" "rem_text r' = strip tx" "due_at r' = rn_due_at res"
    by (simp_all add: tool(3) command(3) new_reminder_def)
  have "echoes env r' told" using told(2) by (simp add: echoes_def due_text_def same(1))
  moreover have "rows (cs_reminders S1) = rows (cs_reminders S) @ [r'\<lparr>source := cps ''tool''\<rparr>]"
    "rows (cs_reminders S2) = rows (cs_reminders S) @ [r'\<lparr>source := cps ''command''\<rparr>]"
    "next_id (cs_reminders S1) = next_id (cs_reminders S2)"
    using told(1) said(1) tool(1,3) command(1,3) same(1,2) by (simp_all add: reminder_receipt_def)
  ultimately show ?thesis using said(2) same(3-5) time unfolding echoes_def by blast
qed

section \<open>Success and change\<close>

definition succeeded :: "tool_outcome \<Rightarrow> bool" where
  "succeeded out \<longleftrightarrow> (case out of Succeeded _ \<Rightarrow> True | _ \<Rightarrow> False)"

definition told_truly :: "command_state \<Rightarrow> tool_outcome \<times> command_state \<Rightarrow> bool" where
  "told_truly S r \<longleftrightarrow> (succeeded (fst r) \<longleftrightarrow> \<not> same_store S (snd r)) \<and> (succeeded (fst r) \<or> snd r = S)"

lemma told_truly_same [simp]: "\<not> succeeded out \<Longrightarrow> told_truly S (out, S)"
  by (simp add: told_truly_def same_store_def)

lemma told_truly_change: "\<not> same_store S S' \<Longrightarrow> told_truly S (Succeeded m, S')"
  by (simp add: told_truly_def succeeded_def)

lemma succeeded_simps [simp]: "\<not> succeeded (Refused m)" "\<not> succeeded Tool_Raised"
  by (simp_all add: succeeded_def)

lemma truly_store_memory: "told_truly S (store_memory env tx S)"
  unfolding store_memory_def
  by (auto split: prod.split sum.split memory_error.split store_call.split intro!: told_truly_change
      dest: mem_add_changes simp: same_store_def)

lemma truly_capture: "told_truly S (capture_tool env src tx S)"
  unfolding capture_tool_def
  by (auto split: prod.split sum.split inbox_error.split store_call.split intro!: told_truly_change
      dest: append_changes simp: same_store_def)

lemma truly_remind: "told_truly S (remind_tool env tx when S)"
  unfolding remind_tool_def
  by (auto split: prod.split sum.split reminder_error.split called.split intro!: told_truly_change
      dest!: schedule_call_Returned schedule_changes simp: same_store_def reminder_receipt_def)

lemma truly_cancel: "told_truly S (cancel_reminder int_of env v S)"
  unfolding cancel_reminder_def cancel_def
  by (auto split: prod.split sum.split option.split store_call.split intro!: told_truly_change
      dest!: transition_writes(1) simp: same_store_def reminder_receipt_def)

text \<open>
  The model is told the truth about the owner's stores: each of the four tools that change one
  reports success exactly when it changed something, and otherwise leaves memories, inbox,
  reminders and the lifecycle log as they were, whatever the store does.
\<close>

theorem tools_report_what_they_did:
  "(succeeded (fst (store_memory env tx S)) \<longleftrightarrow> \<not> same_store S (snd (store_memory env tx S))) \<and>
   (succeeded (fst (capture_tool env src tx S)) \<longleftrightarrow> \<not> same_store S (snd (capture_tool env src tx S))) \<and>
   (succeeded (fst (remind_tool env tx when S)) \<longleftrightarrow> \<not> same_store S (snd (remind_tool env tx when S))) \<and>
   (succeeded (fst (cancel_reminder int_of env v S)) \<longleftrightarrow> \<not> same_store S (snd (cancel_reminder int_of env v S))) \<and>
   list_all (\<lambda>r. succeeded (fst r) \<or> snd r = S)
     [store_memory env tx S, capture_tool env src tx S, remind_tool env tx when S, cancel_reminder int_of env v S]"
  using truly_store_memory [of S env tx] truly_capture [of S env src tx] truly_remind [of S env tx "when"]
    truly_cancel [of S int_of env v]
  unfolding told_truly_def list.pred_inject(2) by (intro conjI; (blast | simp))

section \<open>Witness\<close>

definition sample_tx :: str where "sample_tx = [120]"

lemma sample_resolved:
  "resolve_time dutch three_days TOOL 1774700000 = Inr \<lparr>rn_due_at = 1774700000 + 259200, rn_disclosure = []\<rparr>"
  by (simp add: resolve_time_def dutch_def three_days_duration resolve_duration_def check_horizon_def)

theorem tool_and_command_agree_witness:
  "\<exists>r. rows (cs_reminders (snd (remind_tool sample_env sample_tx three_days empty_state))) = [r\<lparr>source := cps ''tool''\<rparr>] \<and>
     rows (cs_reminders (snd (remind sample_env (three_days @ [32] @ sample_tx) empty_state))) = [r\<lparr>source := cps ''command''\<rparr>]"
proof -
  have d: "dgt (resolver_of sample_env) = ascii_digit" by simp
  have "split_remind ascii_digit (three_days @ [32] @ sample_tx) = Some (three_days, sample_tx)"
    by (simp add: split_remind_def split_ws_def three_days_def sample_tx_def is_space_def date_token_def)
  moreover obtain r t where "schedule_call sample_env sample_tx (1774700000 + 259200) three_days (cps ''tool'') empty_table = (Returned (Inr r), t)"
  proof -
    have "strip sample_tx = [120]" by (simp add: sample_tx_def strip_def is_space_def)
    then show ?thesis using that
      by (simp add: schedule_call_def schedule_def atomically_def schedule_body_def Let_def count_pending_def count_rows_def empty_table_def)
  qed
  then have "succeeded (fst (remind_tool sample_env sample_tx three_days empty_state))"
    by (simp add: remind_tool_def sample_resolved empty_state_def succeeded_def)
  then obtain told where "fst (remind_tool sample_env sample_tx three_days empty_state) = Succeeded told"
    by (auto simp: succeeded_def split: tool_outcome.splits)
  moreover have "has_reminders sample_env" by simp
  ultimately show ?thesis
    using tool_and_command_agree [of sample_env "three_days @ [32] @ sample_tx" three_days sample_tx empty_state told
      "snd (remind_tool sample_env sample_tx three_days empty_state)"
      "fst (remind sample_env (three_days @ [32] @ sample_tx) empty_state)"
      "snd (remind sample_env (three_days @ [32] @ sample_tx) empty_state)"]
    unfolding d prod_eq_iff fst_conv snd_conv by (fastforce simp: empty_state_def empty_table_def)
qed

end
