(* ===== verification/Config.thy ===== *)
theory Config
  imports Calendar Reminder_Scheduler
begin

text \<open>
  \<open>henk/config.py\<close>: reading and checking the sections of the configuration that carry more than
  passed-through values. A refused configuration is the setting its message names
  (\<open>Config_Error\<close>), any other exception is \<open>Other_Error\<close>; the rest of the messages is left out.
  \<open>int\<close>, \<open>float\<close> and \<open>casefold\<close> on a string and the lookup of a time zone are parameters. Not
  modelled: the sections passed through as they are, the composition of the system prompt, the
  secrets.
\<close>

section \<open>Values\<close>

text \<open>Numbers as Python's \<open>float\<close> has them, and what the YAML loader gives; keys are strings.\<close>

datatype number = Fin real | Infinite bool | Nan

datatype yaml = Y_Null | Y_Bool bool | Y_Int int | Y_Float number | Y_Str str | Y_Seq "yaml list" | Y_Map "(str \<times> yaml) list"

type_synonym settings = "(str \<times> yaml) list"

definition yget :: "settings \<Rightarrow> str \<Rightarrow> yaml \<Rightarrow> yaml" where
  "yget sec key dflt = (case map_of sec key of None \<Rightarrow> dflt | Some v \<Rightarrow> v)"

datatype refusal = Config_Error str | Other_Error

datatype cast = To_Int | To_Float
datatype num_value = Int_Value int | Float_Value number
datatype cast_error = Not_Numeric | Overflows      \<comment> \<open>\<open>TypeError\<close> or \<open>ValueError\<close>; \<open>OverflowError\<close>\<close>

record parsers =
  int_text_of :: "str \<Rightarrow> int option"
  float_text_of :: "str \<Rightarrow> number option"
  casefold_of :: "str \<Rightarrow> str"
  zone_known :: "str \<Rightarrow> bool option"     \<comment> \<open>\<open>Some False\<close>: not found or no key; \<open>None\<close>: another exception\<close>

definition truncated :: "real \<Rightarrow> int" where
  "truncated x = (if 0 \<le> x then \<lfloor>x\<rfloor> else \<lceil>x\<rceil>)"

fun to_float :: "parsers \<Rightarrow> yaml \<Rightarrow> cast_error + number" where
  "to_float ps (Y_Bool b) = Inr (Fin (of_bool b))"
| "to_float ps (Y_Int n) = (case float_of_int n of None \<Rightarrow> Inl Overflows | Some x \<Rightarrow> Inr (Fin x))"
| "to_float ps (Y_Float x) = Inr x"
| "to_float ps (Y_Str s) = (case float_text_of ps s of None \<Rightarrow> Inl Not_Numeric | Some x \<Rightarrow> Inr x)"
| "to_float ps _ = Inl Not_Numeric"

fun to_int :: "parsers \<Rightarrow> yaml \<Rightarrow> cast_error + int" where
  "to_int ps (Y_Bool b) = Inr (of_bool b)"
| "to_int ps (Y_Int n) = Inr n"
| "to_int ps (Y_Float (Fin x)) = Inr (truncated x)"
| "to_int ps (Y_Float (Infinite _)) = Inl Overflows"
| "to_int ps (Y_Str s) = (case int_text_of ps s of None \<Rightarrow> Inl Not_Numeric | Some n \<Rightarrow> Inr n)"
| "to_int ps _ = Inl Not_Numeric"

definition coerce :: "parsers \<Rightarrow> cast \<Rightarrow> yaml \<Rightarrow> cast_error + num_value" where
  "coerce ps c v =
     (case c of To_Int \<Rightarrow> map_sum id Int_Value (to_int ps v) | To_Float \<Rightarrow> map_sum id Float_Value (to_float ps v))"

fun as_number :: "num_value \<Rightarrow> number" where
  "as_number (Int_Value n) = Fin (of_int n)" | "as_number (Float_Value x) = x"

text \<open>Comparisons: every one with \<open>nan\<close> is false. \<open>Infinite True\<close> is the positive infinity.\<close>

fun num_less :: "number \<Rightarrow> number \<Rightarrow> bool" where
  "num_less (Fin x) (Fin y) = (x < y)"
| "num_less (Fin _) (Infinite b) = b"
| "num_less (Infinite b) (Fin _) = (\<not> b)"
| "num_less (Infinite a) (Infinite b) = (\<not> a \<and> b)"
| "num_less Nan _ = False"
| "num_less _ Nan = False"

fun num_le :: "number \<Rightarrow> number \<Rightarrow> bool" where
  "num_le (Fin x) (Fin y) = (x \<le> y)"
| "num_le (Fin _) (Infinite b) = b"
| "num_le (Infinite b) (Fin _) = (\<not> b)"
| "num_le (Infinite a) (Infinite b) = (\<not> a \<or> b)"
| "num_le Nan _ = False"
| "num_le _ Nan = False"

section \<open>Tables of settings\<close>

type_synonym setting_table = "(str \<times> cast \<times> yaml) list"
type_synonym numbers = "(str \<times> num_value) list"

fun read_settings :: "(cast \<Rightarrow> yaml \<Rightarrow> cast_error + num_value) \<Rightarrow> (str \<Rightarrow> cast_error \<Rightarrow> refusal) \<Rightarrow> settings \<Rightarrow>
    setting_table \<Rightarrow> refusal + numbers" where
  "read_settings rd fault sec [] = Inr []"
| "read_settings rd fault sec ((name, c, dflt) # tb) =
     (case rd c (yget sec name dflt) of
        Inl e \<Rightarrow> Inl (fault name e)
      | Inr v \<Rightarrow> (case read_settings rd fault sec tb of Inl r \<Rightarrow> Inl r | Inr vs \<Rightarrow> Inr ((name, v) # vs)))"

definition dotted :: "str \<Rightarrow> str \<Rightarrow> str" where
  "dotted section_name name = section_name @ [46] @ name"

text \<open>\<open>_bounded_settings\<close> and \<open>_delivery_settings\<close>: they catch \<open>TypeError\<close> and \<open>ValueError\<close> only.\<close>

definition named_fault :: "str \<Rightarrow> str \<Rightarrow> cast_error \<Rightarrow> refusal" where
  "named_fault section_name name e = (if e = Overflows then Other_Error else Config_Error (dotted section_name name))"

definition bounded_settings :: "parsers \<Rightarrow> str \<Rightarrow> settings \<Rightarrow> setting_table \<Rightarrow> refusal + numbers" where
  "bounded_settings ps section_name sec tb = read_settings (coerce ps) (named_fault section_name) sec tb"

definition plain_settings :: "parsers \<Rightarrow> settings \<Rightarrow> setting_table \<Rightarrow> refusal + numbers" where
  "plain_settings ps sec tb = read_settings (coerce ps) (\<lambda>_ _. Other_Error) sec tb"

definition setting :: "numbers \<Rightarrow> string \<Rightarrow> number" where
  "setting vs name = (case map_of vs (cps name) of None \<Rightarrow> Nan | Some v \<Rightarrow> as_number v)"

definition first_nonpositive :: "numbers \<Rightarrow> str option" where
  "first_nonpositive vs = map_option fst (find (\<lambda>(name, v). num_le (as_number v) (Fin 0)) vs)"

section \<open>Reminders\<close>

definition REMINDER_SETTINGS :: setting_table where
  "REMINDER_SETTINGS =
     [(cps ''max_pending'', To_Int, Y_Int 100), (cps ''text_length_limit'', To_Int, Y_Int 500),
      (cps ''horizon_days'', To_Int, Y_Int 365), (cps ''clock_skew_tolerance_seconds'', To_Float, Y_Float (Fin 120)),
      (cps ''page_size'', To_Int, Y_Int 20)]"

definition DELIVERY_SETTINGS :: setting_table where
  "DELIVERY_SETTINGS =
     [(cps ''poll_interval_seconds'', To_Float, Y_Int 30), (cps ''retry_floor_seconds'', To_Float, Y_Int 900),
      (cps ''crash_attempt_limit'', To_Int, Y_Int 3), (cps ''late_grace_seconds'', To_Float, Y_Int 86400),
      (cps ''late_delivery_threshold_seconds'', To_Float, Y_Int 300),
      (cps ''report_horizon_seconds'', To_Float, Y_Int 86400), (cps ''tick_delivery_limit'', To_Int, Y_Int 10),
      (cps ''note_window_seconds'', To_Float, Y_Int 43200), (cps ''note_max_items'', To_Int, Y_Int 10)]"

definition validate_delivery_settings :: "numbers \<Rightarrow> refusal + unit" where
  "validate_delivery_settings vs =
     (case first_nonpositive vs of
        Some name \<Rightarrow> Inl (Config_Error (dotted (cps ''reminders'') name))
      | None \<Rightarrow>
          if num_le (setting vs ''late_grace_seconds'') (setting vs ''late_delivery_threshold_seconds'')
          then Inl (Config_Error (cps ''reminders.late_delivery_threshold_seconds''))
          else if num_le (setting vs ''report_horizon_seconds'') (setting vs ''retry_floor_seconds'')
          then Inl (Config_Error (cps ''reminders.report_horizon_seconds''))
          else Inr ())"

text \<open>The numbers of the section: those passed through and those of the delivery.\<close>

definition reminders_config :: "parsers \<Rightarrow> settings \<Rightarrow> refusal + numbers \<times> numbers" where
  "reminders_config ps sec =
     (case plain_settings ps sec REMINDER_SETTINGS of
        Inl r \<Rightarrow> Inl r
      | Inr plain \<Rightarrow>
          (case bounded_settings ps (cps ''reminders'') sec DELIVERY_SETTINGS of
             Inl r \<Rightarrow> Inl r
           | Inr delivery \<Rightarrow>
               (case validate_delivery_settings delivery of Inl r \<Rightarrow> Inl r | Inr _ \<Rightarrow> Inr (plain, delivery))))"

section \<open>The read-depth bounds\<close>

definition QUERY_SETTINGS :: setting_table where
  "QUERY_SETTINGS = [(cps ''query_range_max_points'', To_Int, Y_Int 60)]"

definition DOCS_SETTINGS :: setting_table where
  "DOCS_SETTINGS =
     [(cps ''stamp_max_age_seconds'', To_Float, Y_Float (Fin 93600)), (cps ''read_byte_budget'', To_Int, Y_Int 8000),
      (cps ''search_result_count'', To_Int, Y_Int 5)]"

definition MIN_RANGE_POINTS :: real where "MIN_RANGE_POINTS = 2"

definition validate_read_depth_settings :: "numbers \<Rightarrow> numbers \<Rightarrow> bool \<Rightarrow> str \<Rightarrow> refusal + unit" where
  "validate_read_depth_settings query docs docs_enabled docs_path =
     (case first_nonpositive query of
        Some name \<Rightarrow> Inl (Config_Error (dotted (cps ''homelab_query'') name))
      | None \<Rightarrow>
     (case first_nonpositive docs of
        Some name \<Rightarrow> Inl (Config_Error (dotted (cps ''homelab_docs'') name))
      | None \<Rightarrow>
          if num_less (setting query ''query_range_max_points'') (Fin MIN_RANGE_POINTS)
          then Inl (Config_Error (cps ''homelab_query.query_range_max_points''))
          else if docs_enabled \<and> docs_path = [] then Inl (Config_Error (cps ''homelab_docs.path''))
          else Inr ()))"

section \<open>Allowlists and names\<close>

fun normalise_entries :: "str \<Rightarrow> yaml list \<Rightarrow> refusal + str list" where
  "normalise_entries name [] = Inr []"
| "normalise_entries name (v # vs) =
     (case v of
        Y_Str s \<Rightarrow>
          (case normalise_entries name vs of
             Inl r \<Rightarrow> Inl r
           | Inr l \<Rightarrow> Inr (if strip s = [] then l else strip s # l))
      | _ \<Rightarrow> Inl (Config_Error name))"

definition normalise_label_allowlist :: "str \<Rightarrow> yaml \<Rightarrow> refusal + str list" where
  "normalise_label_allowlist name entries =
     (case entries of
        Y_Null \<Rightarrow> Inr [] | Y_Seq vs \<Rightarrow> normalise_entries name vs | _ \<Rightarrow> Inl (Config_Error name))"

definition normalise_email_allowlist :: "parsers \<Rightarrow> yaml \<Rightarrow> refusal + str list" where
  "normalise_email_allowlist ps entries =
     map_sum id (map (casefold_of ps)) (normalise_label_allowlist (cps ''personal_data.calendar_creator_allowlist'') entries)"

definition SESSIONS_SETTINGS :: setting_table where
  "SESSIONS_SETTINGS = [(cps ''stale_after_seconds'', To_Int, Y_Int 1500), (cps ''lookback_seconds'', To_Int, Y_Int 21600)]"

definition validate_sessions_settings :: "numbers \<Rightarrow> yaml \<Rightarrow> refusal + str" where
  "validate_sessions_settings vs topic =
     (case first_nonpositive vs of
        Some name \<Rightarrow> Inl (Config_Error (dotted (cps ''sessions'') name))
      | None \<Rightarrow>
          if num_less (setting vs ''lookback_seconds'') (setting vs ''stale_after_seconds'')
          then Inl (Config_Error (cps ''sessions.lookback_seconds''))
          else (case topic of
              Y_Str s \<Rightarrow> if strip s = [] \<or> 47 \<in> set s \<or> 44 \<in> set s then Inl (Config_Error (cps ''sessions.topic'')) else Inr s
            | _ \<Rightarrow> Inl (Config_Error (cps ''sessions.topic''))))"

text \<open>The section as \<open>from_dict\<close> reads it: a topic that is a string is stripped first.\<close>

definition sessions_config :: "parsers \<Rightarrow> settings \<Rightarrow> refusal + numbers \<times> str" where
  "sessions_config ps sec =
     (let raw = yget sec (cps ''topic'') (Y_Str (cps ''henk-sessions''));
          topic = (case raw of Y_Str s \<Rightarrow> Y_Str (strip s) | _ \<Rightarrow> raw)
      in case bounded_settings ps (cps ''sessions'') sec SESSIONS_SETTINGS of
           Inl r \<Rightarrow> Inl r
         | Inr vs \<Rightarrow> (case validate_sessions_settings vs topic of Inl r \<Rightarrow> Inl r | Inr s \<Rightarrow> Inr (vs, s)))"

section \<open>The calendar\<close>

definition require_strict_bool :: "yaml \<Rightarrow> str \<Rightarrow> refusal + bool" where
  "require_strict_bool v name = (case v of Y_Bool b \<Rightarrow> Inr b | _ \<Rightarrow> Inl (Config_Error name))"

definition CALENDAR_SETTINGS :: setting_table where
  "CALENDAR_SETTINGS =
     [(cps ''lookahead_days'', To_Int, Y_Int 14), (cps ''refresh_seconds'', To_Float, Y_Int 300),
      (cps ''grace_minutes'', To_Int, Y_Int 30), (cps ''max_window_hours'', To_Int, Y_Int 8),
      (cps ''stale_after_seconds'', To_Float, Y_Int 21600), (cps ''timeout_seconds'', To_Float, Y_Int 10)]"

definition CALENDAR_RANGES :: "str \<Rightarrow> (real \<times> real) option" where
  "CALENDAR_RANGES name =
     (if name = cps ''grace_minutes'' then Some (0, 240)
      else if name = cps ''max_window_hours'' then Some (1, 24) else None)"

text \<open>\<open>_finite\<close>.\<close>

definition finite_value :: "parsers \<Rightarrow> cast \<Rightarrow> yaml \<Rightarrow> cast_error + num_value" where
  "finite_value ps c raw =
     (case to_float ps raw of Inl e \<Rightarrow> Inl e | Inr (Fin _) \<Rightarrow> coerce ps c raw | Inr _ \<Rightarrow> Inl Overflows)"

fun default_value :: "cast \<Rightarrow> yaml \<Rightarrow> num_value" where
  "default_value _ (Y_Int n) = Int_Value n" | "default_value _ _ = Int_Value 0"

definition lenient_calendar_settings :: "parsers \<Rightarrow> settings \<Rightarrow> numbers" where
  "lenient_calendar_settings ps sec =
     map (\<lambda>(name, c, dflt). (name, case finite_value ps c (yget sec name dflt) of
        Inl _ \<Rightarrow> default_value c dflt | Inr v \<Rightarrow> v)) CALENDAR_SETTINGS"

definition finite_calendar_settings :: "parsers \<Rightarrow> settings \<Rightarrow> refusal + numbers" where
  "finite_calendar_settings ps sec =
     read_settings (finite_value ps) (\<lambda>name e. Config_Error (dotted (cps ''calendar'') name)) sec CALENDAR_SETTINGS"

definition calendar_in_range :: "str \<times> num_value \<Rightarrow> bool" where
  "calendar_in_range nv =
     (case CALENDAR_RANGES (fst nv) of
        Some (low, high) \<Rightarrow> num_le (Fin low) (as_number (snd nv)) \<and> num_le (as_number (snd nv)) (Fin high)
      | None \<Rightarrow> \<not> num_le (as_number (snd nv)) (Fin 0))"

record calendar_conf =
  conf_enabled :: bool
  conf_id :: str
  conf_hold_alerts :: bool
  conf_numbers :: numbers

definition calendar_settings :: "parsers \<Rightarrow> settings \<Rightarrow> refusal + calendar_conf" where
  "calendar_settings ps sec =
     (case require_strict_bool (yget sec (cps ''enabled'') (Y_Bool False)) (cps ''calendar.enabled'') of
        Inl r \<Rightarrow> Inl r
      | Inr en \<Rightarrow>
     (case require_strict_bool (yget sec (cps ''hold_alerts'') (Y_Bool True)) (cps ''calendar.hold_alerts'') of
        Inl r \<Rightarrow> Inl r
      | Inr hold \<Rightarrow>
          (let cid = (case yget sec (cps ''calendar_id'') (Y_Str []) of Y_Str s \<Rightarrow> strip s | _ \<Rightarrow> [])
           in if \<not> en then Inr \<lparr>conf_enabled = False, conf_id = cid, conf_hold_alerts = hold,
                conf_numbers = lenient_calendar_settings ps sec\<rparr>
              else if cid = [] then Inl (Config_Error (cps ''calendar.calendar_id''))
              else (case finite_calendar_settings ps sec of
                  Inl r \<Rightarrow> Inl r
                | Inr vs \<Rightarrow>
                    (case find (\<lambda>nv. \<not> calendar_in_range nv) vs of
                       Some (name, _) \<Rightarrow> Inl (Config_Error (dotted (cps ''calendar'') name))
                     | None \<Rightarrow> Inr \<lparr>conf_enabled = True, conf_id = cid, conf_hold_alerts = hold, conf_numbers = vs\<rparr>)))))"

section \<open>Single settings\<close>

definition owner_timezone :: "parsers \<Rightarrow> yaml \<Rightarrow> bool \<Rightarrow> bool \<Rightarrow> refusal + str option" where
  "owner_timezone ps v reminders_enabled calendar_enabled =
     (if v = Y_Null \<or> (case v of Y_Str s \<Rightarrow> strip s = [] | _ \<Rightarrow> False)
      then if reminders_enabled \<or> calendar_enabled then Inl (Config_Error (cps ''owner.timezone'')) else Inr None
      else (case v of
          Y_Str s \<Rightarrow>
            (let key = strip s
             in if 47 \<notin> set key \<or> prefix [47] key \<or> contains [46, 46] key \<or> key = cps ''localtime''
                then Inl (Config_Error (cps ''owner.timezone''))
                else (case zone_known ps key of
                    Some True \<Rightarrow> Inr (Some key)
                  | Some False \<Rightarrow> Inl (Config_Error (cps ''owner.timezone''))
                  | None \<Rightarrow> Inl Other_Error))
        | _ \<Rightarrow> Inl (Config_Error (cps ''owner.timezone''))))"

definition EFFORT_LEVELS :: "str list" where
  "EFFORT_LEVELS = [cps ''low'', cps ''medium'', cps ''high'', cps ''xhigh'', cps ''max'']"

definition THINKING_MODES :: "str list" where
  "THINKING_MODES = [cps ''adaptive'', cps ''disabled'']"

definition require_choice :: "settings \<Rightarrow> str \<Rightarrow> str option \<Rightarrow> str list \<Rightarrow> str \<Rightarrow> refusal + str option" where
  "require_choice sec key dflt choices section_name =
     (case map_of sec key of
        None \<Rightarrow>
          (case dflt of
             None \<Rightarrow> Inr None
           | Some d \<Rightarrow> if d \<in> set choices then Inr (Some d) else Inl (Config_Error (dotted section_name key)))
      | Some Y_Null \<Rightarrow> Inr None
      | Some (Y_Str s) \<Rightarrow> if s \<in> set choices then Inr (Some s) else Inl (Config_Error (dotted section_name key))
      | Some _ \<Rightarrow> Inl (Config_Error (dotted section_name key)))"

definition require_level :: "settings \<Rightarrow> str \<Rightarrow> str \<Rightarrow> str \<Rightarrow> refusal + str" where
  "require_level sec key dflt section_name =
     (case require_choice sec key (Some dflt) EFFORT_LEVELS section_name of
        Inl r \<Rightarrow> Inl r
      | Inr None \<Rightarrow> Inl (Config_Error (dotted section_name key))
      | Inr (Some s) \<Rightarrow> Inr s)"

definition require_model :: "settings \<Rightarrow> str \<Rightarrow> yaml \<Rightarrow> str \<Rightarrow> refusal + yaml" where
  "require_model sec key dflt section_name =
     (let v = yget sec key dflt
      in if (case v of Y_Str s \<Rightarrow> strip s = [] | _ \<Rightarrow> True) then Inl (Config_Error (dotted section_name key)) else Inr v)"

definition optional_section :: "settings \<Rightarrow> str \<Rightarrow> str list \<Rightarrow> refusal + settings" where
  "optional_section raw name allowed =
     (case yget raw name Y_Null of
        Y_Null \<Rightarrow> Inr []
      | Y_Map sec \<Rightarrow>
          (case sort (filter (\<lambda>k. k \<notin> set allowed) (map fst sec)) of
             [] \<Rightarrow> Inr sec | k # ks \<Rightarrow> Inl (Config_Error (dotted name k)))
      | _ \<Rightarrow> Inl (Config_Error name))"

definition require_safe_length :: "parsers \<Rightarrow> settings \<Rightarrow> refusal + int" where
  "require_safe_length ps sec =
     (case to_int ps (yget sec (cps ''safe_length'') (Y_Int (int DEFAULT_SAFE_LENGTH))) of
        Inl _ \<Rightarrow> Inl Other_Error
      | Inr n \<Rightarrow> if n < int MAX_CODE_POINT_BYTES then Inl (Config_Error (cps ''signal.safe_length'')) else Inr n)"

definition ACKNOWLEDGE_TIMEOUT_CAP_SECONDS :: real where "ACKNOWLEDGE_TIMEOUT_CAP_SECONDS = 7"

definition require_acknowledge_timeout :: "parsers \<Rightarrow> yaml \<Rightarrow> refusal + number" where
  "require_acknowledge_timeout ps v =
     (let name = cps ''signal.acknowledge_timeout_seconds''
      in if (case v of Y_Int _ \<Rightarrow> False | Y_Float _ \<Rightarrow> False | _ \<Rightarrow> True) then Inl (Config_Error name)
         else (case to_float ps v of
             Inl _ \<Rightarrow> Inl Other_Error
           | Inr x \<Rightarrow> if \<not> num_less (Fin 0) x then Inl (Config_Error name)
               else if num_less (Fin ACKNOWLEDGE_TIMEOUT_CAP_SECONDS) x then Inl (Config_Error name) else Inr x))"

definition LIVENESS_DEADLINE_KEEPALIVE_MULTIPLE :: real where "LIVENESS_DEADLINE_KEEPALIVE_MULTIPLE = 3"

fun num_times :: "real \<Rightarrow> number \<Rightarrow> number" where
  "num_times c (Fin x) = Fin (c * x)" | "num_times c x = x"

definition validate_liveness_ordering :: "number \<Rightarrow> number \<Rightarrow> refusal + unit" where
  "validate_liveness_ordering interval deadline =
     (if num_le interval (Fin 0) \<or> num_le deadline (Fin 0)
      then Inl (Config_Error (cps ''endpoints.ntfy.keepalive_interval_seconds''))
      else if num_less deadline (num_times LIVENESS_DEADLINE_KEEPALIVE_MULTIPLE interval)
      then Inl (Config_Error (cps ''events.liveness_deadline_seconds'')) else Inr ())"

section \<open>The agent's profiles\<close>

record agent_conf =
  chat_model :: yaml
  chat_effort :: "str option"
  chat_thinking :: "str option"
  event_model :: yaml
  event_effort :: "str option"
  event_thinking :: "str option"

text \<open>The triage profile falls back to the chat profile as it was read, which is not checked again.\<close>

definition agent_profiles :: "settings \<Rightarrow> refusal + agent_conf" where
  "agent_profiles sec =
     (let agent = cps ''agent''; cm = yget sec (cps ''model'') (Y_Str (cps ''claude-sonnet-5''))
      in case require_choice sec (cps ''effort'') (Some (cps ''high'')) EFFORT_LEVELS agent of
           Inl r \<Rightarrow> Inl r
         | Inr ce \<Rightarrow>
      (case require_choice sec (cps ''thinking'') (Some (cps ''adaptive'')) THINKING_MODES agent of
           Inl r \<Rightarrow> Inl r
         | Inr ct \<Rightarrow>
      (case (if cps ''event_model'' \<in> fst ` set sec then require_model sec (cps ''event_model'') cm agent else Inr cm) of
           Inl r \<Rightarrow> Inl r
         | Inr em \<Rightarrow>
      (case require_choice sec (cps ''event_effort'') ce EFFORT_LEVELS agent of
           Inl r \<Rightarrow> Inl r
         | Inr ee \<Rightarrow>
      (case require_choice sec (cps ''event_thinking'') ct THINKING_MODES agent of
           Inl r \<Rightarrow> Inl r
         | Inr et \<Rightarrow> Inr \<lparr>chat_model = cm, chat_effort = ce, chat_thinking = ct,
             event_model = em, event_effort = ee, event_thinking = et\<rparr>)))))"

definition replay_config :: "settings \<Rightarrow> refusal + yaml \<times> str" where
  "replay_config raw =
     (case optional_section raw (cps ''replay'') [cps ''judge_model'', cps ''judge_effort''] of
        Inl r \<Rightarrow> Inl r
      | Inr sec \<Rightarrow>
     (case require_model sec (cps ''judge_model'') (Y_Str (cps ''claude-fable-5-1'')) (cps ''replay'') of
        Inl r \<Rightarrow> Inl r
      | Inr m \<Rightarrow> map_sum id (\<lambda>l. (m, l)) (require_level sec (cps ''judge_effort'') (cps ''high'') (cps ''replay''))))"

end
