(* ===== verification/Config_Properties.thy ===== *)
theory Config_Properties
  imports Config Calendar_Properties
begin

text \<open>
  The properties of the configuration's checks: an accepted section has the types and the bounds
  its consumers rely on, and what that means for the maintenance holds, the reminder scheduler and
  the message splitter; and the values that slip through.
\<close>

section \<open>Reading a table\<close>

lemma cps_inject [simp]: "cps a = cps b \<longleftrightarrow> a = b"
  unfolding cps_def by (rule inj_map_eq_map [OF inj_of_char])

lemma read_settings_Cons:
  "read_settings rd fault sec ((name, c, d) # tb) = Inr vs \<longleftrightarrow>
   (\<exists>v vs'. rd c (yget sec name d) = Inr v \<and> read_settings rd fault sec tb = Inr vs' \<and> vs = (name, v) # vs')"
  by (auto split: sum.splits)

lemmas read_table = read_settings_Cons read_settings.simps(1) sum.inject

lemma coerce_int: "coerce ps To_Int raw = Inr v \<longleftrightarrow> (\<exists>n. to_int ps raw = Inr n \<and> v = Int_Value n)"
  by (cases "to_int ps raw") (auto simp: coerce_def)

lemma coerce_float: "coerce ps To_Float raw = Inr v \<longleftrightarrow> (\<exists>x. to_float ps raw = Inr x \<and> v = Float_Value x)"
  by (cases "to_float ps raw") (auto simp: coerce_def)

lemma finite_int: "finite_value ps To_Int raw = Inr v \<Longrightarrow> \<exists>n. v = Int_Value n"
  by (auto simp: finite_value_def coerce_int split: sum.splits number.splits)

lemma finite_float: "finite_value ps To_Float raw = Inr v \<Longrightarrow> \<exists>x. v = Float_Value (Fin x)"
  by (auto simp: finite_value_def coerce_float split: sum.splits number.splits)

section \<open>The calendar\<close>

text \<open>The numbers of an accepted calendar, each of its type and within its bounds.\<close>

definition calendar_typed :: "numbers \<Rightarrow> bool" where
  "calendar_typed vs \<longleftrightarrow>
     (\<exists>look refresh grace hours stale timeout.
        vs = [(cps ''lookahead_days'', Int_Value look), (cps ''refresh_seconds'', Float_Value (Fin refresh)),
          (cps ''grace_minutes'', Int_Value grace), (cps ''max_window_hours'', Int_Value hours),
          (cps ''stale_after_seconds'', Float_Value (Fin stale)), (cps ''timeout_seconds'', Float_Value (Fin timeout))] \<and>
        0 < look \<and> 0 < refresh \<and> 0 \<le> grace \<and> grace \<le> 240 \<and> 1 \<le> hours \<and> hours \<le> 24 \<and> 0 < stale \<and> 0 < timeout)"

lemma in_range_simps:
  "calendar_in_range (cps ''lookahead_days'', Int_Value n) \<longleftrightarrow> 0 < n"
  "calendar_in_range (cps ''refresh_seconds'', Float_Value (Fin x)) \<longleftrightarrow> 0 < x"
  "calendar_in_range (cps ''grace_minutes'', Int_Value n) \<longleftrightarrow> 0 \<le> n \<and> n \<le> 240"
  "calendar_in_range (cps ''max_window_hours'', Int_Value n) \<longleftrightarrow> 1 \<le> n \<and> n \<le> 24"
  "calendar_in_range (cps ''stale_after_seconds'', Float_Value (Fin x)) \<longleftrightarrow> 0 < x"
  "calendar_in_range (cps ''timeout_seconds'', Float_Value (Fin x)) \<longleftrightarrow> 0 < x"
  by (auto simp: calendar_in_range_def CALENDAR_RANGES_def)

lemma finite_calendar_typed:
  assumes "finite_calendar_settings ps sec = Inr vs" and "list_all calendar_in_range vs"
  shows "calendar_typed vs"
  using assms(1) [unfolded finite_calendar_settings_def CALENDAR_SETTINGS_def read_table] assms(2)
  by (elim exE conjE) (auto dest!: finite_int finite_float simp: in_range_simps calendar_typed_def)

lemma calendar_settings_enabled:
  assumes "calendar_settings ps sec = Inr c" and "conf_enabled c"
  shows "conf_id c \<noteq> [] \<and> strip (conf_id c) = conf_id c \<and> calendar_typed (conf_numbers c)"
proof -
  obtain vs where vs: "finite_calendar_settings ps sec = Inr vs" "find (\<lambda>nv. \<not> calendar_in_range nv) vs = None" "conf_numbers c = vs"
    and id: "conf_id c \<noteq> []" "strip (conf_id c) = conf_id c"
    using assms by (auto simp: calendar_settings_def Let_def split: sum.splits if_splits option.splits yaml.splits)
  have "list_all calendar_in_range vs" using vs(2) by (auto simp: find_None_iff list_all_iff)
  then show ?thesis using finite_calendar_typed [OF vs(1)] id vs(3) by simp
qed

text \<open>
  C19. An accepted calendar section has the types its readers rely on: two flags, a calendar id
  without surrounding whitespace and, when the calendar is on, six finite numbers, the two counts
  and the two ranges whole, the window length between 1 and 24 hours, the grace between 0 and 240
  minutes and the rest positive, whatever the YAML file held.
\<close>

theorem accepted_calendar_is_well_typed:
  assumes "calendar_settings ps sec = Inr c" and "conf_enabled c"
  shows "conf_id c \<noteq> [] \<and> strip (conf_id c) = conf_id c \<and>
    (\<exists>look refresh grace hours stale timeout.
       conf_numbers c = [(cps ''lookahead_days'', Int_Value look), (cps ''refresh_seconds'', Float_Value (Fin refresh)),
          (cps ''grace_minutes'', Int_Value grace), (cps ''max_window_hours'', Int_Value hours),
          (cps ''stale_after_seconds'', Float_Value (Fin stale)), (cps ''timeout_seconds'', Float_Value (Fin timeout))] \<and>
       0 < look \<and> 0 < refresh \<and> 0 \<le> grace \<and> grace \<le> 240 \<and> 1 \<le> hours \<and> hours \<le> 24 \<and> 0 < stale \<and> 0 < timeout)"
  using calendar_settings_enabled [OF assms] unfolding calendar_typed_def .

text \<open>The configuration the calendar's readers get.\<close>

fun real_of :: "number \<Rightarrow> real" where
  "real_of (Fin x) = x" | "real_of _ = 0"

definition calendar_cfg_of :: "calendar_conf \<Rightarrow> calendar_cfg" where
  "calendar_cfg_of c =
     (let num = (\<lambda>name. real_of (setting (conf_numbers c) name))
      in \<lparr>cal_enabled = conf_enabled c, hold_alerts = conf_hold_alerts c, lookahead_days = nat \<lfloor>num ''lookahead_days''\<rfloor>,
          refresh_seconds = num ''refresh_seconds'', grace_minutes = nat \<lfloor>num ''grace_minutes''\<rfloor>,
          max_window_hours = nat \<lfloor>num ''max_window_hours''\<rfloor>, stale_after_seconds = num ''stale_after_seconds''\<rparr>)"

lemma calendar_cfg_bounds:
  assumes "calendar_settings ps sec = Inr c" and "conf_enabled c"
  shows "max_window_hours (calendar_cfg_of c) \<le> 24" and "grace_minutes (calendar_cfg_of c) \<le> 240"
proof -
  obtain look refresh grace hours stale timeout where n: "conf_numbers c =
      [(cps ''lookahead_days'', Int_Value look), (cps ''refresh_seconds'', Float_Value (Fin refresh)),
       (cps ''grace_minutes'', Int_Value grace), (cps ''max_window_hours'', Int_Value hours),
       (cps ''stale_after_seconds'', Float_Value (Fin stale)), (cps ''timeout_seconds'', Float_Value (Fin timeout))]"
    "0 \<le> grace" "grace \<le> 240" "1 \<le> hours" "hours \<le> 24"
    using calendar_settings_enabled [OF assms] unfolding calendar_typed_def by blast
  have g: "setting (conf_numbers c) ''grace_minutes'' = Fin (of_int grace)"
    and h: "setting (conf_numbers c) ''max_window_hours'' = Fin (of_int hours)"
    unfolding setting_def n(1) by simp_all
  show "max_window_hours (calendar_cfg_of c) \<le> 24" "grace_minutes (calendar_cfg_of c) \<le> 240"
    using n(2-5) by (simp_all add: calendar_cfg_of_def Let_def g h)
qed

text \<open>
  No configuration can silence the alerts for more than 28 hours with one event: if the calendar
  section is accepted, a window that is active at some moment, and so holds alerts, began at most
  24 hours and four hours of grace before it, and holding is switched on.
\<close>

theorem configured_holds_are_bounded:
  assumes "calendar_settings ps sec = Inr c" and "cfg = calendar_cfg_of c"
    and "p = foldl (provider_next cfg ev) (new_provider f) steps" and "w \<in> set (fst (active cfg now t p))"
  shows "conf_enabled c \<and> conf_hold_alerts c \<and> prefix TITLE_PREFIX (mw_title w) \<and>
    mw_start w \<le> t \<and> t < mw_start w + 28 * 3600"
proof -
  have a: "cal_enabled cfg \<and> hold_alerts cfg \<and> ev \<and> prefix TITLE_PREFIX (mw_title w) \<and>
      mw_start w \<le> t \<and> t < mw_start w + of_nat (max_window_hours cfg) * 3600 + grace_seconds cfg"
    using active_bounded [OF assms(3,4)] by blast
  then have on: "conf_enabled c" "conf_hold_alerts c" by (simp_all add: assms(2) calendar_cfg_of_def Let_def)
  have "real (max_window_hours cfg) \<le> 24" "real (grace_minutes cfg) \<le> 240"
    using calendar_cfg_bounds [OF assms(1) on(1)] by (simp_all add: assms(2))
  then show ?thesis using a on by (simp add: grace_seconds_def)
qed

section \<open>The reminders\<close>

definition finite_number_value :: "num_value \<Rightarrow> bool" where
  "finite_number_value v \<longleftrightarrow> (\<exists>x. as_number v = Fin x)"

definition sched_cfg_of :: "numbers \<Rightarrow> sched_cfg" where
  "sched_cfg_of vs =
     (let num = (\<lambda>name. real_of (setting vs name))
      in \<lparr>retry_floor = num ''retry_floor_seconds'', crash_attempt_limit = nat \<lfloor>num ''crash_attempt_limit''\<rfloor>,
          late_grace = num ''late_grace_seconds'', late_threshold = num ''late_delivery_threshold_seconds'',
          report_horizon = num ''report_horizon_seconds'', tick_delivery_limit = nat \<lfloor>num ''tick_delivery_limit''\<rfloor>\<rparr>)"

lemma delivery_read:
  assumes "bounded_settings ps sn sec DELIVERY_SETTINGS = Inr vs"
  shows "\<exists>poll floor crash grace late horizon tick window items.
    vs = [(cps ''poll_interval_seconds'', Float_Value poll), (cps ''retry_floor_seconds'', Float_Value floor),
      (cps ''crash_attempt_limit'', Int_Value crash), (cps ''late_grace_seconds'', Float_Value grace),
      (cps ''late_delivery_threshold_seconds'', Float_Value late), (cps ''report_horizon_seconds'', Float_Value horizon),
      (cps ''tick_delivery_limit'', Int_Value tick), (cps ''note_window_seconds'', Float_Value window),
      (cps ''note_max_items'', Int_Value items)]"
  using assms [unfolded bounded_settings_def DELIVERY_SETTINGS_def read_table coerce_int coerce_float]
  by (elim exE conjE) simp


text \<open>
  A \<open>nan\<close> for the grace window is accepted. No reminder is then ever past its grace, and none is
  ever given up.
\<close>

lemma nan_grace_is_accepted:
  "\<exists>plain vs. reminders_config ps [(cps ''late_grace_seconds'', Y_Float Nan)] = Inr (plain, vs) \<and> setting vs ''late_grace_seconds'' = Nan"
proof -
  let ?sec = "[(cps ''late_grace_seconds'', Y_Float Nan)]"
  have get: "yget ?sec (cps k) d = (if k = ''late_grace_seconds'' then Y_Float Nan else d)" for k d
    by (simp add: yget_def)
  show ?thesis
    by (simp add: reminders_config_def plain_settings_def bounded_settings_def REMINDER_SETTINGS_def DELIVERY_SETTINGS_def
      get coerce_def float_of_int_def FLOAT_INT_LIMIT_def validate_delivery_settings_def first_nonpositive_def setting_def)
qed

section \<open>Messages\<close>

lemma accepted_safe_length_splits: "require_safe_length ps sec = Inr n \<Longrightarrow> split_message body (nat n) \<noteq> None"
  by (auto simp: require_safe_length_def split_message_def split: sum.splits if_splits)

section \<open>Allowlists\<close>

lemma normalised_canonical: "normalise_entries name vs = Inr l \<Longrightarrow> list_all (\<lambda>s. s \<noteq> [] \<and> strip s = s) l"
  by (induction vs arbitrary: l) (auto split: yaml.splits sum.splits if_splits)

lemma normalise_canonical: "list_all (\<lambda>s. s \<noteq> [] \<and> strip s = s) l \<Longrightarrow> normalise_entries name (map Y_Str l) = Inr l"
  by (induction l) auto

lemma label_allowlist_is_canonical:
  assumes "normalise_label_allowlist name entries = Inr l"
  shows "list_all (\<lambda>s. s \<noteq> [] \<and> strip s = s) l" and "normalise_label_allowlist name (Y_Seq (map Y_Str l)) = Inr l"
proof -
  show "list_all (\<lambda>s. s \<noteq> [] \<and> strip s = s) l"
    using assms normalised_canonical by (auto simp: normalise_label_allowlist_def split: yaml.splits)
  then show "normalise_label_allowlist name (Y_Seq (map Y_Str l)) = Inr l"
    by (simp add: normalise_label_allowlist_def normalise_canonical)
qed

section \<open>Profiles\<close>

lemma choice_in: "require_choice sec key d choices sn = Inr (Some s) \<Longrightarrow> s \<in> set choices"
  by (auto simp: require_choice_def split: option.splits yaml.splits if_splits)

lemma inherited_choice:
  "map_of sec key = None \<Longrightarrow> require_choice sec key d choices sn = Inr x \<Longrightarrow> x = d"
  by (auto simp: require_choice_def split: option.splits if_splits)

lemma triage_inherits_chat:
  assumes "agent_profiles sec = Inr c" and "map_of sec (cps ''event_effort'') = None"
    and "map_of sec (cps ''event_thinking'') = None" and "cps ''event_model'' \<notin> fst ` set sec"
  shows "event_model c = chat_model c \<and> event_effort c = chat_effort c \<and> event_thinking c = chat_thinking c"
  using assms(1) inherited_choice [OF assms(2)] inherited_choice [OF assms(3)] assms(4)
  by (simp add: agent_profiles_def Let_def split: sum.splits) (metis agent_conf.select_convs)

section \<open>Witnesses\<close>

definition sample_parsers :: parsers where
  "sample_parsers = \<lparr>int_text_of = (\<lambda>_. None), float_text_of = (\<lambda>_. None), casefold_of = id, zone_known = (\<lambda>_. Some True)\<rparr>"

definition sample_section :: settings where
  "sample_section = [(cps ''enabled'', Y_Bool True), (cps ''calendar_id'', Y_Str [120])]"

definition sample_conf :: calendar_conf where
  "sample_conf = \<lparr>conf_enabled = True, conf_id = [120], conf_hold_alerts = True, conf_numbers =
     [(cps ''lookahead_days'', Int_Value 14), (cps ''refresh_seconds'', Float_Value (Fin 300)),
      (cps ''grace_minutes'', Int_Value 30), (cps ''max_window_hours'', Int_Value 8),
      (cps ''stale_after_seconds'', Float_Value (Fin 21600)), (cps ''timeout_seconds'', Float_Value (Fin 10))]\<rparr>"

lemma small_floats [simp]: "numeral n \<le> (86400 :: int) \<Longrightarrow> float_of_int (numeral n) = Some (numeral n)"
proof -
  assume n: "numeral n \<le> (86400 :: int)"
  have "(86400 :: int) < FLOAT_INT_LIMIT" by (simp add: FLOAT_INT_LIMIT_def)
  with n have "numeral n < FLOAT_INT_LIMIT" by (rule le_less_trans)
  then show ?thesis by (simp add: float_of_int_def)
qed

lemma sample_accepted: "calendar_settings sample_parsers sample_section = Inr sample_conf"
proof -
  have "finite_calendar_settings sample_parsers sample_section = Inr (conf_numbers sample_conf)"
    by (simp add: finite_calendar_settings_def CALENDAR_SETTINGS_def sample_section_def yget_def finite_value_def coerce_def
      sample_conf_def)
  moreover have "strip [120] = [120]" by (simp add: strip_def is_space_def)
  ultimately show ?thesis
    by (simp add: calendar_settings_def sample_section_def yget_def require_strict_bool_def Let_def sample_conf_def in_range_simps)
qed

lemma sample_calendar_conf: "calendar_cfg_of sample_conf = sample_calendar"
  by (simp add: calendar_cfg_of_def sample_conf_def sample_calendar_def setting_def Let_def)

theorem accepted_calendar_is_well_typed_witness:
  "conf_id sample_conf \<noteq> [] \<and> (\<exists>hours. (cps ''max_window_hours'', Int_Value hours) \<in> set (conf_numbers sample_conf) \<and> hours \<le> 24)"
  using accepted_calendar_is_well_typed [OF sample_accepted] by (fastforce simp: sample_conf_def)

theorem configured_holds_are_bounded_witness:
  "mw_start sample_window \<le> 5000 \<and> 5000 < mw_start sample_window + 28 * 3600"
  using configured_holds_are_bounded [OF sample_accepted sample_calendar_conf [symmetric] refl, of sample_window 10 5000 True
      "File_Missing" "[Refresh 0 0 sample_services sample_client True]"]
  by (simp only: sample_active) simp


end
