(* ===== verification/Projection.thy ===== *)
theory Projection
  imports Config Incident_Context "HOL-Library.List_Lexorder"
begin

text \<open>
  \<open>henk/tools/query_projection.py\<close> and \<open>backend_failure.py\<close>: how a homelab target is named
  without its address, how a backend's own text loses the addresses it quotes, and the sentence
  for a backend call that failed. Python's Unicode tables (\<open>\d\<close>, \<open>\w\<close>, \<open>str.isdigit\<close>) are an
  argument.
\<close>

section \<open>Nodes and jobs\<close>

text \<open>The job names are those of the incident context, which reads them from here.\<close>

definition friendly_target :: "str \<Rightarrow> str" where
  "friendly_target job = (case map_of NODE_FOR_JOB job of None \<Rightarrow> job | Some node \<Rightarrow> node)"

section \<open>Labels that carry an address\<close>

record unicode =
  re_digit :: "nat \<Rightarrow> bool"       \<comment> \<open>\<open>\d\<close>\<close>
  re_word :: "nat \<Rightarrow> bool"        \<comment> \<open>\<open>\w\<close>\<close>
  str_digit :: "nat \<Rightarrow> bool"      \<comment> \<open>\<open>str.isdigit\<close> of one character\<close>

definition ADDRESS_BEARING_LABELS :: "str list" where
  "ADDRESS_BEARING_LABELS =
     [cps ''instance'', cps ''server'', cps ''scrapeUrl'', cps ''globalUrl'', cps ''__address__'', cps ''hostname'', cps ''upstream'']"

text \<open>\<open>str.split(c)\<close> at one character.\<close>

fun split_on :: "nat \<Rightarrow> str \<Rightarrow> str list" where
  "split_on c [] = [[]]"
| "split_on c (x # xs) = (if x = c then [] # split_on c xs else (x # hd (split_on c xs)) # tl (split_on c xs))"

definition is_address_shaped :: "unicode \<Rightarrow> str \<Rightarrow> bool" where
  "is_address_shaped u value \<longleftrightarrow>
     contains (cps ''://'') value \<or>
     (let parts = split_on 46 (takeWhile (\<lambda>c. c \<noteq> 58) value)
      in length parts = 4 \<and> list_all (\<lambda>p. p \<noteq> [] \<and> list_all (str_digit u) p) parts)"

definition projects :: "unicode \<Rightarrow> str \<times> json \<Rightarrow> bool" where
  "projects u = (\<lambda>(name, value).
     \<not> prefix (cps ''__'') name \<and> lower name \<notin> set (map lower ADDRESS_BEARING_LABELS) \<and>
     (case value of J_Str s \<Rightarrow> \<not> is_address_shaped u s | _ \<Rightarrow> True))"

definition project_labels :: "unicode \<Rightarrow> json_obj \<Rightarrow> json_obj" where
  "project_labels u labels = filter (projects u) labels"

text \<open>The labels a target is described with are strings: both callers pass only those.\<close>

definition describe_target :: "unicode \<Rightarrow> str \<Rightarrow> (str \<times> str) list \<Rightarrow> str" where
  "describe_target u job labels =
     (let kept = filter (\<lambda>(k, v). k \<noteq> cps ''job'' \<and> projects u (k, J_Str v)) labels
      in friendly_target job @ cps '' ('' @
         join [44, 32] ((cps ''job='' @ job) # map (\<lambda>(k, v). k @ [61] @ v) (sort kept)) @ [41])"

section \<open>Scrubbing a backend's text\<close>

definition latin_letter :: "nat \<Rightarrow> bool" where
  "latin_letter c \<longleftrightarrow> (65 \<le> c \<and> c \<le> 90) \<or> (97 \<le> c \<and> c \<le> 122)"

definition latin_digit :: "nat \<Rightarrow> bool" where
  "latin_digit c \<longleftrightarrow> 48 \<le> c \<and> c \<le> 57"

definition url_scheme_char :: "nat \<Rightarrow> bool" where
  "url_scheme_char c \<longleftrightarrow> latin_letter c \<or> latin_digit c \<or> c \<in> {43, 45, 46}"

definition url_char :: "nat \<Rightarrow> bool" where
  "url_char c \<longleftrightarrow> \<not> is_space c \<and> c \<notin> {34, 39, 60, 62}"

definition host_char :: "nat \<Rightarrow> bool" where
  "host_char c \<longleftrightarrow> latin_letter c \<or> latin_digit c \<or> c = 45"

text \<open>
  The three patterns. Each gives the length of the match at the head of a text, knowing the
  character before it, which a word boundary looks at. Where two repetitions could share
  characters the length is the one Python's greedy search with backtracking ends with.
\<close>

type_synonym pattern = "nat option \<Rightarrow> str \<Rightarrow> nat option"

fun url_match :: pattern where
  "url_match prev [] = None"
| "url_match prev (c # cs) =
     (let scheme = takeWhile url_scheme_char cs;
          rest = drop (length scheme) cs;
          body = takeWhile url_char (drop 3 rest)
      in if latin_letter c \<and> prefix (cps ''://'') rest \<and> body \<noteq> [] then Some (length scheme + length body + 4) else None)"

definition word_before :: "unicode \<Rightarrow> nat option \<Rightarrow> bool" where
  "word_before u prev = (case prev of None \<Rightarrow> False | Some c \<Rightarrow> re_word u c)"

definition word_after :: "unicode \<Rightarrow> str \<Rightarrow> bool" where
  "word_after u s = (case s of [] \<Rightarrow> False | c # _ \<Rightarrow> re_word u c)"

text \<open>\<open>(?::\d+)?\b\<close> after a word character: with the port, else without it.\<close>

definition port_match :: "unicode \<Rightarrow> str \<Rightarrow> nat option" where
  "port_match u s =
     (let port = takeWhile (re_digit u) (tl s)
      in if s \<noteq> [] \<and> hd s = 58 \<and> port \<noteq> [] \<and> \<not> word_after u (drop (Suc (length port)) s) then Some (Suc (length port))
         else if word_after u s then None else Some 0)"

text \<open>\<open>n\<close> more groups of a dot and one to three digits; the run of digits must end there.\<close>

fun octets_match :: "unicode \<Rightarrow> nat \<Rightarrow> str \<Rightarrow> nat option" where
  "octets_match u 0 s = port_match u s"
| "octets_match u (Suc n) s =
     (let run = takeWhile (re_digit u) (tl s)
      in if s \<noteq> [] \<and> hd s = 46 \<and> run \<noteq> [] \<and> length run \<le> 3
         then map_option (\<lambda>k. Suc (length run) + k) (octets_match u n (drop (Suc (length run)) s)) else None)"

definition ipv4_match :: "unicode \<Rightarrow> pattern" where
  "ipv4_match u prev s =
     (let run = takeWhile (re_digit u) s
      in if run \<noteq> [] \<and> length run \<le> 3 \<and> word_before u prev \<noteq> word_after u s
         then map_option (\<lambda>k. length run + k) (octets_match u 3 (drop (length run) s)) else None)"

text \<open>After a host label: further labels as far as they lead to a match, then \<open>.ts.net\<close>.\<close>

function tailnet_rest :: "unicode \<Rightarrow> str \<Rightarrow> nat option" where
  "tailnet_rest u s =
     (let run = takeWhile host_char (tl s);
          deeper = (if s \<noteq> [] \<and> hd s = 46 \<and> run \<noteq> []
                    then map_option (\<lambda>k. Suc (length run) + k) (tailnet_rest u (drop (Suc (length run)) s)) else None);
          here = (if prefix (cps ''.ts.net'') s then map_option (\<lambda>k. 7 + k) (port_match u (drop 7 s)) else None)
      in case deeper of None \<Rightarrow> here | Some k \<Rightarrow> Some k)"
  by auto
termination by (relation "measure (\<lambda>(_, s). length s)") auto

declare tailnet_rest.simps [simp del]

definition tailnet_match :: "unicode \<Rightarrow> pattern" where
  "tailnet_match u prev s =
     (let run = takeWhile host_char s
      in if run \<noteq> [] \<and> word_before u prev \<noteq> word_after u s
         then map_option (\<lambda>k. length run + k) (tailnet_rest u (drop (length run) s)) else None)"

definition REDACTED :: str where "REDACTED = cps ''<address redacted>''"

text \<open>\<open>pattern.sub(_REDACTED, text)\<close>, from the character \<open>prev\<close> on.\<close>

function (sequential) redact :: "pattern \<Rightarrow> nat option \<Rightarrow> str \<Rightarrow> str" where
  "redact m prev [] = []"
| "redact m prev (c # cs) =
     (case m prev (c # cs) of
        Some (Suc n) \<Rightarrow> REDACTED @ redact m (Some (last (c # take n cs))) (drop n cs)
      | _ \<Rightarrow> c # redact m (Some c) cs)"
  by pat_completeness auto
termination by (relation "measure (\<lambda>(_, _, s). length s)") auto

definition scrub_addresses :: "unicode \<Rightarrow> str \<Rightarrow> str" where
  "scrub_addresses u text = redact (tailnet_match u) None (redact (ipv4_match u) None (redact url_match None text))"

section \<open>A failed backend call\<close>

text \<open>\<open>round\<close> to an integer, halves to the even one, and \<open>format(x, ".df")\<close> of a finite float.\<close>

definition round_even :: "real \<Rightarrow> int" where
  "round_even y =
     (let f = \<lfloor>y\<rfloor>; d = y - of_int f
      in if d < 1 / 2 then f else if 1 / 2 < d then f + 1 else if even f then f else f + 1)"

definition digits_padded :: "nat \<Rightarrow> nat \<Rightarrow> str" where
  "digits_padded d n = replicate (d - length (decimal n)) 48 @ decimal n"

definition fixed_real :: "nat \<Rightarrow> real \<Rightarrow> str" where
  "fixed_real d x =
     (let n = nat (round_even (\<bar>x\<bar> * 10 ^ d))
      in (if x < 0 then [45] else []) @ decimal (n div 10 ^ d) @
         (if d = 0 then [] else 46 # digits_padded d (n mod 10 ^ d)))"

fun fixed :: "nat \<Rightarrow> number \<Rightarrow> str" where
  "fixed d (Fin x) = fixed_real d x"
| "fixed d (Infinite positive) = (if positive then cps ''inf'' else cps ''-inf'')"
| "fixed d Nan = cps ''nan''"

datatype backend_failure =
    Timed_Out
  | Http_Status nat
  | Other_Failure str          \<comment> \<open>the exception's text\<close>

definition backend_failure_reason :: "unicode \<Rightarrow> str \<Rightarrow> real \<Rightarrow> backend_failure \<Rightarrow> str" where
  "backend_failure_reason u backend timeout f =
     (case f of
        Timed_Out \<Rightarrow> backend @ cps '' timed out after '' @ fixed_real 0 timeout @ cps ''s''
      | Http_Status n \<Rightarrow> backend @ cps '' returned HTTP '' @ decimal n
      | Other_Failure s \<Rightarrow> backend @ cps '' request failed: '' @ scrub_addresses u s)"

section \<open>No URL survives\<close>

text \<open>The shortest text the first pattern matches: a scheme, the separator, one character.\<close>

definition url_start :: "str \<Rightarrow> bool" where
  "url_start w \<longleftrightarrow>
     (\<exists>a sch b. w = a # sch @ cps ''://'' @ [b] \<and> latin_letter a \<and> list_all url_scheme_char sch \<and> url_char b)"

lemma url_start_chars: "url_start w \<Longrightarrow> w \<noteq> [] \<and> 60 \<notin> set w \<and> 62 \<notin> set w"
  by (auto simp: url_start_def cps_def list_all_iff url_scheme_char_def latin_letter_def latin_digit_def url_char_def
      dest: bspec [of _ _ 60] bspec [of _ _ 62])

lemma takeWhile_scheme: "list_all url_scheme_char sch \<Longrightarrow> takeWhile url_scheme_char (sch @ cps ''://'' @ r) = sch"
  by (induction sch) (simp_all add: cps_def url_scheme_char_def latin_letter_def latin_digit_def)

lemma url_start_matches: "url_start w \<Longrightarrow> prefix w s \<Longrightarrow> \<exists>n. url_match prev s = Some (Suc n)"
  by (auto simp: url_start_def prefix_def Let_def takeWhile_scheme) (auto simp: cps_def)

lemma redacted_parts: "REDACTED = 60 # cps ''address redacted'' @ [62]"
  by (simp add: REDACTED_def cps_def)

lemma no_url_in_redacted: "url_start w \<Longrightarrow> \<not> contains w (cps ''address redacted'')"
proof
  assume "url_start w" and c: "contains w (cps ''address redacted'')"
  then have "58 \<in> set w" by (auto simp: url_start_def cps_def)
  moreover have "set w \<subseteq> set (cps ''address redacted'')" using c by (auto simp: contains_iff)
  ultimately show False by (auto simp: cps_def)
qed

text \<open>A text without a character lies on one side of it.\<close>

lemma contains_around:
  assumes "contains w (xs @ c # ys)" and "c \<notin> set w"
  shows "contains w xs \<or> contains w ys"
proof -
  obtain p q where h: "xs @ c # ys = p @ w @ q" using assms(1) by (auto simp: contains_iff)
  then have "(\<exists>us. xs = p @ us \<and> us @ c # ys = w @ q) \<or> (\<exists>us. p = xs @ us \<and> c # ys = us @ w @ q)"
    by (auto simp: append_eq_append_conv2)
  then consider us where "xs = p @ us" "us @ c # ys = w @ q" | us where "p = xs @ us" "c # ys = us @ w @ q" by blast
  then show ?thesis
  proof cases
    case 1
    then have "(\<exists>v. us = w @ v) \<or> (\<exists>v. w = us @ v \<and> c # ys = v @ q)" by (auto simp: append_eq_append_conv2)
    then show ?thesis
    proof
      assume "\<exists>v. us = w @ v"
      then show ?thesis using 1 by (auto simp: contains_iff)
    next
      assume "\<exists>v. w = us @ v \<and> c # ys = v @ q"
      then obtain v where v: "w = us @ v" "c # ys = v @ q" by blast
      then have "v = []" using assms(2) by (cases v) auto
      then show ?thesis using v 1 by (auto simp: contains_iff intro: exI [of _ p])
    qed
  next
    case 2
    show ?thesis
    proof (cases us)
      case Nil
      then have "w = []" using 2 assms(2) by (cases w) auto
      then show ?thesis by (auto simp: contains_iff)
    next
      case (Cons x us')
      then show ?thesis using 2 by (auto simp: contains_iff)
    qed
  qed
qed

lemma redact_hit:
  "m prev (c # cs) = Some (Suc n) \<Longrightarrow>
     redact m prev (c # cs) = 60 # cps ''address redacted'' @ 62 # redact m (Some (last (c # take n cs))) (drop n cs)"
  by (simp add: redacted_parts del: last.simps)

lemma redact_miss:
  "(\<And>n. m prev (c # cs) \<noteq> Some (Suc n)) \<Longrightarrow> redact m prev (c # cs) = c # redact m (Some c) cs"
  by (auto split: option.splits nat.splits)

declare redact.simps(2) [simp del]

lemma contains_past_redacted:
  assumes "url_start w" and "contains w (60 # cps ''address redacted'' @ 62 # r)"
  shows "contains w r"
proof -
  have w: "60 \<notin> set w" "62 \<notin> set w" "w \<noteq> []" using url_start_chars [OF assms(1)] by auto
  have "contains w ([] @ 60 # (cps ''address redacted'' @ 62 # r))" using assms(2) by simp
  then have "contains w (cps ''address redacted'' @ 62 # r)" using contains_around w by (metis contains.simps(1))
  then show ?thesis using contains_around w no_url_in_redacted [OF assms(1)] by blast
qed

lemma not_Suc_iff: "(\<forall>n. a \<noteq> Suc n) \<longleftrightarrow> a = 0"
  by (cases a) auto

lemma redact_prefix: "prefix w (redact m prev s) \<Longrightarrow> 60 \<notin> set w \<Longrightarrow> prefix w s"
proof (induction m prev s arbitrary: w rule: redact.induct)
  case (2 m prev c cs)
  show ?case
  proof (cases "\<exists>n. m prev (c # cs) = Some (Suc n)")
    case True
    then show ?thesis using 2(4,5) by (cases w) (auto simp: redact_hit simp del: last.simps)
  next
    case False
    then have eq: "redact m prev (c # cs) = c # redact m (Some c) cs" by (intro redact_miss) auto
    have IH: "prefix v (redact m (Some c) cs) \<Longrightarrow> 60 \<notin> set v \<Longrightarrow> prefix v cs" for v
      using 2(1,2) False by (cases "m prev (c # cs)") (auto simp: not_Suc_iff)
    show ?thesis using 2(4,5) IH by (cases w) (auto simp: eq)
  qed
qed simp

text \<open>What a pass keeps: a URL that remains was there before it.\<close>

lemma redact_keeps_url_free:
  assumes "url_start w"
  shows "contains w (redact m prev s) \<Longrightarrow> contains w s"
proof (induction m prev s rule: redact.induct)
  case (2 m prev c cs)
  have w: "w \<noteq> []" "60 \<notin> set w" using url_start_chars [OF assms] by auto
  show ?case
  proof (cases "\<exists>n. m prev (c # cs) = Some (Suc n)")
    case True
    then obtain n where n: "m prev (c # cs) = Some (Suc n)" by blast
    then have "contains w (drop n cs)"
      using 2(3) [OF n refl] 2(4) contains_past_redacted [OF assms] by (simp add: redact_hit del: last.simps)
    then show ?thesis by (metis append_Cons append_take_drop_id contains_iff append_assoc)
  next
    case False
    then have eq: "redact m prev (c # cs) = c # redact m (Some c) cs" by (intro redact_miss) auto
    have IH: "contains w (redact m (Some c) cs) \<Longrightarrow> contains w cs"
      using 2(1,2) False by (cases "m prev (c # cs)") (auto simp: not_Suc_iff)
    show ?thesis using 2(4) IH redact_prefix [of w m prev "c # cs"] w(2) by (auto simp: eq)
  qed
qed (use url_start_chars [OF assms] in simp)

lemma redact_url_free:
  assumes "url_start w"
  shows "\<not> contains w (redact url_match prev s)"
proof (induction url_match prev s rule: redact.induct)
  case (2 prev c cs)
  have w: "w \<noteq> []" "60 \<notin> set w" using url_start_chars [OF assms] by auto
  show ?case
  proof (cases "\<exists>n. url_match prev (c # cs) = Some (Suc n)")
    case True
    then obtain n where n: "url_match prev (c # cs) = Some (Suc n)" by blast
    show ?thesis
      using 2(3) [OF n refl] contains_past_redacted [OF assms] by (auto simp: redact_hit [of url_match, OF n] simp del: last.simps)
  next
    case False
    then have eq: "redact url_match prev (c # cs) = c # redact url_match (Some c) cs" by (intro redact_miss) auto
    have "\<not> prefix w (c # cs)" using url_start_matches [OF assms] False by blast
    then have "\<not> prefix w (c # redact url_match (Some c) cs)"
      using redact_prefix w by (cases w) auto
    moreover have "\<not> contains w (redact url_match (Some c) cs)"
      using 2(1,2) False by (cases "url_match prev (c # cs)") (auto simp: not_Suc_iff simp del: url_match.simps)
    ultimately show ?thesis by (simp add: eq)
  qed
qed (use url_start_chars [OF assms] in simp)

text \<open>
  C22. Whatever text a backend or the transport produced, what is left after scrubbing names no URL:
  no letter followed by scheme characters, the separator and a first character of an address.
  The two later passes put no URL together that the first removed.
\<close>

theorem scrubbed_text_names_no_url: "\<not> (\<exists>w. url_start w \<and> contains w (scrub_addresses u text))"
  using redact_keeps_url_free redact_url_free unfolding scrub_addresses_def by blast

end
