(* ===== verification/Query_Registry.thy ===== *)
theory Query_Registry
  imports Projection "HOL-Library.AList"
begin

text \<open>
  \<open>henk/tools/query_registry.py\<close>: the closed registry of homelab queries, the domains of their
  parameters, and the planner that turns a tool call into the requests it may issue. The registry
  is data, copied entry by entry; an entry's renderer is left out (the theory of the renderers
  holds them). A refused call is its reason with the values it names; the sentence around them is
  left out, save the one for a query that cannot be derived, which is a result and not a refusal.
\<close>

section \<open>Measured constants\<close>

definition PROMETHEUS_WINDOWS :: "str list" where
  "PROMETHEUS_WINDOWS = [cps ''15m'', cps ''1h'', cps ''6h'', cps ''24h'']"

definition GATUS_WINDOWS :: "str list" where
  "GATUS_WINDOWS = [cps ''1h'', cps ''24h'', cps ''7d'', cps ''30d'']"

definition RESOURCES :: "str list" where
  "RESOURCES = [cps ''cpu'', cps ''memory'', cps ''disk'', cps ''load'', cps ''swap_used'', cps ''swap_io'', cps ''temperature'']"

definition WINDOW_SECONDS :: "(str \<times> nat) list" where
  "WINDOW_SECONDS =
     [(cps ''15m'', 900), (cps ''1h'', 3600), (cps ''6h'', 21600), (cps ''24h'', 86400),
      (cps ''7d'', 7 * 86400), (cps ''30d'', 30 * 86400)]"

definition SCRAPE_TARGETS_LOOKBACK :: str where "SCRAPE_TARGETS_LOOKBACK = cps ''24h''"

definition CONTAINER_NODES :: "str list" where "CONTAINER_NODES = [cps ''rp5'', cps ''vps'', cps ''rp2'']"
definition MOVERS_NODES :: "str list" where "MOVERS_NODES = [cps ''rp5'', cps ''vps'', cps ''rp2'']"
definition HOST_SERVICE_NODES :: "str list" where "HOST_SERVICE_NODES = [cps ''rp5'', cps ''vps'', cps ''rp2'']"

definition RESTART_VERIFIED_JOBS :: "str list" where
  "RESTART_VERIFIED_JOBS = [cps ''cadvisor-pi5'', cps ''cadvisor-vps'']"

definition DNS_METRIC :: str where "DNS_METRIC = cps ''adguard_avg_processing_time_seconds''"

definition FRESHNESS_TIMESTAMP_METRICS :: "str list" where
  "FRESHNESS_TIMESTAMP_METRICS =
     [(cps ''homelab_backup_last_run_timestamp''),
      (cps ''homelab_backup_last_success_timestamp''),
      (cps ''homelab_backup_rotate_last_run_timestamp''),
      (cps ''homelab_dump_mtime_timestamp''),
      (cps ''health_etl_last_success_timestamp_seconds''),
      (cps ''obsidian_backup_push_last_run_timestamp''),
      (cps ''obsidian_backup_push_last_success_timestamp''),
      (cps ''obsidian_backup_verify_last_run_timestamp'')]"

definition FRESHNESS_SELECTOR :: str where
  "FRESHNESS_SELECTOR = (cps ''{__name__=~'' @ [34]) @ join [124] FRESHNESS_TIMESTAMP_METRICS @ ([34] @ cps ''}'')"

section \<open>Gatus keys\<close>

definition sanitize_gatus_segment :: "str \<Rightarrow> str" where
  "sanitize_gatus_segment segment =
     map (\<lambda>c. if (97 \<le> c \<and> c \<le> 122) \<or> (48 \<le> c \<and> c \<le> 57) \<or> c = 45 then c else 45) (lower (strip segment))"

definition compose_gatus_key :: "str \<Rightarrow> str \<Rightarrow> str" where
  "compose_gatus_key grp name = sanitize_gatus_segment grp @ [95] @ sanitize_gatus_segment name"

text \<open>\<open>s.partition(c)\<close> at a character of \<open>s\<close>: what comes before it and after it.\<close>

definition before_char :: "nat \<Rightarrow> str \<Rightarrow> str" where "before_char c s = takeWhile (\<lambda>x. x \<noteq> c) s"
definition after_char :: "nat \<Rightarrow> str \<Rightarrow> str" where "after_char c s = drop 1 (dropWhile (\<lambda>x. x \<noteq> c) s)"

definition endpoint_candidates :: "str \<Rightarrow> str list" where
  "endpoint_candidates supplied =
     (let plain = strip supplied;
          stated = plain # (if prefix (cps ''gatus:'') (lower plain) then [strip (after_char 58 plain)] else [])
      in stated @ concat (map (\<lambda>c.
           (if 47 \<in> set c then [compose_gatus_key (before_char 47 c) (after_char 47 c)] else []) @ [sanitize_gatus_segment c]) stated))"

definition resolve_endpoint_key :: "str \<Rightarrow> str list \<Rightarrow> str option" where
  "resolve_endpoint_key supplied known = find (\<lambda>c. c \<in> set known) (endpoint_candidates supplied)"

section \<open>Entries\<close>

datatype query_backend = Prometheus | Gatus
datatype query_outcome = Answered | Out_Of_Domain | Not_Derivable
datatype direction = Above | Below

record threshold =
  th_value :: real
  th_unit :: str
  th_direction :: direction
  th_source :: str
  th_note :: str
  th_for :: "str option"
  th_branch :: "str option"

definition crossed_by :: "threshold \<Rightarrow> number \<Rightarrow> bool" where
  "crossed_by bar reading =
     (case th_direction bar of Above \<Rightarrow> num_less (Fin (th_value bar)) reading | Below \<Rightarrow> num_less reading (Fin (th_value bar)))"

definition describe_threshold :: "threshold \<Rightarrow> str" where
  "describe_threshold bar =
     (case th_direction bar of Above \<Rightarrow> [62] | Below \<Rightarrow> [60]) @ fixed_real 2 (th_value bar) @ [32] @ th_unit bar @
     cps '' ('' @ th_source bar @ [41]"

text \<open>A domain of \<open>None\<close> is discovered from the backend.\<close>

record query_parameter =
  qp_name :: str
  qp_domain :: "str list option"
  qp_description :: str
  qp_note :: str

record unavailable =
  hole_parameters :: "(str \<times> str) list"
  hole_aspect :: "str option"
  hole_reason :: str

record query_entry =
  qe_name :: str
  qe_backend :: query_backend
  qe_summary :: str
  qe_expressions :: "(str \<times> str) list"
  qe_routes :: "(str \<times> str) list"
  qe_parameters :: "query_parameter list"
  qe_thresholds :: "(str \<times> threshold) list"
  qe_baselines :: "(str \<times> real) list"
  qe_range_query :: bool
  qe_range_roles :: "str list option"
  qe_select_by :: "str option"
  qe_job_map :: "(str \<times> str) list option"
  qe_single_series :: "str list"
  qe_caveats :: "str list"
  qe_unavailable :: "unavailable list"
  qe_lookback :: "str option"
  qe_derives_node_mapping :: bool
  qe_named_container_template :: str

definition blank_entry :: "str \<Rightarrow> query_backend \<Rightarrow> query_entry" where
  "blank_entry name backend =
     \<lparr>qe_name = name, qe_backend = backend, qe_summary = [], qe_expressions = [], qe_routes = [], qe_parameters = [],
      qe_thresholds = [], qe_baselines = [], qe_range_query = False, qe_range_roles = None, qe_select_by = None,
      qe_job_map = None, qe_single_series = [], qe_caveats = [], qe_unavailable = [], qe_lookback = None,
      qe_derives_node_mapping = False, qe_named_container_template = []\<rparr>"

definition templates :: "query_entry \<Rightarrow> (str \<times> str) list" where
  "templates e = qe_expressions e @ qe_routes e"

definition entry_parameter :: "query_entry \<Rightarrow> str \<Rightarrow> query_parameter option" where
  "entry_parameter e name = find (\<lambda>p. qp_name p = name) (qe_parameters e)"

definition RP2_NO_CADVISOR :: str where
  "RP2_NO_CADVISOR = (cps (''rp2 runs no cadvisor, so no container metrics exist for it: '' @
      ''there is no container-metrics job to query on this node.''))"

definition NO_SYSTEMD_COLLECTOR :: str where
  "NO_SYSTEMD_COLLECTOR = (cps (''node-exporter on this node runs without the systemd collecto'' @ ''r; measured 2026-09-23: '') @
    [96] @ cps ''node_systemd_unit_state'' @ [96] @ cps '' has series only for '' @ [96] @
    cps ''node-exporter-vps'' @ [96] @ cps ''.'')"

definition NODE_PARAM_DESCRIPTION :: str where
  "NODE_PARAM_DESCRIPTION = (cps ''Which node to measure.'')"

definition WINDOW_PROM_DESCRIPTION :: str where
  "WINDOW_PROM_DESCRIPTION = (cps ''How far back to look.'')"

definition NODE_RESOURCE_EXPRESSIONS :: "(str \<times> str) list" where
  "NODE_RESOURCE_EXPRESSIONS =
     [((cps ''cpu''), (cps ''100 - avg by (job) (rate(node_cpu_seconds_total{job='' @ [34] @ cps ''<job>'' @ [34] @
       cps '',mode='' @ [34] @ cps ''idle'' @ [34] @ cps ''}[5m])) * 100'')),
      ((cps ''memory''), (cps ''100 * (1 - node_memory_MemAvailable_bytes{job='' @ [34] @ cps ''<job>'' @ [34] @
        cps ''} / node_memory_MemTotal_bytes{job='' @ [34] @ cps ''<job>'' @ [34] @ cps ''})'')),
      ((cps ''disk''), (cps ''100 * node_filesystem_avail_bytes{job='' @ [34] @ cps ''<job>'' @ [34] @
        cps '',mountpoint='' @ [34] @ cps ''/'' @ [34] @ cps ''} / node_filesystem_size_bytes{job='' @
        [34] @ cps ''<job>'' @ [34] @ cps '',mountpoint='' @ [34] @ cps ''/'' @ [34] @ cps ''}'')),
      ((cps ''load''), (cps ''node_load1{job='' @ [34] @ cps ''<job>'' @ [34] @ cps ''}'')),
      ((cps ''swap_used''), (cps ''100 * (1 - node_memory_SwapFree_bytes{job='' @ [34] @ cps ''<job>'' @ [34] @
        cps ''} / node_memory_SwapTotal_bytes{job='' @ [34] @ cps ''<job>'' @ [34] @ cps ''})'')),
      ((cps ''swap_io''), (cps ''rate(node_vmstat_pswpin{job='' @ [34] @ cps ''<job>'' @ [34] @
        cps ''}[5m]) + rate(node_vmstat_pswpout{job='' @ [34] @ cps ''<job>'' @ [34] @ cps ''}[5m])'')),
      ((cps ''temperature''), (cps ''node_thermal_zone_temp{job='' @ [34] @ cps ''<job>'' @ [34] @ cps '',type='' @ [34] @
        cps ''cpu-thermal'' @ [34] @ cps ''}''))]"

definition CONTAINER_EXPRESSIONS :: "(str \<times> str) list" where
  "CONTAINER_EXPRESSIONS =
     [((cps ''last_seen''), (cps ''container_last_seen{job='' @ [34] @ cps ''<job>'' @ [34] @ cps '',name!='' @ [34, 34] @
       cps ''}'')),
      ((cps ''health_state''), (cps ''container_health_state{job='' @ [34] @ cps ''<job>'' @ [34] @ cps '',name!='' @
        [34, 34] @ cps ''}'')),
      ((cps ''oom_events''), (cps ''container_oom_events_total{job='' @ [34] @ cps ''<job>'' @ [34] @ cps '',name!='' @
        [34, 34] @ cps ''}'')),
      ((cps ''created''), (cps ''container_start_time_seconds{job='' @ [34] @ cps ''<job>'' @ [34] @ cps '',name!='' @
        [34, 34] @ cps ''}'')),
      ((cps ''memory_working_set''), (cps ''container_memory_working_set_bytes{job='' @ [34] @ cps ''<job>'' @ [34] @
        cps '',name!='' @ [34, 34] @ cps ''}'')),
      ((cps ''swap''), (cps ''container_memory_swap{job='' @ [34] @ cps ''<job>'' @ [34] @ cps '',name!='' @
        [34, 34] @ cps ''}'')),
      ((cps ''restarts_15m''), (cps ''max by (name) (resets(container_cpu_usage_seconds_total{job='' @ [34] @ cps ''<job>'' @
        [34] @ cps '',name!='' @ [34, 34] @ cps ''}[15m]))'')),
      ((cps ''restarts_24h''), (cps ''max by (name) (resets(container_cpu_usage_seconds_total{job='' @ [34] @ cps ''<job>'' @
        [34] @ cps '',name!='' @ [34, 34] @ cps ''}[24h]))''))]"

definition MOVERS_EXPRESSIONS :: "(str \<times> str) list" where
  "MOVERS_EXPRESSIONS =
     [((cps ''movers_max''), (cps ''max_over_time(container_memory_working_set_bytes{job='' @ [34] @ cps ''<job>'' @ [34] @
       cps '',id=~'' @ [34] @ cps ''/system'' @ [92, 92] @ cps ''.slice/.+'' @ [92, 92] @
       cps ''.service'' @ [34] @ cps ''}['' @ cps ''<window>'' @
       cps '']) or max_over_time(container_memory_working_set_bytes{job='' @ [34] @ cps ''<job>'' @
       [34] @ cps '',name!='' @ [34, 34] @ cps ''}['' @ cps ''<window>'' @ cps ''])'')),
      ((cps ''movers_min''), (cps ''min_over_time(container_memory_working_set_bytes{job='' @ [34] @ cps ''<job>'' @ [34] @
        cps '',id=~'' @ [34] @ cps ''/system'' @ [92, 92] @ cps ''.slice/.+'' @ [92, 92] @
        cps ''.service'' @ [34] @ cps ''}['' @ cps ''<window>'' @
        cps '']) or min_over_time(container_memory_working_set_bytes{job='' @ [34] @ cps ''<job>'' @
        [34] @ cps '',name!='' @ [34, 34] @ cps ''}['' @ cps ''<window>'' @ cps ''])'')),
      ((cps ''movers_series''), (cps ''container_memory_working_set_bytes{job='' @ [34] @ cps ''<job>'' @ [34] @
        cps '',id=~'' @ [34] @ cps ''/system'' @ [92, 92] @ cps ''.slice/.+'' @ [92, 92] @
        cps ''.service'' @ [34] @ cps ''} or container_memory_working_set_bytes{job='' @ [34] @
        cps ''<job>'' @ [34] @ cps '',name!='' @ [34, 34] @ cps ''}''))]"

definition HOST_SERVICE_EXPRESSIONS :: "(str \<times> str) list" where
  "HOST_SERVICE_EXPRESSIONS =
     [((cps ''bad_states''), (cps ''node_systemd_unit_state{job='' @ [34] @ cps ''<job>'' @ [34] @ cps '',state=~'' @ [34] @
       cps ''activating|failed'' @ [34] @ cps ''} == 1'')),
      ((cps ''unit_count''), (cps ''count(node_systemd_unit_state{job='' @ [34] @ cps ''<job>'' @ [34] @ cps ''})''))]"

text \<open>A \<open>restarts\<close> hole for every cadvisor node whose restart signal was not measured.\<close>

definition restart_aspect_holes :: "str list \<Rightarrow> unavailable list" where
  "restart_aspect_holes verified =
     map (\<lambda>(node, job). unavailable.make [(cps ''node'', node)] (Some (cps ''restarts''))
            (cps ''the restart signal on '' @ job @
              cps ('' is not verified against a known restart in the probe record'' @
                '', so no restart count is reported here.'')))
       (filter (\<lambda>(node, job). job \<notin> set verified) CADVISOR_JOBS)"

section \<open>The registry\<close>

definition node_resource_trend_entry :: query_entry where
  "node_resource_trend_entry =
     (blank_entry (cps ''node_resource_trend'') Prometheus)\<lparr>
      qe_summary := (cps ''Is one node'' @ [39] @ cps ''s resource climbing, flat, or recovering?''),
      qe_expressions := NODE_RESOURCE_EXPRESSIONS,
      qe_parameters := [query_parameter.make (cps ''node'') (Some (map fst NODE_EXPORTER_JOBS)) NODE_PARAM_DESCRIPTION [],
      query_parameter.make (cps ''resource'') (Some RESOURCES) (cps ''Which measurement to trend.'') [],
      query_parameter.make (cps ''window'') (Some PROMETHEUS_WINDOWS) WINDOW_PROM_DESCRIPTION []],
      qe_thresholds := [((cps ''disk''), threshold.make 15 (cps ''percent free'') Below (cps ''HenkDiskPressure'') (cps (''scoped to mountpoint=/ and reported as percent free, the rul'' @ ''e'') @ [39] @
        cps ''s own form '' @ [8212] @ cps '' not percent used, and not across all filesystems.'') (Some (cps ''15m'')) None),
      ((cps ''swap_used''), threshold.make 95 (cps ''percent full'') Above (cps ''HenkSwapPressure'') [] (Some (cps ''15m'')) (Some (cps ''fullness''))),
      ((cps ''swap_io''), threshold.make 50 (cps ''pages/s'') Above (cps ''HenkSwapPressure'') [] (Some (cps ''15m'')) (Some (cps ''pressure''))),
      ((cps ''memory''), threshold.make 75 (cps ''percent used'') Above (cps ''High memory usage'') (cps (''delivers to Discord, not to henk-events. The Prometheus-nati'' @
          ''ve rule over the same expression reads 90 and delivers nowhe'' @
          ''re, so 75 is the bar that actually alerts.'')) (Some (cps ''5m'')) None)],
      qe_range_query := True,
      qe_select_by := Some (cps ''resource''),
      qe_job_map := Some NODE_EXPORTER_JOBS,
      qe_single_series := [(cps ''cpu''),
      (cps ''memory''),
      (cps ''disk''),
      (cps ''load''),
      (cps ''swap_used''),
      (cps ''swap_io''),
      (cps ''temperature'')],
      qe_caveats := [(cps (''cpu, load and temperature carry no threshold: no rule define'' @ ''s one in either alerting system.'')),
      (cps ''temperature has no alert in either alerting system '' @ [8212] @
        cps '' rp2 has no active cooling and nothing watches it.'')],
      qe_unavailable := [unavailable.make [((cps ''node''), (cps ''vps'')), ((cps ''resource''), (cps ''temperature''))] None (cps (''the vps node-exporter exposes neither node_thermal_zone_temp'' @
          '' nor node_hwmon_temp_celsius, so there is no temperature ser'' @
          ''ies to trend (measured, backend probe 1.4).''))]\<rparr>"

definition scrape_targets_entry :: query_entry where
  "scrape_targets_entry =
     (blank_entry (cps ''scrape_targets'') Prometheus)\<lparr>
      qe_summary := (cps ''Which exporters are down, since when, and why?''),
      qe_expressions := [((cps ''up''), (cps ''up'')),
      ((cps ''up_over_window''), (cps ''max_over_time(up['' @ SCRAPE_TARGETS_LOOKBACK @ cps ''])''))],
      qe_routes := [((cps ''targets''), (cps ''/api/v1/targets''))],
      qe_lookback := Some SCRAPE_TARGETS_LOOKBACK,
      qe_caveats := [(cps (''A target that was never up inside the window is reported as '' @
          ''down for longer than the window, with no specific duration.'')),
      (cps (''scrapeUrl, globalUrl, instance and __address__ all carry add'' @
          ''resses and are dropped; targets are named by job.''))]\<rparr>"

definition endpoint_history_entry :: query_entry where
  "endpoint_history_entry =
     (blank_entry (cps ''endpoint_history'') Gatus)\<lparr>
      qe_summary := (cps ''One endpoint'' @ [39] @ cps ''s failures, uptime, latency and failing condition.''),
      qe_routes := [((cps ''statuses''), (cps ''/api/v1/endpoints/'' @ cps ''<endpoint>'' @ cps ''/statuses'')),
      ((cps ''uptime''), (cps ''/api/v1/endpoints/'' @ cps ''<endpoint>'' @ cps ''/uptimes/'' @ cps ''<window>''))],
      qe_parameters := [query_parameter.make (cps ''endpoint'') None (cps (''Which Gatus endpoint, by its key. The key set is discovered '' @
          ''from Gatus at first use, so a renamed endpoint becomes query'' @ ''able without a restart.'')) [],
      query_parameter.make (cps ''window'') (Some GATUS_WINDOWS) (cps ''Uptime window. Gatus'' @ [39] @
        cps ''s own vocabulary, which is narrower than Prometheus'' @ [39] @
        cps ''s and shares only 1h and 24h with it.'') []],
      qe_caveats := [(cps (''Gatus stores only about 1.7 hours of individual check result'' @ ''s, so '') @ [39] @
        cps ''since when'' @ [39] @ cps '' comes from the transition events, not the results.''),
      (cps (''Gatus history resets on a config change and is excluded from'' @
          '' backup, so an empty history is routine rather than a fault.''))]\<rparr>"

definition freshness_check_entry :: query_entry where
  "freshness_check_entry =
     (blank_entry (cps ''freshness_check'') Prometheus)\<lparr>
      qe_summary := (cps (''Backup, dump and ETL pipeline ages, from their raw timestamp'' @ ''s.'')),
      qe_expressions := [((cps ''timestamps''), FRESHNESS_SELECTOR)],
      qe_caveats := [(cps ''Each pipeline'' @ [39] @
        cps (''s RAW timestamp is reported beside the derived age: a writer'' @
          '' that dies freezes a raw timestamp so the age keeps growing,'' @
          '' whereas a precomputed age would freeze and hide the failure'' @ ''.''))]\<rparr>"

definition container_state_entry :: query_entry where
  "container_state_entry =
     (blank_entry (cps ''container_state'') Prometheus)\<lparr>
      qe_summary := (cps (''Per-container last-seen, health, OOM events, creation time, '' @
          ''working-set memory, swap and restart counts.'')),
      qe_expressions := CONTAINER_EXPRESSIONS,
      qe_parameters := [query_parameter.make (cps ''node'') (Some CONTAINER_NODES) NODE_PARAM_DESCRIPTION (cps (''rp2 runs no cadvisor: it is in domain and answers as not der'' @ ''ivable, never as an empty container list''))],
      qe_job_map := Some CADVISOR_JOBS,
      qe_named_container_template := (cps ''max(container_last_seen{job='' @ [34] @ cps ''<job>'' @ [34] @ cps '',name='' @ [34] @
        cps ''<container>'' @ [34] @ cps ''}) or vector(0)''),
      qe_caveats := [(cps ''Restarts are counted as resets of the container'' @ [39] @ cps ''s CPU counter. A '' @
        [96] @ cps ''docker restart'' @ [96] @
        cps '' or a restart-policy crash loop keeps the container'' @ [39] @
        cps (''s series and resets its counter. This was measured on rp5 an'' @
          ''d on the vps on 2026-09-23: the count moved within one ~30 s'' @ '' scrape.'')),
      (cps ''A recreate ('' @ [96] @ cps ''compose up'' @ [96] @
        cps ('', a new image) starts a new series and shows up only as a ne'' @
          ''w creation time. Several restarts inside one scrape interval'' @ '' count as one.'')),
      (cps ''container_start_time_seconds is the container'' @ [39] @
        cps (''s CREATION time, not its last start. It does not move on a r'' @ ''estart.'')),
      (cps (''Working set and swap are reported in MiB and carry no bar: n'' @ ''o alert rule defines one.'')),
      (cps (''A container absent from this list may be stopped or removed '' @ ''rather than absent from the host '') @
        [8212] @ cps '' the exporter drops a container'' @ [39] @
        cps ''s series entirely when it stops.''),
      (cps (''Host systemd units are not containers and are not listed her'' @ ''e; '') @ [96] @
        cps ''memory_movers'' @ [96] @ cps '' covers them.'')],
      qe_unavailable := [unavailable.make [((cps ''node''), (cps ''rp2''))] None RP2_NO_CADVISOR,
      unavailable.make [((cps ''node''), (cps ''rp5''))] (Some (cps ''health_state'')) (cps (''container_health_state has no series on cadvisor-pi5 (measur'' @ ''ed, backend probe 1.4).''))] @ restart_aspect_holes RESTART_VERIFIED_JOBS\<rparr>"

definition dns_performance_entry :: query_entry where
  "dns_performance_entry =
     (blank_entry (cps ''dns_performance'') Prometheus)\<lparr>
      qe_summary := (cps ''AdGuard resolution latency against its measured baseline.''),
      qe_expressions := [((cps ''series''), DNS_METRIC),
      ((cps ''node_mapping''), (cps ''up{job=~'' @ [34] @ cps ''node-exporter.*'' @ [34] @ cps ''}''))],
      qe_parameters := [query_parameter.make (cps ''node'') (Some (map fst NODE_EXPORTER_JOBS)) NODE_PARAM_DESCRIPTION [],
      query_parameter.make (cps ''window'') (Some PROMETHEUS_WINDOWS) WINDOW_PROM_DESCRIPTION []],
      qe_thresholds := [((cps ''rp5_warning''), threshold.make 60 (cps ''ms'') Above (cps ''Pi5HighDNSProcessingTime'') [] (Some (cps ''5m'')) None),
      ((cps ''rp5_critical''), threshold.make 150 (cps ''ms'') Above (cps ''Pi5CriticalDNSProcessingTime'') [] (Some (cps ''2m'')) None),
      ((cps ''vps_warning''), threshold.make 80 (cps ''ms'') Above (cps ''VPSHighDNSProcessingTime'') [] (Some (cps ''5m'')) None),
      ((cps ''vps_critical''), threshold.make 200 (cps ''ms'') Above (cps ''VPSCriticalDNSProcessingTime'') [] (Some (cps ''2m'')) None),
      ((cps ''rp2_warning''), threshold.make 200 (cps ''ms'') Above (cps ''Pi2HighDNSProcessingTime'') [] (Some (cps ''5m'')) None),
      ((cps ''rp2_critical''), threshold.make 500 (cps ''ms'') Above (cps ''Pi2CriticalDNSProcessingTime'') [] (Some (cps ''2m'')) None),
      ((cps ''fleet_critical''), threshold.make 300 (cps ''ms'') Above (cps ''DNSProcessingTimeCritical'') (cps ''fleet-wide rule, unselected: it applies to every device.'') (Some (cps ''10m'')) None)],
      qe_baselines := [((cps ''rp5''), (12 / 5)),
      ((cps ''vps''), (137 / 50)),
      ((cps ''rp2''), (1868 / 25))],
      qe_range_query := True,
      qe_range_roles := Some [(cps ''series'')],
      qe_derives_node_mapping := True,
      qe_caveats := [(cps ''This metric is AdGuard'' @ [39] @
        cps (''s own rolling average over its internal stats period, not an'' @
          '' instantaneous latency: over 15m or 1h it barely moves, so a'' @ '' flat summary is the metric'') @
        [39] @ cps ''s nature rather than a broken query.'')]\<rparr>"

definition memory_movers_entry :: query_entry where
  "memory_movers_entry =
     (blank_entry (cps ''memory_movers'') Prometheus)\<lparr>
      qe_summary := (cps ''Which cgroups'' @ [39] @
        cps ('' working-set memory moved most in the window, host systemd u'' @
          ''nits and containers ranked together, each with its peak and '' @ ''the time of the peak.'')),
      qe_expressions := MOVERS_EXPRESSIONS,
      qe_parameters := [query_parameter.make (cps ''node'') (Some MOVERS_NODES) NODE_PARAM_DESCRIPTION (cps (''rp2 runs no cadvisor: it is in domain and answers as not der'' @ ''ivable, never as an empty ranking'')),
      query_parameter.make (cps ''window'') (Some PROMETHEUS_WINDOWS) WINDOW_PROM_DESCRIPTION []],
      qe_job_map := Some CADVISOR_JOBS,
      qe_range_query := True,
      qe_range_roles := Some [(cps ''movers_series'')],
      qe_caveats := [(cps (''Working set includes active page cache, which is what memory'' @
          '' pressure tracks: a burst of file reads shows up here as wor'' @ ''king set.'')),
      (cps (''A unit or container that did not exist for the whole window '' @
          ''moved from absent: its movement is measured over the samples'' @ '' it has, not from zero.'')),
      (cps (''A stopped container has no series: the exporter drops it, so'' @
          '' a container that stopped before the window began is not ran'' @ ''ked at all.'')),
      (cps ''No bar: no alert rule defines a threshold for one cgroup'' @ [39] @
        cps ''s memory, so this is a ranking, not a comparison.'')],
      qe_unavailable := [unavailable.make [((cps ''node''), (cps ''rp2''))] None RP2_NO_CADVISOR]\<rparr>"

definition host_service_state_entry :: query_entry where
  "host_service_state_entry =
     (blank_entry (cps ''host_service_state'') Prometheus)\<lparr>
      qe_summary := (cps (''Which host systemd units were failed or activating in the wi'' @
          ''ndow, with the share of samples in that state, and how many '' @
          ''unit-state series the collector reported.'')),
      qe_expressions := HOST_SERVICE_EXPRESSIONS,
      qe_parameters := [query_parameter.make (cps ''node'') (Some HOST_SERVICE_NODES) NODE_PARAM_DESCRIPTION (cps (''only the vps node-exporter runs the systemd collector; rp5 a'' @
          ''nd rp2 are in domain and answer as not derivable'')),
      query_parameter.make (cps ''window'') (Some PROMETHEUS_WINDOWS) WINDOW_PROM_DESCRIPTION []],
      qe_job_map := Some NODE_EXPORTER_JOBS,
      qe_range_query := True,
      qe_range_roles := Some [(cps ''bad_states'')],
      qe_caveats := [(cps ''Unit state is node-exporter'' @ [39] @
        cps ''s systemd collector reading, a measurement: no alert rule'' @ [39] @
        cps ''s state is read.''),
      (cps ''Samples are the range query'' @ [39] @
        cps (''s points, one per step: a state that began and ended between'' @ '' two points is not seen.'')),
      (cps ''The collector'' @ [39] @
        cps (''s count is of unit-state series: node-exporter exports each '' @
          ''unit once per state, so it proves the collector ran and is n'' @ ''ot a count of units.''))],
      qe_unavailable := [unavailable.make [((cps ''node''), (cps ''rp5''))] None NO_SYSTEMD_COLLECTOR,
      unavailable.make [((cps ''node''), (cps ''rp2''))] None NO_SYSTEMD_COLLECTOR]\<rparr>"

definition QUERY_REGISTRY :: "(str \<times> query_entry) list" where
  "QUERY_REGISTRY =
     map (\<lambda>e. (qe_name e, e))
       [node_resource_trend_entry, scrape_targets_entry, endpoint_history_entry, freshness_check_entry, container_state_entry, dns_performance_entry, memory_movers_entry, host_service_state_entry]"

definition QUERY_NAMES :: "str list" where
  "QUERY_NAMES = sort (map fst QUERY_REGISTRY)"

definition domain_for :: "str \<Rightarrow> str \<Rightarrow> str list option option" where
  "domain_for query_name parameter =
     (case map_of QUERY_REGISTRY query_name of
        None \<Rightarrow> None
      | Some e \<Rightarrow> map_option qp_domain (entry_parameter e parameter))"

section \<open>Range windows\<close>

text \<open>
  \<open>None\<close> where the code raises: fewer than two points, or a window it does not know. The code
  rounds a float quotient up; the spans are below \<open>2 ^ 22\<close>, so none is rounded onto a whole number
  it does not equal, and the integer division here gives the same step.
\<close>

definition range_step_seconds :: "str \<Rightarrow> int \<Rightarrow> int option" where
  "range_step_seconds window max_points =
     (if max_points < 2 then None
      else map_option (\<lambda>width. max 1 ((int width + max_points - 2) div (max_points - 1))) (map_of WINDOW_SECONDS window))"

record range_span =
  range_start :: secs
  range_end :: secs
  range_step :: int

definition range_points :: "range_span \<Rightarrow> int" where
  "range_points w = \<lfloor>(range_end w - range_start w) / of_int (range_step w)\<rfloor> + 1"

definition last_point :: "range_span \<Rightarrow> secs" where
  "last_point w = range_start w + of_int (\<lfloor>(range_end w - range_start w) / of_int (range_step w)\<rfloor> * range_step w)"

definition range_window :: "str \<Rightarrow> secs \<Rightarrow> int \<Rightarrow> range_span option" where
  "range_window window end max_points =
     (case (map_of WINDOW_SECONDS window, range_step_seconds window max_points) of
        (Some width, Some step) \<Rightarrow> Some \<lparr>range_start = end - real width, range_end = end, range_step = step\<rparr>
      | _ \<Rightarrow> None)"

definition expected_point_count :: "str \<Rightarrow> int \<Rightarrow> int option" where
  "expected_point_count window max_points =
     (case (map_of WINDOW_SECONDS window, range_step_seconds window max_points) of
        (Some width, Some step) \<Rightarrow> Some (int width div step + 1)
      | _ \<Rightarrow> None)"

section \<open>Templates\<close>

text \<open>\<open>str.replace\<close> of a nonempty text.\<close>

function (sequential) replace_all :: "str \<Rightarrow> str \<Rightarrow> str \<Rightarrow> str" where
  "replace_all needle new [] = []"
| "replace_all needle new (c # cs) =
     (if needle \<noteq> [] \<and> prefix needle (c # cs) then new @ replace_all needle new (drop (length needle) (c # cs))
      else c # replace_all needle new cs)"
  by pat_completeness auto
termination by (relation "measure (\<lambda>(_, _, s). length s)") (auto simp: Suc_le_eq)

definition utf8_bytes :: "nat \<Rightarrow> nat list" where
  "utf8_bytes c =
     (if c < 128 then [c]
      else if c < 2048 then [192 + c div 64, 128 + c mod 64]
      else if c < 65536 then [224 + c div 4096, 128 + c div 64 mod 64, 128 + c mod 64]
      else [240 + c div 262144, 128 + c div 4096 mod 64, 128 + c div 64 mod 64, 128 + c mod 64])"

definition unreserved :: "nat \<Rightarrow> bool" where
  "unreserved c \<longleftrightarrow> latin_letter c \<or> latin_digit c \<or> c \<in> {95, 46, 45, 126}"

definition hex_digit :: "nat \<Rightarrow> nat" where
  "hex_digit n = (if n < 10 then 48 + n else 55 + n)"

text \<open>\<open>quote(s, safe="")\<close>; \<open>None\<close> where the text does not encode.\<close>

definition quote :: "str \<Rightarrow> str option" where
  "quote s =
     (if encodable s
      then Some (concat (map (\<lambda>b. if unreserved b then [b] else [37, hex_digit (b div 16), hex_digit (b mod 16)]) (concat (map utf8_bytes s))))
      else None)"

datatype query_refusal =
    Unknown_Query json
  | Unaccepted str "str list" "str list"       \<comment> \<open>the query, the unknown arguments, the accepted ones\<close>
  | Missing str "str list"
  | Undiscovered str str
  | Outside str query_parameter json "str list"
  | Unfilled str
  | Not_A_Container str
  | Underivable str                            \<comment> \<open>in domain with nothing to read: its statement\<close>

text \<open>A call is refused, or ends in an exception of another kind.\<close>

datatype query_error = Refuses query_refusal | Raises

definition fill_one :: "bool \<Rightarrow> str \<times> str \<Rightarrow> query_error + str \<Rightarrow> query_error + str" where
  "fill_one encode nv filled =
     (case filled of
        Inl e \<Rightarrow> Inl e
      | Inr t \<Rightarrow>
          (case if encode then quote (snd nv) else Some (snd nv) of
             None \<Rightarrow> Inl Raises
           | Some v \<Rightarrow> Inr (replace_all ([60] @ fst nv @ [62]) v t)))"

definition fill_template :: "bool \<Rightarrow> (str \<times> str) list \<Rightarrow> str \<Rightarrow> query_error + str" where
  "fill_template encode vals t =
     (case fold (fill_one encode) vals (Inr t) of
        Inl e \<Rightarrow> Inl e
      | Inr filled \<Rightarrow> if 60 \<in> set filled \<and> 62 \<in> set filled then Inl (Refuses (Unfilled t)) else Inr filled)"

fun fill_roles :: "bool \<Rightarrow> (str \<times> str) list \<Rightarrow> (str \<times> str) list \<Rightarrow> query_error + (str \<times> str) list" where
  "fill_roles encode vals [] = Inr []"
| "fill_roles encode vals ((role, t) # rest) =
     (case fill_template encode vals t of
        Inl e \<Rightarrow> Inl e
      | Inr filled \<Rightarrow>
          (case fill_roles encode vals rest of Inl e \<Rightarrow> Inl e | Inr others \<Rightarrow> Inr ((role, filled) # others)))"

section \<open>Planning\<close>

record query_plan =
  pl_entry :: query_entry
  pl_arguments :: "(str \<times> str) list"
  pl_outcome :: query_outcome
  pl_expressions :: "(str \<times> str) list"
  pl_routes :: "(str \<times> str) list"
  pl_caveats :: "str list"
  pl_message :: str
  pl_window :: "str option"
  pl_aspects :: "(str \<times> str) list"
  pl_range :: "range_span option"

text \<open>The arguments and the discovered domains are dicts: no key occurs twice.\<close>

definition parameter_domain :: "(str \<times> str list) list \<Rightarrow> query_parameter \<Rightarrow> str list option" where
  "parameter_domain discovered p = (case qp_domain p of Some d \<Rightarrow> Some d | None \<Rightarrow> map_of discovered (qp_name p))"

fun check_arguments ::
    "query_entry \<Rightarrow> (str \<times> str list) list \<Rightarrow> json_obj \<Rightarrow> query_parameter list \<Rightarrow> query_error + (str \<times> str) list" where
  "check_arguments e discovered args [] = Inr []"
| "check_arguments e discovered args (p # ps) =
     (case parameter_domain discovered p of
        None \<Rightarrow> Inl (Refuses (Undiscovered (qe_name e) (qp_name p)))
      | Some d \<Rightarrow>
          (case jget args (qp_name p) of
             J_Str v \<Rightarrow>
               if v \<in> set d
               then (case check_arguments e discovered args ps of Inl x \<Rightarrow> Inl x | Inr others \<Rightarrow> Inr ((qp_name p, v) # others))
               else Inl (Refuses (Outside (qe_name e) p (J_Str v) d))
           | v \<Rightarrow> Inl (Refuses (Outside (qe_name e) p v d))))"

definition hole_matches :: "(str \<times> str) list \<Rightarrow> unavailable \<Rightarrow> bool" where
  "hole_matches vals h \<longleftrightarrow> list_all (\<lambda>(k, v). map_of vals k = Some v) (hole_parameters h)"

definition not_derivable_message :: "query_entry \<Rightarrow> unavailable \<Rightarrow> str" where
  "not_derivable_message e h =
     (qe_name e @ cps '' for '' @
       join [44, 32] (map (\<lambda>(k, v). k @ [61] @ v) (hole_parameters h)) @
       cps '' is inside this query'' @ [39] @ cps ''s domain but cannot be derived: '' @
       hole_reason h @
       cps ('' This is not an empty measurement and not a rejected argumen'' @ ''t '') @ [8212] @
       cps '' there is no series to read.'')"

text \<open>The holes in turn: a whole one ends the scan, one of a single aspect is noted.\<close>

fun scan_holes ::
    "(str \<times> str) list \<Rightarrow> unavailable list \<Rightarrow> str list \<Rightarrow> (str \<times> str) list \<Rightarrow> (unavailable \<times> str list) + (str list \<times> (str \<times> str) list)" where
  "scan_holes vals [] caveats aspects = Inr (caveats, aspects)"
| "scan_holes vals (h # hs) caveats aspects =
     (if \<not> hole_matches vals h then scan_holes vals hs caveats aspects
      else case hole_aspect h of
          None \<Rightarrow> Inl (h, caveats)
        | Some a \<Rightarrow>
            scan_holes vals hs (caveats @ [(a @ cps '' is unavailable here: '' @ hole_reason h)])
              (AList.update a (hole_reason h) aspects))"

definition selected_roles :: "query_entry \<Rightarrow> (str \<times> str) list \<Rightarrow> (str \<times> str) list option" where
  "selected_roles e vals =
     (case qe_select_by e of
        None \<Rightarrow> Some (qe_expressions e)
      | Some by \<Rightarrow>
          (case map_of vals by of
             None \<Rightarrow> None
           | Some v \<Rightarrow> map_option (\<lambda>t. [(v, t)]) (map_of (qe_expressions e) v)))"

text \<open>\<open>entry.job_map.get(values["node"])\<close>: the outer \<open>None\<close> is a missing node.\<close>

definition job_field :: "query_entry \<Rightarrow> (str \<times> str) list \<Rightarrow> (str \<times> str) list option" where
  "job_field e vals =
     (case qe_job_map e of
        None \<Rightarrow> Some []
      | Some jobs \<Rightarrow>
          if jobs = [] then Some []
          else (case map_of vals (cps ''node'') of
              None \<Rightarrow> None
            | Some node \<Rightarrow>
                Some (case map_of jobs node of None \<Rightarrow> [] | Some job \<Rightarrow> if job = [] then [] else [(cps ''job'', job)])))"

definition plan_answered ::
    "query_entry \<Rightarrow> (str \<times> str) list \<Rightarrow> str list \<Rightarrow> (str \<times> str) list \<Rightarrow> query_error + query_plan" where
  "plan_answered e vals caveats aspects =
     (case (job_field e vals, selected_roles e vals) of
        (Some job, Some roles) \<Rightarrow>
          (case fill_roles False (vals @ job) roles of
             Inl x \<Rightarrow> Inl x
           | Inr expressions \<Rightarrow>
               (case fill_roles True (vals @ job) (qe_routes e) of
                  Inl x \<Rightarrow> Inl x
                | Inr routes \<Rightarrow>
                    Inr \<lparr>pl_entry = e, pl_arguments = vals, pl_outcome = Answered, pl_expressions = expressions,
                         pl_routes = routes, pl_caveats = caveats, pl_message = [],
                         pl_window = map_of vals (cps ''window''), pl_aspects = aspects, pl_range = None\<rparr>))
      | _ \<Rightarrow> Inl Raises)"

definition plan_entry :: "query_entry \<Rightarrow> json_obj \<Rightarrow> (str \<times> str list) list \<Rightarrow> query_error + query_plan" where
  "plan_entry e args discovered =
     (let declared = map qp_name (qe_parameters e);
          unknown = sort (filter (\<lambda>k. k \<notin> set declared) (map fst args));
          missing = sort (filter (\<lambda>k. k \<notin> fst ` set args) declared)
      in if unknown \<noteq> [] then Inl (Refuses (Unaccepted (qe_name e) unknown (sort declared)))
         else if missing \<noteq> [] then Inl (Refuses (Missing (qe_name e) missing))
         else (case check_arguments e discovered args (qe_parameters e) of
             Inl x \<Rightarrow> Inl x
           | Inr vals \<Rightarrow>
               (case scan_holes vals (qe_unavailable e) (qe_caveats e) [] of
                  Inl (h, caveats) \<Rightarrow>
                    Inr \<lparr>pl_entry = e, pl_arguments = vals, pl_outcome = Not_Derivable, pl_expressions = [], pl_routes = [],
                         pl_caveats = caveats, pl_message = not_derivable_message e h,
                         pl_window = map_of vals (cps ''window''), pl_aspects = [], pl_range = None\<rparr>
                | Inr (caveats, aspects) \<Rightarrow> plan_answered e vals caveats aspects)))"

text \<open>
  The name is whatever the model supplied: a list or an object is not hashable, so looking it up
  raises, and a name that is not a string is not in the registry.
\<close>

definition plan_query :: "json \<Rightarrow> json_obj \<Rightarrow> (str \<times> str list) list \<Rightarrow> query_error + query_plan" where
  "plan_query query_name args discovered =
     (case query_name of
        J_List _ \<Rightarrow> Inl Raises
      | J_Obj _ \<Rightarrow> Inl Raises
      | J_Str name \<Rightarrow>
          (case map_of QUERY_REGISTRY name of
             None \<Rightarrow> Inl (Refuses (Unknown_Query (J_Str name)))
           | Some e \<Rightarrow> plan_entry e args discovered)
      | v \<Rightarrow> Inl (Refuses (Unknown_Query v)))"

definition with_range_end :: "query_plan \<Rightarrow> secs \<Rightarrow> int \<Rightarrow> query_plan option" where
  "with_range_end p end max_points =
     (case pl_window p of
        Some w \<Rightarrow>
          if qe_range_query (pl_entry p) then map_option (\<lambda>r. p\<lparr>pl_range := Some r\<rparr>) (range_window w end max_points) else Some p
      | None \<Rightarrow> Some p)"

definition named_container_expression :: "json \<Rightarrow> str \<Rightarrow> str list \<Rightarrow> query_error + str" where
  "named_container_expression node container known =
     (case plan_query (J_Str (cps ''container_state'')) [(cps ''node'', node)] [] of
        Inl x \<Rightarrow> Inl x
      | Inr p \<Rightarrow>
          if pl_outcome p = Not_Derivable then Inl (Refuses (Underivable (pl_message p)))
          else (case node of
              J_Str n \<Rightarrow>
                (case map_of CADVISOR_JOBS n of
                   None \<Rightarrow> Inl Raises
                 | Some job \<Rightarrow>
                     if container \<notin> set known then Inl (Refuses (Not_A_Container container))
                     else fill_template False [(cps ''job'', job), (cps ''container'', container)]
                            (qe_named_container_template container_state_entry))
            | _ \<Rightarrow> Inl Raises))"

end
