(* ===== verification/Query_Properties.thy ===== *)
theory Query_Properties
  imports Query_Registry Config_Properties
begin

text \<open>
  What the registry and its planner guarantee: a planned request is one of a fixed list of
  expressions or a route with one discovered key in one segment, a range request stays in its
  budget of points, and a name is only ever resolved to a discovered key.
\<close>

section \<open>Filling a template\<close>

lemma replace_all_none: "\<not> contains needle t \<Longrightarrow> replace_all needle new t = t"
  by (induction needle new t rule: replace_all.induct) auto

lemma replace_all_skip: "c \<notin> set xs \<Longrightarrow> replace_all (c # n) new (xs @ ys) = xs @ replace_all (c # n) new ys"
  by (induction xs) auto

definition filled_with :: "(str \<times> str) list \<Rightarrow> str \<Rightarrow> str" where
  "filled_with vals t = fold (\<lambda>(n, v). replace_all ([60] @ n @ [62]) v) vals t"

lemma fold_fill_error: "fold (fill_one enc) vals (Inl x) = Inl x"
  by (induction vals) (simp_all add: fill_one_def)

lemma fold_fill_plain: "fold (fill_one False) vals (Inr t) = Inr (filled_with vals t)"
  by (induction vals arbitrary: t) (auto simp: fill_one_def filled_with_def split: prod.splits)

lemma fold_fill_quoted:
  "fold (fill_one True) vals (Inr t) = Inr x \<Longrightarrow>
     list_all (\<lambda>nv. quote (snd nv) \<noteq> None) vals \<and> x = filled_with (map (\<lambda>(n, v). (n, the (quote v))) vals) t"
  by (induction vals arbitrary: t)
    (auto simp: fill_one_def filled_with_def fold_fill_error split: prod.splits option.splits)

lemma fill_roles_in:
  "fill_roles enc vals roles = Inr out \<Longrightarrow> (r, x) \<in> set out \<Longrightarrow>
     \<exists>t. (r, t) \<in> set roles \<and> fill_template enc vals t = Inr x"
  by (induction enc vals roles arbitrary: out rule: fill_roles.induct) (fastforce split: sum.splits)+

lemma fill_plain: "fill_template False vals t = Inr x \<Longrightarrow> x = filled_with vals t"
  by (auto simp: fill_template_def fold_fill_plain split: if_splits)

lemma fill_quoted:
  "fill_template True vals t = Inr x \<Longrightarrow>
     list_all (\<lambda>nv. quote (snd nv) \<noteq> None) vals \<and> x = filled_with (map (\<lambda>(n, v). (n, the (quote v))) vals) t"
  by (auto simp: fill_template_def dest!: fold_fill_quoted split: sum.splits if_splits)

section \<open>Percent-encoding\<close>

definition path_safe :: "str \<Rightarrow> bool" where
  "path_safe s \<longleftrightarrow> list_all (\<lambda>c. unreserved c \<or> c = 37) s"

lemma utf8_byte_small: "c < 1114112 \<Longrightarrow> b \<in> set (utf8_bytes c) \<Longrightarrow> b < 256"
  by (auto simp: utf8_bytes_def split: if_splits)

lemma hex_digit_safe: "n < 16 \<Longrightarrow> unreserved (hex_digit n)"
  by (auto simp: unreserved_def hex_digit_def latin_letter_def latin_digit_def)

definition valid_str :: "str \<Rightarrow> bool" where
  "valid_str s \<longleftrightarrow> list_all (\<lambda>c. c < 1114112) s"

lemma quote_safe: "valid_str s \<Longrightarrow> quote s = Some q \<Longrightarrow> path_safe q"
proof -
  assume s: "valid_str s" and q: "quote s = Some q"
  have "unreserved (hex_digit (b div 16)) \<and> unreserved (hex_digit (b mod 16))" if "c \<in> set s" "b \<in> set (utf8_bytes c)" for b c
  proof -
    have "b < 256" using s that utf8_byte_small by (auto simp: valid_str_def list_all_iff)
    then have "b div 16 < 16" by simp
    then show ?thesis using hex_digit_safe by simp
  qed
  with q show "path_safe q" by (auto simp: quote_def path_safe_def list_all_iff split: if_splits)
qed

section \<open>Arguments\<close>

lemma check_arguments_values:
  "check_arguments e disc args ps = Inr vals \<Longrightarrow>
     map fst vals = map qp_name ps \<and>
     (\<forall>(n, v) \<in> set vals. \<exists>p \<in> set ps. qp_name p = n \<and> (\<exists>d. parameter_domain disc p = Some d \<and> v \<in> set d))"
proof (induction ps arbitrary: vals)
  case (Cons p ps)
  then obtain v others d where "vals = (qp_name p, v) # others" "parameter_domain disc p = Some d" "v \<in> set d"
      "check_arguments e disc args ps = Inr others"
    by (auto split: option.splits json.splits if_splits sum.splits)
  with Cons.IH show ?case by fastforce
qed simp

lemma scan_holes_open:
  "scan_holes vals hs cs as = Inr r \<Longrightarrow> h \<in> set hs \<Longrightarrow> hole_aspect h = None \<Longrightarrow> \<not> hole_matches vals h"
  by (induction vals hs cs as rule: scan_holes.induct) (auto split: if_splits option.splits)

section \<open>What the registry may ask\<close>

text \<open>
  The expressions the entries can issue: every template with the node's job and the window filled
  in, from the entry's own jobs and the fixed windows.
\<close>

definition jobs_of :: "query_entry \<Rightarrow> str list" where
  "jobs_of e = (case qe_job_map e of None \<Rightarrow> [[]] | Some m \<Rightarrow> map snd m)"

definition entry_expressions :: "query_entry \<Rightarrow> str list" where
  "entry_expressions e =
     concat (map (\<lambda>(role, t). concat (map (\<lambda>j. map (\<lambda>w. replace_all (cps ''<job>'') j (replace_all (cps ''<window>'') w t))
       PROMETHEUS_WINDOWS) (jobs_of e))) (qe_expressions e))"

text \<open>What is checked of an entry once, by evaluation.\<close>

definition node_name :: str where "node_name = cps ''node''"
definition resource_name :: str where "resource_name = cps ''resource''"
definition window_name :: str where "window_name = cps ''window''"
definition endpoint_name :: str where "endpoint_name = cps ''endpoint''"

fun after_lt :: "str \<Rightarrow> str list" where
  "after_lt [] = []"
| "after_lt (c # cs) = (if c = 60 then cs # after_lt cs else after_lt cs)"

definition template_ok :: "query_entry \<Rightarrow> str \<Rightarrow> bool" where
  "template_ok e t \<longleftrightarrow>
     list_all (\<lambda>s. qe_job_map e \<noteq> None \<and>
         (prefix (cps ''job>'') s \<or> (window_name \<in> set (map qp_name (qe_parameters e)) \<and> prefix (cps ''window>'') s))) (after_lt t)"

definition node_ok :: "query_entry \<Rightarrow> query_parameter \<Rightarrow> bool" where
  "node_ok e p \<longleftrightarrow>
     (case (qe_job_map e, qp_domain p) of
        (Some m, Some d) \<Rightarrow>
          list_all (\<lambda>n. (case map_of m n of Some j \<Rightarrow> j \<noteq> []
              | None \<Rightarrow> list_ex (\<lambda>h. hole_parameters h = [(node_name, n)] \<and> hole_aspect h = None) (qe_unavailable e))) d
      | (Some _, None) \<Rightarrow> False
      | _ \<Rightarrow> True)"

definition entry_ok :: "query_entry \<Rightarrow> bool" where
  "entry_ok e \<longleftrightarrow>
     map qp_name (qe_parameters e) \<in>
       {[], [node_name], [node_name, window_name], [node_name, resource_name, window_name], [endpoint_name, window_name]} \<and>
     (qe_job_map e \<noteq> None \<longrightarrow> node_name \<in> set (map qp_name (qe_parameters e))) \<and>
     list_all (\<lambda>p. (qp_name p = window_name \<longrightarrow> qe_expressions e \<noteq> [] \<longrightarrow> qp_domain p = Some PROMETHEUS_WINDOWS) \<and>
                   (qp_name p = node_name \<longrightarrow> node_ok e p)) (qe_parameters e) \<and>
     list_all (\<lambda>(r, t). template_ok e t) (qe_expressions e)"


lemmas names_def = node_name_def resource_name_def window_name_def endpoint_name_def

lemma after_lt_plain: "60 \<notin> set xs \<Longrightarrow> after_lt (xs @ ys) = after_lt ys"
  by (induction xs) auto

lemma after_lt_none: "60 \<notin> set xs \<Longrightarrow> after_lt xs = []"
  by (induction xs) auto

lemma cps_append: "cps (a @ b) = cps a @ cps b"
  by (simp add: cps_def)

lemma cps_empty: "cps s = [] \<longleftrightarrow> s = []"
  by (simp add: cps_def)

lemma after_lt_hole:
  "after_lt (cps ''<job>'' @ ys) = (cps ''job>'' @ ys) # after_lt ys"
  "after_lt (cps ''<window>'' @ ys) = (cps ''window>'' @ ys) # after_lt ys"
  by (simp_all add: cps_def)

lemma lt_in_cps: "60 \<in> set (cps s) \<longleftrightarrow> CHR ''<'' \<in> set s"
proof -
  have "60 \<in> set (cps s) \<longleftrightarrow> of_char (CHR ''<'') \<in> (of_char :: char \<Rightarrow> nat) ` set s" by (simp add: cps_def)
  also have "\<dots> \<longleftrightarrow> CHR ''<'' \<in> set s" by (rule inj_image_mem_iff [OF inj_of_char])
  finally show ?thesis .
qed

lemmas after_lt_text = after_lt_hole after_lt_plain after_lt_none append_assoc cps_append lt_in_cps

lemmas entry_parts = blank_entry_def query_entry.simps query_parameter.defs query_parameter.simps unavailable.defs unavailable.simps

lemma entries_ok:
  "entry_ok node_resource_trend_entry" "entry_ok scrape_targets_entry" "entry_ok endpoint_history_entry"
  "entry_ok freshness_check_entry" "entry_ok container_state_entry" "entry_ok dns_performance_entry"
  "entry_ok memory_movers_entry" "entry_ok host_service_state_entry"
  subgoal
    by (simp only: entry_ok_def node_resource_trend_entry_def entry_parts names_def)
      (simp add: node_ok_def NODE_EXPORTER_JOBS_def names_def entry_parts template_ok_def after_lt_text cps_empty NODE_RESOURCE_EXPRESSIONS_def)
  subgoal
    by (simp only: entry_ok_def scrape_targets_entry_def entry_parts names_def)
      (simp add: template_ok_def after_lt_text SCRAPE_TARGETS_LOOKBACK_def)
  subgoal
    by (simp only: entry_ok_def endpoint_history_entry_def entry_parts names_def) simp
  subgoal
    by (simp only: entry_ok_def freshness_check_entry_def entry_parts names_def)
      (simp add: template_ok_def after_lt_text FRESHNESS_SELECTOR_def FRESHNESS_TIMESTAMP_METRICS_def)
  subgoal
    by (simp only: entry_ok_def container_state_entry_def entry_parts names_def)
      (simp add: node_ok_def CADVISOR_JOBS_def CONTAINER_NODES_def names_def entry_parts template_ok_def after_lt_text cps_empty CONTAINER_EXPRESSIONS_def)
  subgoal
    by (simp only: entry_ok_def dns_performance_entry_def entry_parts names_def)
      (simp add: node_ok_def NODE_EXPORTER_JOBS_def names_def entry_parts template_ok_def after_lt_text cps_empty DNS_METRIC_def)
  subgoal
    by (simp only: entry_ok_def memory_movers_entry_def entry_parts names_def)
      (simp add: node_ok_def CADVISOR_JOBS_def MOVERS_NODES_def names_def entry_parts template_ok_def after_lt_text cps_empty MOVERS_EXPRESSIONS_def)
  subgoal
    by (simp only: entry_ok_def host_service_state_entry_def entry_parts names_def)
      (simp add: node_ok_def NODE_EXPORTER_JOBS_def HOST_SERVICE_NODES_def names_def entry_parts template_ok_def after_lt_text cps_empty HOST_SERVICE_EXPRESSIONS_def)
  done

lemma registry_entry_ok: "map_of QUERY_REGISTRY name = Some e \<Longrightarrow> entry_ok e"
  using entries_ok by (auto simp: QUERY_REGISTRY_def split: if_splits)

lemma after_lt_contains: "contains (60 # n) t \<Longrightarrow> \<exists>s \<in> set (after_lt t). prefix n s"
  by (induction t) auto

lemma template_lacks:
  assumes "template_ok e t"
  shows "\<not> contains (cps ''<node>'') t" "\<not> contains (cps ''<resource>'') t" "\<not> contains (cps ''<endpoint>'') t"
    "window_name \<notin> set (map qp_name (qe_parameters e)) \<Longrightarrow> \<not> contains (cps ''<window>'') t"
    "qe_job_map e = None \<Longrightarrow> \<not> contains (60 # n) t"
  using assms after_lt_contains
  by (auto simp: template_ok_def list_all_iff cps_def prefix_def dest!: after_lt_contains)

text \<open>The values a call leads to: one of five shapes, the node's job or a hole in its place.\<close>

lemma values_shape:
  assumes "entry_ok e" and "check_arguments e disc args (qe_parameters e) = Inr vals"
  obtains "vals = []" "qe_parameters e = []"
  | n where "vals = [(node_name, n)]" "map qp_name (qe_parameters e) = [node_name]"
  | n w where "vals = [(node_name, n), (window_name, w)]" "map qp_name (qe_parameters e) = [node_name, window_name]"
  | n r w where "vals = [(node_name, n), (resource_name, r), (window_name, w)]"
      "map qp_name (qe_parameters e) = [node_name, resource_name, window_name]"
  | k w where "vals = [(endpoint_name, k), (window_name, w)]" "map qp_name (qe_parameters e) = [endpoint_name, window_name]"
proof -
  have "map fst vals = map qp_name (qe_parameters e)" using check_arguments_values [OF assms(2)] by blast
  moreover have "map qp_name (qe_parameters e) \<in>
      {[], [node_name], [node_name, window_name], [node_name, resource_name, window_name], [endpoint_name, window_name]}"
    using assms(1) by (simp add: entry_ok_def)
  ultimately show ?thesis using that by (auto simp: map_eq_Cons_conv)
qed

lemma node_job:
  assumes "entry_ok e" and "check_arguments e disc args (qe_parameters e) = Inr vals"
    and "scan_holes vals (qe_unavailable e) cs as = Inr h" and "qe_job_map e = Some m"
    and "map_of vals node_name = Some n"
  shows "\<exists>j. map_of m n = Some j \<and> j \<noteq> []"
proof -
  have "(node_name, n) \<in> set vals" using assms(5) by (rule map_of_SomeD)
  with check_arguments_values [OF assms(2)] obtain p d where p: "p \<in> set (qe_parameters e)" "qp_name p = node_name"
      and d: "parameter_domain disc p = Some d" "n \<in> set d"
    by fastforce
  have ok: "node_ok e p" using assms(1) p by (auto simp: entry_ok_def list_all_iff)
  then obtain d' where "qp_domain p = Some d'" using assms(4) by (auto simp: node_ok_def split: option.splits)
  with d ok assms(4) have "(\<exists>j. map_of m n = Some j \<and> j \<noteq> []) \<or>
      (\<exists>h \<in> set (qe_unavailable e). hole_parameters h = [(node_name, n)] \<and> hole_aspect h = None)"
    by (auto simp: node_ok_def parameter_domain_def list_all_iff list_ex_iff split: option.splits)
  moreover have "\<not> (hole_parameters h' = [(node_name, n)] \<and> hole_aspect h' = None)" if "h' \<in> set (qe_unavailable e)" for h'
    using scan_holes_open [OF assms(3) that] assms(5) by (cases "hole_aspect h'") (auto simp: hole_matches_def)
  ultimately show ?thesis by blast
qed

lemma window_value:
  assumes "entry_ok e" and "check_arguments e disc args (qe_parameters e) = Inr vals" and "qe_expressions e \<noteq> []"
    and "(window_name, w) \<in> set vals"
  shows "w \<in> set PROMETHEUS_WINDOWS"
proof -
  from check_arguments_values [OF assms(2)] assms(4) obtain p d where "p \<in> set (qe_parameters e)" "qp_name p = window_name"
      "parameter_domain disc p = Some d" "w \<in> set d"
    by fastforce
  with assms(1,3) show ?thesis by (auto simp: entry_ok_def list_all_iff parameter_domain_def)
qed

lemma placeholder_texts:
  "[60] @ node_name @ [62] = cps ''<node>''" "[60] @ resource_name @ [62] = cps ''<resource>''"
  "[60] @ window_name @ [62] = cps ''<window>''" "[60] @ endpoint_name @ [62] = cps ''<endpoint>''"
  "[60] @ cps ''job'' @ [62] = cps ''<job>''"
  by (simp_all add: names_def cps_def)

lemma names_apart:
  "node_name \<noteq> window_name" "node_name \<noteq> resource_name" "resource_name \<noteq> window_name" "endpoint_name \<noteq> window_name"
  "node_name \<noteq> endpoint_name" "window_name \<noteq> node_name" "resource_name \<noteq> node_name" "endpoint_name \<noteq> node_name"
  by (simp_all add: names_def)

text \<open>Windows and jobs filled in; where there is no placeholder any window leaves the template alone.\<close>

lemma filled_windows:
  assumes "entry_ok e" and "check_arguments e disc args (qe_parameters e) = Inr vals" and "(role, t) \<in> set (qe_expressions e)"
  shows "\<exists>w \<in> set PROMETHEUS_WINDOWS. filled_with vals t = replace_all (cps ''<window>'') w t"
proof -
  have ok: "template_ok e t" using assms(1,3) by (auto simp: entry_ok_def list_all_iff)
  note lacks = template_lacks [OF ok]
  have w15: "cps ''15m'' \<in> set PROMETHEUS_WINDOWS" by (simp add: PROMETHEUS_WINDOWS_def)
  have ne: "qe_expressions e \<noteq> []" using assms(3) by auto
  show ?thesis
    using assms(1,2)
  proof (cases rule: values_shape)
    case 1
    then have "\<not> contains (cps ''<window>'') t" using lacks(4) by simp
    then show ?thesis using 1 w15 replace_all_none by (auto simp: filled_with_def intro!: bexI [of _ "cps ''15m''"])
  next
    case (2 n)
    then have "\<not> contains (cps ''<window>'') t" using lacks(4) names_apart by simp
    then show ?thesis using 2 w15 lacks
      by (auto simp: filled_with_def placeholder_texts replace_all_none simp del: append_Cons intro!: bexI [of _ "cps ''15m''"])
  next
    case (3 n w)
    then show ?thesis using window_value [OF assms(1,2) ne] lacks
      by (auto simp: filled_with_def placeholder_texts replace_all_none simp del: append_Cons)
  next
    case (4 n r w)
    then show ?thesis using window_value [OF assms(1,2) ne] lacks
      by (auto simp: filled_with_def placeholder_texts replace_all_none simp del: append_Cons)
  next
    case (5 k w)
    then show ?thesis using window_value [OF assms(1,2) ne] lacks
      by (auto simp: filled_with_def placeholder_texts replace_all_none simp del: append_Cons)
  qed
qed

lemma filled_with_append: "filled_with (xs @ ys) t = filled_with ys (filled_with xs t)"
  by (simp add: filled_with_def)

lemma expression_registered:
  assumes "entry_ok e" and "check_arguments e disc args (qe_parameters e) = Inr vals"
    and "scan_holes vals (qe_unavailable e) cs as = Inr h" and "job_field e vals = Some job"
    and "(role, t) \<in> set (qe_expressions e)"
  shows "filled_with (vals @ job) t \<in> set (entry_expressions e)"
proof -
  obtain w where w: "w \<in> set PROMETHEUS_WINDOWS" "filled_with vals t = replace_all (cps ''<window>'') w t"
    using filled_windows [OF assms(1,2,5)] by blast
  have "\<exists>j \<in> set (jobs_of e). filled_with job (replace_all (cps ''<window>'') w t) =
      replace_all (cps ''<job>'') j (replace_all (cps ''<window>'') w t)"
  proof (cases "qe_job_map e")
    case None
    have "template_ok e t" using assms(1,5) by (auto simp: entry_ok_def list_all_iff)
    then have no: "\<not> contains (60 # n) t" for n using template_lacks(5) None by blast
    then have "\<not> contains (cps ''<window>'') t" "\<not> contains (cps ''<job>'') t" by (simp_all add: cps_def del: contains.simps)
    moreover have "job = []" using assms(4) None by (simp add: job_field_def)
    ultimately show ?thesis using None by (simp add: jobs_of_def filled_with_def replace_all_none)
  next
    case (Some m)
    have "node_name \<in> set (map qp_name (qe_parameters e))" using assms(1) Some by (simp add: entry_ok_def)
    then have "node_name \<in> fst ` set vals" using check_arguments_values [OF assms(2)] by (metis list.set_map)
    then obtain n where n: "map_of vals node_name = Some n" by (metis map_of_eq_None_iff not_None_eq)
    obtain j where j: "map_of m n = Some j" "j \<noteq> []" using node_job [OF assms(1-3) Some n] by blast
    then have "m \<noteq> []" "j \<in> set (map snd m)" by (auto dest: map_of_SomeD simp: image_iff intro: bexI rev_bexI)
    then have "job = [(cps ''job'', j)]" "j \<in> set (jobs_of e)"
      using assms(4) Some n j by (auto simp: job_field_def jobs_of_def names_def split: if_splits)
    then show ?thesis by (auto simp: filled_with_def placeholder_texts simp del: append_Cons)
  qed
  then obtain j where "j \<in> set (jobs_of e)" "filled_with (vals @ job) t = replace_all (cps ''<job>'') j (replace_all (cps ''<window>'') w t)"
    using w(2) by (auto simp: filled_with_append)
  then show ?thesis using w(1) assms(5) by (auto simp: entry_expressions_def intro!: bexI [of _ "(role, t)"])
qed


section \<open>Routes\<close>

definition STATUSES :: str where "STATUSES = cps ''/api/v1/endpoints/''"

text \<open>A route: the fixed one, or one of the two about an endpoint, its key encoded in one segment.\<close>

definition route_ok :: "str list \<Rightarrow> str \<Rightarrow> bool" where
  "route_ok keys r \<longleftrightarrow>
     r = cps ''/api/v1/targets'' \<or>
     (\<exists>k \<in> set keys. \<exists>q. quote k = Some q \<and> path_safe q \<and>
        (r = STATUSES @ q @ cps ''/statuses'' \<or> (\<exists>w \<in> set GATUS_WINDOWS. r = STATUSES @ q @ cps ''/uptimes/'' @ w)))"

lemma replace_all_here: "replace_all (60 # n) new (60 # n @ ys) = new @ replace_all (60 # n) new ys"
  by simp

lemma lt_not_safe: "path_safe q \<Longrightarrow> 60 \<notin> set q"
  by (auto simp: path_safe_def list_all_iff unreserved_def latin_letter_def latin_digit_def)

lemma endpoint_routes:
  assumes "path_safe q" and "(role, t) \<in> set (qe_routes endpoint_history_entry)"
  shows "filled_with [(endpoint_name, q), (window_name, w)] t \<in> {STATUSES @ q @ cps ''/statuses'', STATUSES @ q @ cps ''/uptimes/'' @ w}"
proof -
  have plain: "60 \<notin> set STATUSES" "60 \<notin> set q" "60 \<notin> set (cps ''/statuses'')" "60 \<notin> set (cps ''/uptimes/'')"
    using lt_not_safe [OF assms(1)] by (simp_all add: STATUSES_def cps_def)
  have e: "cps ''<endpoint>'' = 60 # cps ''endpoint>''" and w: "cps ''<window>'' = 60 # cps ''window>''" by (simp_all add: cps_def)
  have "replace_all (cps ''<endpoint>'') q (STATUSES @ cps ''<endpoint>'' @ r) = STATUSES @ q @ replace_all (cps ''<endpoint>'') q r" for r
    using replace_all_skip [OF plain(1)] replace_all_here unfolding e by simp
  moreover have "replace_all (cps ''<window>'') w (STATUSES @ q @ r) = STATUSES @ q @ replace_all (cps ''<window>'') w r" for r
    using replace_all_skip [OF plain(1)] replace_all_skip [OF plain(2)] unfolding w by simp
  moreover have "replace_all (cps ''<endpoint>'') q (cps ''/statuses'') = cps ''/statuses''"
    "replace_all (cps ''<endpoint>'') q (cps ''/uptimes/'' @ cps ''<window>'') = cps ''/uptimes/'' @ cps ''<window>''"
    "replace_all (cps ''<window>'') w (cps ''/statuses'') = cps ''/statuses''"
    "replace_all (cps ''<window>'') w (cps ''/uptimes/'' @ cps ''<window>'') = cps ''/uptimes/'' @ w"
    by (simp_all add: cps_def)
  moreover have "t = STATUSES @ cps ''<endpoint>'' @ cps ''/statuses'' \<or> t = STATUSES @ cps ''<endpoint>'' @ cps ''/uptimes/'' @ cps ''<window>''"
    using assms(2) by (auto simp: endpoint_history_entry_def entry_parts STATUSES_def)
  ultimately show ?thesis
    by (auto simp: filled_with_def placeholder_texts simp del: append_Cons)
qed


lemma quote_plain: "list_all (\<lambda>c. c < 128 \<and> unreserved c) s \<Longrightarrow> quote s = Some s"
proof -
  assume s: "list_all (\<lambda>c. c < 128 \<and> unreserved c) s"
  then have "encodable s" by (auto simp: encodable_def list_all_iff)
  moreover have "concat (map utf8_bytes s) = s" using s by (induction s) (auto simp: utf8_bytes_def)
  moreover have "concat (map (\<lambda>b. if unreserved b then [b] else [37, hex_digit (b div 16), hex_digit (b mod 16)]) s) = s"
    using s by (induction s) auto
  ultimately show ?thesis by (simp add: quote_def)
qed

lemma gatus_window_quoted: "w \<in> set GATUS_WINDOWS \<Longrightarrow> quote w = Some w"
  by (rule quote_plain) (auto simp: GATUS_WINDOWS_def cps_def unreserved_def latin_letter_def latin_digit_def)

definition endpoint_keys :: "(str \<times> str list) list \<Rightarrow> str list" where
  "endpoint_keys discovered = (case map_of discovered (cps ''endpoint'') of None \<Rightarrow> [] | Some ks \<Rightarrow> ks)"

lemma routes_by_entry:
  assumes "map_of QUERY_REGISTRY name = Some e"
  shows "qe_routes e = [] \<or> (e = scrape_targets_entry \<and> qe_routes e = [(cps ''targets'', cps ''/api/v1/targets'')]) \<or> e = endpoint_history_entry"
proof -
  have none: "qe_routes node_resource_trend_entry = []" "qe_routes freshness_check_entry = []" "qe_routes container_state_entry = []"
    "qe_routes dns_performance_entry = []" "qe_routes memory_movers_entry = []" "qe_routes host_service_state_entry = []"
    by (simp_all only: node_resource_trend_entry_def freshness_check_entry_def container_state_entry_def dns_performance_entry_def
        memory_movers_entry_def host_service_state_entry_def entry_parts)
  have one: "qe_routes scrape_targets_entry = [(cps ''targets'', cps ''/api/v1/targets'')]"
    by (simp only: scrape_targets_entry_def entry_parts)
  have "e \<in> set (map snd QUERY_REGISTRY)" using map_of_SomeD [OF assms] by force
  then show ?thesis using none one by (auto simp: QUERY_REGISTRY_def)
qed

lemma route_registered:
  assumes "map_of QUERY_REGISTRY name = Some e" and "check_arguments e disc args (qe_parameters e) = Inr vals"
    and "job_field e vals = Some job" and "(role, t) \<in> set (qe_routes e)"
    and "fill_template True (vals @ job) t = Inr r" and "list_all valid_str (endpoint_keys disc)"
  shows "route_ok (endpoint_keys disc) r"
  using routes_by_entry [OF assms(1)]
proof (elim disjE)
  assume "qe_routes e = []"
  then show ?thesis using assms(4) by simp
next
  assume s: "e = scrape_targets_entry \<and> qe_routes e = [(cps ''targets'', cps ''/api/v1/targets'')]"
  then have "qe_parameters e = []" "qe_job_map e = None" by (simp_all add: scrape_targets_entry_def blank_entry_def)
  then have "vals = []" "job = []" using assms(2,3) by (auto simp: job_field_def)
  then have "r = t" using fill_quoted [OF assms(5)] by (simp add: filled_with_def)
  moreover have "t = cps ''/api/v1/targets''" using assms(4) conjunct2 [OF s] by simp
  ultimately show ?thesis by (simp add: route_ok_def)
next
  assume e: "e = endpoint_history_entry"
  then have p: "qe_job_map e = None" "map qp_name (qe_parameters e) = [endpoint_name, window_name]"
    "map qp_domain (qe_parameters e) = [None, Some GATUS_WINDOWS]"
    by (simp_all add: endpoint_history_entry_def entry_parts names_def)
  then have "job = []" using assms(3) by (simp add: job_field_def)
  obtain p1 p2 where ps: "qe_parameters e = [p1, p2]" "qp_name p1 = endpoint_name" "qp_name p2 = window_name"
      "qp_domain p1 = None" "qp_domain p2 = Some GATUS_WINDOWS"
    using p by (auto simp: map_eq_Cons_conv)
  then obtain k w ks where v: "vals = [(endpoint_name, k), (window_name, w)]" "map_of disc endpoint_name = Some ks" "k \<in> set ks"
      "w \<in> set GATUS_WINDOWS"
    using assms(2) by (auto simp: parameter_domain_def split: option.splits json.splits if_splits sum.splits)
  then have k: "k \<in> set (endpoint_keys disc)" by (simp add: endpoint_keys_def names_def)
  obtain q where q: "quote k = Some q" and r: "r = filled_with [(endpoint_name, q), (window_name, w)] t"
    using fill_quoted [OF assms(5)] v gatus_window_quoted \<open>job = []\<close> by auto
  have "path_safe q" using quote_safe [OF _ q] k assms(6) by (simp add: list_all_iff)
  then show ?thesis
    using endpoint_routes [of q role t w] assms(4) k q v(4) unfolding e r route_ok_def by blast
qed

section \<open>Properties\<close>

lemma planned_requests:
  assumes "plan_query query_name args discovered = Inr p" and "list_all valid_str (endpoint_keys discovered)"
  shows "(qe_name (pl_entry p), pl_entry p) \<in> set QUERY_REGISTRY \<and>
    list_all (\<lambda>(n, v). \<exists>q \<in> set (qe_parameters (pl_entry p)). qp_name q = n \<and> (\<exists>d. parameter_domain discovered q = Some d \<and> v \<in> set d))
      (pl_arguments p) \<and>
    (pl_outcome p = Not_Derivable \<and> pl_expressions p = [] \<and> pl_routes p = [] \<or>
     pl_outcome p = Answered \<and>
       list_all (\<lambda>(role, x). x \<in> set (entry_expressions (pl_entry p))) (pl_expressions p) \<and>
       list_all (\<lambda>(role, r). route_ok (endpoint_keys discovered) r) (pl_routes p))"
proof -
  obtain name e where e: "map_of QUERY_REGISTRY name = Some e" and p: "plan_entry e args discovered = Inr p"
    using assms(1) by (auto simp: plan_query_def split: json.splits option.splits)
  have reg: "(qe_name e, e) \<in> set QUERY_REGISTRY" using map_of_SomeD [OF e] by (auto simp: QUERY_REGISTRY_def)
  obtain vals where vals: "check_arguments e discovered args (qe_parameters e) = Inr vals"
    using p by (auto simp: plan_entry_def Let_def split: if_splits sum.splits)
  note args = check_arguments_values [OF vals, THEN conjunct2]
  show ?thesis
  proof (cases "scan_holes vals (qe_unavailable e) (qe_caveats e) []")
    case (Inl h)
    then have "pl_entry p = e \<and> pl_arguments p = vals \<and> pl_outcome p = Not_Derivable \<and> pl_expressions p = [] \<and> pl_routes p = []"
      using p vals by (cases h) (auto simp: plan_entry_def Let_def split: if_splits)
    then show ?thesis using reg args by (auto simp: list_all_iff)
  next
    case (Inr h)
    then obtain caveats aspects where "plan_answered e vals caveats aspects = Inr p"
      using p vals by (cases h) (auto simp: plan_entry_def Let_def split: if_splits)
    then obtain job roles where j: "job_field e vals = Some job" "selected_roles e vals = Some roles"
        and x: "fill_roles False (vals @ job) roles = Inr (pl_expressions p)"
          "fill_roles True (vals @ job) (qe_routes e) = Inr (pl_routes p)"
        and pe: "pl_entry p = e" "pl_outcome p = Answered" "pl_arguments p = vals"
      by (auto simp: plan_answered_def split: option.splits sum.splits)
    have "set roles \<subseteq> set (qe_expressions e)"
      using j(2) by (auto simp: selected_roles_def dest: map_of_SomeD split: option.splits)
    then have "list_all (\<lambda>(role, x). x \<in> set (entry_expressions e)) (pl_expressions p)"
      using fill_roles_in [OF x(1)] fill_plain expression_registered [OF registry_entry_ok [OF e] vals Inr j(1)]
      by (fastforce simp: list_all_iff)
    moreover have "list_all (\<lambda>(role, r). route_ok (endpoint_keys discovered) r) (pl_routes p)"
      using fill_roles_in [OF x(2)] route_registered [OF e vals j(1) _ _ assms(2)] by (fastforce simp: list_all_iff)
    ultimately show ?thesis using pe reg args by (auto simp: list_all_iff)
  qed
qed

text \<open>
  C8. Whatever the model supplies, a plan asks nothing that is not in the registry. It names an entry,
  every argument it keeps is in that argument's domain, and either it is not derivable and asks
  nothing, or each expression is one of the entry's fixed expressions, which no argument beyond the
  node, the resource and the window takes part in, and each route is the fixed one or one about a
  discovered endpoint, whose key fills one path segment without any character that has a meaning in
  a URL.
\<close>

theorem planned_requests_are_registered:
  assumes "plan_query query_name args discovered = Inr p" and "list_all valid_str (endpoint_keys discovered)"
  shows "(qe_name (pl_entry p), pl_entry p) \<in> set QUERY_REGISTRY \<and>
    list_all (\<lambda>(n, v). \<exists>q \<in> set (qe_parameters (pl_entry p)). qp_name q = n \<and> (\<exists>d. parameter_domain discovered q = Some d \<and> v \<in> set d))
      (pl_arguments p) \<and>
    (pl_outcome p = Not_Derivable \<and> pl_expressions p = [] \<and> pl_routes p = [] \<or>
     pl_outcome p = Answered \<and>
       list_all (\<lambda>(role, x). x \<in> set (entry_expressions (pl_entry p))) (pl_expressions p) \<and>
       list_all (\<lambda>(role, r). route_ok (endpoint_keys discovered) r) (pl_routes p))"
  using assms by (rule planned_requests)

section \<open>Range requests\<close>

lemma window_in: "map_of WINDOW_SECONDS w = Some n \<Longrightarrow> 900 \<le> n \<and> n \<le> 2592000"
  by (auto simp: WINDOW_SECONDS_def split: if_splits)

lemma step_bounds:
  assumes "0 < (n :: int)" and "0 < (s :: int)"
  shows "s \<le> n * ((s + n - 1) div n)" and "1 \<le> (s + n - 1) div n" and "(s + n - 1) div n \<le> s"
proof -
  let ?q = "(s + n - 1) div n"
  have "n * ?q + (s + n - 1) mod n = s + n - 1" by (simp add: mult_div_mod_eq)
  moreover have "(s + n - 1) mod n < n" "0 \<le> (s + n - 1) mod n" using assms(1) by auto
  ultimately show le: "s \<le> n * ?q" by linarith
  show "1 \<le> ?q" using assms by (simp add: pos_imp_zdiv_pos_iff int_one_le_iff_zero_less)
  have "s + n - 1 \<le> s * n"
  proof -
    have "0 \<le> (s - 1) * (n - 1)" using assms by (intro mult_nonneg_nonneg) auto
    then show ?thesis by (simp add: algebra_simps)
  qed
  then have "?q \<le> (s * n) div n" using assms(1) by (intro zdiv_mono1) auto
  then show "?q \<le> s" using assms(1) by simp
qed

text \<open>
  C23. A range request stays in its budget. Under any accepted configuration, and for every window a
  query can be asked about, the window is known and the request is well formed; the points it
  evaluates are the expected count, at least two and at most the configured number, and the last of
  them lies in the window, less than a step before its end.
\<close>

theorem range_requests_stay_in_budget:
  assumes "validate_read_depth_settings query docs enabled path = Inr ()"
    and "setting query ''query_range_max_points'' = Fin (of_int max_points)"
    and "window \<in> set (PROMETHEUS_WINDOWS @ GATUS_WINDOWS)"
  shows "\<exists>r. range_window window end max_points = Some r \<and> range_end r = end \<and>
     expected_point_count window max_points = Some (range_points r) \<and>
     2 \<le> range_points r \<and> range_points r \<le> max_points \<and>
     range_start r < last_point r \<and> last_point r \<le> end \<and> end < last_point r + of_int (range_step r)"
proof -
  have two: "2 \<le> max_points"
    using assms(1,2) by (auto simp: validate_read_depth_settings_def MIN_RANGE_POINTS_def split: option.splits if_splits)
  obtain n where n: "map_of WINDOW_SECONDS window = Some n"
    using assms(3) by (auto simp: PROMETHEUS_WINDOWS_def GATUS_WINDOWS_def WINDOW_SECONDS_def)
  note size = window_in [OF n]
  let ?m = "max_points - 1" and ?s = "(int n + max_points - 2) div (max_points - 1)"
  have s: "int n \<le> ?m * ?s" "1 \<le> ?s" "?s \<le> int n"
    using step_bounds [of ?m "int n"] two size by (auto simp: algebra_simps)
  then have step: "range_step_seconds window max_points = Some ?s" using two n by (simp add: range_step_seconds_def)
  let ?r = "\<lparr>range_start = end - real n, range_end = end, range_step = ?s\<rparr>"
  have r: "range_window window end max_points = Some ?r" using n step by (simp add: range_window_def)
  have fl: "\<lfloor>real n / of_int ?s\<rfloor> = int n div ?s"
    using floor_divide_of_int_eq [of "int n" ?s] by simp
  have d: "1 \<le> int n div ?s" "int n div ?s \<le> ?m"
  proof -
    show "1 \<le> int n div ?s" using s size by (simp add: pos_imp_zdiv_pos_iff int_one_le_iff_zero_less)
    have "int n div ?s \<le> (?m * ?s) div ?s" using s by (intro zdiv_mono1) auto
    then show "int n div ?s \<le> ?m" using s by simp
  qed
  have "?s * (int n div ?s) \<le> int n" "int n < ?s * (int n div ?s) + ?s"
    using s mult_div_mod_eq [of ?s "int n"] pos_mod_bound [of ?s "int n"] pos_mod_sign [of ?s "int n"] by linarith+
  moreover have "0 < ?s * (int n div ?s)" using d s by (intro mult_pos_pos) auto
  ultimately have l: "0 < (of_int (int n div ?s * ?s) :: real)" "(of_int (int n div ?s * ?s) :: real) \<le> real n"
      "real n < of_int (int n div ?s * ?s) + of_int ?s"
    by (simp_all add: mult.commute flip: of_int_add of_int_mult)
  show ?thesis
    using r n step d l fl by (intro exI [of _ ?r]) (auto simp: expected_point_count_def range_points_def last_point_def)
qed

section \<open>Endpoint names\<close>

text \<open>
  Resolving never invents a key: what it returns was discovered, and a key supplied as it is
  resolves to itself.
\<close>

lemma resolved_is_known: "resolve_endpoint_key supplied known = Some k \<Longrightarrow> k \<in> set known"
  by (auto simp: resolve_endpoint_key_def find_Some_iff)

lemma key_resolves_to_itself: "k \<in> set known \<Longrightarrow> strip k = k \<Longrightarrow> resolve_endpoint_key k known = Some k"
  by (simp add: resolve_endpoint_key_def endpoint_candidates_def Let_def)


lemma strip_prefixed:
  assumes "strip x = x" and "x \<noteq> []" and "\<not> is_space c"
  shows "strip (c # p @ x) = c # p @ x"
proof -
  have "\<not> is_space (last x)" using strip_ends(2) [of x] assms(1,2) by simp
  then have "dropWhile is_space (rev x @ y) = rev x @ y" for y
    using assms(2) by (cases "rev x") (auto simp: last_rev hd_rev dest: arg_cong [where f = hd])
  then show ?thesis using assms(3) by (simp add: strip_def)
qed

lemma split_at_char:
  "c \<notin> set xs \<Longrightarrow> before_char c (xs @ c # ys) = xs"
  "c \<notin> set xs \<Longrightarrow> after_char c (xs @ c # ys) = ys"
  unfolding before_char_def after_char_def by (induction xs) auto

text \<open>
  An event's title finds its endpoint. \<open>Gatus: group/name\<close> resolves to the key Gatus composes of the
  group and the name, provided that key was discovered, keys hold neither a slash nor a colon, and
  neither of the two readings that take the word \<open>Gatus:\<close> for part of the name is itself a key.
\<close>

theorem event_title_resolves:
  assumes "strip (grp @ [47] @ name) = grp @ [47] @ name" and "47 \<notin> set grp"
    and "compose_gatus_key grp name \<in> set known"
    and "list_all (\<lambda>k. 47 \<notin> set k \<and> 58 \<notin> set k) known"
    and "compose_gatus_key (cps ''Gatus: '' @ grp) name \<notin> set known"
    and "sanitize_gatus_segment (cps ''Gatus: '' @ grp @ [47] @ name) \<notin> set known"
  shows "resolve_endpoint_key (cps ''Gatus: '' @ grp @ [47] @ name) known = Some (compose_gatus_key grp name)"
proof -
  let ?x = "grp @ [47] @ name" and ?title = "cps ''Gatus: '' @ grp @ [47] @ name"
  have title: "strip ?title = ?title"
    using strip_prefixed [of ?x 71 "cps ''atus: ''"] assms(1) by (simp add: cps_def is_space_def)
  have lower: "prefix (cps ''gatus:'') (lower ?title)" by (simp add: cps_def lower_def lower_cp_def)
  have rest: "strip (after_char 58 ?title) = ?x"
  proof -
    have "after_char 58 ?title = 32 # ?x" by (simp add: after_char_def cps_def)
    moreover have "strip (32 # ?x) = strip ?x" by (simp add: strip_def is_space_def)
    ultimately show ?thesis using assms(1) by simp
  qed
  have parts: "before_char 47 ?title = cps ''Gatus: '' @ grp" "after_char 47 ?title = name"
      "before_char 47 ?x = grp" "after_char 47 ?x = name"
    using split_at_char [of 47 "cps ''Gatus: '' @ grp" name] split_at_char [of 47 grp name] assms(2) by (simp_all add: cps_def)
  have out: "?title \<notin> set known" "?x \<notin> set known" using assms(4) by (auto simp: list_all_iff)
  show ?thesis
    unfolding resolve_endpoint_key_def endpoint_candidates_def title Let_def rest
    using lower parts out assms(3,5,6) by simp
qed

theorem event_title_resolves_witness:
  "resolve_endpoint_key (cps ''Gatus: core/ntfy'') [cps ''core_ntfy''] = Some (cps ''core_ntfy'')"
proof -
  have s: "strip (cps ''core'' @ [47] @ cps ''ntfy'') = cps ''core'' @ [47] @ cps ''ntfy''"
    by (rule strip_no_space) (simp add: cps_def is_space_def)
  have k: "compose_gatus_key (cps ''core'') (cps ''ntfy'') = cps ''core_ntfy''"
    and "compose_gatus_key (cps ''Gatus: '' @ cps ''core'') (cps ''ntfy'') = cps ''gatus--core_ntfy''"
    and "sanitize_gatus_segment (cps ''Gatus: '' @ cps ''core'' @ [47] @ cps ''ntfy'') = cps ''gatus--core-ntfy''"
    by (simp_all add: compose_gatus_key_def sanitize_gatus_segment_def cps_def lower_def lower_cp_def strip_def is_space_def)
  then have "resolve_endpoint_key (cps ''Gatus: '' @ cps ''core'' @ [47] @ cps ''ntfy'') [cps ''core_ntfy''] =
      Some (compose_gatus_key (cps ''core'') (cps ''ntfy''))"
    by (intro event_title_resolves [OF s]) (simp_all add: cps_def)
  then show ?thesis unfolding k by (simp add: cps_def)
qed


theorem range_requests_stay_in_budget_witness:
  "\<exists>r. range_window (cps ''24h'') 100000 60 = Some r \<and> range_points r \<le> 60"
proof -
  have "validate_read_depth_settings [(cps ''query_range_max_points'', Int_Value 60)] [] False [] = Inr ()"
    by (simp add: validate_read_depth_settings_def first_nonpositive_def setting_def MIN_RANGE_POINTS_def)
  moreover have "setting [(cps ''query_range_max_points'', Int_Value 60)] ''query_range_max_points'' = Fin (of_int 60)"
    by (simp add: setting_def)
  moreover have "cps ''24h'' \<in> set (PROMETHEUS_WINDOWS @ GATUS_WINDOWS)" by (simp add: PROMETHEUS_WINDOWS_def)
  ultimately show ?thesis using range_requests_stay_in_budget by blast
qed

theorem planned_requests_are_registered_witness:
  "\<exists>p. plan_query (J_Str (cps ''endpoint_history''))
      [(cps ''endpoint'', J_Str (cps ''a/b'')), (cps ''window'', J_Str (cps ''1h''))] [(cps ''endpoint'', [cps ''a/b''])] = Inr p \<and>
     map snd (pl_routes p) = [cps ''/api/v1/endpoints/a%2Fb/statuses'', cps ''/api/v1/endpoints/a%2Fb/uptimes/1h''] \<and>
     list_all (\<lambda>(role, r). route_ok [cps ''a/b''] r) (pl_routes p)"
proof -
  let ?disc = "[(cps ''endpoint'', [cps ''a/b''])]"
  let ?args = "[(cps ''endpoint'', J_Str (cps ''a/b'')), (cps ''window'', J_Str (cps ''1h''))]"
  have q: "quote (cps ''a/b'') = Some (cps ''a%2Fb'')" "quote (cps ''1h'') = Some (cps ''1h'')"
    by (simp_all add: quote_def encodable_def utf8_bytes_def cps_def unreserved_def latin_letter_def latin_digit_def hex_digit_def)
  have reg: "map_of QUERY_REGISTRY (cps ''endpoint_history'') = Some endpoint_history_entry"
    by (simp add: QUERY_REGISTRY_def node_resource_trend_entry_def scrape_targets_entry_def endpoint_history_entry_def blank_entry_def)
  have parts: "map qp_name (qe_parameters endpoint_history_entry) = [cps ''endpoint'', cps ''window'']"
      "qe_unavailable endpoint_history_entry = []" "qe_job_map endpoint_history_entry = None"
      "qe_select_by endpoint_history_entry = None" "qe_expressions endpoint_history_entry = []"
      "qe_routes endpoint_history_entry = [(cps ''statuses'', cps ''/api/v1/endpoints/'' @ cps ''<endpoint>'' @ cps ''/statuses''),
         (cps ''uptime'', cps ''/api/v1/endpoints/'' @ cps ''<endpoint>'' @ cps ''/uptimes/'' @ cps ''<window>'')]"
    by (simp_all only: endpoint_history_entry_def entry_parts list.map)
  have check: "check_arguments endpoint_history_entry ?disc ?args (qe_parameters endpoint_history_entry) =
      Inr [(cps ''endpoint'', cps ''a/b''), (cps ''window'', cps ''1h'')]"
    by (simp add: endpoint_history_entry_def entry_parts parameter_domain_def jget_def GATUS_WINDOWS_def)
  let ?vals = "[(cps ''endpoint'', cps ''a/b''), (cps ''window'', cps ''1h'')]"
  have routes: "fill_roles True ?vals (qe_routes endpoint_history_entry) =
      Inr [(cps ''statuses'', cps ''/api/v1/endpoints/a%2Fb/statuses''), (cps ''uptime'', cps ''/api/v1/endpoints/a%2Fb/uptimes/1h'')]"
    unfolding parts by (simp add: fill_template_def fill_one_def q) (simp add: cps_def)
  obtain p where p: "plan_query (J_Str (cps ''endpoint_history'')) ?args ?disc = Inr p"
      "map snd (pl_routes p) = [cps ''/api/v1/endpoints/a%2Fb/statuses'', cps ''/api/v1/endpoints/a%2Fb/uptimes/1h'']"
      "pl_outcome p = Answered"
    using reg check routes parts
    by (simp add: plan_query_def plan_entry_def Let_def plan_answered_def job_field_def selected_roles_def)
  moreover have "list_all valid_str (endpoint_keys ?disc)" by (simp add: endpoint_keys_def valid_str_def cps_def)
  ultimately show ?thesis
    using planned_requests_are_registered [OF p(1)] by (auto simp: endpoint_keys_def)
qed

end
