(* ===== verification/Homelab_Query.thy ===== *)
theory Homelab_Query
  imports Query_Properties
begin

text \<open>
  \<open>henk/tools/homelab_query.py\<close>: the tool that answers a named query. It discovers the endpoint
  keys, plans the call, issues the planned requests and hands the answers to the entry's renderer.
  The clock, the backends and the renderer are arguments; the first two may answer differently
  each time they are asked.
\<close>

section \<open>The tool and its surroundings\<close>

definition ENDPOINT_DISCOVERY_ROUTE :: str where "ENDPOINT_DISCOVERY_ROUTE = cps ''/api/v1/endpoints/statuses''"
definition DEFAULT_DISCOVERY_TTL_SECONDS :: secs where "DEFAULT_DISCOVERY_TTL_SECONDS = 300"

datatype http_params = No_Params | Instant str | Range_Of str range_span

record http_request =
  rq_url :: str
  rq_params :: http_params
  rq_timeout :: real
  rq_backend :: str

datatype rendered = Rendered str | Not_Implemented str | Render_Raised

record query_tool =
  gatus_url :: str
  prometheus_url :: str
  gatus_timeout :: real
  prometheus_timeout :: real
  max_points :: int
  discovery_ttl :: secs

record query_env =
  tables :: unicode
  clock_at :: "nat \<Rightarrow> secs"                                        \<comment> \<open>the n-th reading\<close>
  backend_answer :: "nat \<Rightarrow> http_request \<Rightarrow> backend_failure + json"      \<comment> \<open>to the n-th request\<close>
  render_of :: "query_plan \<Rightarrow> (str \<times> json) list \<Rightarrow> rendered"

record query_state =
  known_endpoints :: "str list option"
  discovered_at :: "secs option"
  requests :: "http_request list"
  clock_reads :: nat

definition strip_slashes :: "str \<Rightarrow> str" where
  "strip_slashes s = rev (dropWhile (\<lambda>c. c = 47) (rev s))"

definition new_query_tool :: "str \<Rightarrow> str \<Rightarrow> real \<Rightarrow> real \<Rightarrow> int \<Rightarrow> query_tool" where
  "new_query_tool gatus prometheus gatus_secs prometheus_secs points =
     \<lparr>gatus_url = strip_slashes gatus, prometheus_url = strip_slashes prometheus, gatus_timeout = gatus_secs,
      prometheus_timeout = prometheus_secs, max_points = points, discovery_ttl = DEFAULT_DISCOVERY_TTL_SECONDS\<rparr>"

definition new_query_state :: query_state where
  "new_query_state = \<lparr>known_endpoints = None, discovered_at = None, requests = [], clock_reads = 0\<rparr>"

definition read_clock :: "query_env \<Rightarrow> query_state \<Rightarrow> secs \<times> query_state" where
  "read_clock env S = (clock_at env (clock_reads S), S\<lparr>clock_reads := Suc (clock_reads S)\<rparr>)"

definition get_json :: "query_env \<Rightarrow> http_request \<Rightarrow> query_state \<Rightarrow> (str + json) \<times> query_state" where
  "get_json env rq S =
     ((case backend_answer env (length (requests S)) rq of
         Inl f \<Rightarrow> Inl (backend_failure_reason (tables env) (rq_backend rq) (rq_timeout rq) f)
       | Inr j \<Rightarrow> Inr j),
      S\<lparr>requests := requests S @ [rq]\<rparr>)"

section \<open>Discovered keys\<close>

definition discovery_request :: "query_tool \<Rightarrow> http_request" where
  "discovery_request cfg =
     \<lparr>rq_url = gatus_url cfg @ ENDPOINT_DISCOVERY_ROUTE, rq_params = No_Params, rq_timeout = gatus_timeout cfg, rq_backend = cps ''Gatus''\<rparr>"

fun listed_keys :: "json list \<Rightarrow> str list" where
  "listed_keys [] = []"
| "listed_keys (j # js) =
     (case j of J_Obj d \<Rightarrow> (case jget d (cps ''key'') of J_Str k \<Rightarrow> k # listed_keys js | _ \<Rightarrow> listed_keys js)
      | _ \<Rightarrow> listed_keys js)"

definition discover :: "query_env \<Rightarrow> query_tool \<Rightarrow> query_state \<Rightarrow> (str + str list) \<times> query_state" where
  "discover env cfg S =
     (case get_json env (discovery_request cfg) S of
        (Inl reason, T) \<Rightarrow>
          (Inl (cps (''Gatus endpoint discovery failed, so no endpoint key can be v'' @ ''alidated and none is passed through: '') @
            reason), T)
      | (Inr (J_List payload), T) \<Rightarrow>
          (let keys = listed_keys payload; (now, U) = read_clock env T
           in (Inr keys, U\<lparr>known_endpoints := Some keys, discovered_at := Some now\<rparr>))
      | (Inr _, T) \<Rightarrow>
          (Inl (cps (''Gatus endpoint discovery returned an unexpected shape, so no'' @
              '' endpoint key can be validated and none is passed through.'')), T))"

text \<open>The clock is read for the age of a set that is there, also where a refresh is asked for.\<close>

definition read_endpoint_keys :: "query_env \<Rightarrow> query_tool \<Rightarrow> bool \<Rightarrow> query_state \<Rightarrow> (str + str list) \<times> query_state" where
  "read_endpoint_keys env cfg again S =
     (case (known_endpoints S, discovered_at S) of
        (Some keys, Some since) \<Rightarrow>
          (let (now, T) = read_clock env S
           in if now - since < discovery_ttl cfg \<and> \<not> again then (Inr keys, T) else discover env cfg T)
      | _ \<Rightarrow> discover env cfg S)"

definition resolve_discovered ::
    "query_env \<Rightarrow> query_tool \<Rightarrow> json_obj \<Rightarrow> query_state \<Rightarrow> (str + str list \<times> json_obj) \<times> query_state" where
  "resolve_discovered env cfg args S =
     (case read_endpoint_keys env cfg False S of
        (Inl err, T) \<Rightarrow> (Inl err, T)
      | (Inr keys, T) \<Rightarrow>
          (case jget args (cps ''endpoint'') of
             J_Str supplied \<Rightarrow>
               if supplied \<in> set keys then (Inr (keys, args), T)
               else (case resolve_endpoint_key supplied keys of
                   Some k \<Rightarrow> (Inr (keys, AList.update (cps ''endpoint'') (J_Str k) args), T)
                 | None \<Rightarrow>
                     (case read_endpoint_keys env cfg True T of
                        (Inl err, U) \<Rightarrow> (Inl err, U)
                      | (Inr keys', U) \<Rightarrow>
                          (Inr (keys', case resolve_endpoint_key supplied keys' of
                              Some k \<Rightarrow> AList.update (cps ''endpoint'') (J_Str k) args | None \<Rightarrow> args), U)))
           | _ \<Rightarrow> (Inr (keys, args), T)))"

section \<open>Issuing the requests\<close>

text \<open>\<open>None\<close> where building the window raises.\<close>

definition prometheus_request :: "query_env \<Rightarrow> query_tool \<Rightarrow> query_plan \<Rightarrow> str \<Rightarrow> str \<Rightarrow> query_state \<Rightarrow> (http_request \<times> query_state) option" where
  "prometheus_request env cfg p role expression S =
     (let e = pl_entry p;
          is_range = qe_range_query e \<and> (case qe_range_roles e of None \<Rightarrow> True | Some rs \<Rightarrow> role \<in> set rs);
          to = (\<lambda>path params. \<lparr>rq_url = prometheus_url cfg @ path, rq_params = params, rq_timeout = prometheus_timeout cfg,
                  rq_backend = cps ''Prometheus''\<rparr>)
      in case pl_window p of
           None \<Rightarrow> Some (to (cps ''/api/v1/query'') (Instant expression), S)
         | Some w \<Rightarrow>
             if \<not> is_range then Some (to (cps ''/api/v1/query'') (Instant expression), S)
             else (case pl_range p of
                 Some r \<Rightarrow> Some (to (cps ''/api/v1/query_range'') (Range_Of expression r), S)
               | None \<Rightarrow>
                   (let (now, T) = read_clock env S
                    in map_option (\<lambda>r. (to (cps ''/api/v1/query_range'') (Range_Of expression r), T)) (range_window w now (max_points cfg)))))"

datatype fetched = Fetched "(str \<times> json) list" | Fetch_Failed str | Fetch_Raised

fun fetch_expressions ::
    "query_env \<Rightarrow> query_tool \<Rightarrow> query_plan \<Rightarrow> (str \<times> str) list \<Rightarrow> (str \<times> json) list \<Rightarrow> query_state \<Rightarrow> fetched \<times> query_state" where
  "fetch_expressions env cfg p [] got S = (Fetched got, S)"
| "fetch_expressions env cfg p ((role, x) # rest) got S =
     (case prometheus_request env cfg p role x S of
        None \<Rightarrow> (Fetch_Raised, S)
      | Some (rq, T) \<Rightarrow>
          (case get_json env rq T of
             (Inl reason, U) \<Rightarrow> (Fetch_Failed reason, U)
           | (Inr j, U) \<Rightarrow> fetch_expressions env cfg p rest (AList.update role j got) U))"

definition route_request :: "query_tool \<Rightarrow> query_plan \<Rightarrow> str \<Rightarrow> http_request" where
  "route_request cfg p route =
     (case qe_backend (pl_entry p) of
        Gatus \<Rightarrow> \<lparr>rq_url = gatus_url cfg @ route, rq_params = No_Params, rq_timeout = gatus_timeout cfg, rq_backend = cps ''Gatus''\<rparr>
      | Prometheus \<Rightarrow>
          \<lparr>rq_url = prometheus_url cfg @ route, rq_params = No_Params, rq_timeout = prometheus_timeout cfg, rq_backend = cps ''Prometheus''\<rparr>)"

fun fetch_routes ::
    "query_env \<Rightarrow> query_tool \<Rightarrow> query_plan \<Rightarrow> (str \<times> str) list \<Rightarrow> (str \<times> json) list \<Rightarrow> query_state \<Rightarrow> fetched \<times> query_state" where
  "fetch_routes env cfg p [] got S = (Fetched got, S)"
| "fetch_routes env cfg p ((role, route) # rest) got S =
     (case get_json env (route_request cfg p route) S of
        (Inl reason, T) \<Rightarrow> (Fetch_Failed reason, T)
      | (Inr j, T) \<Rightarrow> fetch_routes env cfg p rest (AList.update role j got) T)"

definition fetch :: "query_env \<Rightarrow> query_tool \<Rightarrow> query_plan \<Rightarrow> query_state \<Rightarrow> fetched \<times> query_state" where
  "fetch env cfg p S =
     (case fetch_expressions env cfg p (pl_expressions p) [] S of
        (Fetched got, T) \<Rightarrow> fetch_routes env cfg p (pl_routes p) got T
      | r \<Rightarrow> r)"

section \<open>One invocation\<close>

datatype query_result = Query_Succeeded str | Query_Failed str | Query_Refused query_refusal | Query_Raised

definition render_failed :: "str \<Rightarrow> str" where
  "render_failed name =
     (name @
       cps ('': the backend answered, but its response could not be summar'' @
         ''ised. No partial result is returned.''))"

definition answer_plan :: "query_env \<Rightarrow> query_tool \<Rightarrow> query_plan \<Rightarrow> query_state \<Rightarrow> query_result \<times> query_state" where
  "answer_plan env cfg p S =
     (let (now, T) = read_clock env S
      in case with_range_end p now (max_points cfg) of
           None \<Rightarrow> (Query_Raised, T)
         | Some p' \<Rightarrow>
             (case fetch env cfg p' T of
                (Fetch_Raised, U) \<Rightarrow> (Query_Raised, U)
              | (Fetch_Failed reason, U) \<Rightarrow> (Query_Failed reason, U)
              | (Fetched got, U) \<Rightarrow>
                  ((case render_of env p' got of
                      Rendered s \<Rightarrow> Query_Succeeded s
                    | Not_Implemented why \<Rightarrow> Query_Failed (qe_name (pl_entry p') @ cps '': '' @ why)
                    | Render_Raised \<Rightarrow> Query_Failed (render_failed (qe_name (pl_entry p')))), U)))"

definition dispatch_query ::
    "query_env \<Rightarrow> query_tool \<Rightarrow> json \<Rightarrow> json_obj \<Rightarrow> (str \<times> str list) list \<Rightarrow> query_state \<Rightarrow> query_result \<times> query_state" where
  "dispatch_query env cfg name args discovered S =
     (case plan_query name args discovered of
        Inl (Refuses r) \<Rightarrow> (Query_Refused r, S)
      | Inl Raises \<Rightarrow> (Query_Raised, S)
      | Inr p \<Rightarrow> if pl_outcome p = Not_Derivable then (Query_Succeeded (pl_message p), S) else answer_plan env cfg p S)"

definition asks_discovery :: "json \<Rightarrow> bool" where
  "asks_discovery name \<longleftrightarrow>
     (case name of
        J_Str n \<Rightarrow> (case map_of QUERY_REGISTRY n of None \<Rightarrow> False | Some e \<Rightarrow> list_ex (\<lambda>p. qp_domain p = None) (qe_parameters e))
      | _ \<Rightarrow> False)"

definition run_query :: "query_env \<Rightarrow> query_tool \<Rightarrow> json_obj \<Rightarrow> query_state \<Rightarrow> query_result \<times> query_state" where
  "run_query env cfg arguments S =
     (let name = jget arguments (cps ''query_name'');
          args = filter (\<lambda>(k, _). k \<noteq> cps ''query_name'') arguments
      in if \<not> asks_discovery name then dispatch_query env cfg name args [] S
         else (case resolve_discovered env cfg args S of
             (Inl err, T) \<Rightarrow> (Query_Failed err, T)
           | (Inr (keys, args'), T) \<Rightarrow> dispatch_query env cfg name args' [(cps ''endpoint'', keys)] T))"


section \<open>What an invocation asks\<close>

text \<open>A request about the registry: one of its expressions, at once or over a span, or one of its routes.\<close>

definition registered_request :: "query_tool \<Rightarrow> str list \<Rightarrow> range_span option \<Rightarrow> http_request \<Rightarrow> bool" where
  "registered_request cfg keys span_asked rq \<longleftrightarrow>
     (case rq_params rq of
        Instant x \<Rightarrow> rq_url rq = prometheus_url cfg @ cps ''/api/v1/query'' \<and> (\<exists>(name, e) \<in> set QUERY_REGISTRY. x \<in> set (entry_expressions e))
      | Range_Of x r \<Rightarrow> rq_url rq = prometheus_url cfg @ cps ''/api/v1/query_range'' \<and> span_asked = Some r \<and>
          (\<exists>(name, e) \<in> set QUERY_REGISTRY. x \<in> set (entry_expressions e))
      | No_Params \<Rightarrow> (\<exists>route. route_ok keys route \<and> (rq_url rq = gatus_url cfg @ route \<or> rq_url rq = prometheus_url cfg @ route)))"

definition known_keys :: "query_state \<Rightarrow> str list" where
  "known_keys S = (case known_endpoints S of None \<Rightarrow> [] | Some ks \<Rightarrow> ks)"

lemma get_json_state: "get_json env rq S = (r, T) \<Longrightarrow> T = S\<lparr>requests := requests S @ [rq]\<rparr>"
  by (simp add: get_json_def)

lemma read_clock_eq: "read_clock env S = (clock_at env (clock_reads S), S\<lparr>clock_reads := Suc (clock_reads S)\<rparr>)"
  by (simp add: read_clock_def)

lemma discover_spec:
  "discover env cfg S = (r, T) \<Longrightarrow>
     requests T = requests S @ [discovery_request cfg] \<and> (\<forall>keys. r = Inr keys \<longrightarrow> known_endpoints T = Some keys)"
  by (auto simp: discover_def read_clock_eq Let_def dest!: get_json_state split: prod.splits sum.splits json.splits)

text \<open>A key set that is used was just read, or is younger than its time to live.\<close>

definition fresh_keys :: "query_env \<Rightarrow> query_tool \<Rightarrow> query_state \<Rightarrow> str list \<Rightarrow> bool" where
  "fresh_keys env cfg S keys \<longleftrightarrow>
     known_endpoints S = Some keys \<and>
     (\<exists>since. discovered_at S = Some since \<and> clock_at env (clock_reads S) - since < discovery_ttl cfg)"

lemma read_endpoint_keys_spec:
  assumes "read_endpoint_keys env cfg again S = (r, T)"
  shows "\<exists>n \<le> 1. requests T = requests S @ replicate n (discovery_request cfg) \<and>
    (\<forall>keys. r = Inr keys \<longrightarrow> known_endpoints T = Some keys \<and> (n = 0 \<longrightarrow> fresh_keys env cfg S keys)) \<and> (again \<longrightarrow> n = 1)"
proof (cases "\<exists>keys since. known_endpoints S = Some keys \<and> discovered_at S = Some since \<and>
    clock_at env (clock_reads S) - since < discovery_ttl cfg \<and> \<not> again")
  case True
  then show ?thesis using assms by (auto simp: read_endpoint_keys_def read_clock_eq fresh_keys_def intro!: exI [of _ "0 :: nat"])
next
  case False
  then obtain S' where "discover env cfg S' = (r, T)" "requests S' = requests S"
    using assms by (auto simp: read_endpoint_keys_def read_clock_eq Let_def split: option.splits if_splits)
  from discover_spec [OF this(1)] this(2) show ?thesis by (auto intro!: exI [of _ "1 :: nat"])
qed

lemma resolve_discovered_spec:
  assumes "resolve_discovered env cfg args S = (r, T)"
  shows "\<exists>n \<le> 2. requests T = requests S @ replicate n (discovery_request cfg) \<and>
    (\<forall>keys args'. r = Inr (keys, args') \<longrightarrow> known_endpoints T = Some keys \<and> (n = 0 \<longrightarrow> fresh_keys env cfg S keys))"
proof -
  obtain r1 U where first: "read_endpoint_keys env cfg False S = (r1, U)" by fastforce
  obtain n where n: "n \<le> 1" "requests U = requests S @ replicate n (discovery_request cfg)"
      "\<forall>keys. r1 = Inr keys \<longrightarrow> known_endpoints U = Some keys \<and> (n = 0 \<longrightarrow> fresh_keys env cfg S keys)"
    using read_endpoint_keys_spec [OF first] by blast
  obtain r2 V where second: "read_endpoint_keys env cfg True U = (r2, V)" by fastforce
  have v: "requests V = requests U @ [discovery_request cfg] \<and> (\<forall>keys. r2 = Inr keys \<longrightarrow> known_endpoints V = Some keys)"
    using read_endpoint_keys_spec [OF second] by auto
  have "(T = U \<and> (\<forall>keys args'. r = Inr (keys, args') \<longrightarrow> r1 = Inr keys)) \<or>
      (T = V \<and> (\<forall>keys args'. r = Inr (keys, args') \<longrightarrow> r2 = Inr keys))"
    using assms first second
    by (auto simp: resolve_discovered_def split: sum.splits json.splits if_splits option.splits prod.splits)
  then show ?thesis
  proof
    assume "T = U \<and> (\<forall>keys args'. r = Inr (keys, args') \<longrightarrow> r1 = Inr keys)"
    then show ?thesis using n by (intro exI [of _ n]) auto
  next
    assume "T = V \<and> (\<forall>keys args'. r = Inr (keys, args') \<longrightarrow> r2 = Inr keys)"
    then show ?thesis using n v by (intro exI [of _ "Suc n"]) (auto simp: replicate_append_same)
  qed
qed

text \<open>A plan with its end set: the span every range request of it carries.\<close>

lemma prometheus_request_shape:
  assumes "with_range_end q now points = Some p" and "prometheus_request env cfg p role x S = Some (rq, T)"
  shows "T = S \<and> ((rq_params rq = Instant x \<and> rq_url rq = prometheus_url cfg @ cps ''/api/v1/query'') \<or>
     (\<exists>r. pl_range p = Some r \<and> rq_params rq = Range_Of x r \<and> rq_url rq = prometheus_url cfg @ cps ''/api/v1/query_range''))"
  using assms
  by (auto simp: with_range_end_def prometheus_request_def Let_def read_clock_eq split: option.splits if_splits)

lemma with_range_end_same:
  "with_range_end q now points = Some p \<Longrightarrow>
     pl_entry p = pl_entry q \<and> pl_expressions p = pl_expressions q \<and> pl_routes p = pl_routes q"
  by (auto simp: with_range_end_def split: option.splits if_splits)

text \<open>The requests of a plan: each from one of its expressions or routes.\<close>

definition plan_request :: "query_tool \<Rightarrow> query_plan \<Rightarrow> http_request \<Rightarrow> bool" where
  "plan_request cfg p rq \<longleftrightarrow>
     (\<exists>(role, x) \<in> set (pl_expressions p).
        (rq_params rq = Instant x \<and> rq_url rq = prometheus_url cfg @ cps ''/api/v1/query'') \<or>
        (\<exists>r. pl_range p = Some r \<and> rq_params rq = Range_Of x r \<and> rq_url rq = prometheus_url cfg @ cps ''/api/v1/query_range'')) \<or>
     (\<exists>(role, route) \<in> set (pl_routes p). rq = route_request cfg p route)"

lemma fetch_expressions_spec:
  assumes "with_range_end q now points = Some p" and "set xs \<subseteq> set (pl_expressions p)"
    and "fetch_expressions env cfg p xs got S = (r, T)"
  shows "\<exists>new. requests T = requests S @ new \<and> known_endpoints T = known_endpoints S \<and> list_all (plan_request cfg p) new"
  using assms(2,3)
proof (induction xs arbitrary: got S)
  case (Cons y rest)
  obtain role x where y: "y = (role, x)" by (cases y)
  show ?case
  proof (cases "prometheus_request env cfg p role x S")
    case None
    then show ?thesis using Cons.prems y by (auto intro!: exI [of _ "[]"])
  next
    case (Some rt)
    then obtain rq where rq: "prometheus_request env cfg p role x S = Some (rq, S)"
      using prometheus_request_shape [OF assms(1)] by (cases rt) blast
    have ok: "plan_request cfg p rq"
      using prometheus_request_shape [OF assms(1) rq] Cons.prems(1) y by (fastforce simp: plan_request_def)
    obtain g U where g: "get_json env rq S = (g, U)" by fastforce
    note u = get_json_state [OF g]
    show ?thesis
    proof (cases g)
      case (Inl a)
      then show ?thesis using Cons.prems y rq g u ok by (auto intro!: exI [of _ "[rq]"])
    next
      case (Inr j)
      then have "fetch_expressions env cfg p rest (AList.update role j got) U = (r, T)" using Cons.prems y rq g by simp
      from Cons.IH [OF _ this] Cons.prems(1) obtain new where
        "requests T = requests U @ new" "known_endpoints T = known_endpoints U" "list_all (plan_request cfg p) new"
        by auto
      then show ?thesis using u ok by (intro exI [of _ "rq # new"]) auto
    qed
  qed
qed (auto intro!: exI [of _ "[]"])

lemma fetch_routes_spec:
  assumes "set xs \<subseteq> set (pl_routes p)" and "fetch_routes env cfg p xs got S = (r, T)"
  shows "\<exists>new. requests T = requests S @ new \<and> known_endpoints T = known_endpoints S \<and> list_all (plan_request cfg p) new"
  using assms
proof (induction xs arbitrary: got S)
  case (Cons y rest)
  obtain role route where y: "y = (role, route)" by (cases y)
  have ok: "plan_request cfg p (route_request cfg p route)" using Cons.prems(1) y by (fastforce simp: plan_request_def)
  obtain g U where g: "get_json env (route_request cfg p route) S = (g, U)" by fastforce
  note u = get_json_state [OF g]
  show ?case
  proof (cases g)
    case (Inl a)
    then show ?thesis using Cons.prems y g u ok by (auto intro!: exI [of _ "[route_request cfg p route]"])
  next
    case (Inr j)
    then have "fetch_routes env cfg p rest (AList.update role j got) U = (r, T)" using Cons.prems y g by simp
    from Cons.IH [OF _ this] Cons.prems(1) obtain new where
      "requests T = requests U @ new" "known_endpoints T = known_endpoints U" "list_all (plan_request cfg p) new"
      by auto
    then show ?thesis using u ok by (intro exI [of _ "route_request cfg p route # new"]) auto
  qed
qed (auto intro!: exI [of _ "[]"])

lemma fetch_spec:
  assumes "with_range_end q now points = Some p" and "fetch env cfg p S = (r, T)"
  shows "\<exists>new. requests T = requests S @ new \<and> known_endpoints T = known_endpoints S \<and> list_all (plan_request cfg p) new"
proof -
  obtain r1 U where first: "fetch_expressions env cfg p (pl_expressions p) [] S = (r1, U)" by fastforce
  obtain new where new: "requests U = requests S @ new" "known_endpoints U = known_endpoints S" "list_all (plan_request cfg p) new"
    using fetch_expressions_spec [OF assms(1) subset_refl first] by blast
  show ?thesis
  proof (cases r1)
    case (Fetched got)
    then have "fetch_routes env cfg p (pl_routes p) got U = (r, T)" using assms(2) first by (simp add: fetch_def)
    from fetch_routes_spec [OF subset_refl this] new show ?thesis by fastforce
  qed (use assms(2) first new in \<open>auto simp: fetch_def\<close>)
qed

lemma plan_request_registered:
  assumes "plan_query name args discovered = Inr q" and "list_all valid_str (endpoint_keys discovered)"
    and "with_range_end q now points = Some p" and "plan_request cfg p rq"
  shows "registered_request cfg (endpoint_keys discovered) (pl_range p) rq"
proof -
  note same = with_range_end_same [OF assms(3)]
  have reg: "(qe_name (pl_entry q), pl_entry q) \<in> set QUERY_REGISTRY"
    using planned_requests [OF assms(1,2)] by blast
  have exprs: "x \<in> set (entry_expressions (pl_entry q))" if "(role, x) \<in> set (pl_expressions p)" for role x
    using planned_requests [OF assms(1,2)] that same by (auto simp: list_all_iff)
  have routes: "route_ok (endpoint_keys discovered) r" if "(role, r) \<in> set (pl_routes p)" for role r
    using planned_requests [OF assms(1,2)] that same by (auto simp: list_all_iff)
  consider role x where "(role, x) \<in> set (pl_expressions p)" "rq_params rq = Instant x" "rq_url rq = prometheus_url cfg @ cps ''/api/v1/query''"
    | role x r where "(role, x) \<in> set (pl_expressions p)" "pl_range p = Some r" "rq_params rq = Range_Of x r"
        "rq_url rq = prometheus_url cfg @ cps ''/api/v1/query_range''"
    | role route where "(role, route) \<in> set (pl_routes p)" "rq = route_request cfg p route"
    using assms(4) unfolding plan_request_def by blast
  then show ?thesis
  proof cases
    case 1
    then show ?thesis using reg exprs by (auto simp: registered_request_def intro!: bexI [OF _ reg])
  next
    case 2
    then show ?thesis using reg exprs by (auto simp: registered_request_def intro!: bexI [OF _ reg])
  next
    case 3
    then show ?thesis using routes by (cases "qe_backend (pl_entry p)") (auto simp: registered_request_def route_request_def)
  qed
qed

text \<open>
  What one dispatch adds to the log: requests about the registry, all range requests over one span,
  which the renderer is given; nothing at all where the call is refused or not derivable.
\<close>

lemma dispatch_query_known:
  assumes "dispatch_query env cfg name args discovered S = (res, T)"
  shows "known_endpoints T = known_endpoints S"
proof -
  have "known_endpoints U = known_endpoints V" if "with_range_end q now points = Some p" "fetch env cfg p V = (f, U)" for q now points p f U V
    using fetch_spec [OF that] by auto
  then show ?thesis
    using assms
    by (fastforce simp: dispatch_query_def answer_plan_def Let_def read_clock_eq
        split: sum.splits query_error.splits if_splits prod.splits option.splits fetched.splits)
qed

lemma dispatch_query_spec:
  assumes "dispatch_query env cfg name args discovered S = (res, T)" and "list_all valid_str (endpoint_keys discovered)"
  shows "\<exists>new spanned. requests T = requests S @ new \<and> known_endpoints T = known_endpoints S \<and>
    list_all (registered_request cfg (endpoint_keys discovered) spanned) new \<and>
    (case plan_query name args discovered of Inr q \<Rightarrow> pl_outcome q = Not_Derivable \<longrightarrow> new = [] | Inl _ \<Rightarrow> new = [])"
proof (cases "plan_query name args discovered")
  case (Inl e)
  then show ?thesis using assms(1) by (cases e) (auto simp: dispatch_query_def)
next
  case (Inr q)
  show ?thesis
  proof (cases "pl_outcome q = Not_Derivable")
    case True
    then show ?thesis using Inr assms(1) by (auto simp: dispatch_query_def)
  next
    case False
    let ?S = "S\<lparr>clock_reads := Suc (clock_reads S)\<rparr>" and ?now = "clock_at env (clock_reads S)"
    have a: "answer_plan env cfg q S = (res, T)" using Inr False assms(1) by (simp add: dispatch_query_def)
    show ?thesis
    proof (cases "with_range_end q ?now (max_points cfg)")
      case None
      then show ?thesis using a Inr False by (auto simp: answer_plan_def read_clock_eq)
    next
      case (Some p)
      obtain f U where f: "fetch env cfg p ?S = (f, U)" by fastforce
      then have "T = U" using a Some by (auto simp: answer_plan_def read_clock_eq split: fetched.splits)
      moreover obtain new where "requests U = requests S @ new" "known_endpoints U = known_endpoints S" "list_all (plan_request cfg p) new"
        using fetch_spec [OF Some f] by auto
      moreover have "list_all (registered_request cfg (endpoint_keys discovered) (pl_range p)) new"
        using calculation(4) plan_request_registered [OF Inr assms(2) Some] by (auto simp: list_all_iff)
      ultimately show ?thesis using Inr False by auto
    qed
  qed
qed


lemma endpoint_history_asks: "asks_discovery (J_Str (cps ''endpoint_history''))"
proof -
  have "map_of QUERY_REGISTRY (cps ''endpoint_history'') = Some endpoint_history_entry"
    by (simp add: QUERY_REGISTRY_def node_resource_trend_entry_def scrape_targets_entry_def endpoint_history_entry_def blank_entry_def)
  moreover have "list_ex (\<lambda>p. qp_domain p = None) (qe_parameters endpoint_history_entry)"
    by (simp only: endpoint_history_entry_def entry_parts) simp
  ultimately show ?thesis by (simp add: asks_discovery_def)
qed

text \<open>A backend that never answers: one read of the endpoint list, and nothing else.\<close>

definition silent_env :: query_env where
  "silent_env =
     \<lparr>tables = \<lparr>re_digit = latin_digit, re_word = (\<lambda>c. latin_letter c \<or> latin_digit c \<or> c = 95), str_digit = latin_digit\<rparr>,
      clock_at = real, backend_answer = (\<lambda>_ _. Inl Timed_Out), render_of = (\<lambda>_ _. Render_Raised)\<rparr>"


end
