(* ===== verification/Homelab_Health.thy ===== *)
theory Homelab_Health
  imports Query_Registry
begin

text \<open>
  \<open>henk/tools/homelab_health.py\<close>: endpoint state and per-node figures over HTTP. Its expressions and
  bars are those of \<open>node_resource_trend\<close>, taken from the registry. \<open>float\<close> of a string and of a
  non-finite JSON number are arguments; a value the code cannot work on is an exception. So is,
  here, a job label that is not a string, which Prometheus does not produce.
\<close>

section \<open>Expressions and bars\<close>

definition HEALTH_RESOURCES :: "str list" where
  "HEALTH_RESOURCES = [cps ''memory'', cps ''disk'', cps ''load'']"

definition FLEET_JOB_SELECTOR :: str where
  "FLEET_JOB_SELECTOR = (cps ''job=~'' @ [34] @ cps ''node-exporter.*'' @ [34])"

definition JOB_PLACEHOLDER :: str where
  "JOB_PLACEHOLDER = (cps ''job='' @ [34] @ cps ''<job>'' @ [34])"

text \<open>\<open>None\<close> where the module's own check for an unfilled placeholder raises.\<close>

definition fleet_expression :: "str \<Rightarrow> str option" where
  "fleet_expression resource =
     (case map_of (qe_expressions node_resource_trend_entry) resource of
        None \<Rightarrow> None
      | Some t \<Rightarrow>
          (let widened = replace_all JOB_PLACEHOLDER FLEET_JOB_SELECTOR t
           in if 60 \<in> set widened \<and> 62 \<in> set widened then None else Some widened))"

definition QUERIES :: "(str \<times> str) list" where
  "QUERIES = map (\<lambda>r. (r, the (fleet_expression r))) HEALTH_RESOURCES"

definition bar_of :: "str \<Rightarrow> threshold option" where
  "bar_of resource = (if resource \<in> set HEALTH_RESOURCES then map_of (qe_thresholds node_resource_trend_entry) resource else None)"

definition unbarred :: "str list" where
  "unbarred = filter (\<lambda>r. bar_of r = None) HEALTH_RESOURCES"

definition resource_label :: "str \<Rightarrow> str" where
  "resource_label r =
     (if r = cps ''memory'' then cps ''mem'' else if r = cps ''disk'' then cps ''disk'' else if r = cps ''load'' then cps ''load'' else r)"

definition figure :: "str \<Rightarrow> number \<Rightarrow> str" where
  "figure resource v =
     (let lb = resource_label resource
      in case bar_of resource of
           None \<Rightarrow> lb @ [32] @ fixed 2 v
         | Some bar \<Rightarrow>
             if prefix (cps ''percent '') (th_unit bar)
             then lb @ [32] @ fixed 0 v @ cps ''% '' @ drop (length (cps ''percent '')) (th_unit bar)
             else lb @ [32] @ fixed 2 v @ [32] @ th_unit bar)"

section \<open>Gatus\<close>

record health_env =
  h_tables :: unicode
  text_number :: "str \<Rightarrow> number option"        \<comment> \<open>\<open>float(s)\<close>\<close>
  odd_number :: number                          \<comment> \<open>\<open>float\<close> of \<open>J_Nonfinite\<close>\<close>
  gatus_answer :: "(str \<times> str) + json"         \<comment> \<open>an exception's text and class name, or the body\<close>
  prometheus_answer :: "str \<Rightarrow> (str \<times> str) + json"

definition health_error_text :: "unicode \<Rightarrow> str \<times> str \<Rightarrow> str" where
  "health_error_text u e = (let s = scrub_addresses u (fst e) in if s = [] then snd e else s)"

text \<open>\<open>isinstance(v, str) and v\<close>.\<close>

fun nonempty_str :: "json \<Rightarrow> str option" where
  "nonempty_str (J_Str s) = (if s = [] then None else Some s)"
| "nonempty_str _ = None"

definition health_endpoint_name :: "json_obj \<Rightarrow> str" where
  "health_endpoint_name d =
     (case nonempty_str (jget d (cps ''key'')) of
        Some k \<Rightarrow> k
      | None \<Rightarrow>
          (case (nonempty_str (jget d (cps ''group'')), nonempty_str (jget d (cps ''name''))) of
             (Some g, Some n) \<Rightarrow> compose_gatus_key g n
           | (_, Some n) \<Rightarrow> n
           | _ \<Rightarrow> cps ''unknown''))"

text \<open>\<open>bool(results[-1].get("success")) if results else False\<close>; \<open>None\<close> where it raises.\<close>

definition endpoint_up :: "json_obj \<Rightarrow> bool option" where
  "endpoint_up d =
     (let results = jget d (cps ''results'')
      in if \<not> truthy results then Some False
         else (case results of
             J_List l \<Rightarrow> (case last l of J_Obj r \<Rightarrow> Some (truthy (jget r (cps ''success''))) | _ \<Rightarrow> None)
           | _ \<Rightarrow> None))"

fun read_endpoints :: "json list \<Rightarrow> (str \<times> bool) list option" where
  "read_endpoints [] = Some []"
| "read_endpoints (J_Obj d # js) =
     (case (endpoint_up d, read_endpoints js) of
        (Some up, Some more_endpoints) \<Rightarrow> Some ((health_endpoint_name d, up) # more_endpoints)
      | _ \<Rightarrow> None)"
| "read_endpoints (_ # js) = None"

text \<open>Iterating over the body: an empty object or text gives nothing, any other value raises.\<close>

fun endpoints_of :: "json \<Rightarrow> (str \<times> bool) list option" where
  "endpoints_of (J_List l) = read_endpoints l"
| "endpoints_of (J_Obj d) = (if d = [] then Some [] else None)"
| "endpoints_of (J_Str s) = (if s = [] then Some [] else None)"
| "endpoints_of _ = None"

definition gatus_lines :: "health_env \<Rightarrow> (bool \<times> str) option" where
  "gatus_lines env =
     (case gatus_answer env of
        Inl e \<Rightarrow> Some (False, (cps ''Gatus: source unreachable ('' @ health_error_text (h_tables env) e @ cps '')''))
      | Inr data \<Rightarrow>
          map_option (\<lambda>endpoints.
            (let down = map fst (filter (\<lambda>(_, up). \<not> up) endpoints)
             in if endpoints = [] then (False, (cps ''Gatus: reachable but reported no endpoints''))
                else if down \<noteq> []
                  then (True, (cps ''Gatus: '' @ decimal (length endpoints) @ cps '' endpoints, DOWN: '' @ join [44, 32] down))
                else (False, (cps ''Gatus: all '' @ decimal (length endpoints) @ cps '' endpoints healthy''))))
            (endpoints_of data))"

section \<open>Prometheus\<close>

type_synonym metrics = "(str \<times> number) list"
type_synonym node_metrics = "(str \<times> metrics) list"

text \<open>\<open>d.get(key, default)\<close>.\<close>

definition jget_or :: "json \<Rightarrow> json_obj \<Rightarrow> str \<Rightarrow> json" where
  "jget_or dflt d k = (if jhas d k then jget d k else dflt)"

fun number_of :: "health_env \<Rightarrow> json \<Rightarrow> number option" where
  "number_of env (J_Int n) = map_option Fin (float_of_int n)"
| "number_of env (J_Float x) = Some (Fin x)"
| "number_of env (J_Bool b) = Some (Fin (of_bool b))"
| "number_of env (J_Str s) = text_number env s"
| "number_of env J_Nonfinite = Some (odd_number env)"
| "number_of env _ = None"

text \<open>\<open>v[1]\<close> of the sample's value; \<open>None\<close> where it raises.\<close>

definition second_item :: "json \<Rightarrow> json option" where
  "second_item v =
     (case v of
        J_List l \<Rightarrow> if 2 \<le> length l then Some (l ! 1) else None
      | J_Str s \<Rightarrow> if 2 \<le> length s then Some (J_Str [s ! 1]) else None
      | _ \<Rightarrow> None)"

text \<open>
  A job that is neither a text nor false stands for an exception here; the values of labels are
  texts in Prometheus' format.
\<close>

definition sample_node :: "json_obj \<Rightarrow> str option" where
  "sample_node d =
     (case jget_or (J_Obj []) d (cps ''metric'') of
        J_Obj metric \<Rightarrow>
          (case jget metric (cps ''job'') of
             J_Str job \<Rightarrow> Some (if job = [] then cps ''unidentified target'' else friendly_target job)
           | v \<Rightarrow> if truthy v then None else Some (cps ''unidentified target''))
      | _ \<Rightarrow> None)"

definition set_metric :: "str \<Rightarrow> str \<Rightarrow> number \<Rightarrow> node_metrics \<Rightarrow> node_metrics" where
  "set_metric node resource v nodes =
     AList.update node (AList.update resource v (case map_of nodes node of None \<Rightarrow> [] | Some m \<Rightarrow> m)) nodes"

definition read_sample :: "health_env \<Rightarrow> str \<Rightarrow> json \<Rightarrow> node_metrics \<Rightarrow> node_metrics option" where
  "read_sample env resource j nodes =
     (case j of
        J_Obj d \<Rightarrow>
          (case (sample_node d, second_item (jget_or (J_List [J_Null, J_Null]) d (cps ''value''))) of
             (Some node, Some v) \<Rightarrow>
               (if v = J_Null then Some nodes
                else map_option (\<lambda>x. set_metric node resource x nodes) (number_of env v))
           | _ \<Rightarrow> None)
      | _ \<Rightarrow> None)"

fun read_samples :: "health_env \<Rightarrow> str \<Rightarrow> json list \<Rightarrow> node_metrics \<Rightarrow> node_metrics option" where
  "read_samples env resource [] nodes = Some nodes"
| "read_samples env resource (j # js) nodes =
     (case read_sample env resource j nodes of None \<Rightarrow> None | Some nodes' \<Rightarrow> read_samples env resource js nodes')"

text \<open>\<open>payload.get("data", {}).get("result", [])\<close>, iterated over.\<close>

definition result_items :: "json \<Rightarrow> json list option" where
  "result_items payload =
     (case payload of
        J_Obj d \<Rightarrow>
          (case jget_or (J_Obj []) d (cps ''data'') of
             J_Obj data \<Rightarrow>
               (case jget_or (J_List []) data (cps ''result'') of
                  J_List l \<Rightarrow> Some l
                | J_Obj o' \<Rightarrow> Some (map (J_Str \<circ> fst) o')
                | J_Str s \<Rightarrow> Some (map (\<lambda>c. J_Str [c]) s)
                | _ \<Rightarrow> None)
           | _ \<Rightarrow> None)
      | _ \<Rightarrow> None)"

text \<open>The queries in turn; a failed one ends the reading and what was read stays.\<close>

fun read_nodes :: "health_env \<Rightarrow> (str \<times> str) list \<Rightarrow> node_metrics \<Rightarrow> (node_metrics \<times> str option) option" where
  "read_nodes env [] nodes = Some (nodes, None)"
| "read_nodes env ((resource, query) # rest) nodes =
     (case prometheus_answer env query of
        Inl e \<Rightarrow> Some (nodes, Some (health_error_text (h_tables env) e))
      | Inr payload \<Rightarrow>
          (case result_items payload of
             None \<Rightarrow> None
           | Some items \<Rightarrow>
               (case read_samples env resource items nodes of
                  None \<Rightarrow> None
                | Some nodes' \<Rightarrow> read_nodes env rest nodes')))"

section \<open>The report\<close>

definition crossing :: "metrics \<Rightarrow> str \<Rightarrow> str option" where
  "crossing m resource =
     (case (map_of m resource, bar_of resource) of
        (Some v, Some bar) \<Rightarrow>
          (if crossed_by bar v
           then Some (resource @ cps '' '' @ fixed 2 v @ cps '' '' @ th_unit bar @ cps '' crossed the '' @
             fixed_real 2 (th_value bar) @ cps '' bar ('' @ th_source bar @ cps '')'')
           else None)
      | _ \<Rightarrow> None)"

definition crossings :: "metrics \<Rightarrow> str list" where
  "crossings m = List.map_filter (crossing m) HEALTH_RESOURCES"

definition format_metrics :: "metrics \<Rightarrow> str" where
  "format_metrics m =
     (let parts = List.map_filter (\<lambda>r. map_option (figure r) (map_of m r)) HEALTH_RESOURCES
      in if parts = [] then cps ''no metrics'' else join [44, 32] parts)"

definition node_line :: "str \<times> metrics \<Rightarrow> str" where
  "node_line nm =
     fst nm @ [58, 32] @ format_metrics (snd nm) @
     (if crossings (snd nm) = [] then [] else (cps '' '' @ [8212] @ cps '' DEGRADED: '' @ join [59, 32] (crossings (snd nm))))"

definition bar_notes :: "str list" where
  "bar_notes =
     (let barred = filter (\<lambda>r. bar_of r \<noteq> None) HEALTH_RESOURCES
      in (if barred = [] then []
          else [(cps ''Bars, pinned from the live rules: '' @
            join [44, 32] (map (\<lambda>r. r @ [32] @ describe_threshold (the (bar_of r))) barred) @
            cps ''.'')]) @
         (if unbarred = [] then []
          else [(cps ''No bar for '' @ join [44, 32] unbarred @
            cps ('': no alert rule in either alerting system defines one, so th'' @
              ''e figure is reported without a verdict.''))]))"

definition health_report :: "bool \<Rightarrow> str list \<Rightarrow> str" where
  "health_report degraded ls =
     (cps ''Homelab status: '' @ (if degraded then cps ''DEGRADED'' else cps ''healthy'')) @ [10] @ join [10] ls"

text \<open>The result's text, and \<open>None\<close> where the tool raises.\<close>

definition run_health :: "health_env \<Rightarrow> str option" where
  "run_health env =
     (case gatus_lines env of
        None \<Rightarrow> None
      | Some (gatus_degraded, gatus_line) \<Rightarrow>
          (case read_nodes env QUERIES [] of
             None \<Rightarrow> None
           | Some (nodes, failed) \<Rightarrow>
               (let ordered = sort_key fst nodes;
                    degraded = gatus_degraded \<or> list_ex (\<lambda>nm. crossings (snd nm) \<noteq> []) ordered
                in Some (health_report degraded
                     (gatus_line # map node_line ordered @ (if nodes = [] then [] else bar_notes) @
                      (case failed of None \<Rightarrow> [] | Some e \<Rightarrow> [(cps ''Prometheus: source unreachable ('' @ e @ cps '')'')]))))))"

end
