(* ===== verification/Query_Renderers.thy ===== *)
theory Query_Renderers
  imports Homelab_Health Digest "HOL-Library.Monad_Syntax"
begin

text \<open>
  \<open>henk/tools/query_renderers.py\<close>: how a backend's answer becomes the text of a result. \<open>None\<close> is
  an exception, which the tool turns into its one failure sentence; it also stands for a ranking of
  values that are not all finite, which is not modelled. \<open>float\<close> and \<open>str\<close> of a JSON value,
  \<open>str.upper\<close> and \<open>urlsplit(s).hostname\<close> are arguments.
\<close>

section \<open>Reading an answer\<close>

record render_env =
  r_tables :: unicode
  r_number :: "str \<Rightarrow> number option"          \<comment> \<open>\<open>float(s)\<close>\<close>
  r_odd :: number                             \<comment> \<open>\<open>float\<close> of \<open>J_Nonfinite\<close>\<close>
  r_str :: "json \<Rightarrow> str"                     \<comment> \<open>\<open>str(v)\<close> of a value that is not a string\<close>
  r_upper :: "str \<Rightarrow> str"
  r_hostname :: "str \<Rightarrow> str option option"    \<comment> \<open>the outer \<open>None\<close>: it raises\<close>

type_synonym payloads = "(str \<times> json) list"
type_synonym sample = "number \<times> number"          \<comment> \<open>time and value\<close>

definition payload :: "payloads \<Rightarrow> str \<Rightarrow> json" where
  "payload ps role = (case map_of ps role of None \<Rightarrow> J_Null | Some j \<Rightarrow> j)"

fun objects :: "json list \<Rightarrow> json_obj list" where
  "objects [] = []"
| "objects (J_Obj d # js) = d # objects js"
| "objects (_ # js) = objects js"

definition result_series :: "json \<Rightarrow> json_obj list" where
  "result_series j =
     (case j of
        J_Obj d \<Rightarrow>
          (case jget d (cps ''data'') of
             J_Obj data \<Rightarrow> (case jget data (cps ''result'') of J_List l \<Rightarrow> objects l | _ \<Rightarrow> [])
           | _ \<Rightarrow> [])
      | _ \<Rightarrow> [])"

text \<open>The keys of an object as a \<open>dict\<close> has them: each once, where it first stood.\<close>

definition dict_keys :: "json_obj \<Rightarrow> str list" where
  "dict_keys d = rev (remdups (rev (map fst d)))"

definition series_labels :: "json_obj \<Rightarrow> (str \<times> str) list" where
  "series_labels series =
     (case jget series (cps ''metric'') of
        J_Obj m \<Rightarrow> List.map_filter (\<lambda>k. map_option (\<lambda>v. (k, v)) (as_str (jget m k))) (dict_keys m)
      | _ \<Rightarrow> [])"

definition label_of :: "(str \<times> str) list \<Rightarrow> str \<Rightarrow> str \<Rightarrow> str" where
  "label_of labels k dflt = (case map_of labels k of None \<Rightarrow> dflt | Some v \<Rightarrow> v)"

text \<open>\<open>float(v)\<close>: the inner \<open>None\<close> is a \<open>TypeError\<close> or \<open>ValueError\<close>, the outer one an overflow.\<close>

fun float_json :: "render_env \<Rightarrow> json \<Rightarrow> number option option" where
  "float_json env (J_Int n) = map_option (\<lambda>x. Some (Fin x)) (float_of_int n)"
| "float_json env (J_Float x) = Some (Some (Fin x))"
| "float_json env J_Nonfinite = Some (Some (r_odd env))"
| "float_json env (J_Bool b) = Some (Some (Fin (of_bool b)))"
| "float_json env (J_Str s) = Some (r_number env s)"
| "float_json env _ = Some None"

definition pair_of :: "render_env \<Rightarrow> json \<Rightarrow> sample option option" where
  "pair_of env raw =
     (case raw of
        J_List l \<Rightarrow>
          (if length l < 2 then Some None
           else do {
             first \<leftarrow> float_json env (l ! 0);
             (case first of
                None \<Rightarrow> Some None
              | Some t \<Rightarrow> do { second \<leftarrow> float_json env (l ! 1); Some (map_option (\<lambda>v. (t, v)) second) })
           })
      | _ \<Rightarrow> Some None)"

definition instant :: "render_env \<Rightarrow> json_obj \<Rightarrow> sample option option" where
  "instant env series = pair_of env (jget series (cps ''value''))"

fun pair_list :: "render_env \<Rightarrow> json list \<Rightarrow> sample list option" where
  "pair_list env [] = Some []"
| "pair_list env (j # js) =
     do { p \<leftarrow> pair_of env j; ps \<leftarrow> pair_list env js; Some (case p of None \<Rightarrow> ps | Some q \<Rightarrow> q # ps) }"

definition points_of :: "render_env \<Rightarrow> json_obj \<Rightarrow> sample list option" where
  "points_of env series =
     (case jget series (cps ''values'') of
        J_List l \<Rightarrow> pair_list env l
      | _ \<Rightarrow> do { p \<leftarrow> instant env series; Some (case p of None \<Rightarrow> [] | Some q \<Rightarrow> [q]) })"

section \<open>Floats\<close>

fun num_eq :: "number \<Rightarrow> number \<Rightarrow> bool" where
  "num_eq Nan _ = False"
| "num_eq x y = (x = y)"

fun num_minus :: "number \<Rightarrow> number \<Rightarrow> number" where
  "num_minus (Fin x) (Fin y) = Fin (x - y)"
| "num_minus Nan _ = Nan"
| "num_minus _ Nan = Nan"
| "num_minus (Infinite a) (Infinite b) = (if a = b then Nan else Infinite a)"
| "num_minus (Infinite a) (Fin _) = Infinite a"
| "num_minus (Fin _) (Infinite b) = Infinite (\<not> b)"

fun num_abs :: "number \<Rightarrow> number" where
  "num_abs (Fin x) = Fin \<bar>x\<bar>"
| "num_abs (Infinite _) = Infinite True"
| "num_abs Nan = Nan"

text \<open>A product with a positive number, and \<open>max(0.0, x)\<close>.\<close>

fun num_scale :: "real \<Rightarrow> number \<Rightarrow> number" where
  "num_scale k (Fin x) = Fin (k * x)"
| "num_scale k x = x"

definition at_least_zero :: "number \<Rightarrow> number" where
  "at_least_zero x = (if num_less (Fin 0) x then x else Fin 0)"

definition num_min :: "number list \<Rightarrow> number" where
  "num_min vs = foldl (\<lambda>cur v. if num_less v cur then v else cur) (hd vs) (tl vs)"

definition num_max :: "number list \<Rightarrow> number" where
  "num_max vs = foldl (\<lambda>cur v. if num_less cur v then v else cur) (hd vs) (tl vs)"

fun finite_part :: "number \<Rightarrow> real option" where
  "finite_part (Fin x) = Some x" | "finite_part _ = None"

fun all_finite :: "('a \<times> number) list \<Rightarrow> ('a \<times> real) list option" where
  "all_finite [] = Some []"
| "all_finite ((a, v) # rest) = do { x \<leftarrow> finite_part v; xs \<leftarrow> all_finite rest; Some ((a, x) # xs) }"

section \<open>Summaries\<close>

record summary =
  su_first :: number
  su_last :: number
  su_min :: number
  su_max :: number
  su_count :: nat
  su_first_at :: number
  su_last_at :: number
  su_min_at :: number
  su_min_last_at :: number
  su_max_at :: number
  su_max_last_at :: number

definition direction_of :: "summary \<Rightarrow> str" where
  "direction_of su =
     (let delta = num_minus (su_last su) (su_first su)
      in if num_less (num_abs delta) (Fin (1 / 10 ^ 9)) then cps ''flat''
         else if num_less (Fin 0) delta then cps ''rising'' else cps ''falling'')"

text \<open>\<open>None\<close> where no point equals the least or the greatest value, which only a \<open>nan\<close> causes.\<close>

definition summarise :: "real \<Rightarrow> sample list \<Rightarrow> summary option" where
  "summarise scale points =
     (let scaled = map (\<lambda>(t, v). (t, num_scale scale v)) points;
          vs = map snd scaled;
          lo = num_min vs; hi = num_max vs;
          at_lo = map fst (filter (\<lambda>(t, v). num_eq v lo) scaled);
          at_hi = map fst (filter (\<lambda>(t, v). num_eq v hi) scaled)
      in if points = [] \<or> at_lo = [] \<or> at_hi = [] then None
         else Some \<lparr>su_first = hd vs, su_last = last vs, su_min = lo, su_max = hi, su_count = length vs,
                su_first_at = fst (hd scaled), su_last_at = fst (last scaled), su_min_at = hd at_lo,
                su_min_last_at = last at_lo, su_max_at = hd at_hi, su_max_last_at = last at_hi\<rparr>)"

definition stamp_at :: "number \<Rightarrow> str option" where
  "stamp_at t = (case t of Fin x \<Rightarrow> stamp x | _ \<Rightarrow> None)"

definition extreme :: "number \<Rightarrow> number \<Rightarrow> number \<Rightarrow> str option" where
  "extreme v first_at last_at =
     do {
       a \<leftarrow> stamp_at first_at;
       b \<leftarrow> stamp_at last_at;
       Some (if first_at = last_at then (fixed 2 v @ cps '' at '' @ a)
             else (fixed 2 v @ cps '', first reached at '' @ a @ cps '' and last reached at '' @ b))
     }"

definition series_summary_line :: "summary \<Rightarrow> str \<Rightarrow> range_span option \<Rightarrow> str option" where
  "series_summary_line su unit window =
     do {
       finish \<leftarrow> (case window of
           Some w \<Rightarrow> map_option (\<lambda>e. (cps ''Window ends at '' @ e @ cps ''.'')) (stamp (range_end w))
         | None \<Rightarrow> Some (cps ''The window'' @ [39] @
           cps (''s end time was not supplied with this plan, so no end is sta'' @ ''ted.'')));
       a \<leftarrow> stamp_at (su_first_at su);
       b \<leftarrow> stamp_at (su_last_at su);
       lo \<leftarrow> extreme (su_min su) (su_min_at su) (su_min_last_at su);
       hi \<leftarrow> extreme (su_max su) (su_max_at su) (su_max_last_at su);
       Some (cps ''Summary: '' @ unit @ cps '', UTC times '' @ [8212] @ cps '' first '' @
         fixed 2 (su_first su) @ cps '' at '' @ a @ cps ''; last '' @ fixed 2 (su_last su) @
         cps '' at '' @ b @ cps ''; min '' @ lo @ cps ''; max '' @ hi @ cps ''. '' @
         decimal (su_count su) @ cps '' points, '' @ direction_of su @ cps ''. '' @ finish)
     }"

definition silence_text :: "real \<Rightarrow> str" where
  "silence_text seconds =
     (let minutes = max 1 (round_even (seconds / 60))
      in if minutes < 120 then decimal (nat minutes) @ cps '' minute'' @ (if minutes = 1 then [] else [115])
         else fixed_real 1 (seconds / 3600) @ cps '' hours'')"

definition short_of_last_point :: "number \<Rightarrow> range_span \<Rightarrow> bool" where
  "short_of_last_point last_at w \<longleftrightarrow> num_less last_at (Fin (last_point w - of_int (range_step w) / 2))"

definition window_lines :: "summary \<Rightarrow> range_span option \<Rightarrow> str list option" where
  "window_lines su window =
     (case window of
        None \<Rightarrow> Some []
      | Some w \<Rightarrow>
          if short_of_last_point (su_last_at su) w
          then do {
            t \<leftarrow> finite_part (su_last_at su);
            a \<leftarrow> stamp t;
            e \<leftarrow> stamp (range_end w);
            Some [(cps ''No sample for the last '' @ silence_text (range_end w - t) @
              cps '' of the window: the series'' @ [39] @ cps '' last sample is at '' @ a @
              cps '' and the window ends at '' @ e @
              cps (''. The figures above describe the series up to its last sampl'' @
                ''e, not the state at the window'') @
              [39] @ cps ''s end.'')]
          }
          else if 60 \<le> range_end w - last_point w
          then do {
            l \<leftarrow> stamp (last_point w);
            Some [(cps ''The last range point is at '' @ l @ cps '': the '' @ int_text (range_step w) @
              cps (''s step does not divide the window evenly, so nothing after t'' @ ''hat time was evaluated.''))]
          }
          else Some [])"

section \<open>Shared sentences\<close>

definition described_arguments :: "query_plan \<Rightarrow> str" where
  "described_arguments p =
     (if pl_arguments p = [] then cps ''no parameters'' else join [44, 32] (map (\<lambda>(k, v). k @ [61] @ v) (pl_arguments p)))"

definition not_derivable :: "query_plan \<Rightarrow> str \<Rightarrow> str" where
  "not_derivable p detail =
     (qe_name (pl_entry p) @ cps '' ('' @ described_arguments p @ cps ''): could not be derived '' @
       [8212] @ cps '' '' @ detail @ [10] @
       cps (''The argument was accepted and the query ran; there was no se'' @
         ''ries to summarise. That is not a reading of zero, and not a '' @ ''rejection.''))"

definition label_set :: "render_env \<Rightarrow> json_obj \<Rightarrow> str" where
  "label_set env series =
     [123] @ join [44, 32] (map (\<lambda>(k, v). k @ [61] @ v)
       (sort (filter (\<lambda>(k, v). projects (r_tables env) (k, J_Str v)) (series_labels series)))) @ [125]"

definition multiplicity :: "render_env \<Rightarrow> query_plan \<Rightarrow> str \<Rightarrow> json_obj list \<Rightarrow> str \<Rightarrow> str" where
  "multiplicity env p job found subject =
     (qe_name (pl_entry p) @ cps '' '' @ [8212] @ cps '' '' @ subject @ cps '': job '' @ job @
       cps '' returned '' @ decimal (length found) @
       cps '' series where exactly one was expected.'' @ [10] @
       cps (''No single figure is presented for it: one of several series '' @ ''rendered as the target'') @
       [39] @ cps ''s measurement would be a confident wrong answer.'' @ [10] @
       cps ''Their non-address labels are: '' @ join [59, 32] (map (label_set env) found) @
       cps (''. Any further difference lies in labels this tool drops beca'' @ ''use they carry addresses.''))"

definition caveat_lines :: "query_plan \<Rightarrow> str list" where
  "caveat_lines p = (if pl_caveats p = [] then [] else cps ''Caveats:'' # map (\<lambda>c. [45, 32] @ c) (pl_caveats p))"

definition plan_argument :: "query_plan \<Rightarrow> str \<Rightarrow> str option" where
  "plan_argument p name = map_of (pl_arguments p) name"

section \<open>The comparison with a bar\<close>

definition FOR_NOT_PINNED :: str where
  "FOR_NOT_PINNED = (cps ''the rule'' @ [39] @ cps ''s '' @ [96] @ cps ''for'' @ [96] @
    cps '' is not in the pinned record'')"

definition for_clause :: "threshold \<Rightarrow> str" where
  "for_clause bar =
     (case th_for bar of
        Some f \<Rightarrow> if f = [] then FOR_NOT_PINNED else (cps ''which fires once the condition holds for '' @ f)
      | None \<Rightarrow> FOR_NOT_PINNED)"

definition worst_reading :: "threshold \<Rightarrow> summary \<Rightarrow> number" where
  "worst_reading bar su = (case th_direction bar of Above \<Rightarrow> su_max su | Below \<Rightarrow> su_min su)"

definition bar_verdict :: "threshold \<Rightarrow> summary \<Rightarrow> str" where
  "bar_verdict bar su =
     (cps ''the '' @
       (case th_direction bar of Above \<Rightarrow> cps ''highest'' | Below \<Rightarrow> cps ''lowest'') @
       cps '' reading '' @ fixed 2 (worst_reading bar su) @ cps '' '' @
       (if crossed_by bar (worst_reading bar su) then cps ''crossed'' else cps ''stayed clear of'') @
       cps '' it'')"

text \<open>A branch is set and not empty, as the code tests it.\<close>

definition branch_of :: "threshold \<Rightarrow> str option" where
  "branch_of bar = (case th_branch bar of Some b \<Rightarrow> if b = [] then None else Some b | None \<Rightarrow> None)"

definition comparison_line :: "threshold \<Rightarrow> summary \<Rightarrow> str" where
  "comparison_line bar su =
     (let rule = (case branch_of bar of
            Some b \<Rightarrow> (cps ''the '' @ b @ cps '' branch of the live rule '' @ [96] @ th_source bar @ [96])
          | None \<Rightarrow> (cps ''pinned from the live rule '' @ [96] @ th_source bar @ [96]));
          sustained = (case th_for bar of
            Some f \<Rightarrow> if f = [] then (cps ''once sustained ('' @ FOR_NOT_PINNED @ cps '')'') else (cps ''once sustained for '' @ f)
          | None \<Rightarrow> (cps ''once sustained ('' @ FOR_NOT_PINNED @ cps '')''))
      in (cps ''Compared against '' @ fixed_real 2 (th_value bar) @ cps '' '' @ th_unit bar @
        cps '' ('' @
        (case th_direction bar of Above \<Rightarrow> cps ''above'' | Below \<Rightarrow> cps ''below'') @
        cps '' the bar), '' @ rule @ cps '', '' @ for_clause bar @ cps '': '' @ bar_verdict bar su) @
         (case branch_of bar of
            None \<Rightarrow> [46]
          | Some _ \<Rightarrow>
              if crossed_by bar (worst_reading bar su) then (cps '' '' @ [8212] @ cps '' this branch alone can fire '' @ [96] @ th_source bar @ [96] @
              cps '' '' @ sustained @ cps ''.'')
              else (cps '' '' @ [8212] @ cps '' below this branch'' @ [39] @
              cps ''s bar; on its own this branch would not fire the rule.'')) @
         (if th_note bar = [] then [] else [32] @ th_note bar))"

definition threshold_lines :: "query_plan \<Rightarrow> str \<Rightarrow> summary \<Rightarrow> str list" where
  "threshold_lines p key su =
     (case map_of (qe_thresholds (pl_entry p)) key of
        None \<Rightarrow> []
      | Some bar \<Rightarrow>
          comparison_line bar su #
          (case branch_of bar of
             None \<Rightarrow> []
           | Some _ \<Rightarrow>
               (let siblings = map fst (filter (\<lambda>(n, b). th_source b = th_source bar \<and> branch_of b \<noteq> None) (qe_thresholds (pl_entry p)))
                in [([96] @ th_source bar @ [96] @ cps '' fires on either branch, and the alert'' @ [39] @
              cps ''s value does not say which fired; check both '' @
              join (cps '' and '') (map (\<lambda>n. [96] @ n @ [96]) siblings) @ cps ''.'')])))"

section \<open>node_resource_trend\<close>

definition RESOURCE_UNITS :: "(str \<times> str) list" where
  "RESOURCE_UNITS =
     [(cps ''cpu'', cps ''percent busy''), (cps ''memory'', cps ''percent used''), (cps ''disk'', cps ''percent free''),
      (cps ''load'', cps ''load average (1m)''), (cps ''swap_used'', cps ''percent full''), (cps ''swap_io'', cps ''pages/s''),
      (cps ''temperature'', [176, 67])]"

text \<open>\<open>entry.job_map[node] if entry.job_map else ""\<close>, which raises on a node without a job.\<close>

definition strict_job :: "query_entry \<Rightarrow> str \<Rightarrow> str option" where
  "strict_job e node =
     (case qe_job_map e of None \<Rightarrow> Some [] | Some m \<Rightarrow> if m = [] then Some [] else map_of m node)"

definition lenient_job :: "query_entry \<Rightarrow> str \<Rightarrow> str" where
  "lenient_job e node =
     (case qe_job_map e of None \<Rightarrow> [] | Some m \<Rightarrow> (case map_of m node of None \<Rightarrow> [] | Some j \<Rightarrow> j))"

definition render_node_resource_trend :: "render_env \<Rightarrow> query_plan \<Rightarrow> payloads \<Rightarrow> str option" where
  "render_node_resource_trend env p ps =
     do {
       node \<leftarrow> plan_argument p (cps ''node'');
       resource \<leftarrow> plan_argument p (cps ''resource'');
       window \<leftarrow> plan_argument p (cps ''window'');
       job \<leftarrow> strict_job (pl_entry p) node;
       let found = result_series (payload ps resource);
       if found = [] then Some (not_derivable p (cps ''job '' @ job @ cps '' returned no series for '' @ resource @ cps '' over '' @ window))
       else if 1 < length found \<and> resource \<in> set (qe_single_series (pl_entry p))
         then Some (multiplicity env p job found (node @ cps '' '' @ resource @ cps '' over '' @ window))
       else do {
         points \<leftarrow> points_of env (hd found);
         if points = [] then Some (not_derivable p (cps ''job '' @ job @ cps '' returned a series with no samples''))
         else do {
           su \<leftarrow> summarise 1 points;
           line \<leftarrow> series_summary_line su (case map_of RESOURCE_UNITS resource of None \<Rightarrow> [] | Some u \<Rightarrow> u) (pl_range p);
           ends \<leftarrow> window_lines su (pl_range p);
           Some (join [10]
             ([(cps ''node_resource_trend '' @ [8212] @ cps '' '' @ node @ cps '' '' @ resource @
              cps '' over '' @ window @ cps '': '' @
              describe_target (r_tables env) job (series_labels (hd found))), line] @
              ends @
              (if threshold_lines p resource su = []
               then [(cps (''No bar: no alert rule in either alerting system defines a th'' @ ''reshold for '') @
              resource @ cps '', so this is the figure and its direction, nothing more.'')]
               else threshold_lines p resource su) @
              caveat_lines p))
         }
       }
     }"

section \<open>scrape_targets\<close>

definition target_error :: "unicode \<Rightarrow> json \<Rightarrow> (str \<times> str) option" where
  "target_error u target =
     (case target of
        J_Obj d \<Rightarrow>
          (case (jget d (cps ''labels''), jget d (cps ''lastError'')) of
             (J_Obj labels, J_Str message) \<Rightarrow>
               (case jget labels (cps ''job'') of
                  J_Str job \<Rightarrow> if message = [] then None else Some (job, scrub_addresses u message)
                | _ \<Rightarrow> None)
           | _ \<Rightarrow> None)
      | _ \<Rightarrow> None)"

definition errors_by_job :: "unicode \<Rightarrow> json \<Rightarrow> (str \<times> str) list" where
  "errors_by_job u j =
     (case j of
        J_Obj d \<Rightarrow>
          (case jget d (cps ''data'') of
             J_Obj data \<Rightarrow> (case jget data (cps ''activeTargets'') of J_List l \<Rightarrow> List.map_filter (target_error u) l | _ \<Rightarrow> [])
           | _ \<Rightarrow> [])
      | _ \<Rightarrow> [])"

definition TARGETS_UNAVAILABLE_IN_RECONSTRUCTION :: str where
  "TARGETS_UNAVAILABLE_IN_RECONSTRUCTION = (cps (''unavailable in reconstruction: the targets API has no histor'' @ ''ical form''))"

text \<open>\<open>up\<close> over the window by job; of two series of a job the later one counts.\<close>

fun ever_up :: "render_env \<Rightarrow> json_obj list \<Rightarrow> (str \<times> number) list \<Rightarrow> (str \<times> number) list option" where
  "ever_up env [] got = Some got"
| "ever_up env (s # ss) got =
     do {
       reading \<leftarrow> instant env s;
       ever_up env ss (AList.update (label_of (series_labels s) (cps ''job'') []) (case reading of None \<Rightarrow> Fin 0 | Some (_, v) \<Rightarrow> v) got)
     }"

definition down_rows :: "str list \<Rightarrow> str \<Rightarrow> bool \<Rightarrow> str list" where
  "down_rows messages window was_up =
     map (\<lambda>m. (cps ''         last scrape error: '' @ m)) messages @
     [if was_up then (cps ''         it was up at some point within the last '' @ window @
       cps ''; this query cannot say when.'')
      else (cps ''         not up at any point within the last '' @ window @
        cps ('': down for longer than the window, and no specific duration '' @ ''is available.''))]"

text \<open>The rows of one target, and whether it is down.\<close>

definition target_rows ::
    "render_env \<Rightarrow> bool \<Rightarrow> (str \<times> str) list \<Rightarrow> (str \<times> number) list \<Rightarrow> str \<Rightarrow> json_obj \<Rightarrow> (bool \<times> str list) option" where
  "target_rows env unavailable_targets errors up window s =
     do {
       reading \<leftarrow> instant env s;
       let labels = series_labels s;
       let job = label_of labels (cps ''job'') (cps ''unknown'');
       let target = describe_target (r_tables env) job labels;
       Some (case reading of
           None \<Rightarrow> (False, [(cps ''  ?    '' @ target @ cps '' '' @ [8212] @ cps '' no value in the response'')])
         | Some (_, v) \<Rightarrow>
             if num_le (Fin 1) v then (False, [(cps ''  UP   '' @ target @ cps '' '' @ [8212] @ cps '' up=1'')])
             else (True, (cps ''  DOWN '' @ target @ cps '' '' @ [8212] @ cps '' up=0'') #
               down_rows
                 (if unavailable_targets then [TARGETS_UNAVAILABLE_IN_RECONSTRUCTION]
                  else (case map snd (filter (\<lambda>(j, _). j = job) errors) of
                      [] \<Rightarrow> [(cps ''no scrape error recorded by the backend'')] | ms \<Rightarrow> ms))
                 window (num_le (Fin 1) (case map_of up job of None \<Rightarrow> Fin 0 | Some x \<Rightarrow> x))))
     }"

fun all_target_rows ::
    "render_env \<Rightarrow> bool \<Rightarrow> (str \<times> str) list \<Rightarrow> (str \<times> number) list \<Rightarrow> str \<Rightarrow> json_obj list \<Rightarrow> (bool \<times> str list) list option" where
  "all_target_rows env ua errors up window [] = Some []"
| "all_target_rows env ua errors up window (s # ss) =
     do { r \<leftarrow> target_rows env ua errors up window s; rs \<leftarrow> all_target_rows env ua errors up window ss; Some (r # rs) }"

definition render_scrape_targets :: "render_env \<Rightarrow> bool \<Rightarrow> query_plan \<Rightarrow> payloads \<Rightarrow> str option" where
  "render_scrape_targets env unavailable_targets p ps =
     (let found = result_series (payload ps (cps ''up''))
      in if found = []
         then Some (not_derivable p (cps ''bare '' @ [96] @ cps ''up'' @ [96] @
           cps ('' returned no series at all, which means the query did not re'' @
             ''ach a Prometheus holding scrape data'')))
         else do {
           up \<leftarrow> ever_up env (result_series (payload ps (cps ''up_over_window''))) [];
           let window = (case qe_lookback (pl_entry p) of Some l \<Rightarrow> if l = [] then cps ''the query window'' else l | None \<Rightarrow> cps ''the query window'');
           rws \<leftarrow> all_target_rows env unavailable_targets (errors_by_job (r_tables env) (payload ps (cps ''targets''))) up window found;
           Some (join [10]
             ((cps ''scrape_targets '' @ [8212] @ cps '' '' @ decimal (length found) @ cps '' targets, '' @
              decimal (length (filter fst rws)) @ cps '' down. Bare '' @ [96] @ cps ''up'' @ [96] @
              cps ('' is evaluated and every target is listed with its value, so '' @
                ''a healthy fleet is visibly healthy rather than indistinguish'' @ ''able from a broken query.'')) #
              concat (map snd rws) @ caveat_lines p))
         })"

section \<open>freshness_check\<close>

definition freshness_row :: "render_env \<Rightarrow> json_obj \<Rightarrow> str option" where
  "freshness_row env s =
     do {
       reading \<leftarrow> instant env s;
       let labels = series_labels s;
       let metric = label_of labels (cps ''__name__'') (cps ''unknown metric'');
       let job = label_of labels (cps ''job'') [];
       (case reading of
          None \<Rightarrow> Some (cps ''  '' @ metric @ cps '': no value in the response'')
        | Some (evaluated_at, raw) \<Rightarrow>
            do {
              at_raw \<leftarrow> stamp_at raw;
              Some (cps ''  '' @ metric @ cps '' '' @ [8212] @ cps '' '' @
              (if job = [] then cps ''unknown target'' else describe_target (r_tables env) job labels) @
              cps '': raw timestamp '' @ fixed 0 raw @ cps '' ('' @ at_raw @ cps '') '' @ [8594] @
              cps '' '' @ fixed 2 (num_scale (1 / 3600) (at_least_zero (num_minus evaluated_at raw))) @
              cps '' h ago'')
            })
     }"

fun all_rows :: "(json_obj \<Rightarrow> str option) \<Rightarrow> json_obj list \<Rightarrow> str list option" where
  "all_rows f [] = Some []"
| "all_rows f (s # ss) = do { r \<leftarrow> f s; rs \<leftarrow> all_rows f ss; Some (r # rs) }"

definition render_freshness_check :: "render_env \<Rightarrow> query_plan \<Rightarrow> payloads \<Rightarrow> str option" where
  "render_freshness_check env p ps =
     (let found = result_series (payload ps (cps ''timestamps''))
      in if found = [] then Some (not_derivable p (cps ''none of the eight timestamp metrics returned a series''))
         else do {
           rws \<leftarrow> all_rows (freshness_row env) found;
           Some (join [10]
             ((cps ''freshness_check '' @ [8212] @ cps '' '' @ decimal (length found) @
              cps '' timestamp series. Each pipeline'' @ [39] @
              cps (''s RAW timestamp is reported beside the age derived from it, '' @
                ''so a writer that has died shows an age that keeps growing ra'' @ ''ther than one that freezes.'')) #
              rws @ caveat_lines p))
         })"

end
