(* ===== verification/Node_Renderers.thy ===== *)
theory Node_Renderers
  imports Query_Renderers
begin

text \<open>
  The other renderers of \<open>henk/tools/query_renderers.py\<close>: an endpoint's history, a node's
  containers, its resolver, the cgroups whose memory moved and the units that failed; and the
  choice of an entry's renderer. \<open>None\<close> is read as in the theory of the first renderers.
\<close>

section \<open>endpoint_history\<close>

definition text_of :: "render_env \<Rightarrow> json \<Rightarrow> str" where
  "text_of env j = (case j of J_Str s \<Rightarrow> s | v \<Rightarrow> r_str env v)"

definition objects_under :: "str \<Rightarrow> json \<Rightarrow> json_obj list" where
  "objects_under key j =
     (case j of J_Obj d \<Rightarrow> (case jget d key of J_List l \<Rightarrow> objects l | _ \<Rightarrow> []) | _ \<Rightarrow> [])"

text \<open>\<open>for condition in latest.get("conditionResults") or []\<close>; \<open>None\<close>: not iterable.\<close>

definition condition_items :: "json_obj \<Rightarrow> json_obj list option" where
  "condition_items latest =
     (let v = jget latest (cps ''conditionResults'')
      in if \<not> truthy v then Some []
         else (case v of J_List l \<Rightarrow> Some (objects l) | J_Str _ \<Rightarrow> Some [] | J_Obj _ \<Rightarrow> Some [] | _ \<Rightarrow> None))"

text \<open>\<open>, 12 ms\<close> of a duration that is an \<open>int\<close> (a \<open>bool\<close> is one) or a \<open>float\<close>.\<close>

fun is_numeric :: "json \<Rightarrow> bool" where
  "is_numeric (J_Int _) = True"
| "is_numeric (J_Float _) = True"
| "is_numeric J_Nonfinite = True"
| "is_numeric (J_Bool _) = True"
| "is_numeric _ = False"

definition latency_text :: "render_env \<Rightarrow> json \<Rightarrow> str option" where
  "latency_text env j =
     (if is_numeric j
      then do { x \<leftarrow> float_json env j; Some (case x of None \<Rightarrow> [] | Some v \<Rightarrow> (cps '', '' @ fixed 0 (num_scale (1 / 1000000) v) @ cps '' ms'')) }
      else Some [])"

definition state_lines :: "render_env \<Rightarrow> json_obj list \<Rightarrow> str list option" where
  "state_lines env checks =
     (if checks = []
      then Some [(cps ''Current state: no check results stored '' @ [8212] @
        cps ('' Gatus keeps only about 1.7 hours of them, and resets its hi'' @ ''story on a config change.''))]
      else do {
        let latest = last checks;
        latency \<leftarrow> latency_text env (jget latest (cps ''duration''));
        items \<leftarrow> condition_items latest;
        let failing = map (\<lambda>c. scrub_addresses (r_tables env) (text_of env (jget_or (J_Str []) c (cps ''condition''))))
              (filter (\<lambda>c. \<not> truthy (jget c (cps ''success''))) items);
        Some ((cps ''Current state: '' @
          (if truthy (jget latest (cps ''success'')) then cps ''passing'' else cps ''FAILING'') @
          cps '' (last check '' @
          scrub_addresses (r_tables env) (text_of env (jget_or (J_Str (cps ''unknown'')) latest (cps ''timestamp''))) @
          cps '', HTTP '' @ text_of env (jget_or (J_Str (cps ''unknown'')) latest (cps ''status'')) @
          latency @ cps '')'') #
          (if failing = [] then [] else [cps ''Failing condition: '' @ join [59, 32] failing]))
      })"

definition event_type :: "render_env \<Rightarrow> json_obj \<Rightarrow> str" where
  "event_type env e = r_upper env (text_of env (jget_or (J_Str []) e (cps ''type'')))"

definition since_lines :: "render_env \<Rightarrow> json_obj list \<Rightarrow> str list" where
  "since_lines env events =
     (let transitions = filter (\<lambda>e. event_type env e \<in> {cps ''HEALTHY'', cps ''UNHEALTHY''}) events
      in if transitions = []
         then [(cps ''Since: unknown '' @ [8212] @
           cps ('' no transition events are recorded for this endpoint, so the'' @
             ''re is no state change to date. None is invented here.''))]
         else [(cps ''Since: '' @
           scrub_addresses (r_tables env) (text_of env (jget_or (J_Str (cps ''unknown'')) (last transitions) (cps ''timestamp''))) @
           cps '' '' @ [8212] @ cps '' the last '' @ event_type env (last transitions) @
           cps ('' transition, taken from the events log rather than from the '' @ ''check results.'')),
               (cps ''Transitions recorded: '' @ decimal (length transitions) @ cps '' across '' @
              decimal (length events) @ cps '' events.'')])"

definition uptime_line :: "render_env \<Rightarrow> str \<Rightarrow> json \<Rightarrow> str option" where
  "uptime_line env window uptime =
     (if is_numeric uptime \<and> uptime \<noteq> J_Bool True \<and> uptime \<noteq> J_Bool False
      then do {
        x \<leftarrow> float_json env uptime;
        Some (case x of None \<Rightarrow> [] | Some v \<Rightarrow> (cps ''Uptime over '' @ window @ cps '': '' @ fixed 2 (num_scale 100 v) @ cps ''%''))
      }
      else Some (cps ''Uptime over '' @ window @ cps '': not available from the backend.''))"

definition render_endpoint_history :: "render_env \<Rightarrow> query_plan \<Rightarrow> payloads \<Rightarrow> str option" where
  "render_endpoint_history env p ps =
     (let endpoint = (case plan_argument p (cps ''endpoint'') of None \<Rightarrow> [] | Some e \<Rightarrow> e);
          window = (case plan_argument p (cps ''window'') of None \<Rightarrow> [] | Some w \<Rightarrow> w)
      in case payload ps (cps ''statuses'') of
           J_Obj d \<Rightarrow>
             do {
               let described = (case (jget d (cps ''group''), jget d (cps ''name'')) of
                   (J_Str g, J_Str n) \<Rightarrow> (cps '' ('' @ g @ cps '' / '' @ n @ cps '')'') | _ \<Rightarrow> []);
               state \<leftarrow> state_lines env (objects_under (cps ''results'') (J_Obj d));
               uptime \<leftarrow> uptime_line env window (payload ps (cps ''uptime''));
               Some (join [10]
                 ((cps ''endpoint_history '' @ [8212] @ cps '' '' @ endpoint @ described @ cps '' over '' @ window) # state @
                  since_lines env (objects_under (cps ''events'') (J_Obj d)) @ uptime # caveat_lines p))
             }
         | _ \<Rightarrow> Some (not_derivable p (cps ''Gatus returned no status object for this endpoint'')))"

section \<open>container_state\<close>

type_synonym readings = "(str \<times> sample) list"

fun container_readings :: "render_env \<Rightarrow> json_obj list \<Rightarrow> readings \<Rightarrow> readings option" where
  "container_readings env [] got = Some got"
| "container_readings env (s # ss) got =
     do {
       reading \<leftarrow> instant env s;
       container_readings env ss
         (case (map_of (series_labels s) (cps ''name''), reading) of
            (Some name, Some r) \<Rightarrow> if name = [] then got else AList.update name r got
          | _ \<Rightarrow> got)
     }"

definition by_container :: "render_env \<Rightarrow> json \<Rightarrow> readings option" where
  "by_container env j = container_readings env (result_series j) []"

definition lower_letter :: "nat \<Rightarrow> bool" where "lower_letter c \<longleftrightarrow> 97 \<le> c \<and> c \<le> 122"

definition auto_named :: "unicode \<Rightarrow> str \<Rightarrow> bool" where
  "auto_named u name \<longleftrightarrow>
     (let a = takeWhile lower_letter name; r = drop (length a) name; b = takeWhile lower_letter (tl r); d = drop (length b) (tl r)
      in a \<noteq> [] \<and> r \<noteq> [] \<and> hd r = 95 \<and> b \<noteq> [] \<and> (d = [] \<or> (length d = 1 \<and> re_digit u (hd d))))"

definition auto_name_annotation :: "unicode \<Rightarrow> str \<Rightarrow> str option" where
  "auto_name_annotation u name =
     (if auto_named u name
      then Some (cps ''name looks auto-generated (Docker'' @ [39] @
        cps ''s adjective_surname form): probably an ephemeral '' @ [96] @ cps ''docker run'' @ [96] @
        cps '' container, such as the nightly backup'' @ [39] @ cps ''s '' @ [96] @
        cps ''docker run --rm'' @ [96] @ cps ''; a hand-chosen name can share this form'')
      else None)"

definition annotated :: "str option \<Rightarrow> str" where
  "annotated note = (case note of None \<Rightarrow> [] | Some t \<Rightarrow> (cps '' '' @ [8212] @ cps '' '' @ t))"

text \<open>\<open>reason.strip().rstrip(".")\<close>\<close>

definition hole_clause :: "str \<Rightarrow> str" where
  "hole_clause reason = rev (dropWhile (\<lambda>c. c = 46) (rev (strip reason)))"

definition mib :: "number \<Rightarrow> str" where
  "mib v = fixed 1 (num_scale (1 / 1048576) v) @ cps '' MiB''"

definition top_readings :: "render_env \<Rightarrow> readings \<Rightarrow> str option" where
  "top_readings env rs =
     do {
       ranked \<leftarrow> all_finite (map (\<lambda>(name, (_, v)). (name, v)) rs);
       let shown = take 3 (sort_key (\<lambda>(name, x). (- x, name)) ranked);
       Some (if shown = [] then cps ''no series returned''
             else join [44, 32] (map (\<lambda>(name, x). scrub_addresses (r_tables env) name @ cps '' ('' @ mib (Fin x) @ [41]) shown))
     }"

record container_tables =
  ct_last_seen :: readings
  ct_created :: readings
  ct_oom :: readings
  ct_health :: readings
  ct_working_set :: readings
  ct_swap :: readings
  ct_restarts_15m :: readings
  ct_restarts_24h :: readings

definition read_containers :: "render_env \<Rightarrow> payloads \<Rightarrow> container_tables option" where
  "read_containers env ps =
     do {
       a \<leftarrow> by_container env (payload ps (cps ''last_seen''));
       b \<leftarrow> by_container env (payload ps (cps ''created''));
       c \<leftarrow> by_container env (payload ps (cps ''oom_events''));
       d \<leftarrow> by_container env (payload ps (cps ''health_state''));
       e \<leftarrow> by_container env (payload ps (cps ''memory_working_set''));
       f \<leftarrow> by_container env (payload ps (cps ''swap''));
       g \<leftarrow> by_container env (payload ps (cps ''restarts_15m''));
       h \<leftarrow> by_container env (payload ps (cps ''restarts_24h''));
       Some \<lparr>ct_last_seen = a, ct_created = b, ct_oom = c, ct_health = d, ct_working_set = e, ct_swap = f,
             ct_restarts_15m = g, ct_restarts_24h = h\<rparr>
     }"

definition container_names :: "container_tables \<Rightarrow> str list" where
  "container_names ct =
     sort (remdups (map fst (ct_last_seen ct) @ map fst (ct_created ct) @ map fst (ct_oom ct) @ map fst (ct_health ct) @
       map fst (ct_working_set ct) @ map fst (ct_swap ct)))"

definition reading_value :: "readings \<Rightarrow> str \<Rightarrow> number option" where
  "reading_value rs name = map_option snd (map_of rs name)"

definition restart_count :: "readings \<Rightarrow> str \<Rightarrow> str \<Rightarrow> str" where
  "restart_count rs name window =
     (case reading_value rs name of Some v \<Rightarrow> fixed 0 v @ cps '' in '' @ window | None \<Rightarrow> cps ''no series in '' @ window)"

definition container_row :: "render_env \<Rightarrow> (str \<times> str) list \<Rightarrow> container_tables \<Rightarrow> str \<Rightarrow> str option" where
  "container_row env holes ct name =
     do {
       created \<leftarrow> (case reading_value (ct_created ct) name of
           None \<Rightarrow> Some []
         | Some v \<Rightarrow> map_option (\<lambda>s. [(cps ''created '' @ s @ cps '' '' @ [8212] @ cps '' creation time, not its last start'')]) (stamp_at v));
       let parts =
         (case map_of (ct_last_seen ct) name of
            None \<Rightarrow> []
          | Some (evaluated_at, v) \<Rightarrow> [(cps ''last seen '' @ fixed 0 (at_least_zero (num_minus evaluated_at v)) @ cps '' s ago'')]) @
         [case map_of holes (cps ''health_state'') of
            Some reason \<Rightarrow> (cps ''health state unavailable: '' @ hole_clause reason)
          | None \<Rightarrow>
              (case reading_value (ct_health ct) name of
                 Some v \<Rightarrow> (cps ''health state '' @ fixed 0 v @ cps '' (the exporter'' @ [39] @ cps ''s own encoding)'')
               | None \<Rightarrow> (cps ''health state: no series for this container''))] @
         (case reading_value (ct_oom ct) name of None \<Rightarrow> [] | Some v \<Rightarrow> [(cps ''OOM events '' @ fixed 0 v)]) @
         [case reading_value (ct_working_set ct) name of Some v \<Rightarrow> cps ''working set '' @ mib v | None \<Rightarrow> cps ''working set: no series''] @
         [case reading_value (ct_swap ct) name of Some v \<Rightarrow> cps ''swap '' @ mib v | None \<Rightarrow> cps ''swap: no series''] @
         [case map_of holes (cps ''restarts'') of
            Some reason \<Rightarrow> (cps ''restarts unavailable: '' @ hole_clause reason)
          | None \<Rightarrow>
              (if map_of (ct_restarts_15m ct) name \<noteq> None \<or> map_of (ct_restarts_24h ct) name \<noteq> None
               then (cps ''restarts '' @ restart_count (ct_restarts_15m ct) name (cps ''15m'') @ cps '', '' @
              restart_count (ct_restarts_24h ct) name (cps ''24h''))
               else cps ''restarts: no series'')] @
         created;
       Some ((cps ''  '' @ scrub_addresses (r_tables env) name @ cps '': '' @ join [59, 32] parts) @ annotated (auto_name_annotation (r_tables env) name))
     }"

fun container_rows :: "render_env \<Rightarrow> (str \<times> str) list \<Rightarrow> container_tables \<Rightarrow> str list \<Rightarrow> str list option" where
  "container_rows env holes ct [] = Some []"
| "container_rows env holes ct (n # ns) =
     do { r \<leftarrow> container_row env holes ct n; rs \<leftarrow> container_rows env holes ct ns; Some (r # rs) }"

definition render_container_state :: "render_env \<Rightarrow> query_plan \<Rightarrow> payloads \<Rightarrow> str option" where
  "render_container_state env p ps =
     do {
       node \<leftarrow> plan_argument p (cps ''node'');
       ct \<leftarrow> read_containers env ps;
       let names = container_names ct;
       if names = []
       then Some (not_derivable p (cps (''the container-metrics exporter returned no container series '' @ ''for this node '') @
         [8212] @ cps '' which is not the same statement as '' @ [39] @
         cps ''no containers are running'' @ [39]))
       else do {
         rws \<leftarrow> container_rows env (pl_aspects p) ct names;
         most \<leftarrow> top_readings env (ct_working_set ct);
         swapped \<leftarrow> top_readings env (ct_swap ct);
         Some (join [10]
           ([(cps ''container_state '' @ [8212] @ cps '' '' @
             describe_target (r_tables env) (lenient_job (pl_entry p) node) [] @ cps '': '' @
             decimal (length names) @ cps '' containers currently reporting.''),
             (cps ''Highest working set: '' @ most @ cps ''. Highest swap: '' @ swapped @
              cps (''. Working set includes active page cache, which is what memo'' @
                ''ry pressure tracks. Swap held by a container shows where pag'' @
                ''es went, not who caused the pressure. If a swap-out time is '' @
                ''known from another source, compare working-set changes aroun'' @ ''d it to find the cause.''))] @
            rws @ caveat_lines p))
       }
     }"

definition render_named_container_reading :: "render_env \<Rightarrow> str \<Rightarrow> str \<Rightarrow> json \<Rightarrow> str option" where
  "render_named_container_reading env node container j =
     (case result_series j of
        [] \<Rightarrow> Some (container @ cps '' on '' @ node @
          cps ('': the guarded expression returned no series at all, which sh'' @ ''ould not happen '') @
          [8212] @ cps '' '' @ [96] @ cps ''or vector()'' @ [96] @
          cps ('' guarantees a value. Treat this as a backend problem, not as'' @
            '' a statement about the container.''))
      | s # _ \<Rightarrow>
          do {
            reading \<leftarrow> instant env s;
            let labels = series_labels s;
            (case reading of
               None \<Rightarrow> Some (container @ cps '' on '' @ node @ cps '': no value in the response.'')
             | Some (_, v) \<Rightarrow>
                 if label_of labels (cps ''name'') [] = [] \<or> num_le v (Fin 0)
                 then Some (container @ cps '' on '' @ node @
              cps ('': absent from the container-metrics exporter. The exporter d'' @ ''rops a container'') @
              [39] @
              cps (''s series entirely when it stops, so this container may be st'' @ ''opped or removed '') @
              [8212] @ cps '' the reading is the guard'' @ [39] @
              cps ''s fallback value, not a measurement of the container.'')
                 else do {
                   t \<leftarrow> stamp_at v;
                   Some (container @ cps '' on '' @ node @ cps '': last seen '' @ t @ cps '' ('' @
              describe_target (r_tables env) (label_of labels (cps ''job'') []) labels @ cps '').'')
                 })
          })"

section \<open>dns_performance\<close>

definition host_of :: "render_env \<Rightarrow> str \<Rightarrow> str option" where
  "host_of env v =
     (if contains (cps ''://'') v then map_option (\<lambda>h. case h of None \<Rightarrow> [] | Some s \<Rightarrow> s) (r_hostname env v)
      else Some (if 58 \<in> set v then rev (after_char 58 (rev v)) else v))"

text \<open>The host of each node; of two series of a node the later one counts.\<close>

fun node_hosts :: "render_env \<Rightarrow> json_obj list \<Rightarrow> (str \<times> str) list \<Rightarrow> (str \<times> str) list option" where
  "node_hosts env [] got = Some got"
| "node_hosts env (s # ss) got =
     (let labels = series_labels s; instance_label = label_of labels (cps ''instance'') []
      in case map_of NODE_FOR_JOB (label_of labels (cps ''job'') []) of
           None \<Rightarrow> node_hosts env ss got
         | Some node \<Rightarrow>
             if node = [] \<or> instance_label = [] then node_hosts env ss got
             else do { h \<leftarrow> host_of env instance_label; node_hosts env ss (AList.update node h got) })"

fun series_on_host :: "render_env \<Rightarrow> str \<Rightarrow> json_obj list \<Rightarrow> json_obj list option" where
  "series_on_host env host [] = Some []"
| "series_on_host env host (s # ss) =
     do {
       h \<leftarrow> host_of env (label_of (series_labels s) (cps ''server'') []);
       rest \<leftarrow> series_on_host env host ss;
       Some (if h = host then s # rest else rest)
     }"

definition dns_bars :: "query_entry \<Rightarrow> str \<Rightarrow> (str \<times> threshold) list" where
  "dns_bars e node =
     List.map_filter (\<lambda>(lb, key). map_option (\<lambda>b. (lb, b)) (map_of (qe_thresholds e) key))
       [(cps ''warning'', node @ cps ''_warning''), (cps ''critical'', node @ cps ''_critical''),
        (cps ''fleet-wide critical'', cps ''fleet_critical'')]"

definition dns_bar_text :: "str \<times> threshold \<Rightarrow> str" where
  "dns_bar_text lb_bar =
     (case lb_bar of (lb, bar) \<Rightarrow>
        (lb @ cps '' '' @ fixed_real 2 (th_value bar) @ cps '' '' @ th_unit bar @ cps '' ('' @ [96] @
          th_source bar @ [96] @ cps '', '') @
        (case th_for bar of Some f \<Rightarrow> if f = [] then FOR_NOT_PINNED else cps ''for '' @ f | None \<Rightarrow> FOR_NOT_PINNED) @ [41])"

definition dns_bar_lines :: "query_entry \<Rightarrow> str \<Rightarrow> summary \<Rightarrow> str list" where
  "dns_bar_lines e node su =
     (let bars = dns_bars e node;
          crossed = map fst (filter (\<lambda>(_, b). num_less (Fin (th_value b)) (su_max su)) bars)
      in if bars = [] then []
         else [(cps ''Bars for '' @ node @ cps '': '' @ join [59, 32] (map dns_bar_text bars) @ cps '' '' @
           [8212] @ cps '' '') @
           (if crossed = [] then (cps ''the highest reading '' @ fixed 2 (su_max su) @ cps '' stayed clear of all of them'')
            else cps ''crossed: '' @ join [44, 32] crossed) @ [46]])"

definition baseline_lines :: "query_entry \<Rightarrow> str \<Rightarrow> summary \<Rightarrow> str list" where
  "baseline_lines e node su =
     (case map_of (qe_baselines e) node of
        None \<Rightarrow> []
      | Some baseline \<Rightarrow>
          (let drift = num_minus (su_last su) (Fin baseline)
           in [(cps ''Measured 24h baseline for '' @ node @ cps '': '' @ fixed_real 2 baseline @
             cps '' ms '' @ [8212] @ cps '' the last reading is '' @ fixed 2 (num_abs drift) @
             cps '' ms '' @ (if num_le (Fin 0) drift then cps ''above'' else cps ''below'') @ cps '' it.'')]))"

definition render_dns_performance :: "render_env \<Rightarrow> query_plan \<Rightarrow> payloads \<Rightarrow> str option" where
  "render_dns_performance env p ps =
     do {
       node \<leftarrow> plan_argument p (cps ''node'');
       window \<leftarrow> plan_argument p (cps ''window'');
       hosts \<leftarrow> node_hosts env (result_series (payload ps (cps ''node_mapping''))) [];
       let host = (case map_of hosts node of None \<Rightarrow> [] | Some h \<Rightarrow> h);
       if host = []
       then Some (not_derivable p (node @ [39] @
         cps (''s node-exporter series are absent, so the AdGuard series bel'' @
           ''onging to it cannot be identified. The mapping is derived at'' @
           '' query time from job-labelled series and is deliberately sto'' @
           ''red nowhere, so there is no fallback table to fall back to'')))
       else do {
         found \<leftarrow> series_on_host env host (result_series (payload ps (cps ''series'')));
         if found = []
         then Some (not_derivable p (cps ''no AdGuard series matched '' @ node @ [39] @
           cps ''s node-exporter host, so this node'' @ [39] @
           cps ''s resolver latency cannot be attributed''))
         else if 1 < length found then Some (multiplicity env p (cps ''adguard-exporter'') found (node @ cps '' over '' @ window))
         else do {
           points \<leftarrow> points_of env (hd found);
           if points = [] then Some (not_derivable p (node @ [39] @ cps ''s AdGuard series carried no samples''))
           else do {
             su \<leftarrow> summarise 1000 points;
             line \<leftarrow> series_summary_line su (cps ''ms'') (pl_range p);
             ends \<leftarrow> window_lines su (pl_range p);
             Some (join [10]
               ([(cps ''dns_performance '' @ [8212] @ cps '' '' @ node @ cps '' over '' @ window @
              cps (''. The node-to-series mapping is derived at query time from j'' @
                ''ob-labelled series; no address is stored in the repository o'' @
                ''r in configuration, and none appears below.'')), line] @
                ends @ baseline_lines (pl_entry p) node su @ dns_bar_lines (pl_entry p) node su @ caveat_lines p))
           }
         }
       }
     }"

section \<open>memory_movers\<close>

definition readable_answer :: "json \<Rightarrow> bool" where
  "readable_answer j \<longleftrightarrow>
     (case j of
        J_Obj d \<Rightarrow>
          jget d (cps ''status'') = J_Str (cps ''success'') \<and>
          (case jget d (cps ''data'') of J_Obj data \<Rightarrow> as_list (jget data (cps ''result'')) \<noteq> None | _ \<Rightarrow> False)
      | _ \<Rightarrow> False)"

definition range_end_lines :: "range_span option \<Rightarrow> str \<Rightarrow> str list option" where
  "range_end_lines window judged =
     (case window of
        None \<Rightarrow> Some [(cps (''The range window was not supplied with this plan, so no end '' @ ''time is stated and '') @
          judged @ cps '' is not judged.'')]
      | Some w \<Rightarrow>
          do {
            e \<leftarrow> stamp (range_end w);
            if 60 \<le> range_end w - last_point w
            then do {
              l \<leftarrow> stamp (last_point w);
              Some [(cps ''Window ends at '' @ e @ cps ''.''),
                (cps ''The last range point is at '' @ l @ cps '': the '' @ int_text (range_step w) @
              cps ''s step does not divide the window evenly, so '' @ judged @
              cps '' is judged at that point.'')]
            }
            else Some [(cps ''Window ends at '' @ e @ cps ''.'')]
          })"

definition MOVERS_SHOWN :: nat where "MOVERS_SHOWN = 5"

text \<open>The first series of each cgroup \<open>id\<close>.\<close>

fun series_by_id :: "json_obj list \<Rightarrow> (str \<times> json_obj) list" where
  "series_by_id [] = []"
| "series_by_id (s # ss) =
     (let cgroup = label_of (series_labels s) (cps ''id'') []
      in if cgroup = [] then series_by_id ss
         else (cgroup, s) # filter (\<lambda>(c, _). c \<noteq> cgroup) (series_by_id ss))"

text \<open>\<open>/system\.slice/(?P<unit>[^/]+\.service)\<close> on the whole text.\<close>

definition host_unit :: "str \<Rightarrow> str option" where
  "host_unit cgroup =
     (let unit = drop (length (cps ''/system.slice/'')) cgroup
      in if prefix (cps ''/system.slice/'') cgroup \<and> suffix (cps ''.service'') unit \<and> 8 < length unit \<and> 47 \<notin> set unit
         then Some unit else None)"

datatype population = Container_Mover | Unit_Mover | Other_Mover

definition mover_name :: "unicode \<Rightarrow> str \<Rightarrow> (str \<times> str) list \<Rightarrow> population \<times> str \<times> str option" where
  "mover_name u cgroup labels =
     (let name = label_of labels (cps ''name'') []
      in if name \<noteq> [] then (Container_Mover, (cps ''container '' @ [96] @ scrub_addresses u name @ [96]), auto_name_annotation u name)
         else (case host_unit cgroup of
             Some unit \<Rightarrow> (Unit_Mover, (cps ''host unit '' @ [96] @ scrub_addresses u unit @ [96]), None)
           | None \<Rightarrow> (Other_Mover, (cps ''cgroup '' @ [96] @ scrub_addresses u cgroup @ [96]), None)))"

record mover =
  mv_cgroup :: str
  mv_peak :: real
  mv_low :: real
  mv_labels :: "(str \<times> str) list"

definition mv_moved :: "mover \<Rightarrow> real" where "mv_moved m = mv_peak m - mv_low m"

text \<open>The later labels win: those of the maximum over those of the range answer.\<close>

definition merged_labels :: "(str \<times> str) list \<Rightarrow> (str \<times> str) list \<Rightarrow> (str \<times> str) list" where
  "merged_labels old new = fold (\<lambda>(k, v). AList.update k v) new old"

fun read_movers ::
    "render_env \<Rightarrow> (str \<times> json_obj) list \<Rightarrow> (str \<times> json_obj) list \<Rightarrow> (str \<times> json_obj) list \<Rightarrow> mover list option" where
  "read_movers env minima ranged [] = Some []"
| "read_movers env minima ranged ((cgroup, s) # rest) =
     do {
       peak \<leftarrow> instant env s;
       low \<leftarrow> (case map_of minima cgroup of None \<Rightarrow> Some None | Some m \<Rightarrow> instant env m);
       movers \<leftarrow> read_movers env minima ranged rest;
       (case (peak, low) of
          (Some (_, hi), Some (_, lo)) \<Rightarrow>
            do {
              h \<leftarrow> finite_part hi;
              l \<leftarrow> finite_part lo;
              Some (\<lparr>mv_cgroup = cgroup, mv_peak = h, mv_low = l,
                     mv_labels = merged_labels (case map_of ranged cgroup of None \<Rightarrow> [] | Some r \<Rightarrow> series_labels r) (series_labels s)\<rparr> # movers)
            }
        | _ \<Rightarrow> Some movers)
     }"

definition rank_movers :: "mover list \<Rightarrow> mover list" where
  "rank_movers ms = sort_key (\<lambda>m. (- mv_moved m, mv_cgroup m)) ms"

definition mover_timing :: "bool \<Rightarrow> sample list \<Rightarrow> str option" where
  "mover_timing range_readable points =
     (if points = []
      then Some (cps ''peak time not resolved: '' @
        (if range_readable then cps ''no range sample for this cgroup'' else cps ''the range answer could not be read''))
      else do {
        su \<leftarrow> summarise 1 points;
        a \<leftarrow> stamp_at (su_max_at su);
        b \<leftarrow> stamp_at (su_max_last_at su);
        c \<leftarrow> stamp_at (su_min_at su);
        Some ((cps ''peak at '' @ a) @ (if su_max_last_at su \<noteq> su_max_at su then (cps '', last reached at '' @ b) else []) @ (cps ''; lowest at '' @ c))
      })"

definition mover_row ::
    "render_env \<Rightarrow> range_span option \<Rightarrow> bool \<Rightarrow> (str \<times> json_obj) list \<Rightarrow> nat \<times> mover \<Rightarrow> str option" where
  "mover_row env window range_readable ranged placed =
     (case placed of (place, m) \<Rightarrow>
        do {
          let (_, lb, note) = mover_name (r_tables env) (mv_cgroup m) (mv_labels m);
          points \<leftarrow> (case map_of ranged (mv_cgroup m) of None \<Rightarrow> Some [] | Some s \<Rightarrow> points_of env s);
          timing \<leftarrow> mover_timing range_readable points;
          let gone = (case window of None \<Rightarrow> False
            | Some w \<Rightarrow> range_readable \<and> (points = [] \<or> short_of_last_point (fst (last points)) w));
          Some ((cps ''  '' @ decimal place @ cps ''. '' @ lb @ cps '': moved by '' @ mib (Fin (mv_moved m)) @
            cps '' (min '' @ mib (Fin (mv_low m)) @ cps '', peak '' @ mib (Fin (mv_peak m)) @
            cps ''); '' @ timing) @
            (if gone then (cps '' '' @ [8212] @ cps '' no series at the window'' @ [39] @
              cps ''s end (stopped or exited)'') else []) @ annotated note)
        })"

fun mover_rows ::
    "render_env \<Rightarrow> range_span option \<Rightarrow> bool \<Rightarrow> (str \<times> json_obj) list \<Rightarrow> (nat \<times> mover) list \<Rightarrow> str list option" where
  "mover_rows env window rr ranged [] = Some []"
| "mover_rows env window rr ranged (m # ms) =
     do { r \<leftarrow> mover_row env window rr ranged m; rs \<leftarrow> mover_rows env window rr ranged ms; Some (r # rs) }"

definition counted :: "nat \<Rightarrow> str \<Rightarrow> str" where
  "counted n noun = decimal n @ [32] @ noun @ (if n = 1 then [] else [115])"

definition count_population :: "render_env \<Rightarrow> population \<Rightarrow> mover list \<Rightarrow> nat" where
  "count_population env pop ms = length (filter (\<lambda>m. fst (mover_name (r_tables env) (mv_cgroup m) (mv_labels m)) = pop) ms)"

definition render_memory_movers :: "render_env \<Rightarrow> query_plan \<Rightarrow> payloads \<Rightarrow> str option" where
  "render_memory_movers env p ps =
     do {
       node \<leftarrow> plan_argument p (cps ''node'');
       window_name \<leftarrow> plan_argument p (cps ''window'');
       let job = lenient_job (pl_entry p) node;
       let maxima = series_by_id (result_series (payload ps (cps ''movers_max'')));
       let range_readable = readable_answer (payload ps (cps ''movers_series''));
       let ranged = (if range_readable then series_by_id (result_series (payload ps (cps ''movers_series''))) else []);
       if \<not> (readable_answer (payload ps (cps ''movers_max'')) \<and> readable_answer (payload ps (cps ''movers_min'')))
       then Some (not_derivable p (cps ''job '' @ job @ [39] @
         cps (''s working-set answer could not be read, so no ranking is giv'' @
           ''en. An unreadable answer is not a ranking of nothing'')))
       else if maxima = []
       then Some (not_derivable p (cps ''job '' @ job @
         cps ('' returned no working-set series for any host unit or named c'' @ ''ontainer over '') @
         window_name @
         cps ('': no cgroup series were returned, which is not the same stat'' @ ''ement as '') @
         [39] @ cps ''nothing moved'' @ [39]))
       else do {
         movers \<leftarrow> read_movers env (series_by_id (result_series (payload ps (cps ''movers_min'')))) ranged maxima;
         if movers = []
         then Some (not_derivable p (cps ''job '' @ job @ cps '' returned no cgroup with both a maximum and a minimum over '' @
           window_name @ cps '', so no movement can be computed''))
         else do {
           let ranked = rank_movers movers;
           let shown = take MOVERS_SHOWN ranked;
           rws \<leftarrow> mover_rows env (pl_range p) range_readable ranged (zip [1..<Suc (length shown)] shown);
           ends \<leftarrow> range_end_lines (pl_range p) (cps ''presence at the window'' @ [39] @ cps ''s end'');
           Some (join [10]
             ((cps ''memory_movers '' @ [8212] @ cps '' '' @ describe_target (r_tables env) job [] @
              cps '' over '' @ window_name @ cps '': '' @ counted (length ranked) (cps ''cgroup'') @
              cps '' measured ('' @ counted (count_population env Unit_Mover ranked) (cps ''host unit'') @
              cps '', '' @ counted (count_population env Container_Mover ranked) (cps ''container'') @
              cps ''). Top '' @ decimal (length shown) @ cps '' by movement (max '' @ [8722] @
              cps '' min over the window), UTC times:'') #
              rws @
              (case pl_range p of
                 None \<Rightarrow> []
               | Some w \<Rightarrow> [(cps (''Peak and lowest times are the range points with the highest '' @
                ''and lowest working set, accurate to within one range step ('') @
              int_text (range_step w) @
              cps ('' s). The min and peak values are exact, from min_over_time a'' @
                ''nd max_over_time over every sample in the window.''))]) @
              ends @ caveat_lines p))
         }
       }
     }"

section \<open>host_service_state\<close>

record unit_reading =
  ur_unit :: str
  ur_state :: str
  ur_points :: "sample list"

fun read_units :: "render_env \<Rightarrow> json_obj list \<Rightarrow> unit_reading list option" where
  "read_units env [] = Some []"
| "read_units env (s # ss) =
     do {
       points \<leftarrow> points_of env s;
       rest \<leftarrow> read_units env ss;
       let bad = filter (\<lambda>(_, v). num_eq v (Fin 1)) points;
       let unit = label_of (series_labels s) (cps ''name'') [];
       let state = label_of (series_labels s) (cps ''state'') [];
       Some (if unit \<noteq> [] \<and> state \<noteq> [] \<and> bad \<noteq> [] then \<lparr>ur_unit = unit, ur_state = state, ur_points = bad\<rparr> # rest else rest)
     }"

definition rank_units :: "unit_reading list \<Rightarrow> unit_reading list" where
  "rank_units us = sort_key (\<lambda>r. (- int (length (ur_points r)), ur_unit r, ur_state r)) us"

definition unit_row :: "render_env \<Rightarrow> range_span option \<Rightarrow> str \<Rightarrow> unit_reading \<Rightarrow> str option" where
  "unit_row env window window_name r =
     do {
       a \<leftarrow> stamp_at (fst (hd (ur_points r)));
       b \<leftarrow> stamp_at (fst (last (ur_points r)));
       let samples = length (ur_points r);
       let expected = (case window of None \<Rightarrow> 0 | Some w \<Rightarrow> range_points w);
       let fraction = (if expected \<noteq> 0 then decimal samples @ [47] @ int_text expected else decimal samples);
       let finish = (case window of
           None \<Rightarrow> (cps ''whether it is still '' @ ur_state r @ cps '' at the window'' @ [39] @
             cps ''s end is not judged'')
         | Some w \<Rightarrow>
             if short_of_last_point (fst (last (ur_points r))) w then (cps ''not '' @ ur_state r @ cps '' at the window'' @ [39] @ cps ''s end'')
             else (cps ''still '' @ ur_state r @ cps '' at the window'' @ [39] @ cps ''s end''));
       Some ((cps ''  '' @ [96] @ scrub_addresses (r_tables env) (ur_unit r) @ [96] @ cps '': state '' @
         ur_state r @ cps ''; '' @ ur_state r @ cps '' in '' @ fraction @ cps '' samples over '' @
         window_name @ cps ''; in that state from '' @ a @ cps '' to '' @ b @ cps ''; '' @ finish) @
         (if ur_state r = cps ''activating'' \<and> expected \<noteq> 0 \<and> expected < int samples * 2
          then (cps '' '' @ [8212] @ cps '' probable crash loop: activating in most of the window'' @ [39] @
            cps ''s samples ('' @ fraction @ cps '')'') else []))
     }"

fun unit_rows :: "render_env \<Rightarrow> range_span option \<Rightarrow> str \<Rightarrow> unit_reading list \<Rightarrow> str list option" where
  "unit_rows env window wn [] = Some []"
| "unit_rows env window wn (r # rs) = do { x \<leftarrow> unit_row env window wn r; xs \<leftarrow> unit_rows env window wn rs; Some (x # xs) }"

definition unit_header :: "render_env \<Rightarrow> str \<Rightarrow> str \<Rightarrow> number \<Rightarrow> nat \<Rightarrow> str" where
  "unit_header env job window_name reported n =
     (let counted_series = fixed 0 reported @ cps '' unit-state series''
      in if n = 0
         then (cps ''host_service_state '' @ [8212] @ cps '' '' @ describe_target (r_tables env) job [] @
           cps '' over '' @ window_name @
           cps '': No unit was failed or activating in any sample over '' @ window_name @
           cps ''. The collector reported '' @ counted_series @
           cps ('' (node-exporter exports each unit once per state), so the qu'' @
             ''ery ran and this is a reading, not an empty answer.''))
         else (cps ''host_service_state '' @ [8212] @ cps '' '' @ describe_target (r_tables env) job [] @
           cps '' over '' @ window_name @
           cps ('', UTC times. Units in a failed or activating state at any sa'' @ ''mple: '') @
           decimal n @ cps ''. The collector reported '' @ counted_series @
           cps ('' (node-exporter exports each unit once per state), so the qu'' @ ''ery ran.'')))"

definition render_host_service_state :: "render_env \<Rightarrow> query_plan \<Rightarrow> payloads \<Rightarrow> str option" where
  "render_host_service_state env p ps =
     do {
       node \<leftarrow> plan_argument p (cps ''node'');
       window_name \<leftarrow> plan_argument p (cps ''window'');
       let job = lenient_job (pl_entry p) node;
       let counts = (if readable_answer (payload ps (cps ''unit_count'')) then result_series (payload ps (cps ''unit_count'')) else []);
       reading \<leftarrow> (if counts = [] then Some None else instant env (hd counts));
       let reported = (case reading of None \<Rightarrow> Fin 0 | Some (_, v) \<Rightarrow> v);
       if num_le reported (Fin 0)
       then Some (not_derivable p (cps (''the systemd collector reported no units: count(node_systemd_'' @ ''unit_state) for job '') @
         job @ cps '' returned '' @ (if counts = [] then cps ''no series'' else cps ''zero'') @
         cps ('', so an empty list of failed units would say nothing about t'' @ ''his host'')))
       else if \<not> readable_answer (payload ps (cps ''bad_states''))
       then Some (not_derivable p (cps (''the failed/activating answer could not be read, so no unit i'' @
           ''s reported either way. An unreadable answer is not a healthy'' @ '' host'')))
       else do {
         units \<leftarrow> read_units env (result_series (payload ps (cps ''bad_states'')));
         rws \<leftarrow> unit_rows env (pl_range p) window_name (rank_units units);
         ends \<leftarrow> range_end_lines (pl_range p) (cps ''whether a unit is still in its state'');
         Some (join [10] (unit_header env job window_name reported (length rws) # rws @ ends @ caveat_lines p))
       }
     }"

section \<open>The renderer of an entry\<close>

definition render_query :: "render_env \<Rightarrow> query_plan \<Rightarrow> payloads \<Rightarrow> str option" where
  "render_query env p ps =
     (let name = qe_name (pl_entry p)
      in if name = cps ''node_resource_trend'' then render_node_resource_trend env p ps
         else if name = cps ''scrape_targets'' then render_scrape_targets env False p ps
         else if name = cps ''endpoint_history'' then render_endpoint_history env p ps
         else if name = cps ''freshness_check'' then render_freshness_check env p ps
         else if name = cps ''container_state'' then render_container_state env p ps
         else if name = cps ''dns_performance'' then render_dns_performance env p ps
         else if name = cps ''memory_movers'' then render_memory_movers env p ps
         else if name = cps ''host_service_state'' then render_host_service_state env p ps
         else None)"

end
