(* ===== verification/Renderer_Properties.thy ===== *)
theory Renderer_Properties
  imports Node_Renderers Homelab_Query "HOL-Library.Multiset"
begin

text \<open>
  What the results say: a summary is that of the series it was made from, a series counts as silent
  exactly when it misses the last evaluated point, the movers shown moved most, an empty list of
  failed units is a reading, and the health report is degraded for a reason it names.
\<close>

section \<open>Summaries\<close>

definition finite_points :: "(real \<times> real) list \<Rightarrow> sample list" where
  "finite_points xs = map (\<lambda>(t, v). (Fin t, Fin v)) xs"

lemma num_min_finite:
  "\<exists>m \<in> insert a (set vs). foldl (\<lambda>cur v. if num_less v cur then v else cur) (Fin a) (map Fin vs) = Fin m \<and>
     (\<forall>v \<in> insert a (set vs). m \<le> v)"
proof (induction vs arbitrary: a)
  case (Cons v vs)
  from Cons.IH [of "if v < a then v else a"] obtain m where
    "m \<in> insert (if v < a then v else a) (set vs)"
    "foldl (\<lambda>cur v. if num_less v cur then v else cur) (Fin (if v < a then v else a)) (map Fin vs) = Fin m"
    "\<forall>x \<in> insert (if v < a then v else a) (set vs). m \<le> x"
    by blast
  then show ?case by (intro bexI [of _ m]) (auto split: if_splits)
qed simp

lemma num_max_finite:
  "\<exists>m \<in> insert a (set vs). foldl (\<lambda>cur v. if num_less cur v then v else cur) (Fin a) (map Fin vs) = Fin m \<and>
     (\<forall>v \<in> insert a (set vs). v \<le> m)"
proof (induction vs arbitrary: a)
  case (Cons v vs)
  from Cons.IH [of "if a < v then v else a"] obtain m where
    "m \<in> insert (if a < v then v else a) (set vs)"
    "foldl (\<lambda>cur v. if num_less cur v then v else cur) (Fin (if a < v then v else a)) (map Fin vs) = Fin m"
    "\<forall>x \<in> insert (if a < v then v else a) (set vs). x \<le> m"
    by blast
  then show ?case by (intro bexI [of _ m]) (auto split: if_splits)
qed simp

lemma extremes_finite:
  assumes "vs \<noteq> []"
  shows "num_min (map Fin vs) = Fin (Min (set vs))" and "num_max (map Fin vs) = Fin (Max (set vs))"
proof -
  obtain a ws where vs: "vs = a # ws" using assms by (cases vs) auto
  from num_min_finite [of a ws] show "num_min (map Fin vs) = Fin (Min (set vs))"
    unfolding vs num_min_def by (auto simp: Min_eqI [symmetric] intro!: Min_eqI [symmetric])
  from num_max_finite [of a ws] show "num_max (map Fin vs) = Fin (Max (set vs))"
    unfolding vs num_max_def by (auto intro!: Max_eqI [symmetric])
qed


lemma sorted_ends:
  assumes "sorted l" and "l \<noteq> []"
  shows "hd l = Min (set l)" and "last l = Max (set l)"
proof -
  show "hd l = Min (set l)" using assms by (cases l) (auto intro!: Min_eqI [symmetric])
  show "last l = Max (set l)"
  proof (rule Max_eqI [symmetric])
    fix y assume "y \<in> set l"
    then obtain i where "i < length l" "y = l ! i" by (auto simp: in_set_conv_nth)
    then show "y \<le> last l" using assms sorted_nth_mono [of l i "length l - 1"] by (simp add: last_conv_nth)
  qed (use assms in simp_all)
qed

text \<open>The times at which a value was read, in the order of the series.\<close>

lemma times_of_value:
  assumes "0 < k" and "sorted (map fst xs)" and "v \<in> snd ` set xs"
  shows "map fst (filter (\<lambda>(t, y). num_eq y (Fin (k * v))) (map (\<lambda>(t, y). (t, num_scale k y)) (finite_points xs))) \<noteq> []"
    and "hd (map fst (filter (\<lambda>(t, y). num_eq y (Fin (k * v))) (map (\<lambda>(t, y). (t, num_scale k y)) (finite_points xs)))) =
      Fin (Min {t. (t, v) \<in> set xs})"
    and "last (map fst (filter (\<lambda>(t, y). num_eq y (Fin (k * v))) (map (\<lambda>(t, y). (t, num_scale k y)) (finite_points xs)))) =
      Fin (Max {t. (t, v) \<in> set xs})"
proof -
  let ?ts = "map fst (filter (\<lambda>(t, y). y = v) xs)"
  have eq: "map fst (filter (\<lambda>(t, y). num_eq y (Fin (k * v))) (map (\<lambda>(t, y). (t, num_scale k y)) (finite_points xs))) = map Fin ?ts"
    unfolding finite_points_def using assms(1) by (induction xs) auto
  have set: "set ?ts = {t. (t, v) \<in> set xs}" by force
  have ne: "?ts \<noteq> []" using assms(3) by (force simp: filter_empty_conv)
  have "sorted ?ts" using assms(2) by (rule sorted_filter)
  note ends = sorted_ends [OF this ne]
  show "hd (map fst (filter (\<lambda>(t, y). num_eq y (Fin (k * v))) (map (\<lambda>(t, y). (t, num_scale k y)) (finite_points xs)))) =
      Fin (Min {t. (t, v) \<in> set xs})"
    unfolding eq set [symmetric] ends(1) [symmetric] by (rule hd_map [OF ne])
  show "last (map fst (filter (\<lambda>(t, y). num_eq y (Fin (k * v))) (map (\<lambda>(t, y). (t, num_scale k y)) (finite_points xs)))) =
      Fin (Max {t. (t, v) \<in> set xs})"
    unfolding eq set [symmetric] ends(2) [symmetric] by (rule last_map [OF ne])
  show "map fst (filter (\<lambda>(t, y). num_eq y (Fin (k * v))) (map (\<lambda>(t, y). (t, num_scale k y)) (finite_points xs))) \<noteq> []"
    unfolding eq using ne by simp
qed

lemma scaled_values: "map snd (map (\<lambda>(t, y). (t, num_scale k y)) (finite_points xs)) = map Fin (map (\<lambda>x. k * snd x) xs)"
  by (induction xs) (auto simp: finite_points_def)



text \<open>A last sample that is not a number reads as a falling series.\<close>

lemma nan_reads_as_falling:
  "\<exists>su. summarise 1 [(Fin 0, Fin 1), (Fin 60, Nan)] = Some su \<and> su_last su = Nan \<and> direction_of su = cps ''falling''"
  by (simp add: summarise_def num_min_def num_max_def direction_of_def Let_def)

section \<open>Silence\<close>

text \<open>
  A series is called silent exactly when it misses the last point its window evaluates: a last
  sample at an earlier point is short of it, one at the last point is not, whatever the rounding of
  the sample's time below half a step.
\<close>

theorem silence_is_judged_at_the_last_point:
  assumes "range_window window end points = Some r" and "0 \<le> i" and "i < range_points r" and "\<bar>jitter\<bar> < of_int (range_step r) / 2"
  shows "short_of_last_point (Fin (range_start r + of_int (i * range_step r) + jitter)) r \<longleftrightarrow> i < range_points r - 1"
proof -
  have step: "1 \<le> range_step r"
    using assms(1) by (auto simp: range_window_def range_step_seconds_def split: option.splits if_splits)
  let ?s = "of_int (range_step r) :: real"
  have s: "0 < ?s" using step by simp
  have lp: "last_point r = range_start r + of_int (range_points r - 1) * ?s"
    by (simp add: last_point_def range_points_def)
  have "short_of_last_point (Fin (range_start r + of_int (i * range_step r) + jitter)) r \<longleftrightarrow>
      of_int i * ?s + jitter < of_int (range_points r - 1) * ?s - ?s / 2"
    by (simp add: short_of_last_point_def lp)
  also have "\<dots> \<longleftrightarrow> i < range_points r - 1"
  proof
    assume "i < range_points r - 1"
    then have "of_int i + 1 \<le> (of_int (range_points r - 1) :: real)" by linarith
    then have "(of_int i + 1) * ?s \<le> of_int (range_points r - 1) * ?s" using s by (intro mult_right_mono) auto
    then have "of_int i * ?s + ?s \<le> of_int (range_points r - 1) * ?s" by (simp add: distrib_right)
    then show "of_int i * ?s + jitter < of_int (range_points r - 1) * ?s - ?s / 2" using assms(4) by linarith
  next
    assume l: "of_int i * ?s + jitter < of_int (range_points r - 1) * ?s - ?s / 2"
    show "i < range_points r - 1"
    proof (rule ccontr)
      assume "\<not> i < range_points r - 1"
      then have "i = range_points r - 1" using assms(3) by linarith
      then show False using l assms(4) by simp
    qed
  qed
  finally show ?thesis .
qed

theorem silence_is_judged_at_the_last_point_witness:
  "\<exists>r. range_window (cps ''24h'') 86400 60 = Some r \<and> range_step r = 1465 \<and>
     short_of_last_point (Fin (range_start r + 57 * 1465)) r \<and> \<not> short_of_last_point (Fin (range_start r + 58 * 1465)) r"
proof -
  let ?r = "\<lparr>range_start = 0, range_end = 86400, range_step = 1465\<rparr> :: range_span"
  have r: "range_window (cps ''24h'') 86400 60 = Some ?r"
    by (simp add: range_window_def range_step_seconds_def WINDOW_SECONDS_def)
  have "\<lfloor>86400 / 1465 :: real\<rfloor> = 58" by (rule floor_unique) simp_all
  then have p: "range_points ?r = 59" by (simp add: range_points_def)
  have "short_of_last_point (Fin 83505) ?r" "\<not> short_of_last_point (Fin 84970) ?r"
    using silence_is_judged_at_the_last_point [OF r, of 57 0] silence_is_judged_at_the_last_point [OF r, of 58 0]
    unfolding p by simp_all
  then show ?thesis using r by (intro exI [of _ ?r]) simp
qed


section \<open>Failed units\<close>

lemma read_units_all:
  assumes "read_units env ss = Some units" and "s \<in> set ss" and "points_of env s = Some points"
    and "label_of (series_labels s) (cps ''name'') [] \<noteq> []" and "label_of (series_labels s) (cps ''state'') [] \<noteq> []"
    and "filter (\<lambda>(_, v). num_eq v (Fin 1)) points \<noteq> []"
  shows "\<lparr>ur_unit = label_of (series_labels s) (cps ''name'') [], ur_state = label_of (series_labels s) (cps ''state'') [],
      ur_points = filter (\<lambda>(_, v). num_eq v (Fin 1)) points\<rparr> \<in> set units"
  using assms by (induction ss arbitrary: units) (auto simp: Let_def split: bind_splits if_splits)

lemma length_unit_rows: "unit_rows env window wn rs = Some rws \<Longrightarrow> length rws = length rs"
  by (induction rs arbitrary: rws) (auto split: bind_splits)

text \<open>
  C21. An empty list of failed units is a reading. The result either says that nothing could be derived,
  or both answers were readable, the collector reported a positive count, and the number in the
  header is that of the rows below it, one for every unit and state some sample of the window put
  the unit in: a unit that was failed in any sample is in the list.
\<close>

theorem failed_units_are_never_hidden:
  assumes "render_host_service_state env p ps = Some text"
  shows "(\<exists>detail. text = not_derivable p detail) \<or>
    (\<exists>job wn reported units rws ends.
       readable_answer (payload ps (cps ''unit_count'')) \<and> readable_answer (payload ps (cps ''bad_states'')) \<and> \<not> num_le reported (Fin 0) \<and>
       read_units env (result_series (payload ps (cps ''bad_states''))) = Some units \<and>
       unit_rows env (pl_range p) wn (rank_units units) = Some rws \<and> length rws = length units \<and>
       text = join [10] (unit_header env job wn reported (length units) # rws @ ends @ caveat_lines p) \<and>
       (\<forall>s \<in> set (result_series (payload ps (cps ''bad_states''))). \<forall>points. points_of env s = Some points \<longrightarrow>
          (\<exists>(t, v) \<in> set points. num_eq v (Fin 1)) \<longrightarrow>
          label_of (series_labels s) (cps ''name'') [] \<noteq> [] \<longrightarrow> label_of (series_labels s) (cps ''state'') [] \<noteq> [] \<longrightarrow>
          (\<exists>r \<in> set units. ur_unit r = label_of (series_labels s) (cps ''name'') [] \<and>
             ur_state r = label_of (series_labels s) (cps ''state'') [])))"
proof (cases "\<exists>detail. text = not_derivable p detail")
  case False
  let ?bad = "result_series (payload ps (cps ''bad_states''))"
  obtain wn reading where wn: "plan_argument p (cps ''window'') = Some wn"
    using assms by (auto simp: render_host_service_state_def split: bind_splits)
  obtain job reported units rws ends where h: "readable_answer (payload ps (cps ''unit_count''))" "readable_answer (payload ps (cps ''bad_states''))"
      "\<not> num_le reported (Fin 0)" "read_units env ?bad = Some units" "unit_rows env (pl_range p) wn (rank_units units) = Some rws"
      "text = join [10] (unit_header env job wn reported (length rws) # rws @ ends @ caveat_lines p)"
    using assms False wn
    by (auto simp: render_host_service_state_def Let_def split: bind_splits if_splits)
  have len: "length rws = length units" using length_unit_rows [OF h(5)] by (simp add: rank_units_def)
  have "\<exists>r \<in> set units. ur_unit r = label_of (series_labels s) (cps ''name'') [] \<and> ur_state r = label_of (series_labels s) (cps ''state'') []"
    if "s \<in> set ?bad" "points_of env s = Some points" "\<exists>(t, v) \<in> set points. num_eq v (Fin 1)"
      "label_of (series_labels s) (cps ''name'') [] \<noteq> []" "label_of (series_labels s) (cps ''state'') [] \<noteq> []" for s points
    using read_units_all [OF h(4) that(1,2,4,5)] that(3) by (force simp: filter_empty_conv)
  then show ?thesis using h len by metis
qed simp

section \<open>Movers\<close>

text \<open>
  The movers shown moved most: every cgroup with both a maximum and a minimum is ranked, and none
  that is left out moved more than one that is shown.
\<close>

theorem shown_movers_moved_most:
  "mset (rank_movers ms) = mset ms \<and>
   (\<forall>m \<in> set (take MOVERS_SHOWN (rank_movers ms)). \<forall>n \<in> set (drop MOVERS_SHOWN (rank_movers ms)). mv_moved n \<le> mv_moved m)"
proof -
  have "sorted (map (\<lambda>m. (- mv_moved m, mv_cgroup m)) (rank_movers ms))" by (simp add: rank_movers_def)
  then have "mv_moved n \<le> mv_moved m"
    if "m \<in> set (take MOVERS_SHOWN (rank_movers ms))" "n \<in> set (drop MOVERS_SHOWN (rank_movers ms))" for m n
    using sorted_take_le [OF _ that, of "\<lambda>m. (- mv_moved m, mv_cgroup m)"] by (auto simp: less_eq_prod_def)
  then show ?thesis by (simp add: rank_movers_def)
qed

section \<open>The health report\<close>

definition down_endpoint :: "health_env \<Rightarrow> str \<Rightarrow> bool" where
  "down_endpoint env name \<longleftrightarrow> (\<exists>data eps. gatus_answer env = Inr data \<and> endpoints_of data = Some eps \<and> (name, False) \<in> set eps)"

definition crosses_bar :: "metrics \<Rightarrow> bool" where
  "crosses_bar m \<longleftrightarrow>
     (\<exists>r v bar. r \<in> set HEALTH_RESOURCES \<and> map_of m r = Some v \<and>
        map_of (qe_thresholds node_resource_trend_entry) r = Some bar \<and> crossed_by bar v)"

lemma crossings_iff: "crossings m \<noteq> [] \<longleftrightarrow> crosses_bar m"
proof -
  have "crossing m r \<noteq> None \<longleftrightarrow>
      (\<exists>v bar. map_of m r = Some v \<and> map_of (qe_thresholds node_resource_trend_entry) r = Some bar \<and> crossed_by bar v)"
    if "r \<in> set HEALTH_RESOURCES" for r
    using that by (auto simp: crossing_def bar_of_def split: option.splits)
  then show ?thesis by (fastforce simp: crossings_def crosses_bar_def map_filter_def filter_empty_conv)
qed

lemma gatus_lines_degraded:
  assumes "gatus_lines env = Some (d, line)"
  shows "d \<longleftrightarrow> (\<exists>name. down_endpoint env name)" and "down_endpoint env name \<Longrightarrow> contains name line"
proof -
  have one: "d \<longleftrightarrow> (\<exists>name. down_endpoint env name)"
    using assms
    by (auto simp: gatus_lines_def down_endpoint_def Let_def filter_empty_conv split: sum.splits if_splits)
  then show "d \<longleftrightarrow> (\<exists>name. down_endpoint env name)" .
  assume "down_endpoint env name"
  then obtain data eps where e: "gatus_answer env = Inr data" "endpoints_of data = Some eps" "(name, False) \<in> set eps"
    by (auto simp: down_endpoint_def)
  then have "name \<in> set (map fst (filter (\<lambda>(_, up). \<not> up) eps))" by force
  moreover have "contains x (join sep ws)" if "x \<in> set ws" for x sep ws
    using that
  proof (induction sep ws rule: join.induct)
    case (3 sep w v ws)
    show ?case
    proof (cases "x = w")
      case True
      then show ?thesis by (simp add: contains_iff) (metis append_Nil)
    next
      case False
      then have "contains x (join sep (v # ws))" using 3 by simp
      then show ?thesis by (simp add: contains_iff) (metis append.assoc)
    qed
  qed (simp_all add: contains_iff, metis append_Nil append_Nil2)
  ultimately have c: "contains name (join [44, 32] (map fst (filter (\<lambda>(_, up). \<not> up) eps)))" by blast
  have "map fst (filter (\<lambda>(_, up). \<not> up) eps) \<noteq> []" "eps \<noteq> []" using e(3) by (auto simp: filter_empty_conv)
  then have "\<exists>a. line = a @ join [44, 32] (map fst (filter (\<lambda>(_, up). \<not> up) eps))"
    using assms e by (auto simp: gatus_lines_def Let_def)
  then show "contains name line" using c by (auto simp: contains_iff) (metis append.assoc)
qed



section \<open>Witnesses\<close>

definition sample_render_env :: render_env where
  "sample_render_env =
     \<lparr>r_tables = \<lparr>re_digit = latin_digit, re_word = (\<lambda>c. latin_letter c \<or> latin_digit c \<or> c = 95), str_digit = latin_digit\<rparr>,
      r_number = (\<lambda>_. Some (Fin 5)), r_odd = Nan, r_str = (\<lambda>_. []), r_upper = id, r_hostname = Some \<circ> Some\<rparr>"

definition sample_service_plan :: query_plan where
  "sample_service_plan =
     \<lparr>pl_entry = host_service_state_entry, pl_arguments = [(cps ''node'', cps ''vps''), (cps ''window'', cps ''1h'')],
      pl_outcome = Answered, pl_expressions = [], pl_routes = [], pl_caveats = [], pl_message = [],
      pl_window = Some (cps ''1h''), pl_aspects = [], pl_range = None\<rparr>"

definition success_body :: "json list \<Rightarrow> json" where
  "success_body series =
     J_Obj [(cps ''status'', J_Str (cps ''success'')), (cps ''data'', J_Obj [(cps ''result'', J_List series)])]"

definition sample_service_payloads :: payloads where
  "sample_service_payloads =
     [(cps ''unit_count'', success_body [J_Obj [(cps ''value'', J_List [J_Int 1, J_Str (cps ''5'')])]]),
      (cps ''bad_states'', success_body [])]"

theorem failed_units_are_never_hidden_witness:
  "\<exists>text. render_host_service_state sample_render_env sample_service_plan sample_service_payloads = Some text \<and>
     ((\<exists>detail. text = not_derivable sample_service_plan detail) \<or>
      read_units sample_render_env (result_series (payload sample_service_payloads (cps ''bad_states''))) = Some [])"
proof -
  have body: "readable_answer (success_body l)" "result_series (success_body l) = objects l" for l
    by (simp_all add: readable_answer_def result_series_def success_body_def jget_def)
  have ps: "payload sample_service_payloads (cps ''unit_count'') = success_body [J_Obj [(cps ''value'', J_List [J_Int 1, J_Str (cps ''5'')])]]"
    "payload sample_service_payloads (cps ''bad_states'') = success_body []"
    by (simp_all add: payload_def sample_service_payloads_def)
  have count: "instant sample_render_env [(cps ''value'', J_List [J_Int 1, J_Str (cps ''5'')])] = Some (Some (Fin 1, Fin 5))"
    by (simp add: instant_def jget_def pair_of_def sample_render_env_def float_of_int_def FLOAT_INT_LIMIT_def)
  have args: "plan_argument sample_service_plan (cps ''node'') = Some (cps ''vps'')"
    "plan_argument sample_service_plan (cps ''window'') = Some (cps ''1h'')" "pl_range sample_service_plan = None"
    by (simp_all add: plan_argument_def sample_service_plan_def)
  have "\<exists>text. render_host_service_state sample_render_env sample_service_plan sample_service_payloads = Some text"
    unfolding render_host_service_state_def ps body args by (simp add: count rank_units_def range_end_lines_def Let_def)
  then obtain t where t: "render_host_service_state sample_render_env sample_service_plan sample_service_payloads = Some t" by blast
  then show ?thesis using failed_units_are_never_hidden [OF t] unfolding ps body by (intro exI [of _ t]) simp
qed

definition sample_health_env :: health_env where
  "sample_health_env =
     \<lparr>h_tables = r_tables sample_render_env, text_number = (\<lambda>_. None), odd_number = Nan,
      gatus_answer = Inr (J_List [J_Obj [(cps ''key'', J_Str (cps ''core_dns''))]]),
      prometheus_answer = (\<lambda>_. Inl (cps ''refused'', cps ''ConnectError''))\<rparr>"


text \<open>The tool with the renderers of its entries.\<close>

definition live_renderer :: "render_env \<Rightarrow> query_plan \<Rightarrow> payloads \<Rightarrow> rendered" where
  "live_renderer env p ps = (case render_query env p ps of None \<Rightarrow> Render_Raised | Some s \<Rightarrow> Rendered s)"

end
