(* ===== verification/Spec2Isabelle.thy ===== *)
theory Spec2Isabelle
  imports Store_Tx Memory_Store Inbox_Store Reminder_Store Reminder_Scheduler Channel
    Tool_Registry Gate Permission Event_Identity Event_Pipeline Holds Coordinator
    Markers Ending Triage_Arc Agent_Core Core_Properties Core_Sessions Core_Records
    Civil Zone Time_Parse Block_Text Recall Handoff_Store Incident_Context Digest Digest_Properties Titles Triage_Text
    Json Signal Signal_Properties Intake Intake_Properties Calendar Calendar_Windows Calendar_Properties
    Calendar_Tool Calendar_Tool_Properties Maintenance
    Commands Commands_Properties Owner_Tools Config Config_Properties
    Projection Query_Registry Query_Properties Homelab_Query Homelab_Health
    Query_Renderers Node_Renderers Renderer_Properties
begin

text \<open>
  Henk is a personal homelab agent: one process that talks to its owner over Signal, watches the
  alerts of the homelab on an ntfy topic, and lets a language model answer questions and triage
  incidents with a closed set of tools. This library models the program's own logic, the code under
  \<open>src/henk\<close>, and proves what makes it trustworthy. The model itself, the Signal bridge, ntfy, the
  Google calendar, SQLite's storage engine and the clocks are the surroundings: arguments of the
  definitions that use them.

  \<^bold>\<open>How the parts interact.\<close> The intake reads frames and yields events; the coordinator
  debounces them, puts aside those of a maintenance window (the ledger of holds), evaluates the rest
  (identity, cooldown, recurrence, daily cap) and submits event turns and checkpoint offsets to the
  core. The core processes one turn after the other: an owner's message is a command, or a turn of
  an agent session with its recall block and time header; an event turn runs in a fresh, tainted
  session on a text that quotes the alerts and related handoffs as data. Tools run behind the gate,
  which asks the owner where the tool changes something. Reminders, memories, captures, handoffs and
  holds live in one SQLite file. A scheduler delivers the reminders that are due.

  \<^bold>\<open>Foundations.\<close> \<open>Prelude\<close>: Python strings (lists of code points), clock values (reals), row
  tables, and the locales \<open>step_system\<close>, \<open>monotone_system\<close> and \<open>archive\<close> that state once what an
  invariant of all operations, a progress and a table that never loses a row are. They are
  interpreted on the inbox, the reminders, the tool registry, the ledger, the coordinator's trace
  and the calendar's window provider. \<open>Civil\<close> and \<open>Zone\<close>: the calendar arithmetic of \<open>datetime\<close> and
  a time zone given by its transitions. \<open>Json\<close>: values of the wire formats. \<open>Block_Text\<close>: text in
  which no marker can arise at a seam.

  \<^bold>\<open>The store\<close> (\<open>src/henk/store\<close>). \<open>Store_Tx\<close> is the transaction scope of \<open>db.py\<close> (nesting,
  poisoning, failing commits) with its refinement: a scope is all or nothing. \<open>Memory_Store\<close>,
  \<open>Inbox_Store\<close>, \<open>Reminder_Store\<close>, \<open>Handoff_Store\<close> and \<open>Holds\<close> are the repositories; each
  operation is a function on a table, its error cases are values of a sum. Their lemmas: caps and
  eviction order, no item is ever lost, pending caps, retention by age and number, held and released
  exactly once.

  \<^bold>\<open>Reminders.\<close> \<open>Time_Parse\<close> is \<open>reminders/timeparse.py\<close>: the whitelist of forms and the resolver;
  accepted times read back as they were written, clock readings mean their next occurrence, gaps and
  repeated hours of a clock change are classified exactly (\<open>classify_local\<close>, \<open>gap_neighbours\<close>).
  \<open>Reminder_Scheduler\<close> is one tick of \<open>reminders/scheduler.py\<close> with whatever other tasks do during
  a send: every due reminder is accounted for in the tick. Time zone searches bisect a bounded
  interval, so they need no fuel.

  \<^bold>\<open>Channel.\<close> \<open>Channel\<close>: the contract and the message splitter. \<open>Signal\<close>, \<open>Signal_Properties\<close>:
  \<open>channel/signal.py\<close>, the conversion of envelopes, the rendering of an approval prompt that no
  argument can restyle, the send sequence with retries that reports what arrived.

  \<^bold>\<open>Tools and authority.\<close> \<open>Tool_Registry\<close>, \<open>Permission\<close>, \<open>Gate\<close>: \<open>tools/base.py\<close>,
  \<open>agent/permission.py\<close>, \<open>gate/approval.py\<close>. \<open>authorize\<close> is cut at its awaits, a history is a list of
  events in any order, and a mutating call needs the owner's own answer to its own prompt, or a
  standing tier in an untainted owner turn. \<open>Titles\<close>, \<open>Calendar_Tool\<close>, \<open>Calendar_Tool_Properties\<close>:
  \<open>tools/calendar.py\<close>, what the owner approved is what is written. \<open>Commands\<close>,
  \<open>Commands_Properties\<close>, \<open>Owner_Tools\<close>: \<open>agent/commands.py\<close> and the tools over the stores; a
  failed write changes nothing and never reads as success, a change leaves its receipt, and the
  model's tool and the owner's command set the same reminder.

  \<^bold>\<open>Events.\<close> \<open>Intake\<close>, \<open>Intake_Properties\<close>: \<open>events/intake.py\<close> and \<open>checkpoint.py\<close>.
  \<open>Event_Identity\<close>, \<open>Event_Pipeline\<close>, \<open>Coordinator\<close>: identity, policy, dispatch and release. No
  event is lost between them, none is released twice, caught up covers the backlog, the cap holds.
  \<open>Calendar\<close>, \<open>Calendar_Windows\<close>, \<open>Calendar_Properties\<close>: \<open>calendar/client.py\<close>, \<open>token.py\<close>,
  \<open>windows.py\<close>; alerts are held only in planned windows, and the windows survive a restart.

  \<^bold>\<open>The core and its texts\<close> (\<open>src/henk/agent\<close>). \<open>Agent_Core\<close> with \<open>Core_Properties\<close>,
  \<open>Core_Sessions\<close> and \<open>Core_Records\<close>: sessions, audit records, the durability latch in front of the
  checkpoint. \<open>Ending\<close>, \<open>Triage_Arc\<close>, \<open>Triage_Text\<close>: how a turn ended, the check of a triage, the
  text of an event turn. \<open>Markers\<close>, \<open>Recall\<close>, \<open>Digest\<close>, \<open>Digest_Properties\<close>,
  \<open>Incident_Context\<close>, \<open>Maintenance\<close>: the blocks inside a turn; no payload forges or closes one.

  \<^bold>\<open>Configuration.\<close> \<open>Config\<close>, \<open>Config_Properties\<close>: the checked sections of \<open>config.py\<close>, and what
  an accepted one gives its consumers: the scheduler's hypothesis, the bound on a hold, a splitter
  that works.

  \<^bold>\<open>Homelab queries\<close> (\<open>query_projection.py\<close>, \<open>query_registry.py\<close>, \<open>homelab_query.py\<close>,
  \<open>query_renderers.py\<close>, \<open>homelab_health.py\<close> of \<open>tools\<close>). \<open>Projection\<close>: node names of a result, the
  scrubbing of addresses. \<open>Query_Registry\<close>: the closed registry, the planner that checks the
  arguments of a call and fills the templates, the roles and spans of its requests.
  \<open>Query_Properties\<close>: every request of an accepted call is a filled template of its entry, and a
  range stays in its point budget. \<open>Homelab_Query\<close>: one call of the tool with discovery, its
  cache and the log of requests; whatever the backends answer, only registered requests go out.
  \<open>Homelab_Health\<close>: the health report. \<open>Query_Renderers\<close>, \<open>Node_Renderers\<close>, \<open>Renderer_Properties\<close>:
  from the answers to the lines the model reads; what a summary says of a series, when silence is
  reported, that no failed unit is dropped from a report of failed units.
  Conventions of this part: the Unicode tables of \<open>re\<close>, the conversions \<open>float\<close> and \<open>str\<close> of JSON
  values, the clock, the two backends and, in the tool, the renderer are arguments. A renderer's
  \<open>None\<close> is an exception in the code, or a ranking of values that are not finite, where the code's
  order depends on \<open>nan\<close>. Numbers are printed by rounding the real, so a negative value that
  rounds to zero keeps no sign. Sentences of a refusal that only explain it are left out, its case
  is not.

  \<^bold>\<open>Conventions.\<close> A coroutine is one function where nothing can run during its awaits, and cut
  into steps where something can. An exception is a value: \<open>None\<close> or \<open>Inl\<close>. Loops over a finite
  input are structural recursions over it, such as the connections of an intake run or the answers
  of a bridge; the retry loop, the page loop and the word splitter end by a measure or a counter, so
  no definition takes fuel. Reals stand for floats (no rounding), except where a float's range ends
  a run (\<open>Json\<close>, \<open>Signal\<close>, \<open>Intake\<close>) and where \<open>nan\<close> passes a check (\<open>Config\<close>). \<open>str.lower\<close> is exact
  up to Latin-1; where other letters matter (\<open>Incident_Context\<close>) the folding is a parameter.

  \<^bold>\<open>Not modelled.\<close> HTTP and websocket clients (\<open>SignalCliRestBridge\<close>, \<open>NtfyEventStream\<close>, the
  Google token signing); log lines; the audit log's file writing, of which only success matters;
  \<open>channel/acknowledge.py\<close>, which is timing of an asyncio task; the tools that wrap HTTP services
  (\<open>notify\<close>, \<open>publish_handoff\<close>, \<open>todo_read\<close>, \<open>taiga_read\<close>), the document search and the reading of
  published sessions; the JSON schema \<open>homelab_query\<close> shows the model; \<open>app.py\<close> and \<open>runtime.py\<close>, which assemble the objects; the
  replay and grading of recorded triages; the session publisher, a script of another machine.
\<close>

end
